(* ===== verification/Prelude.thy ===== *)
theory Prelude
  imports Main "HOL-Library.Char_ord" "HOL-Library.List_Lexorder"
begin

section \<open>Shared vocabulary, lemma collections and list lemmas\<close>

text \<open>
  This theory holds what every component of the tsctl model shares: the names of the base types,
  the collections that component proofs unfold or rewrite with, and the generic facts about
  first-match searches, indexed updates and order-preserving de-duplication that the Go loops of
  the program reduce to.

  Conventions of the whole development. A Go \<^verbatim>\<open>string\<close> (a byte sequence) is a HOL \<open>string\<close>,
  whose characters are bytes. A \<^verbatim>\<open>[]T\<close> is a list; nil and empty slices are not distinguished,
  which the program does not do either outside of JSON encoding. A \<^verbatim>\<open>map[K]V\<close> is a partial
  function. An error return \<^verbatim>\<open>(T, error)\<close> is a sum with the error on the left.
  A \<^verbatim>\<open>time.Time\<close> is the number of nanoseconds since the zero time, so that \<open>0\<close> is the zero time
  of Go and \<open>IsZero\<close> is equality with \<open>0\<close>.
\<close>

named_theorems unfold_ops \<open>definitions of the operations of a component, for case analysis\<close>

named_theorems inv_intros \<open>preservation of a component's invariant by its operations\<close>

type_synonym time = int
type_synonym duration = int

abbreviation second :: duration where "second \<equiv> 1000000000"

abbreviation zero_time :: time where "zero_time \<equiv> 0"

subsection \<open>First-match searches\<close>

text \<open>
  \<open>index_of P xs\<close> is the loop \<^verbatim>\<open>for i := range xs { if P(xs[i]) { return i } }\<close>, with \<open>None\<close> where
  the Go code returns \<open>-1\<close>.
\<close>

fun index_of :: "('a \<Rightarrow> bool) \<Rightarrow> 'a list \<Rightarrow> nat option" where
  "index_of P [] = None"
| "index_of P (x # xs) = (if P x then Some 0 else map_option Suc (index_of P xs))"

lemma index_of_None_iff [simp]: "index_of P xs = None \<longleftrightarrow> (\<forall>x \<in> set xs. \<not> P x)"
  by (induction xs) auto

lemma index_of_SomeD:
  "index_of P xs = Some i \<Longrightarrow> i < length xs \<and> P (xs ! i) \<and> (\<forall>j < i. \<not> P (xs ! j))"
proof (induction xs arbitrary: i)
  case Nil
  then show ?case by simp
next
  case (Cons x xs)
  show ?case
  proof (cases "P x")
    case True
    with Cons.prems show ?thesis by simp
  next
    case False
    with Cons.prems obtain k where k: "index_of P xs = Some k" "i = Suc k" by auto
    with Cons.IH [OF k(1)] False show ?thesis
      by (auto simp: less_Suc_eq_0_disj)
  qed
qed

lemma find_eq_index_of: "List.find P xs = map_option ((!) xs) (index_of P xs)"
  by (induction xs) (auto simp: option.map_comp comp_def)

lemma find_SomeD: "List.find P xs = Some x \<Longrightarrow> x \<in> set xs \<and> P x"
  by (auto simp: find_Some_iff)

subsection \<open>Deletion by index\<close>

text \<open>\<open>remove_at i xs\<close> is the slice expression \<^verbatim>\<open>append(xs[:i], xs[i+1:]...)\<close>.\<close>

definition remove_at :: "nat \<Rightarrow> 'a list \<Rightarrow> 'a list" where
  "remove_at i xs = take i xs @ drop (Suc i) xs"

lemma set_remove_at_subset: "set (remove_at i xs) \<subseteq> set xs"
  by (auto simp: remove_at_def dest: in_set_takeD in_set_dropD)

lemma split_at_nth: "i < length xs \<Longrightarrow> xs = take i xs @ xs ! i # drop (Suc i) xs"
  by (simp add: id_take_nth_drop [symmetric])

lemma map_remove_at: "map f (remove_at i xs) = remove_at i (map f xs)"
  by (simp add: remove_at_def take_map drop_map)

lemma distinct_remove_at: "distinct xs \<Longrightarrow> distinct (remove_at i xs)"
  by (cases "i < length xs")
    (auto simp: remove_at_def distinct_take distinct_drop dest: set_take_disj_set_drop_if_distinct
      intro!: set_take_disj_set_drop_if_distinct)

lemma in_set_remove_at_distinct:
  assumes "distinct (map f xs)" and "i < length xs"
  shows "y \<in> set (remove_at i xs) \<longleftrightarrow> y \<in> set xs \<and> f y \<noteq> f (xs ! i)"
proof -
  define as b cs where "as = take i xs" and "b = xs ! i" and "cs = drop (Suc i) xs"
  have xs: "xs = as @ b # cs"
    using split_at_nth [OF assms(2)] by (simp add: as_def b_def cs_def)
  with assms(1) have "f b \<notin> f ` set as" "f b \<notin> f ` set cs" by auto
  moreover have "remove_at i xs = as @ cs" by (simp add: remove_at_def as_def cs_def)
  ultimately show ?thesis
    unfolding b_def [symmetric] by (auto simp: xs image_iff)
qed

subsection \<open>Replacement by index\<close>

lemma map_update_same: "f y = f (xs ! i) \<Longrightarrow> map f (xs[i := y]) = map f xs"
  by (metis list_update_id map_update)

lemma in_set_update_cases: "x \<in> set (xs[i := y]) \<Longrightarrow> x = y \<or> x \<in> set xs"
  using set_update_subset_insert by fastforce

subsection \<open>Pairwise-distinct keys under an equivalence\<close>

text \<open>
  \<open>distinct_by R xs\<close>: no two elements at different positions are related by \<open>R\<close>. It is the shape of
  the uniqueness invariants of the two stores (names and labels up to case folding).
\<close>

definition distinct_by :: "('a \<Rightarrow> 'a \<Rightarrow> bool) \<Rightarrow> 'a list \<Rightarrow> bool" where
  "distinct_by R xs \<longleftrightarrow> (\<forall>i < length xs. \<forall>j < length xs. R (xs ! i) (xs ! j) \<longrightarrow> i = j)"

lemma distinct_by_Nil [simp]: "distinct_by R []"
  by (simp add: distinct_by_def)

lemma distinct_byD: "distinct_by R xs \<Longrightarrow> i < length xs \<Longrightarrow> j < length xs \<Longrightarrow> R (xs ! i) (xs ! j) \<Longrightarrow> i = j"
  by (simp add: distinct_by_def)

lemma distinct_by_eq_distinct: "distinct_by (\<lambda>x y. f x = f y) xs \<longleftrightarrow> distinct (map f xs)"
  by (auto simp: distinct_by_def distinct_conv_nth)

subsection \<open>Keyed lookups\<close>

text \<open>Where the keys are distinct, the first match is the only one, so a lookup is a finite map.\<close>

lemma find_key_Some_iff:
  assumes "distinct (map key xs)"
  shows "List.find (\<lambda>x. key x = k) xs = Some x \<longleftrightarrow> x \<in> set xs \<and> key x = k"
  using assms by (induction xs) (auto simp: image_iff)

lemma option_eqI: "(\<And>x. a = Some x \<longleftrightarrow> b = Some x) \<Longrightarrow> a = b"
  by (cases a; cases b) auto

lemma find_key_append:
  assumes "distinct (map key (xs @ [y]))"
  shows "List.find (\<lambda>x. key x = k) (xs @ [y]) = ((\<lambda>k. List.find (\<lambda>x. key x = k) xs)(key y \<mapsto> y)) k"
proof (rule option_eqI)
  fix x
  have "distinct (map key xs)" using assms by simp
  then show "(List.find (\<lambda>x. key x = k) (xs @ [y]) = Some x) =
      (((\<lambda>k. List.find (\<lambda>x. key x = k) xs)(key y \<mapsto> y)) k = Some x)"
    using assms by (auto simp: find_key_Some_iff [OF assms] find_key_Some_iff) (metis imageI)
qed

lemma find_key_update:
  assumes d: "distinct (map key xs)" and i: "i < length xs" and k: "key y = key (xs ! i)"
  shows "List.find (\<lambda>x. key x = k) (xs[i := y]) = ((\<lambda>k. List.find (\<lambda>x. key x = k) xs)(key y \<mapsto> y)) k"
proof (rule option_eqI)
  fix x
  have d': "distinct (map key (xs[i := y]))" using d by (simp add: map_update_same [OF k])
  have "set (xs[i := y]) = insert y (set xs - {xs ! i})"
    using d i by (intro set_update_distinct) (simp_all add: distinct_map)
  moreover have "z = xs ! i" if "z \<in> set xs" "key z = key (xs ! i)" for z
    using that d i by (auto simp: distinct_map inj_on_def)
  ultimately show "(List.find (\<lambda>x. key x = k) (xs[i := y]) = Some x) =
      (((\<lambda>k. List.find (\<lambda>x. key x = k) xs)(key y \<mapsto> y)) k = Some x)"
    using d k by (auto simp: find_key_Some_iff [OF d'] find_key_Some_iff [OF d])
qed

lemma find_key_remove:
  assumes d: "distinct (map key xs)" and i: "i < length xs"
  shows "List.find (\<lambda>x. key x = k) (remove_at i xs) = ((\<lambda>k. List.find (\<lambda>x. key x = k) xs)(key (xs ! i) := None)) k"
proof (rule option_eqI)
  fix x
  have d': "distinct (map key (remove_at i xs))" using d by (simp add: map_remove_at distinct_remove_at)
  show "(List.find (\<lambda>x. key x = k) (remove_at i xs) = Some x) =
      (((\<lambda>k. List.find (\<lambda>x. key x = k) xs)(key (xs ! i) := None)) k = Some x)"
    using d by (auto simp: find_key_Some_iff [OF d'] find_key_Some_iff [OF d] in_set_remove_at_distinct [OF d i])
qed

end
