(* ===== verification/Go_Strings.thy ===== *)
theory Go_Strings
  imports Prelude
begin

section \<open>The Go string, formatting and address helpers the program calls\<close>

text \<open>
  The functions of Go's \<^verbatim>\<open>strings\<close>, \<^verbatim>\<open>strconv\<close>, \<^verbatim>\<open>unicode/utf8\<close> and \<^verbatim>\<open>net\<close> packages that tsctl uses,
  on byte strings. \<open>TrimSpace\<close> removes every UTF-8 encoded Unicode space, as Go does. \<open>EqualFold\<close>
  decodes both strings and compares the runes up to simple case folding; the folding table is
  generated Unicode data and therefore a parameter \<open>uf\<close> that maps a rune to the representative of
  its case orbit (\<open>ascii_fold\<close> is its restriction to ASCII).
\<close>

subsection \<open>Prefixes, suffixes, searching\<close>

definition HasPrefix :: "string \<Rightarrow> string \<Rightarrow> bool" where
  "HasPrefix s p \<longleftrightarrow> take (length p) s = p"

definition HasSuffix :: "string \<Rightarrow> string \<Rightarrow> bool" where
  "HasSuffix s p \<longleftrightarrow> length p \<le> length s \<and> drop (length s - length p) s = p"

definition TrimSuffix :: "string \<Rightarrow> string \<Rightarrow> string" where
  "TrimSuffix s p = (if HasSuffix s p then take (length s - length p) s else s)"

lemma HasPrefix_iff: "HasPrefix s p \<longleftrightarrow> (\<exists>r. s = p @ r)"
  by (metis HasPrefix_def append_eq_conv_conj append_take_drop_id)

lemma TrimSuffix_append [simp]: "TrimSuffix (s @ p) p = s"
  by (simp add: TrimSuffix_def HasSuffix_def)

fun Index :: "string \<Rightarrow> string \<Rightarrow> nat option" where
  "Index [] p = (if p = [] then Some 0 else None)"
| "Index (c # s) p = (if HasPrefix (c # s) p then Some 0 else map_option Suc (Index s p))"

fun LastIndex :: "string \<Rightarrow> string \<Rightarrow> nat option" where
  "LastIndex [] p = (if p = [] then Some 0 else None)"
| "LastIndex (c # s) p =
     (case LastIndex s p of
        Some i \<Rightarrow> Some (Suc i)
      | None \<Rightarrow> if HasPrefix (c # s) p then Some 0 else None)"

definition Contains :: "string \<Rightarrow> string \<Rightarrow> bool" where
  "Contains s p \<longleftrightarrow> Index s p \<noteq> None"

definition IndexAny :: "string \<Rightarrow> string \<Rightarrow> nat option" where
  "IndexAny s cs = index_of (\<lambda>c. c \<in> set cs) s"

definition IndexByte :: "string \<Rightarrow> char \<Rightarrow> nat option" where
  "IndexByte s c = index_of ((=) c) s"

definition LastIndexByte :: "string \<Rightarrow> char \<Rightarrow> nat option" where
  "LastIndexByte s c = map_option (\<lambda>i. length s - Suc i) (IndexByte (rev s) c)"

text \<open>\<open>Split\<close> at a separator byte and \<open>Cut\<close> at the first separator byte.\<close>

fun Split :: "string \<Rightarrow> char \<Rightarrow> string list" where
  "Split [] sep = [[]]"
| "Split (c # s) sep =
     (if c = sep then [] # Split s sep
      else (case Split s sep of [] \<Rightarrow> [[c]] | f # fs \<Rightarrow> (c # f) # fs))"

definition Cut :: "string \<Rightarrow> char \<Rightarrow> string \<times> string \<times> bool" where
  "Cut s sep =
     (case IndexByte s sep of
        Some i \<Rightarrow> (take i s, drop (Suc i) s, True)
      | None \<Rightarrow> (s, [], False))"

lemma IndexByte_None_iff: "IndexByte s c = None \<longleftrightarrow> c \<notin> set s"
  by (auto simp: IndexByte_def)

lemma LastIndexByte_None_iff: "LastIndexByte s c = None \<longleftrightarrow> c \<notin> set s"
  by (auto simp: LastIndexByte_def IndexByte_def)

lemma LastIndexByte_append:
  assumes "c \<notin> set t"
  shows "LastIndexByte (s @ c # t) c = Some (length s)"
proof -
  have "index_of ((=) c) (rev t @ c # rev s) = Some (length t)"
    using assms
  proof (induction t rule: rev_induct)
    case Nil
    then show ?case by simp
  next
    case (snoc x t)
    then show ?case by auto
  qed
  then show ?thesis by (simp add: LastIndexByte_def IndexByte_def)
qed

lemma Split_none: "sep \<notin> set s \<Longrightarrow> Split s sep = [s]"
  by (induction s) auto

lemma Split_append: "sep \<notin> set s \<Longrightarrow> Split (s @ sep # t) sep = s # Split t sep"
  by (induction s) auto

lemma Cut_append: "sep \<notin> set s \<Longrightarrow> Cut (s @ sep # t) sep = (s, t, True)"
proof -
  assume "sep \<notin> set s"
  then have "index_of ((=) sep) (s @ sep # t) = Some (length s)" by (induction s) auto
  then show ?thesis by (simp add: Cut_def IndexByte_def)
qed

lemma LastIndex_absent: "p \<noteq> [] \<Longrightarrow> hd p \<notin> set s \<Longrightarrow> LastIndex s p = None"
  by (induction s) (auto simp: HasPrefix_iff Cons_eq_append_conv)

lemma HasPrefix_append [simp]: "HasPrefix (p @ s) p"
  by (simp add: HasPrefix_def)

lemma LastIndex_append_Some: "LastIndex t p = Some i \<Longrightarrow> LastIndex (s @ t) p = Some (length s + i)"
  by (induction s) auto

subsection \<open>White space\<close>

text \<open>The UTF-8 encodings of the code points for which \<^verbatim>\<open>unicode.IsSpace\<close> holds.\<close>

definition space_seqs :: "string list" where
  "space_seqs =
     [[CHR 0x09], [CHR 0x0A], [CHR 0x0B], [CHR 0x0C], [CHR 0x0D], [CHR 0x20],
      [CHR 0xC2, CHR 0x85], [CHR 0xC2, CHR 0xA0], [CHR 0xE1, CHR 0x9A, CHR 0x80],
      [CHR 0xE2, CHR 0x80, CHR 0x80], [CHR 0xE2, CHR 0x80, CHR 0x81],
      [CHR 0xE2, CHR 0x80, CHR 0x82], [CHR 0xE2, CHR 0x80, CHR 0x83],
      [CHR 0xE2, CHR 0x80, CHR 0x84], [CHR 0xE2, CHR 0x80, CHR 0x85],
      [CHR 0xE2, CHR 0x80, CHR 0x86], [CHR 0xE2, CHR 0x80, CHR 0x87],
      [CHR 0xE2, CHR 0x80, CHR 0x88], [CHR 0xE2, CHR 0x80, CHR 0x89],
      [CHR 0xE2, CHR 0x80, CHR 0x8A], [CHR 0xE2, CHR 0x80, CHR 0xA8],
      [CHR 0xE2, CHR 0x80, CHR 0xA9], [CHR 0xE2, CHR 0x80, CHR 0xAF],
      [CHR 0xE2, CHR 0x81, CHR 0x9F], [CHR 0xE3, CHR 0x80, CHR 0x80]]"

definition lead :: "string list \<Rightarrow> string \<Rightarrow> string option" where
  "lead ws s = List.find (\<lambda>w. w \<noteq> [] \<and> HasPrefix s w) ws"

lemma lead_SomeD: "lead ws s = Some w \<Longrightarrow> w \<in> set ws \<and> w \<noteq> [] \<and> (\<exists>r. s = w @ r)"
  by (auto simp: lead_def HasPrefix_iff dest: find_SomeD)

lemma lead_None_iff: "lead ws s = None \<longleftrightarrow> (\<forall>w \<in> set ws. w \<noteq> [] \<longrightarrow> \<not> HasPrefix s w)"
  by (auto simp: lead_def find_None_iff)

function strip :: "string list \<Rightarrow> string \<Rightarrow> string" where
  "strip ws s = (case lead ws s of None \<Rightarrow> s | Some w \<Rightarrow> strip ws (drop (length w) s))"
  by pat_completeness auto
termination
  by (relation "measure (\<lambda>(ws, s). length s)") (auto dest: lead_SomeD)

declare strip.simps [simp del]

definition TrimLeftSpace :: "string \<Rightarrow> string" where
  "TrimLeftSpace s = strip space_seqs s"

definition TrimRightSpace :: "string \<Rightarrow> string" where
  "TrimRightSpace s = rev (strip (map rev space_seqs) (rev s))"

definition TrimSpace :: "string \<Rightarrow> string" where
  "TrimSpace s = TrimRightSpace (TrimLeftSpace s)"

lemma lead_strip: "lead ws (strip ws s) = None"
proof (induction ws s rule: strip.induct)
  case (1 ws s)
  then show ?case by (subst strip.simps) (auto split: option.splits)
qed

lemma strip_id: "lead ws s = None \<Longrightarrow> strip ws s = s"
  by (subst strip.simps) simp

lemma strip_suffix: "\<exists>r. s = r @ strip ws s"
proof (induction ws s rule: strip.induct)
  case (1 ws s)
  show ?case
  proof (cases "lead ws s")
    case None
    then show ?thesis by (auto simp: strip_id)
  next
    case (Some w)
    then obtain r where r: "drop (length w) s = r @ strip ws (drop (length w) s)"
      using 1 by blast
    from Some have "s = w @ drop (length w) s" by (auto dest: lead_SomeD)
    then have "s = (w @ r) @ strip ws (drop (length w) s)"
      using r by (metis append.assoc)
    moreover have "strip ws s = strip ws (drop (length w) s)"
      using Some by (subst strip.simps) simp
    ultimately show ?thesis by metis
  qed
qed

lemma strip_length: "length (strip ws s) \<le> length s"
  using strip_suffix [of s ws] by (metis le_add2 length_append)

lemma TrimRightSpace_prefix: "\<exists>r. s = TrimRightSpace s @ r"
  using strip_suffix [of "rev s" "map rev space_seqs"]
  by (metis TrimRightSpace_def rev_append rev_rev_ident)

lemma lead_prefix_None: "lead ws (p @ r) = None \<Longrightarrow> lead ws p = None"
  by (auto simp: lead_None_iff HasPrefix_iff)

text \<open>Trimming is idempotent: the result has no space at either end.\<close>

lemma TrimSpace_idem [simp]: "TrimSpace (TrimSpace s) = TrimSpace s"
proof -
  define l where "l = TrimLeftSpace s"
  have "lead space_seqs l = None" by (simp add: l_def TrimLeftSpace_def lead_strip)
  moreover obtain r where "l = TrimRightSpace l @ r" using TrimRightSpace_prefix by blast
  ultimately have "lead space_seqs (TrimRightSpace l) = None" by (metis lead_prefix_None)
  then have "TrimLeftSpace (TrimRightSpace l) = TrimRightSpace l"
    by (simp add: TrimLeftSpace_def strip_id)
  moreover have "TrimRightSpace (TrimRightSpace l) = TrimRightSpace l"
    by (simp add: TrimRightSpace_def strip_id lead_strip)
  ultimately show ?thesis by (simp add: TrimSpace_def l_def)
qed

lemma TrimSpace_Nil [simp]: "TrimSpace [] = []"
proof -
  have "lead ws [] = None" for ws by (auto simp: lead_None_iff HasPrefix_iff)
  then show ?thesis by (simp add: TrimSpace_def TrimLeftSpace_def TrimRightSpace_def strip_id)
qed

text \<open>
  A string that starts and ends with a printable ASCII character other than the space is left
  alone, and so is one to which a newline was appended, up to that newline.
\<close>

definition visible :: "char \<Rightarrow> bool" where
  "visible c \<longleftrightarrow> 0x20 < (of_char c :: nat) \<and> (of_char c :: nat) < 0x7F"

lemma space_seqs_ends: "w \<in> set space_seqs \<Longrightarrow> \<not> visible (hd w) \<and> \<not> visible (last w)"
  by (auto simp: space_seqs_def visible_def)

lemma lead_visible: "visible c \<Longrightarrow> lead space_seqs (c # s) = None"
  by (auto simp: lead_None_iff HasPrefix_iff Cons_eq_append_conv dest: space_seqs_ends)

lemma lead_rev_visible: "visible c \<Longrightarrow> lead (map rev space_seqs) (c # s) = None"
  by (auto simp: lead_None_iff HasPrefix_iff Cons_eq_append_conv dest!: space_seqs_ends)
    (metis hd_rev list.sel(1))

lemma TrimSpace_visible:
  assumes "s \<noteq> []" "visible (hd s)" "visible (last s)"
  shows "TrimSpace s = s"
proof -
  from assms have "lead space_seqs s = None" by (cases s) (auto intro: lead_visible)
  moreover from assms have "lead (map rev space_seqs) (rev s) = None"
    by (cases s rule: rev_cases) (auto intro: lead_rev_visible)
  ultimately show ?thesis
    by (simp add: TrimSpace_def TrimLeftSpace_def TrimRightSpace_def strip_id)
qed

lemma TrimSpace_newline:
  assumes "s \<noteq> []" "visible (hd s)" "visible (last s)"
  shows "TrimSpace (s @ [CHR 0x0A]) = s"
proof -
  from assms have "lead space_seqs (s @ [CHR 0x0A]) = None" by (cases s) (auto intro: lead_visible)
  then have l: "TrimLeftSpace (s @ [CHR 0x0A]) = s @ [CHR 0x0A]"
    by (simp add: TrimLeftSpace_def strip_id)
  from assms have n: "lead (map rev space_seqs) (rev s) = None"
    by (cases s rule: rev_cases) (auto intro: lead_rev_visible)
  have "lead (map rev space_seqs) (CHR 0x0A # rev s) = Some [CHR 0x0A]"
    by (simp add: lead_def space_seqs_def HasPrefix_def)
  with n have "strip (map rev space_seqs) (CHR 0x0A # rev s) = rev s"
    by (subst strip.simps) (simp add: strip_id)
  with l show ?thesis by (simp add: TrimSpace_def TrimRightSpace_def)
qed

subsection \<open>Numbers\<close>

definition digit_char :: "nat \<Rightarrow> char" where
  "digit_char d = char_of (if d < 10 then 48 + d else 87 + d)"

definition is_digit :: "char \<Rightarrow> bool" where
  "is_digit c \<longleftrightarrow> 48 \<le> (of_char c :: nat) \<and> (of_char c :: nat) \<le> 57"

definition digit_val :: "char \<Rightarrow> nat" where
  "digit_val c = of_char c - 48"

text \<open>\<^verbatim>\<open>%d\<close> of an unsigned value, and \<^verbatim>\<open>%x\<close>.\<close>

fun show_base :: "nat \<Rightarrow> nat \<Rightarrow> string" where
  "show_base b n = (if b < 2 \<or> n < b then [digit_char n] else show_base b (n div b) @ [digit_char (n mod b)])"

declare show_base.simps [simp del]

abbreviation show_nat :: "nat \<Rightarrow> string" where "show_nat \<equiv> show_base 10"
abbreviation show_hex :: "nat \<Rightarrow> string" where "show_hex \<equiv> show_base 16"

definition show_int :: "int \<Rightarrow> string" where
  "show_int i = (if i < 0 then CHR ''-'' # show_nat (nat (- i)) else show_nat (nat i))"

fun digits_val :: "nat \<Rightarrow> string \<Rightarrow> nat option" where
  "digits_val acc [] = Some acc"
| "digits_val acc (c # s) = (if is_digit c then digits_val (10 * acc + digit_val c) s else None)"

text \<open>\<^verbatim>\<open>strconv.Atoi\<close>: an optional sign, at least one decimal digit, and the range of a 64-bit \<^verbatim>\<open>int\<close>.\<close>

definition Atoi :: "string \<Rightarrow> int option" where
  "Atoi s =
     (let neg = HasPrefix s ''-'';
          body = (if neg \<or> HasPrefix s ''+'' then drop 1 s else s)
      in if body = [] then None
         else (case digits_val 0 body of
             None \<Rightarrow> None
           | Some n \<Rightarrow>
               (if neg then (if n \<le> 2 ^ 63 then Some (- int n) else None)
                else (if n < 2 ^ 63 then Some (int n) else None))))"

lemma digit_char_less_10: "d < 10 \<Longrightarrow> is_digit (digit_char d) \<and> digit_val (digit_char d) = d"
  by (simp add: digit_char_def is_digit_def digit_val_def)

lemma show_base_not_Nil [simp]: "show_base b n \<noteq> []"
  by (subst show_base.simps) simp

lemma show_nat_digits: "\<forall>c \<in> set (show_nat n). is_digit c"
proof (induction "10 :: nat" n rule: show_base.induct)
  case (1 n)
  then show ?case
    by (subst show_base.simps) (auto simp: digit_char_less_10)
qed

lemma digits_val_append:
  "digits_val acc (s @ t) = (case digits_val acc s of None \<Rightarrow> None | Some a \<Rightarrow> digits_val a t)"
  by (induction s arbitrary: acc) auto

lemma digits_val_show_nat: "digits_val 0 (show_nat n) = Some n"
proof (induction "10 :: nat" n rule: show_base.induct)
  case (1 n)
  then show ?case
    by (subst show_base.simps) (auto simp: digits_val_append digit_char_less_10)
qed

lemma is_digit_visible: "is_digit c \<Longrightarrow> visible c"
  by (simp add: is_digit_def visible_def)

lemma Atoi_show_nat: "n < 2 ^ 63 \<Longrightarrow> Atoi (show_nat n) = Some (int n)"
proof -
  assume n: "n < 2 ^ 63"
  obtain c s where cs: "show_nat n = c # s" by (cases "show_nat n") auto
  with show_nat_digits [of n] have "is_digit c" by simp
  then have "\<not> HasPrefix (show_nat n) ''-''" "\<not> HasPrefix (show_nat n) ''+''"
    by (auto simp: cs HasPrefix_def is_digit_def)
  with n show ?thesis by (simp add: Atoi_def digits_val_show_nat)
qed

subsection \<open>Runes and case folding\<close>

definition cont :: "nat \<Rightarrow> bool" where
  "cont b \<longleftrightarrow> 0x80 \<le> b \<and> b \<le> 0xBF"

definition RuneError :: nat where
  "RuneError = 0xFFFD"

text \<open>
  \<^verbatim>\<open>utf8.DecodeRune\<close>: the first rune and its width; an invalid or incomplete sequence is
  \<open>RuneError\<close> with width 1.
\<close>

fun DecodeRune :: "nat list \<Rightarrow> nat \<times> nat" where
  "DecodeRune [] = (RuneError, 0)"
| "DecodeRune (b0 # bs) =
     (if b0 < 0x80 then (b0, 1)
      else if 0xC2 \<le> b0 \<and> b0 \<le> 0xDF then
        (case bs of
           b1 # _ \<Rightarrow> if cont b1 then ((b0 - 0xC0) * 64 + (b1 - 0x80), 2) else (RuneError, 1)
         | _ \<Rightarrow> (RuneError, 1))
      else if 0xE0 \<le> b0 \<and> b0 \<le> 0xEF then
        (case bs of
           b1 # b2 # _ \<Rightarrow>
             if cont b1 \<and> cont b2 \<and> (b0 = 0xE0 \<longrightarrow> 0xA0 \<le> b1) \<and> (b0 = 0xED \<longrightarrow> b1 \<le> 0x9F)
             then ((b0 - 0xE0) * 4096 + (b1 - 0x80) * 64 + (b2 - 0x80), 3) else (RuneError, 1)
         | _ \<Rightarrow> (RuneError, 1))
      else if 0xF0 \<le> b0 \<and> b0 \<le> 0xF4 then
        (case bs of
           b1 # b2 # b3 # _ \<Rightarrow>
             if cont b1 \<and> cont b2 \<and> cont b3 \<and> (b0 = 0xF0 \<longrightarrow> 0x90 \<le> b1) \<and> (b0 = 0xF4 \<longrightarrow> b1 \<le> 0x8F)
             then ((b0 - 0xF0) * 262144 + (b1 - 0x80) * 4096 + (b2 - 0x80) * 64 + (b3 - 0x80), 4)
             else (RuneError, 1)
         | _ \<Rightarrow> (RuneError, 1))
      else (RuneError, 1))"

lemma DecodeRune_width: "bs \<noteq> [] \<Longrightarrow> 0 < snd (DecodeRune bs)"
  by (cases bs) (auto split: list.splits)

function runes :: "nat list \<Rightarrow> nat list" where
  "runes bs = (if bs = [] then [] else fst (DecodeRune bs) # runes (drop (snd (DecodeRune bs)) bs))"
  by pat_completeness auto
termination
proof (relation "measure length", simp)
  fix bs :: "nat list"
  assume "bs \<noteq> []"
  then show "(drop (snd (DecodeRune bs)) bs, bs) \<in> measure length"
    using DecodeRune_width [of bs] by simp
qed

declare runes.simps [simp del]

definition EqualFold :: "(nat \<Rightarrow> nat) \<Rightarrow> string \<Rightarrow> string \<Rightarrow> bool" where
  "EqualFold uf s t \<longleftrightarrow> map uf (runes (map of_char s)) = map uf (runes (map of_char t))"

definition ascii_fold :: "nat \<Rightarrow> nat" where
  "ascii_fold r = (if 65 \<le> r \<and> r \<le> 90 then r + 32 else r)"

lemma EqualFold_refl [simp]: "EqualFold uf s s"
  by (simp add: EqualFold_def)

lemma EqualFold_sym: "EqualFold uf s t \<longleftrightarrow> EqualFold uf t s"
  by (auto simp: EqualFold_def)

lemma EqualFold_trans: "EqualFold uf s t \<Longrightarrow> EqualFold uf t u \<Longrightarrow> EqualFold uf s u"
  by (simp add: EqualFold_def)

text \<open>On ASCII strings the runes are the bytes.\<close>

lemma runes_ascii: "\<forall>b \<in> set bs. b < 0x80 \<Longrightarrow> runes bs = bs"
proof (induction bs)
  case Nil
  then show ?case by (simp add: runes.simps)
next
  case (Cons b bs)
  then show ?case by (subst runes.simps) simp
qed

subsection \<open>Host and port\<close>

text \<open>\<^verbatim>\<open>net.SplitHostPort\<close> and \<^verbatim>\<open>net.JoinHostPort\<close>.\<close>

datatype addr_error =
    MissingPort | TooManyColons | MissingBracket | UnexpectedLBracket | UnexpectedRBracket

definition SplitHostPort :: "string \<Rightarrow> addr_error + string \<times> string" where
  "SplitHostPort hp =
     (case LastIndexByte hp CHR '':'' of
        None \<Rightarrow> Inl MissingPort
      | Some i \<Rightarrow>
          (let finish = (\<lambda>host j k.
                 if CHR ''['' \<in> set (drop j hp) then Inl UnexpectedLBracket
                 else if CHR '']'' \<in> set (drop k hp) then Inl UnexpectedRBracket
                 else Inr (host, drop (Suc i) hp))
           in if HasPrefix hp ''['' then
                (case IndexByte hp CHR '']'' of
                   None \<Rightarrow> Inl MissingBracket
                 | Some e \<Rightarrow>
                     if Suc e = length hp then Inl MissingPort
                     else if Suc e = i then finish (take (e - 1) (drop 1 hp)) 1 (Suc e)
                     else if hp ! Suc e = CHR '':'' then Inl TooManyColons
                     else Inl MissingPort)
              else (let host = take i hp
                    in if CHR '':'' \<in> set host then Inl TooManyColons else finish host 0 0)))"

definition JoinHostPort :: "string \<Rightarrow> string \<Rightarrow> string" where
  "JoinHostPort host port =
     (if CHR '':'' \<in> set host then ''['' @ host @ '']:'' @ port else host @ '':'' @ port)"

text \<open>
  Joining a host without square brackets and a port without colons or brackets is undone by
  splitting.
\<close>

lemma SplitHostPort_JoinHostPort:
  assumes host: "CHR ''['' \<notin> set host" "CHR '']'' \<notin> set host"
    and port: "CHR '':'' \<notin> set port" "CHR ''['' \<notin> set port" "CHR '']'' \<notin> set port"
  shows "SplitHostPort (JoinHostPort host port) = Inr (host, port)"
proof (cases "CHR '':'' \<in> set host")
  case False
  let ?hp = "host @ CHR '':'' # port"
  have l: "LastIndexByte ?hp CHR '':'' = Some (length host)"
    using port by (intro LastIndexByte_append) auto
  have "\<not> HasPrefix ?hp ''[''" using host by (cases host) (auto simp: HasPrefix_def)
  with False l host port show ?thesis
    by (simp add: JoinHostPort_def SplitHostPort_def Let_def)
next
  case True
  let ?pre = "CHR ''['' # host @ [CHR '']'']"
  let ?hp = "?pre @ CHR '':'' # port"
  have l: "LastIndexByte ?hp CHR '':'' = Some (Suc (Suc (length host)))"
    using LastIndexByte_append [OF port(1), of ?pre] by simp
  have "index_of ((=) CHR '']'') (host @ CHR '']'' # CHR '':'' # port) = Some (length host)"
    using host(2) by (induction host) auto
  then have r: "IndexByte ?hp CHR '']'' = Some (Suc (length host))"
    by (simp add: IndexByte_def)
  have p: "HasPrefix ?hp ''[''" by (simp add: HasPrefix_def)
  have "SplitHostPort ?hp = Inr (host, port)"
    unfolding SplitHostPort_def l r option.case Let_def
    using p host port by simp
  then show ?thesis using True by (simp add: JoinHostPort_def)
qed

end
