(* ===== verification/Netip.thy ===== *)
theory Netip
  imports Go_Strings
begin

section \<open>IP addresses: the part of Go's net/netip the program uses\<close>

text \<open>
  \<open>ParseAddr\<close>, \<open>Unmap\<close>, \<open>Is4\<close>, \<open>Zone\<close>, \<open>IsLoopback\<close> and \<open>String\<close> of \<^verbatim>\<open>netip.Addr\<close>. The router client
  validates and re-serialises an exit node's address with them before it reaches a shell
  (\<^verbatim>\<open>exitArg\<close>), the netmap prints every peer address with them, and the configuration loader checks
  router and loopback addresses with them. An address is its bytes (4 or 16 values below 256) and,
  for IPv6, its zone.
\<close>

datatype Addr = Addr4 "nat list" | Addr6 "nat list" string

fun wf_addr :: "Addr \<Rightarrow> bool" where
  "wf_addr (Addr4 bs) \<longleftrightarrow> length bs = 4 \<and> (\<forall>b \<in> set bs. b < 256)"
| "wf_addr (Addr6 bs z) \<longleftrightarrow> length bs = 16 \<and> (\<forall>b \<in> set bs. b < 256)"

datatype parse_addr_error =
    UnableToParse | MissingIPv6 | LeadingZero | OctetTooBig | FieldNeedsDigit | IPv4TooLong
  | UnexpectedChar | IPv4TooShort | EmptyZone | TooManyDigits | FieldTooBig | HexNeedsDigit
  | EmbeddedPlace | EmbeddedRoom | WantColon | ColonAtEnd | MultipleEllipsis | TrailingGarbage
  | IPv6TooShort | EllipsisNoZeros

subsection \<open>Parsing\<close>

text \<open>
  \<^verbatim>\<open>parseIPv4Fields\<close>: \<open>fs\<close> are the fields already stored, \<open>n\<close> the digits of the current field and
  \<open>v\<close> its value.
\<close>

fun parseIPv4Fields :: "nat list \<Rightarrow> nat \<Rightarrow> nat \<Rightarrow> string \<Rightarrow> parse_addr_error + nat list" where
  "parseIPv4Fields fs n v [] = (if length fs < 3 then Inl IPv4TooShort else Inr (fs @ [v]))"
| "parseIPv4Fields fs n v (c # s) =
     (if is_digit c then
        (if n = 1 \<and> v = 0 then Inl LeadingZero
         else if 255 < v * 10 + digit_val c then Inl OctetTooBig
         else parseIPv4Fields fs (Suc n) (v * 10 + digit_val c) s)
      else if c = CHR ''.'' then
        (if n = 0 \<or> s = [] then Inl FieldNeedsDigit
         else if length fs = 3 then Inl IPv4TooLong
         else parseIPv4Fields (fs @ [v]) 0 0 s)
      else Inl UnexpectedChar)"

definition hex_val :: "char \<Rightarrow> nat option" where
  "hex_val c =
     (let b = of_char c :: nat
      in if 48 \<le> b \<and> b \<le> 57 then Some (b - 48)
         else if 97 \<le> b \<and> b \<le> 102 then Some (b - 87)
         else if 65 \<le> b \<and> b \<le> 70 then Some (b - 55)
         else None)"

text \<open>The inner loop of \<^verbatim>\<open>parseIPv6\<close>: one group of hex digits.\<close>

fun hex_group :: "nat \<Rightarrow> nat \<Rightarrow> string \<Rightarrow> parse_addr_error + nat \<times> nat \<times> string" where
  "hex_group acc off [] = Inr (acc, off, [])"
| "hex_group acc off (c # s) =
     (case hex_val c of
        None \<Rightarrow> Inr (acc, off, c # s)
      | Some v \<Rightarrow>
          if 3 < off then Inl TooManyDigits
          else if 65535 < acc * 16 + v then Inl FieldTooBig
          else hex_group (acc * 16 + v) (Suc off) s)"

text \<open>
  The outer loop: \<open>ip\<close> holds the bytes stored so far, \<open>ell\<close> the position of the ellipsis. The
  result carries the unread rest of the string.
\<close>

function parseIPv6Loop ::
    "nat list \<Rightarrow> nat option \<Rightarrow> string \<Rightarrow> parse_addr_error + nat list \<times> nat option \<times> string" where
  "parseIPv6Loop ip ell s =
     (if 16 \<le> length ip then Inr (ip, ell, s)
      else case hex_group 0 0 s of
        Inl e \<Rightarrow> Inl e
      | Inr (acc, off, rest) \<Rightarrow>
          if off = 0 then Inl HexNeedsDigit
          else if HasPrefix rest ''.'' then
            (if ell = None \<and> length ip \<noteq> 12 then Inl EmbeddedPlace
             else if 16 < length ip + 4 then Inl EmbeddedRoom
             else case parseIPv4Fields [] 0 0 s of
                 Inl e \<Rightarrow> Inl e
               | Inr fs \<Rightarrow> Inr (ip @ fs, ell, []))
          else
            (let ip' = ip @ [acc div 256, acc mod 256]
             in case rest of
                  [] \<Rightarrow> Inr (ip', ell, [])
                | c # s1 \<Rightarrow>
                    if c \<noteq> CHR '':'' then Inl WantColon
                    else (case s1 of
                        [] \<Rightarrow> Inl ColonAtEnd
                      | d # s2 \<Rightarrow>
                          if d = CHR '':'' then
                            (if ell \<noteq> None then Inl MultipleEllipsis
                             else if s2 = [] then Inr (ip', Some (length ip'), [])
                             else parseIPv6Loop ip' (Some (length ip')) s2)
                          else parseIPv6Loop ip' ell s1)))"
  by pat_completeness auto
termination
  by (relation "measure (\<lambda>(ip, ell, s). 16 - length ip)") auto

declare parseIPv6Loop.simps [simp del]

text \<open>After the loop: the whole string must be used, and an ellipsis expands to zero bytes.\<close>

definition expandIPv6 :: "string \<Rightarrow> nat list \<Rightarrow> nat option \<Rightarrow> string \<Rightarrow> parse_addr_error + Addr" where
  "expandIPv6 zone ip ell rest =
     (if rest \<noteq> [] then Inl TrailingGarbage
      else if length ip < 16 then
        (case ell of
           None \<Rightarrow> Inl IPv6TooShort
         | Some e \<Rightarrow> Inr (Addr6 (take e ip @ replicate (16 - length ip) 0 @ drop e ip) zone))
      else if ell \<noteq> None then Inl EllipsisNoZeros
      else Inr (Addr6 ip zone))"

definition parseIPv6 :: "string \<Rightarrow> parse_addr_error + Addr" where
  "parseIPv6 inp =
     (case Cut inp CHR ''%'' of
        (s, zone, haszone) \<Rightarrow>
          if haszone \<and> zone = [] then Inl EmptyZone
          else if s = ''::'' then Inr (Addr6 (replicate 16 0) zone)
          else case parseIPv6Loop [] (if HasPrefix s ''::'' then Some 0 else None)
                      (if HasPrefix s ''::'' then drop 2 s else s) of
              Inl e \<Rightarrow> Inl e
            | Inr (ip, ell, rest) \<Rightarrow> expandIPv6 zone ip ell rest)"

definition parseIPv4 :: "string \<Rightarrow> parse_addr_error + Addr" where
  "parseIPv4 s = map_sum id Addr4 (parseIPv4Fields [] 0 0 s)"

definition ParseAddr :: "string \<Rightarrow> parse_addr_error + Addr" where
  "ParseAddr s =
     (case List.find (\<lambda>c. c \<in> {CHR ''.'', CHR '':'', CHR ''%''}) s of
        None \<Rightarrow> Inl UnableToParse
      | Some c \<Rightarrow>
          if c = CHR ''.'' then parseIPv4 s
          else if c = CHR '':'' then parseIPv6 s
          else Inl MissingIPv6)"

subsection \<open>Methods\<close>

fun Zone :: "Addr \<Rightarrow> string" where
  "Zone (Addr4 bs) = []"
| "Zone (Addr6 bs z) = z"

fun Is4 :: "Addr \<Rightarrow> bool" where
  "Is4 (Addr4 bs) = True"
| "Is4 (Addr6 bs z) = False"

fun Is4In6 :: "Addr \<Rightarrow> bool" where
  "Is4In6 (Addr4 bs) = False"
| "Is4In6 (Addr6 bs z) = (take 12 bs = replicate 10 0 @ [255, 255])"

fun Unmap :: "Addr \<Rightarrow> Addr" where
  "Unmap (Addr4 bs) = Addr4 bs"
| "Unmap (Addr6 bs z) = (if Is4In6 (Addr6 bs z) then Addr4 (drop 12 bs) else Addr6 bs z)"

fun IsLoopback :: "Addr \<Rightarrow> bool" where
  "IsLoopback (Addr4 bs) = (hd bs = 127)"
| "IsLoopback (Addr6 bs z) =
     (if Is4In6 (Addr6 bs z) then bs ! 12 = 127 else bs = replicate 15 0 @ [1])"

subsection \<open>Printing\<close>

fun join_with :: "string \<Rightarrow> string list \<Rightarrow> string" where
  "join_with sep [] = []"
| "join_with sep [s] = s"
| "join_with sep (s # ss) = s @ sep @ join_with sep ss"

definition string4 :: "nat list \<Rightarrow> string" where
  "string4 bs = join_with ''.'' (map show_nat bs)"

fun groups16 :: "nat list \<Rightarrow> nat list" where
  "groups16 (a # b # bs) = (256 * a + b) # groups16 bs"
| "groups16 bs = []"

definition zero_run :: "nat list \<Rightarrow> nat" where
  "zero_run gs = length (takeWhile (\<lambda>g. g = 0) gs)"

text \<open>The first longest run of at least two zero groups, as start and length.\<close>

fun longest_run :: "nat \<Rightarrow> nat \<times> nat \<Rightarrow> nat list \<Rightarrow> nat \<times> nat" where
  "longest_run i best [] = best"
| "longest_run i best (g # gs) =
     longest_run (Suc i)
       (let l = zero_run (g # gs) in if 2 \<le> l \<and> snd best < l then (i, l) else best) gs"

definition string6 :: "nat list \<Rightarrow> string" where
  "string6 gs =
     (let (i, l) = longest_run 0 (0, 0) gs
      in if l = 0 then join_with '':'' (map show_hex gs)
         else join_with '':'' (map show_hex (take i gs)) @ ''::''
              @ join_with '':'' (map show_hex (drop (i + l) gs)))"

fun addr_String :: "Addr \<Rightarrow> string" where
  "addr_String (Addr4 bs) = string4 bs"
| "addr_String (Addr6 bs z) =
     (if Is4In6 (Addr6 bs z) then ''::ffff:'' @ string4 (drop 12 bs) else string6 (groups16 bs))
     @ (if z = [] then [] else ''%'' @ z)"

subsection \<open>Facts\<close>

lemma parseIPv4Fields_wf:
  "parseIPv4Fields fs n v s = Inr bs \<Longrightarrow> \<forall>b \<in> set fs. b < 256 \<Longrightarrow> v < 256 \<Longrightarrow> length fs \<le> 3 \<Longrightarrow>
     length bs = 4 \<and> (\<forall>b \<in> set bs. b < 256)"
  by (induction fs n v s rule: parseIPv4Fields.induct) (auto split: if_splits)

lemma parseIPv4_wf: "parseIPv4 s = Inr a \<Longrightarrow> \<exists>bs. a = Addr4 bs \<and> wf_addr a"
  by (cases "parseIPv4Fields [] 0 0 s") (auto simp: parseIPv4_def dest: parseIPv4Fields_wf)

lemma hex_group_bound:
  "hex_group acc off s = Inr (acc', off', rest) \<Longrightarrow> acc \<le> 65535 \<Longrightarrow> acc' \<le> 65535"
  by (induction acc off s rule: hex_group.induct) (auto split: option.splits if_splits)

definition wf_partial :: "nat list \<Rightarrow> nat option \<Rightarrow> bool" where
  "wf_partial ip ell \<longleftrightarrow>
     (\<forall>b \<in> set ip. b < 256) \<and> length ip \<le> 16 \<and> (\<forall>e. ell = Some e \<longrightarrow> e \<le> length ip)"

lemma wf_partial_append:
  "wf_partial ip ell \<Longrightarrow> \<forall>b \<in> set bs. b < 256 \<Longrightarrow> length ip + length bs \<le> 16 \<Longrightarrow> wf_partial (ip @ bs) ell"
  by (fastforce simp: wf_partial_def)

lemma parseIPv6Loop_wf:
  "parseIPv6Loop ip ell s = Inr (ip', ell', rest) \<Longrightarrow> wf_partial ip ell \<Longrightarrow> even (length ip) \<Longrightarrow>
     wf_partial ip' ell'"
proof (induction ip ell s rule: parseIPv6Loop.induct)
  case (1 ip ell s)
  note eq = parseIPv6Loop.simps [of ip ell s]
  show ?case
  proof (cases "16 \<le> length ip")
    case True
    with "1.prems" show ?thesis by (simp add: eq)
  next
    case F: False
    with "1.prems"(3) have room: "length ip + 2 \<le> 16" by presburger
    obtain acc off r where h: "hex_group 0 0 s = Inr (acc, off, r)"
      using F "1.prems"(1) by (auto simp: eq split: sum.splits)
    then have acc: "acc \<le> 65535" by (rule hex_group_bound) simp
    let ?ip = "ip @ [acc div 256, acc mod 256]"
    have ip2: "wf_partial ?ip ell"
      using acc room by (intro wf_partial_append [OF "1.prems"(2)]) auto
    then have ip3: "wf_partial ?ip (Some (length ?ip))" by (simp add: wf_partial_def)
    have off: "off \<noteq> 0" using F h "1.prems"(1) by (auto simp: eq split: if_splits)
    show ?thesis
    proof (cases "HasPrefix r ''.''")
      case True
      then obtain fs where "parseIPv4Fields [] 0 0 s = Inr fs" "ip' = ip @ fs" "ell' = ell"
        "length ip + 4 \<le> 16"
        using F h off "1.prems"(1) by (auto simp: eq split: if_splits sum.splits)
      then show ?thesis
        using parseIPv4Fields_wf [of "[]" 0 0 s fs] by (simp add: wf_partial_append "1.prems"(2))
    next
      case False
      note IH = "1.IH" [OF F h refl refl off False refl]
      show ?thesis
      proof (cases r)
        case Nil
        then show ?thesis using F h off False "1.prems"(1) ip2 by (simp add: eq Let_def)
      next
        case (Cons c s1)
        then have c: "c = CHR '':''" using F h off False "1.prems"(1)
          by (auto simp: eq Let_def split: if_splits)
        obtain d s2 where s1: "s1 = d # s2"
          using F h off False Cons c "1.prems"(1) by (cases s1) (auto simp: eq Let_def)
        show ?thesis
        proof (cases "d = CHR '':''")
          case True
          then show ?thesis
            using F h off False Cons c s1 "1.prems" ip3 IH(1) [OF Cons _ s1 True]
            by (auto simp: eq Let_def split: if_splits)
        next
          case d: False
          then show ?thesis
            using F h off False Cons c s1 "1.prems" ip2 IH(2) [OF Cons _ s1 d]
            by (auto simp: eq Let_def)
        qed
      qed
    qed
  qed
qed

lemma expandIPv6_wf: "expandIPv6 z ip ell rest = Inr a \<Longrightarrow> wf_partial ip ell \<Longrightarrow> wf_addr a"
  by (auto simp: expandIPv6_def wf_partial_def split: if_splits option.splits)
    (meson in_set_takeD in_set_dropD)+

lemma parseIPv6_wf:
  assumes p: "parseIPv6 s = Inr a"
  shows "wf_addr a"
proof (cases "Cut s CHR ''%''")
  case (fields t zone hz)
  show ?thesis
  proof (cases "t = ''::''")
    case True
    with p fields show ?thesis by (auto simp: parseIPv6_def split: if_splits)
  next
    case False
    let ?ell = "if HasPrefix t ''::'' then Some 0 else None :: nat option"
    let ?t = "if HasPrefix t ''::'' then drop 2 t else t"
    obtain ip ell rest where l: "parseIPv6Loop [] ?ell ?t = Inr (ip, ell, rest)"
      and e: "expandIPv6 zone ip ell rest = Inr a"
      using p fields False by (auto simp: parseIPv6_def split: if_splits sum.splits)
    have "wf_partial ip ell"
      by (rule parseIPv6Loop_wf [OF l]) (simp_all add: wf_partial_def)
    then show ?thesis using e expandIPv6_wf by blast
  qed
qed

lemma ParseAddr_wf: "ParseAddr s = Inr a \<Longrightarrow> wf_addr a"
  by (auto simp: ParseAddr_def split: option.splits if_splits dest: parseIPv4_wf parseIPv6_wf)

lemma Unmap_wf: "wf_addr a \<Longrightarrow> wf_addr (Unmap a)"
  by (cases a) (auto dest: in_set_dropD)

text \<open>
  What \<open>string4\<close> prints are digits and dots only, and the parser reads it back: printing is
  injective on the parsed addresses.
\<close>

lemma join_with_chars: "set (join_with sep ss) \<subseteq> set sep \<union> (\<Union>s \<in> set ss. set s)"
  by (induction sep ss rule: join_with.induct) auto

lemma string4_chars: "c \<in> set (string4 bs) \<Longrightarrow> is_digit c \<or> c = CHR ''.''"
  using join_with_chars [of "''.''" "map show_nat bs"] show_nat_digits
  by (auto simp: string4_def)

lemma show_nat_leading_zero:
  "0 < n \<Longrightarrow> \<exists>c s. show_nat n = c # s \<and> is_digit c \<and> 0 < digit_val c"
proof (induction "10 :: nat" n rule: show_base.induct)
  case (1 n)
  show ?case
  proof (cases "n < 10")
    case True
    with 1 show ?thesis by (subst show_base.simps) (auto simp: digit_char_less_10)
  next
    case False
    then have "0 < n div 10" by auto
    with 1 False obtain c s where "show_nat (n div 10) = c # s" "is_digit c" "0 < digit_val c" by auto
    with False show ?thesis by (subst show_base.simps) auto
  qed
qed

lemma parseIPv4Fields_digits:
  "\<forall>c \<in> set ds. is_digit c \<Longrightarrow> digits_val v ds = Some w \<Longrightarrow> w < 256 \<Longrightarrow> (0 < v \<or> ds = []) \<Longrightarrow>
     parseIPv4Fields fs n v (ds @ s) = parseIPv4Fields fs (n + length ds) w s"
proof (induction ds arbitrary: n v)
  case Nil
  then show ?case by simp
next
  case (Cons c ds)
  have mono: "digits_val a xs = Some b \<Longrightarrow> a \<le> b" for a b xs
    by (induction xs arbitrary: a) (fastforce split: if_splits)+
  from Cons.prems have le: "10 * v + digit_val c \<le> w" by (auto intro: mono)
  with Cons show ?case by (simp add: mult.commute)
qed

lemma parseIPv4Fields_show_nat:
  assumes "a < 256"
  shows "\<exists>n > 0. parseIPv4Fields fs 0 0 (show_nat a @ s) = parseIPv4Fields fs n a s"
proof (cases "a = 0")
  case True
  then have "show_nat a = ''0''" by (subst show_base.simps) (simp add: digit_char_def char_of_eq_iff)
  then show ?thesis using True
    by (intro exI [of _ 1]) (simp add: is_digit_def digit_val_def)
next
  case False
  then obtain c ds where cs: "show_nat a = c # ds" and c: "is_digit c" "0 < digit_val c"
    using show_nat_leading_zero by blast
  have dv: "digits_val (digit_val c) ds = Some a"
    using digits_val_show_nat [of a] c by (simp add: cs)
  have "digit_val c < 256" using c by (auto simp: is_digit_def digit_val_def)
  then have "parseIPv4Fields fs 0 0 (show_nat a @ s) = parseIPv4Fields fs 1 (digit_val c) (ds @ s)"
    using c by (simp add: cs)
  also have "\<dots> = parseIPv4Fields fs (1 + length ds) a s"
    using show_nat_digits [of a] dv assms c
    by (intro parseIPv4Fields_digits) (auto simp: cs)
  finally show ?thesis by (intro exI [of _ "1 + length ds"]) simp
qed

lemma parseIPv4Fields_dot:
  "0 < n \<Longrightarrow> s \<noteq> [] \<Longrightarrow> length fs < 3 \<Longrightarrow>
     parseIPv4Fields fs n v (CHR ''.'' # s) = parseIPv4Fields (fs @ [v]) 0 0 s"
  by (simp add: is_digit_def)

lemma ParseAddr_string4:
  assumes "a < 256" "b < 256" "c < 256" "d < 256"
  shows "ParseAddr (string4 [a, b, c, d]) = Inr (Addr4 [a, b, c, d])"
proof -
  let ?rest = "\<lambda>xs. CHR ''.'' # xs"
  have 4: "parseIPv4Fields [a, b, c] 0 0 (show_nat d) = Inr [a, b, c, d]"
    using parseIPv4Fields_show_nat [OF assms(4), of "[a, b, c]" "[]"] by auto
  have 3: "parseIPv4Fields [a, b] 0 0 (show_nat c @ ?rest (show_nat d)) = Inr [a, b, c, d]"
    using parseIPv4Fields_show_nat [OF assms(3), of "[a, b]" "?rest (show_nat d)"] 4
    by (auto simp: parseIPv4Fields_dot simp del: parseIPv4Fields.simps)
  have 2: "parseIPv4Fields [a] 0 0 (show_nat b @ ?rest (show_nat c @ ?rest (show_nat d))) =
      Inr [a, b, c, d]"
    using parseIPv4Fields_show_nat [OF assms(2), of "[a]" "?rest (show_nat c @ ?rest (show_nat d))"] 3
    by (auto simp: parseIPv4Fields_dot simp del: parseIPv4Fields.simps)
  have 1: "parseIPv4Fields [] 0 0
      (show_nat a @ ?rest (show_nat b @ ?rest (show_nat c @ ?rest (show_nat d)))) = Inr [a, b, c, d]"
    using parseIPv4Fields_show_nat [OF assms(1), of "[]"
        "?rest (show_nat b @ ?rest (show_nat c @ ?rest (show_nat d)))"] 2
    by (auto simp: parseIPv4Fields_dot simp del: parseIPv4Fields.simps)
  have s4: "string4 [a, b, c, d] =
      show_nat a @ ?rest (show_nat b @ ?rest (show_nat c @ ?rest (show_nat d)))"
    by (simp add: string4_def)
  have "List.find (\<lambda>x. x \<in> {CHR ''.'', CHR '':'', CHR ''%''}) (ds @ ?rest xs) = Some CHR ''.''"
    if "\<forall>x \<in> set ds. is_digit x" for ds xs
    using that by (induction ds) (auto simp: is_digit_def)
  then show ?thesis
    using show_nat_digits 1 by (simp add: ParseAddr_def parseIPv4_def s4)
qed

lemma ParseAddr_string4_wf: "wf_addr (Addr4 bs) \<Longrightarrow> ParseAddr (string4 bs) = Inr (Addr4 bs)"
  using ParseAddr_string4 by (auto simp: length_Suc_conv numeral_eq_Suc)

end
