(* ===== verification/Go_Errors.thy ===== *)
theory Go_Errors
  imports Netip
begin

section \<open>Errors of the router layer and their texts\<close>

text \<open>
  The error values the router client produces, as a datatype: a plain error, a router command that
  ran and failed (\<^verbatim>\<open>*CommandError\<close>), and a \<^verbatim>\<open>%w\<close>-wrapped error. \<open>Error\<close> is their text and
  \<open>as_CommandError\<close> is \<^verbatim>\<open>errors.As(err, &cmdErr)\<close>, which walks the chain of wrapped errors. \<open>Quote\<close> is
  \<^verbatim>\<open>strconv.Quote\<close> (the verb \<^verbatim>\<open>%q\<close>); every valid non-ASCII rune is taken to be printable.
\<close>

definition quote_ascii :: "nat \<Rightarrow> string" where
  "quote_ascii r =
     (if r = 34 then [CHR 0x5C, CHR 0x22] else if r = 92 then [CHR 0x5C, CHR 0x5C]
      else if r = 7 then CHR 0x5C # ''a'' else if r = 8 then CHR 0x5C # ''b''
      else if r = 12 then CHR 0x5C # ''f'' else if r = 10 then CHR 0x5C # ''n''
      else if r = 13 then CHR 0x5C # ''r'' else if r = 9 then CHR 0x5C # ''t''
      else if r = 11 then CHR 0x5C # ''v''
      else if r < 32 \<or> r = 127 then CHR 0x5C # ''x'' @ [digit_char (r div 16), digit_char (r mod 16)]
      else [char_of r])"

function quote_bytes :: "nat list \<Rightarrow> string" where
  "quote_bytes bs =
     (if bs = [] then []
      else (let r = fst (DecodeRune bs); w = snd (DecodeRune bs)
            in (if r = RuneError \<and> w = 1 then CHR 0x5C # ''x'' @ [digit_char (hd bs div 16), digit_char (hd bs mod 16)]
                else if r < 0x80 then quote_ascii r
                else map char_of (take w bs)) @ quote_bytes (drop w bs)))"
  by pat_completeness auto
termination
proof (relation "measure length", simp)
  fix bs :: "nat list" and x xa
  assume "bs \<noteq> []" "x = fst (DecodeRune bs)" "xa = snd (DecodeRune bs)"
  then show "(drop xa bs, bs) \<in> measure length" using DecodeRune_width [of bs] by simp
qed

declare quote_bytes.simps [simp del]

definition Quote :: "string \<Rightarrow> string" where
  "Quote s = CHR 0x22 # quote_bytes (map of_char s) @ [CHR 0x22]"

subsection \<open>Error values\<close>

record CommandError =
  ce_Addr :: string
  ce_Cmd :: string
  ce_StderrText :: string
  ce_Exit :: int

datatype go_error =
    ErrorString string
  | CommandErr CommandError
  | Wrapped string go_error

definition Stderr :: "CommandError \<Rightarrow> string" where
  "Stderr e = TrimSpace (ce_StderrText e)"

definition CommandError_Error :: "CommandError \<Rightarrow> string" where
  "CommandError_Error e =
     ''router '' @ ce_Addr e @ '': '' @ ce_Cmd e @ '' exited '' @ show_int (ce_Exit e) @ '': '' @ Stderr e"

fun Error :: "go_error \<Rightarrow> string" where
  "Error (ErrorString m) = m"
| "Error (CommandErr e) = CommandError_Error e"
| "Error (Wrapped m e) = m @ '': '' @ Error e"

fun as_CommandError :: "go_error \<Rightarrow> CommandError option" where
  "as_CommandError (ErrorString m) = None"
| "as_CommandError (CommandErr e) = Some e"
| "as_CommandError (Wrapped m e) = as_CommandError e"

text \<open>The reasons \<^verbatim>\<open>netip.ParseAddr\<close> gives (without the trailing position).\<close>

fun parse_reason :: "parse_addr_error \<Rightarrow> string" where
  "parse_reason UnableToParse = ''unable to parse IP''"
| "parse_reason MissingIPv6 = ''missing IPv6 address''"
| "parse_reason LeadingZero = ''IPv4 field has octet with leading zero''"
| "parse_reason OctetTooBig = ''IPv4 field has value >255''"
| "parse_reason FieldNeedsDigit = ''IPv4 field must have at least one digit''"
| "parse_reason IPv4TooLong = ''IPv4 address too long''"
| "parse_reason UnexpectedChar = ''unexpected character''"
| "parse_reason IPv4TooShort = ''IPv4 address too short''"
| "parse_reason EmptyZone = ''zone must be a non-empty string''"
| "parse_reason TooManyDigits = ''each group must have 4 or fewer digits''"
| "parse_reason FieldTooBig = ''IPv6 field has value >=2^16''"
| "parse_reason HexNeedsDigit = ''each colon-separated field must have at least one digit''"
| "parse_reason EmbeddedPlace = ''embedded IPv4 address must replace the final 2 fields of the address''"
| "parse_reason EmbeddedRoom = ''too many hex fields to fit an embedded IPv4 at the end of the address''"
| "parse_reason WantColon = ''unexpected character, want colon''"
| "parse_reason ColonAtEnd = ''colon must be followed by more characters''"
| "parse_reason MultipleEllipsis = ''multiple :: in address''"
| "parse_reason TrailingGarbage = ''trailing garbage after address''"
| "parse_reason IPv6TooShort = ''address string too short''"
| "parse_reason EllipsisNoZeros = ''the :: must expand to at least one field of zeros''"

definition ParseAddrError :: "string \<Rightarrow> parse_addr_error \<Rightarrow> go_error" where
  "ParseAddrError s why = ErrorString (''ParseAddr('' @ Quote s @ ''): '' @ parse_reason why)"

end
