(* ===== verification/Store_Types.thy ===== *)
theory Store_Types
  imports Prelude
begin

section \<open>The snapshot types of package store\<close>

text \<open>
  The records of \<^verbatim>\<open>internal/store/types.go\<close>, field by field (a field \<^verbatim>\<open>F\<close> of a struct is the record
  field with the struct's prefix), and the \<open>Store\<close> that holds the current snapshot. A Go pointer
  that may be nil is an \<open>option\<close>. The snapshot values are immutable in the program, so the model
  shares them freely. The zero values of the string enumerations (Go's empty string) are the
  constructors \<open>NodeTypeZero\<close> and \<open>RouterStateZero\<close>.
\<close>

datatype NodeType = NodeExitNode | NodeRouter | NodeGeneric | NodeTypeZero

record NodeView =
  nv_StableID :: string
  nv_Name :: string
  nv_Hostname :: string
  nv_TailscaleIPs :: "string list"
  nv_OS :: string
  nv_Online :: bool
  nv_LastSeen :: time
  nv_ExitNodeOption :: bool
  nv_Tags :: "string list"
  nv_Type :: NodeType
  nv_IsSelf :: bool

record ExitNodeRef =
  er_StableID :: string
  er_Name :: string
  er_IP :: string

datatype RouterState =
    RouterOK | RouterPending | RouterUnconfirmed | RouterUnreachable
  | RouterAwaitingKeep | RouterUnprobed | RouterStateZero

record RouterStats =
  rs_RxBytes :: int
  rs_TxBytes :: int
  rs_LastHandshake :: time

record RouterRuntime =
  rt_Current :: "ExitNodeRef option"
  rt_Options :: "ExitNodeRef list"
  rt_Stats :: RouterStats
  rt_Online :: bool

record RouterView =
  rv_Node :: NodeView
  rv_CurrentExitNode :: "ExitNodeRef option"
  rv_Desired :: "ExitNodeRef option"
  rv_State :: RouterState
  rv_Stats :: RouterStats
  rv_Reachable :: bool
  rv_LastError :: string
  rv_LastConfirmedAt :: time
  rv_DesiredSince :: time
  rv_RevertAt :: time
  rv_EgressOK :: "bool option"
  rv_EgressDetail :: string
  rv_EgressCheckedAt :: time

record ProbeResult =
  pr_OK :: bool
  pr_DurationMs :: int
  pr_Output :: string
  pr_Error :: string
  pr_CheckedAt :: time

record Group =
  g_ID :: string
  g_Name :: string
  g_Consumers :: "string list"
  g_AllowedExitNodes :: "string list"

record Guest =
  gu_ID :: string
  gu_Label :: string
  gu_ZoneID :: string
  gu_Disabled :: bool
  gu_CreatedAt :: time

record GroupMember =
  gm_StableID :: string
  gm_Name :: string
  gm_IP :: string
  gm_Online :: bool
  gm_Present :: bool

record GroupView =
  gv_ID :: string
  gv_Name :: string
  gv_Consumers :: "GroupMember list"
  gv_AllowedExitNodes :: "GroupMember list"

record Snapshot =
  sn_Nodes :: "NodeView list"
  sn_Routers :: "RouterView list"
  sn_Groups :: "GroupView list"
  sn_NetmapAt :: time
  sn_NetmapErr :: string
  sn_BuiltAt :: time

subsection \<open>Zero values\<close>

definition zero_NodeView :: NodeView where
  "zero_NodeView = \<lparr>nv_StableID = [], nv_Name = [], nv_Hostname = [], nv_TailscaleIPs = [], nv_OS = [],
     nv_Online = False, nv_LastSeen = zero_time, nv_ExitNodeOption = False, nv_Tags = [],
     nv_Type = NodeTypeZero, nv_IsSelf = False\<rparr>"

definition zero_RouterStats :: RouterStats where
  "zero_RouterStats = \<lparr>rs_RxBytes = 0, rs_TxBytes = 0, rs_LastHandshake = zero_time\<rparr>"

definition zero_RouterRuntime :: RouterRuntime where
  "zero_RouterRuntime = \<lparr>rt_Current = None, rt_Options = [], rt_Stats = zero_RouterStats, rt_Online = False\<rparr>"

definition zero_RouterView :: RouterView where
  "zero_RouterView = \<lparr>rv_Node = zero_NodeView, rv_CurrentExitNode = None, rv_Desired = None,
     rv_State = RouterStateZero, rv_Stats = zero_RouterStats, rv_Reachable = False, rv_LastError = [],
     rv_LastConfirmedAt = zero_time, rv_DesiredSince = zero_time, rv_RevertAt = zero_time,
     rv_EgressOK = None, rv_EgressDetail = [], rv_EgressCheckedAt = zero_time\<rparr>"

subsection \<open>The Store\<close>

text \<open>
  \<^verbatim>\<open>store.Store\<close> is an atomic pointer to the current snapshot: its value in the model is that
  snapshot. \<open>store_New\<close> pre-populates it, so that \<open>Load\<close> never yields nil.
\<close>

definition store_New :: "time \<Rightarrow> Snapshot" where
  "store_New now = \<lparr>sn_Nodes = [], sn_Routers = [], sn_Groups = [], sn_NetmapAt = zero_time,
     sn_NetmapErr = [], sn_BuiltAt = now\<rparr>"

end
