(* ===== verification/Router_Commands.thy ===== *)
theory Router_Commands
  imports Go_Errors Store_Types
begin

section \<open>Package router: the command strings\<close>

text \<open>
  The pure part of \<^verbatim>\<open>internal/router/router.go\<close>: the shell commands tsctl sends to a router, the
  validation of what is interpolated into them, the parser of the egress marker, the capped output
  buffer and the default port. The theorems state that nothing a peer or an operator can choose (an
  exit-node address, a probe URL) leaves the place in the command line it is meant for.
\<close>

subsection \<open>Commands\<close>

abbreviation revertWindowSeconds :: nat where "revertWindowSeconds \<equiv> 60"

definition RevertWindow :: duration where
  "RevertWindow = int revertWindowSeconds * second"

abbreviation dquote :: string where "dquote \<equiv> [CHR 0x22]"
abbreviation squote :: string where "squote \<equiv> [CHR 0x27]"

definition statusCmd :: string where
  "statusCmd = ''tailscale status --json''"

definition probeCmd :: string where
  "probeCmd = ''{ uname -snr; cat /proc/uptime; cat /proc/loadavg; awk '' @ squote @
     ''/^MemTotal:|^MemAvailable:/{print $1, $2, $3}'' @ squote @ '' /proc/meminfo; } 2>&1; true''"

text \<open>The script the armed timer runs, and the command that arms it.\<close>

definition revert_script :: "string \<Rightarrow> string \<Rightarrow> string" where
  "revert_script marker prevArg =
     ''sleep '' @ show_nat revertWindowSeconds @ ''; [ -f '' @ marker @ '' ] && exit 0; tailscale set --exit-node='' @ prevArg"

definition armCmd :: "string \<Rightarrow> string \<Rightarrow> string" where
  "armCmd marker prevArg =
     ''nohup sh -c '' @ squote @ revert_script marker prevArg @ squote @ '' >/dev/null 2>&1 &''"

definition applyCmd :: "string \<Rightarrow> bool \<Rightarrow> bool option \<Rightarrow> string" where
  "applyCmd targetArg setting lanAccess =
     (let cmd = ''tailscale set --exit-node='' @ targetArg
      in case (setting, lanAccess) of
           (True, Some v) \<Rightarrow> cmd @ '' --exit-node-allow-lan-access='' @ (if v then ''true'' else ''false'')
         | _ \<Rightarrow> cmd)"

definition keepCmd :: "string \<Rightarrow> string" where
  "keepCmd marker = '': > '' @ marker"

definition defaultMarker :: "time \<Rightarrow> nat \<Rightarrow> string" where
  "defaultMarker unixNano r = ''/tmp/tsctl-keep-'' @ show_int unixNano @ ''-'' @ show_hex r"

subsection \<open>The exit-node argument\<close>

definition exitArg :: "ExitNodeRef option \<Rightarrow> go_error + string" where
  "exitArg ref =
     (case ref of
        None \<Rightarrow> Inr []
      | Some r \<Rightarrow>
          if er_IP r = [] then Inr []
          else case ParseAddr (er_IP r) of
              Inl why \<Rightarrow> Inl (Wrapped (''invalid exit-node IP '' @ Quote (er_IP r)) (ParseAddrError (er_IP r) why))
            | Inr a \<Rightarrow>
                if Zone a \<noteq> [] then
                  Inl (ErrorString (''invalid exit-node IP '' @ Quote (er_IP r) @ '': zone identifiers are not allowed''))
                else if \<not> Is4 (Unmap a) then
                  Inl (ErrorString (''invalid exit-node IP '' @ Quote (er_IP r) @
                    '': must be an IPv4 address (the router's 100.x)''))
                else Inr (addr_String (Unmap a)))"

definition describeArg :: "string \<Rightarrow> string" where
  "describeArg arg = (if arg = [] then ''(none)'' else arg)"

definition describeCurrent :: "RouterRuntime \<Rightarrow> string" where
  "describeCurrent rt = (case rt_Current rt of None \<Rightarrow> ''(none)'' | Some c \<Rightarrow> er_IP c)"

definition confirmed :: "RouterRuntime \<Rightarrow> string \<Rightarrow> bool \<Rightarrow> bool" where
  "confirmed rt targetArg setting \<longleftrightarrow>
     (if setting then (case rt_Current rt of None \<Rightarrow> False | Some c \<Rightarrow> er_IP c = targetArg)
      else rt_Current rt = None)"

subsection \<open>The egress probe\<close>

definition egressURLForbidden :: string where
  "egressURLForbidden =
     [CHR '' '', CHR 0x09, CHR 0x0A, CHR '';'', CHR ''|'', CHR ''&'', CHR ''$'', CHR 0x60, CHR ''<'', CHR ''>'',
      CHR ''('', CHR '')'', CHR 0x22, CHR 0x27, CHR 0x5C]"

definition ValidateEgressURL :: "string \<Rightarrow> go_error option" where
  "ValidateEgressURL url =
     (if \<not> HasPrefix url ''http://'' \<and> \<not> HasPrefix url ''https://'' then
        Some (ErrorString (''egress url '' @ Quote url @ '': must start with http:// or https://''))
      else case IndexAny url egressURLForbidden of
          Some i \<Rightarrow>
            Some (ErrorString (''egress url '' @ Quote url @ '': contains a forbidden character '' @
              Quote [url ! i] @ '' (no whitespace or shell metacharacters allowed)''))
        | None \<Rightarrow> None)"

definition egressCmd :: "string \<Rightarrow> string" where
  "egressCmd url =
     ''{ uclient-fetch -q -T 5 -O /dev/null '' @ dquote @ url @ dquote @ '' || wget -q -T 5 -O /dev/null '' @
     dquote @ url @ dquote @ ''; } 2>&1; echo '' @ dquote @ ''tsctl_egress_exit=$?'' @ dquote"

definition egressMarker :: string where
  "egressMarker = ''tsctl_egress_exit=''"

definition parseEgressExit :: "string \<Rightarrow> (int \<times> string) option" where
  "parseEgressExit out =
     (case LastIndex out egressMarker of
        None \<Rightarrow> None
      | Some idx \<Rightarrow>
          (case Atoi (TrimSpace (drop (idx + length egressMarker) out)) of
             None \<Rightarrow> None
           | Some n \<Rightarrow> Some (n, TrimSpace (take idx out))))"

subsection \<open>The capped buffer\<close>

record cappedBuffer =
  cb_buf :: string
  cb_max :: int
  cb_overflow :: bool

abbreviation maxOutputBytes :: int where "maxOutputBytes \<equiv> 4194304"

definition new_cappedBuffer :: cappedBuffer where
  "new_cappedBuffer = \<lparr>cb_buf = [], cb_max = maxOutputBytes, cb_overflow = False\<rparr>"

text \<open>\<^verbatim>\<open>Write\<close>: the number of bytes reported as consumed, and the buffer after.\<close>

definition cb_Write :: "cappedBuffer \<Rightarrow> string \<Rightarrow> nat \<times> cappedBuffer" where
  "cb_Write b p =
     (if cb_overflow b then (length p, b)
      else (let room = cb_max b - int (length (cb_buf b))
            in if int (length p) > room then
                 (length p,
                  (if room > 0 then b\<lparr>cb_buf := cb_buf b @ take (nat room) p\<rparr> else b)\<lparr>cb_overflow := True\<rparr>)
               else (length p, b\<lparr>cb_buf := cb_buf b @ p\<rparr>)))"

definition cb_writes :: "cappedBuffer \<Rightarrow> string list \<Rightarrow> cappedBuffer" where
  "cb_writes b ps = foldl (\<lambda>b p. snd (cb_Write b p)) b ps"

subsection \<open>Endpoints\<close>

definition ensurePort :: "string \<Rightarrow> string" where
  "ensurePort endpoint =
     (case SplitHostPort endpoint of Inr _ \<Rightarrow> endpoint | Inl _ \<Rightarrow> JoinHostPort endpoint ''22'')"

subsection \<open>Shell safety of the exit-node commands\<close>

text \<open>
  \<open>dotted_quad s\<close>: \<open>s\<close> is the canonical rendering of an IPv4 address.
\<close>

definition dotted_quad :: "string \<Rightarrow> bool" where
  "dotted_quad s \<longleftrightarrow> (case ParseAddr s of Inr (Addr4 bs) \<Rightarrow> string4 bs = s | _ \<Rightarrow> False)"

lemma dotted_quad_string4: "wf_addr (Addr4 bs) \<Longrightarrow> dotted_quad (string4 bs)"
  by (simp add: dotted_quad_def ParseAddr_string4_wf)

lemma dotted_quad_chars:
  assumes "dotted_quad s" "c \<in> set s"
  shows "is_digit c \<or> c = CHR ''.''"
  using assms by (auto simp: dotted_quad_def split: sum.splits Addr.splits dest: string4_chars)

lemma dotted_quad_not_Nil: "dotted_quad s \<Longrightarrow> s \<noteq> []"
  by (auto simp: dotted_quad_def ParseAddr_def)

lemma exitArg_set_dotted_quad: "exitArg (Some r) = Inr s \<Longrightarrow> er_IP r \<noteq> [] \<Longrightarrow> dotted_quad s"
proof -
  assume e: "exitArg (Some r) = Inr s" "er_IP r \<noteq> []"
  have "dotted_quad (addr_String (Unmap a))" if "ParseAddr ip = Inr a" "Is4 (Unmap a)" for ip a
    using Unmap_wf [OF ParseAddr_wf [OF that(1)]] that(2)
    by (cases "Unmap a") (auto simp: dotted_quad_string4)
  with e show ?thesis by (auto simp: exitArg_def split: sum.splits if_splits)
qed

lemma exitArg_dotted_quad: "exitArg ref = Inr s \<Longrightarrow> s = [] \<or> dotted_quad s"
  using exitArg_set_dotted_quad by (cases ref) (auto simp: exitArg_def split: if_splits)

lemma exitArg_of_dotted_quad:
  assumes "dotted_quad (er_IP r)"
  shows "exitArg (Some r) = Inr (er_IP r)"
  using assms dotted_quad_not_Nil [OF assms]
  by (auto simp: exitArg_def dotted_quad_def split: sum.splits Addr.splits)

lemma exitArg_None [simp]: "exitArg None = Inr []"
  by (simp add: exitArg_def)

text \<open>
  The characters of a keep-marker and of an exit-node argument: digits, letters, slash, dot, dash.
  None of them means anything to the shell.
\<close>

definition word_char :: "char \<Rightarrow> bool" where
  "word_char c \<longleftrightarrow> is_digit c \<or> (97 \<le> (of_char c :: nat) \<and> (of_char c :: nat) \<le> 122) \<or> c \<in> set ''/.-''"

lemma word_char_not_meta:
  "word_char c \<Longrightarrow> c \<notin> set egressURLForbidden"
  by (auto simp: word_char_def egressURLForbidden_def is_digit_def)

lemma show_hex_word: "\<forall>c \<in> set (show_hex n). word_char c"
proof (induction "16 :: nat" n rule: show_base.induct)
  case (1 n)
  have d: "word_char (digit_char k)" if "k < 16" for k
    using that by (auto simp: digit_char_def word_char_def is_digit_def)
  show ?case
    using 1 d [of "n mod 16"] d [of n] by (subst show_base.simps) auto
qed

lemma show_int_word: "\<forall>c \<in> set (show_int i). word_char c"
  using show_nat_digits by (auto simp: show_int_def word_char_def)

lemma defaultMarker_word: "\<forall>c \<in> set (defaultMarker t r). word_char c"
  using show_int_word [of t] show_hex_word [of r]
  by (auto simp: defaultMarker_def word_char_def is_digit_def)

lemma defaultMarker_not_Nil [simp]: "defaultMarker t r \<noteq> []"
  by (simp add: defaultMarker_def)

lemma exitArg_word: "exitArg ref = Inr s \<Longrightarrow> \<forall>c \<in> set s. word_char c"
  using exitArg_dotted_quad [of ref s] dotted_quad_chars [of s] by (auto simp: word_char_def)

lemma revert_script_chars:
  assumes "\<forall>c \<in> set m. word_char c" "\<forall>c \<in> set p. word_char c"
  shows "CHR 0x27 \<notin> set (revert_script m p)"
  using assms show_nat_digits [of 60]
  by (auto simp: revert_script_def dest: word_char_not_meta) (auto simp: is_digit_def word_char_def)

lemma revert_script_commands:
  assumes "\<forall>c \<in> set m. word_char c" "\<forall>c \<in> set p. word_char c"
  shows "Split (revert_script m p) CHR '';'' =
    [''sleep 60'', '' [ -f '' @ m @ '' ] && exit 0'', '' tailscale set --exit-node='' @ p]"
proof -
  have mp: "CHR '';'' \<notin> set m" "CHR '';'' \<notin> set p"
    using assms word_char_not_meta [of "CHR '';''"] by (auto simp: egressURLForbidden_def)
  have n: "show_nat 60 = ''60''" by code_simp
  have "revert_script m p = ''sleep 60'' @ CHR '';'' # ('' [ -f '' @ m @ '' ] && exit 0'') @ CHR '';'' # '' tailscale set --exit-node='' @ p"
    by (simp add: revert_script_def n)
  then show ?thesis
    using mp Split_append [of "CHR '';''" "''sleep 60''"]
      Split_append [of "CHR '';''" "'' [ -f '' @ m @ '' ] && exit 0''"]
      Split_none [of "CHR '';''" "'' tailscale set --exit-node='' @ p"]
    by simp
qed

text \<open>
  C26 (safety, no shell injection). Whatever string a peer reports as its address, the exit-node
  argument is either empty or a canonical dotted IPv4 address, and in the arming command the script
  between the single quotes is exactly the intended three commands: sleep for the window, stop if the
  marker exists, set the previous exit node. The apply command contains no shell metacharacter.
\<close>

theorem exit_commands_shell_safe:
  assumes "exitArg ref = Inr arg"
  shows "(arg = [] \<or> dotted_quad arg) \<and>
    Cut (drop (length (''nohup sh -c '' @ squote)) (armCmd (defaultMarker t r) arg)) (CHR 0x27) =
      (revert_script (defaultMarker t r) arg, '' >/dev/null 2>&1 &'', True) \<and>
    Split (revert_script (defaultMarker t r) arg) CHR '';'' =
      [''sleep 60'', '' [ -f '' @ defaultMarker t r @ '' ] && exit 0'', '' tailscale set --exit-node='' @ arg] \<and>
    set (applyCmd arg (arg \<noteq> []) lan) \<inter> (set egressURLForbidden - {CHR '' ''}) = {}"
proof (intro conjI)
  note w = defaultMarker_word [of t r] exitArg_word [OF assms]
  show "arg = [] \<or> dotted_quad arg" using exitArg_dotted_quad [OF assms] .
  show "Cut (drop (length (''nohup sh -c '' @ squote)) (armCmd (defaultMarker t r) arg)) (CHR 0x27) =
      (revert_script (defaultMarker t r) arg, '' >/dev/null 2>&1 &'', True)"
    using Cut_append [OF revert_script_chars [OF w], of "'' >/dev/null 2>&1 &''"] by (simp add: armCmd_def)
  show "Split (revert_script (defaultMarker t r) arg) CHR '';'' =
      [''sleep 60'', '' [ -f '' @ defaultMarker t r @ '' ] && exit 0'', '' tailscale set --exit-node='' @ arg]"
    by (rule revert_script_commands [OF w])
  show "set (applyCmd arg (arg \<noteq> []) lan) \<inter> (set egressURLForbidden - {CHR '' ''}) = {}"
    using w(2) by (auto simp: applyCmd_def Let_def egressURLForbidden_def word_char_def is_digit_def
        split: bool.splits option.splits)
qed

theorem exit_commands_shell_safe_witness:
  "exitArg (Some \<lparr>er_StableID = ''n'', er_Name = ''x'', er_IP = ''100.64.0.7''\<rparr>) = Inr ''100.64.0.7'' \<and>
   Split (revert_script (defaultMarker 17 255) ''100.64.0.7'') CHR '';'' =
     [''sleep 60'', '' [ -f '' @ defaultMarker 17 255 @ '' ] && exit 0'', '' tailscale set --exit-node=100.64.0.7'']"
proof -
  have "exitArg (Some \<lparr>er_StableID = ''n'', er_Name = ''x'', er_IP = ''100.64.0.7''\<rparr>) = Inr ''100.64.0.7''"
    by code_simp
  with exit_commands_shell_safe [OF this] show ?thesis by simp
qed

subsection \<open>Shell safety of the egress probe\<close>

text \<open>
  Reading a double-quoted word as the shell does, starting after the opening quote: the word and what
  follows the closing quote. A dollar, a backtick or a backslash would start an expansion or an
  escape; the reader then gives up (\<open>None\<close>).
\<close>

fun dq_word :: "string \<Rightarrow> (string \<times> string) option" where
  "dq_word [] = None"
| "dq_word (c # s) =
     (if c = CHR 0x22 then Some ([], s)
      else if c \<in> {CHR ''$'', CHR 0x60, CHR 0x5C} then None
      else map_option (\<lambda>(w, r). (c # w, r)) (dq_word s))"

lemma dq_word_append:
  "set w \<inter> {CHR 0x22, CHR ''$'', CHR 0x60, CHR 0x5C} = {} \<Longrightarrow> dq_word (w @ CHR 0x22 # r) = Some (w, r)"
  by (induction w) auto

lemma ValidateEgressURL_None_iff:
  "ValidateEgressURL url = None \<longleftrightarrow>
     (HasPrefix url ''http://'' \<or> HasPrefix url ''https://'') \<and> set url \<inter> set egressURLForbidden = {}"
  by (auto simp: ValidateEgressURL_def IndexAny_def split: option.splits dest!: index_of_SomeD)
    (metis disjoint_iff nth_mem)+

text \<open>
  No shell injection. A validated URL is read back by the shell as one word, at both
  places where the probe command mentions it, and the text around it is the template's: the URL can
  neither close its quotes nor start an expansion.
\<close>

theorem egress_url_quoted:
  assumes "ValidateEgressURL url = None"
  shows "dq_word (drop (length (''{ uclient-fetch -q -T 5 -O /dev/null '' @ dquote)) (egressCmd url)) =
      Some (url, '' || wget -q -T 5 -O /dev/null '' @ dquote @ url @ dquote @
        ''; } 2>&1; echo '' @ dquote @ ''tsctl_egress_exit=$?'' @ dquote) \<and>
    dq_word (url @ dquote @ ''; } 2>&1; echo '' @ dquote @ ''tsctl_egress_exit=$?'' @ dquote) =
      Some (url, ''; } 2>&1; echo '' @ dquote @ ''tsctl_egress_exit=$?'' @ dquote)"
proof -
  have "set url \<inter> {CHR 0x22, CHR ''$'', CHR 0x60, CHR 0x5C} = {}"
    using assms by (auto simp: ValidateEgressURL_None_iff egressURLForbidden_def)
  note q = dq_word_append [OF this]
  show ?thesis by (simp add: egressCmd_def q)
qed

theorem egress_url_quoted_witness:
  "ValidateEgressURL ''https://example.com/x?y=1'' = None \<and>
   dq_word (drop (length (''{ uclient-fetch -q -T 5 -O /dev/null '' @ dquote)) (egressCmd ''https://example.com/x?y=1'')) \<noteq> None"
proof -
  have "ValidateEgressURL ''https://example.com/x?y=1'' = None" by code_simp
  with egress_url_quoted [OF this] show ?thesis by simp
qed

text \<open>
  What the probe command echoes is read back: for any output \<open>out\<close> of the fetch,
  followed by the marker line with exit code \<open>n\<close>, the parser yields \<open>n\<close> and the trimmed output, even
  when the output itself contains marker lines.
\<close>

lemma parseEgressExit_roundtrip:
  assumes "n < 2 ^ 63"
  shows "parseEgressExit (out @ egressMarker @ show_nat n @ [CHR 0x0A]) = Some (int n, TrimSpace out)"
proof -
  have t: "CHR ''t'' \<notin> set (show_nat n @ [CHR 0x0A])"
    using show_nat_digits [of n] by (auto simp: is_digit_def)
  then have "LastIndex (show_nat n @ [CHR 0x0A]) egressMarker = None"
    by (intro LastIndex_absent) (auto simp: egressMarker_def)
  then have "LastIndex (egressMarker @ show_nat n @ [CHR 0x0A]) egressMarker = Some 0"
    by (simp add: egressMarker_def HasPrefix_def)
  then have "LastIndex (out @ egressMarker @ show_nat n @ [CHR 0x0A]) egressMarker = Some (length out)"
    using LastIndex_append_Some by fastforce
  moreover have "TrimSpace (show_nat n @ [CHR 0x0A]) = show_nat n"
  proof (rule TrimSpace_newline)
    show "visible (hd (show_nat n))" "visible (last (show_nat n))"
      using show_nat_digits [of n] by (auto intro!: is_digit_visible)
  qed simp
  ultimately show ?thesis
    using Atoi_show_nat [OF assms] by (simp add: parseEgressExit_def)
qed

subsection \<open>The captured output is bounded\<close>

lemma cb_writes_state:
  assumes "cb_overflow b \<longrightarrow> int (length (cb_buf b)) = cb_max b" "int (length (cb_buf b)) \<le> cb_max b"
  shows "cb_max (cb_writes b ps) = cb_max b \<and>
    cb_buf (cb_writes b ps) = take (nat (cb_max b)) (cb_buf b @ concat ps) \<and>
    (cb_overflow (cb_writes b ps) \<longleftrightarrow> cb_overflow b \<or> int (length (cb_buf b @ concat ps)) > cb_max b)"
  using assms
proof (induction ps arbitrary: b)
  case Nil
  then show ?case by (auto simp: cb_writes_def)
next
  case (Cons p ps)
  let ?b = "snd (cb_Write b p)"
  have step: "cb_writes b (p # ps) = cb_writes ?b ps" by (simp add: cb_writes_def)
  have inv: "cb_overflow ?b \<longrightarrow> int (length (cb_buf ?b)) = cb_max ?b" "int (length (cb_buf ?b)) \<le> cb_max ?b"
    using Cons.prems by (auto simp: cb_Write_def Let_def)
  have "cb_max ?b = cb_max b" by (simp add: cb_Write_def Let_def)
  moreover have "take (nat (cb_max b)) (cb_buf ?b @ concat ps) = take (nat (cb_max b)) (cb_buf b @ p @ concat ps)"
    using Cons.prems by (auto simp: cb_Write_def Let_def nat_diff_distrib take_append nat_le_iff)
  moreover have "(cb_overflow ?b \<or> int (length (cb_buf ?b @ concat ps)) > cb_max b) =
      (cb_overflow b \<or> int (length (cb_buf b @ p @ concat ps)) > cb_max b)"
    using Cons.prems by (auto simp: cb_Write_def Let_def)
  ultimately show ?case
    using Cons.IH [OF inv] by (simp add: step)
qed

text \<open>
  C35 (bounds). However a router chops its output into writes, the buffer holds exactly the first
  \<open>maxOutputBytes\<close> bytes of it, and the overflow flag is set exactly when there was more; every write
  reports its full length as consumed.
\<close>

theorem cappedBuffer_exact:
  "cb_buf (cb_writes new_cappedBuffer ps) = take (nat maxOutputBytes) (concat ps) \<and>
   (cb_overflow (cb_writes new_cappedBuffer ps) \<longleftrightarrow> int (length (concat ps)) > maxOutputBytes) \<and>
   (\<forall>b p. fst (cb_Write b p) = length p)"
  using cb_writes_state [of new_cappedBuffer ps]
  by (auto simp: new_cappedBuffer_def cb_Write_def Let_def)

subsection \<open>Endpoints always carry a port\<close>

text \<open>
  A LAN endpoint without square brackets gets a port: after \<open>ensurePort\<close> it splits into
  a host and a port, with the given host and port 22 when none was given, and unchanged otherwise.
\<close>

lemma ensurePort_splits:
  assumes "CHR ''['' \<notin> set ep" and "CHR '']'' \<notin> set ep"
  shows "case SplitHostPort ep of
      Inl _ \<Rightarrow> SplitHostPort (ensurePort ep) = Inr (ep, ''22'')
    | Inr hp \<Rightarrow> ensurePort ep = ep"
  using SplitHostPort_JoinHostPort [of ep "''22''"] assms
  by (auto simp: ensurePort_def split: sum.splits)

text \<open>
  An IPv6 endpoint already written in brackets without a port
  becomes one with doubled brackets, which does not split into host and port any more.
\<close>

lemma ensurePort_bracketed:
  "ensurePort ''[fe80::1]'' = ''[[fe80::1]]:22'' \<and> (\<exists>e. SplitHostPort (ensurePort ''[fe80::1]'') = Inl e)"
proof -
  have "ensurePort ''[fe80::1]'' = ''[[fe80::1]]:22''" "SplitHostPort ''[[fe80::1]]:22'' = Inl MissingPort"
    by code_simp+
  then show ?thesis by simp
qed

end
