(* ===== verification/Netmap.thy ===== *)
theory Netmap
  imports Go_Errors Store_Types "HOL-Library.Multiset"
begin

section \<open>Package netmap: the inventory of the tailnet\<close>

text \<open>
  \<^verbatim>\<open>internal/netmap/netmap.go\<close>, and the part of Tailscale's \<^verbatim>\<open>ipnstate.Status\<close> that it and the
  router package read. \<^verbatim>\<open>Status.Peer\<close> is a Go map, iterated in an unspecified order: it is the list of
  its values in the order of one iteration (a nil value is \<open>None\<close>), and the theorems quantify over that
  order. \<^verbatim>\<open>sort.Slice\<close> is not stable; where keys are distinct, which the theorems assume, its result is
  that of the stable sort used here. The local API calls are parameters.
\<close>

record PeerStatus =
  ps_ID :: string
  ps_DNSName :: string
  ps_HostName :: string
  ps_OS :: string
  ps_TailscaleIPs :: "Addr list"
  ps_Online :: bool
  ps_LastSeen :: time
  ps_ExitNode :: bool
  ps_ExitNodeOption :: bool
  ps_Tags :: "string list option"
  ps_RxBytes :: int
  ps_TxBytes :: int
  ps_LastHandshake :: time

record ExitNodeStatus =
  xs_ID :: string
  xs_TailscaleIPs :: "Addr list"

record Status =
  st_Self :: "PeerStatus option"
  st_Peer :: "PeerStatus option list"
  st_ExitNodeStatus :: "ExitNodeStatus option"

definition routerTag :: string where
  "routerTag = ''tag:router''"

subsection \<open>The mapping\<close>

definition peerIPs :: "PeerStatus \<Rightarrow> string list" where
  "peerIPs p = map addr_String (ps_TailscaleIPs p)"

definition peerTags :: "PeerStatus \<Rightarrow> string list" where
  "peerTags p = (case ps_Tags p of None \<Rightarrow> [] | Some ts \<Rightarrow> ts)"

definition hasTag :: "PeerStatus \<Rightarrow> string \<Rightarrow> bool" where
  "hasTag p tag \<longleftrightarrow> (case ps_Tags p of None \<Rightarrow> False | Some ts \<Rightarrow> \<exists>t \<in> set ts. t = tag)"

definition classify :: "PeerStatus \<Rightarrow> NodeType" where
  "classify p =
     (if hasTag p routerTag then NodeRouter else if ps_ExitNodeOption p then NodeExitNode else NodeGeneric)"

definition mapPeer :: "PeerStatus \<Rightarrow> NodeView" where
  "mapPeer p = \<lparr>nv_StableID = ps_ID p, nv_Name = TrimSuffix (ps_DNSName p) ''.'', nv_Hostname = ps_HostName p,
     nv_TailscaleIPs = peerIPs p, nv_OS = ps_OS p, nv_Online = ps_Online p, nv_LastSeen = ps_LastSeen p,
     nv_ExitNodeOption = ps_ExitNodeOption p, nv_Tags = peerTags p, nv_Type = classify p, nv_IsSelf = False\<rparr>"

definition non_nil :: "'a option list \<Rightarrow> 'a list" where
  "non_nil xs = [x. Some x \<leftarrow> xs]"

definition buildInventory :: "Status option \<Rightarrow> NodeView list" where
  "buildInventory st =
     (case st of
        None \<Rightarrow> []
      | Some s \<Rightarrow>
          (let self = (case st_Self s of None \<Rightarrow> [] | Some p \<Rightarrow> [(mapPeer p)\<lparr>nv_IsSelf := True\<rparr>]);
               nodes = self @ map mapPeer (non_nil (st_Peer s))
           in sort_key nv_StableID nodes))"

definition Inventory :: "go_error + Status option \<Rightarrow> go_error + NodeView list" where
  "Inventory lc_status = map_sum id buildInventory lc_status"

subsection \<open>WhoIs\<close>

record WhoIsResponse =
  wi_Node :: "bool option"
  wi_UserProfile :: "string option"

text \<open>
  \<open>wi_Node\<close> is whether the node is tagged (\<^verbatim>\<open>Node.IsTagged()\<close>), if a node is given, and \<open>wi_UserProfile\<close> the
  login name, if a profile is given.
\<close>

definition WhoIs :: "(string \<Rightarrow> go_error + WhoIsResponse option) \<Rightarrow> string \<Rightarrow> go_error + string \<times> bool" where
  "WhoIs lc_WhoIs remoteAddr =
     (case lc_WhoIs remoteAddr of
        Inl e \<Rightarrow> Inl e
      | Inr None \<Rightarrow> Inl (ErrorString ''netmap: WhoIs returned a nil response'')
      | Inr (Some resp) \<Rightarrow>
          (let tagged = (case wi_Node resp of None \<Rightarrow> False | Some t \<Rightarrow> t);
               login = (case wi_UserProfile resp of None \<Rightarrow> [] | Some l \<Rightarrow> l)
           in Inr (login, tagged)))"

subsection \<open>Properties\<close>

lemma non_nil_filter: "non_nil xs = map the (filter (\<lambda>x. x \<noteq> None) xs)"
  by (induction xs) (auto simp: non_nil_def split: option.splits)

lemma mset_non_nil_cong: "mset xs = mset ys \<Longrightarrow> mset (non_nil xs) = mset (non_nil ys)"
  by (simp add: non_nil_filter mset_filter)

lemma sort_key_unique:
  assumes "mset xs = mset ys" and "distinct (map f xs)"
  shows "sort_key f xs = sort_key f ys"
proof (rule map_sorted_distinct_set_unique)
  have s: "set ys = set xs" using assms(1) mset_eq_setD by metis
  have d: "distinct (map f ys)" using assms by (metis mset_eq_imp_distinct_iff mset_map)
  show "inj_on f (set (sort_key f xs) \<union> set (sort_key f ys))"
    using assms(2) s by (simp add: distinct_map)
  show "distinct (map f (sort_key f xs))" "distinct (map f (sort_key f ys))"
    using assms(2) d by (simp_all add: distinct_map)
qed (use assms mset_eq_setD in auto)

definition peer_ids :: "Status \<Rightarrow> string list" where
  "peer_ids s = (case st_Self s of None \<Rightarrow> [] | Some p \<Rightarrow> [ps_ID p]) @ map ps_ID (non_nil (st_Peer s))"

lemma nv_StableID_mapPeer [simp]: "nv_StableID (mapPeer p) = ps_ID p"
  by (simp add: mapPeer_def)

lemma buildInventory_mem:
  "n \<in> set (buildInventory (Some s)) \<longleftrightarrow>
     (\<exists>p. st_Self s = Some p \<and> n = (mapPeer p)\<lparr>nv_IsSelf := True\<rparr>) \<or> (\<exists>p. Some p \<in> set (st_Peer s) \<and> n = mapPeer p)"
  by (force simp: buildInventory_def Let_def non_nil_filter split: option.splits)

text \<open>
  The inventory does not depend on the iteration order of the peer map: for any two
  orders of the same peers it is the same list, sorted by identifier, with one entry per peer and one
  for the node itself, which alone carries the self mark.
\<close>

theorem buildInventory_deterministic:
  assumes "distinct (peer_ids s)" and "mset peers = mset (st_Peer s)"
  shows "buildInventory (Some (s\<lparr>st_Peer := peers\<rparr>)) = buildInventory (Some s) \<and>
    sorted (map nv_StableID (buildInventory (Some s))) \<and>
    mset (map nv_StableID (buildInventory (Some s))) = mset (peer_ids s) \<and>
    (\<forall>n \<in> set (buildInventory (Some s)). nv_IsSelf n \<longleftrightarrow> (\<exists>p. st_Self s = Some p \<and> nv_StableID n = ps_ID p))"
proof (intro conjI)
  let ?nodes = "\<lambda>ps. (case st_Self s of None \<Rightarrow> [] | Some p \<Rightarrow> [(mapPeer p)\<lparr>nv_IsSelf := True\<rparr>]) @ map mapPeer (non_nil ps)"
  have ids: "map nv_StableID (?nodes (st_Peer s)) = peer_ids s"
    by (simp add: peer_ids_def comp_def split: option.splits)
  have "mset (?nodes peers) = mset (?nodes (st_Peer s))"
    using mset_non_nil_cong [OF assms(2)] by simp
  then have "sort_key nv_StableID (?nodes (st_Peer s)) = sort_key nv_StableID (?nodes peers)"
    using assms(1) by (intro sort_key_unique) (simp_all only: ids)
  then show "buildInventory (Some (s\<lparr>st_Peer := peers\<rparr>)) = buildInventory (Some s)"
    by (simp add: buildInventory_def Let_def)
  show "sorted (map nv_StableID (buildInventory (Some s)))"
    by (simp add: buildInventory_def Let_def)
  show "mset (map nv_StableID (buildInventory (Some s))) = mset (peer_ids s)"
    by (simp add: buildInventory_def Let_def ids [symmetric] del: map_append)
  show "\<forall>n \<in> set (buildInventory (Some s)). nv_IsSelf n \<longleftrightarrow> (\<exists>p. st_Self s = Some p \<and> nv_StableID n = ps_ID p)"
  proof
    fix n assume "n \<in> set (buildInventory (Some s))"
    then consider p where "st_Self s = Some p" "n = (mapPeer p)\<lparr>nv_IsSelf := True\<rparr>"
      | p where "Some p \<in> set (st_Peer s)" "n = mapPeer p"
      unfolding buildInventory_mem by blast
    then show "nv_IsSelf n \<longleftrightarrow> (\<exists>p. st_Self s = Some p \<and> nv_StableID n = ps_ID p)"
    proof cases
      case 1
      then show ?thesis by simp
    next
      case (2 p)
      then have "ps_ID p \<in> set (map ps_ID (non_nil (st_Peer s)))" by (force simp: non_nil_filter)
      with assms(1) have "st_Self s = Some q \<Longrightarrow> ps_ID p \<noteq> ps_ID q" for q by (auto simp: peer_ids_def)
      with 2 show ?thesis by (auto simp: mapPeer_def)
    qed
  qed
qed

definition example_peer :: "string \<Rightarrow> bool \<Rightarrow> PeerStatus" where
  "example_peer i exit = \<lparr>ps_ID = i, ps_DNSName = i @ ''.ts.net.'', ps_HostName = i, ps_OS = ''linux'',
     ps_TailscaleIPs = [Addr4 [100, 64, 0, 1]], ps_Online = True, ps_LastSeen = 0, ps_ExitNode = False,
     ps_ExitNodeOption = exit, ps_Tags = (if exit then None else Some [routerTag]), ps_RxBytes = 0, ps_TxBytes = 0,
     ps_LastHandshake = 0\<rparr>"

theorem buildInventory_deterministic_witness:
  "buildInventory (Some \<lparr>st_Self = Some (example_peer ''b'' False),
      st_Peer = [Some (example_peer ''c'' True), None, Some (example_peer ''a'' False)], st_ExitNodeStatus = None\<rparr>) =
   buildInventory (Some \<lparr>st_Self = Some (example_peer ''b'' False),
      st_Peer = [Some (example_peer ''a'' False), Some (example_peer ''c'' True), None], st_ExitNodeStatus = None\<rparr>)"
  using buildInventory_deterministic
    [of "\<lparr>st_Self = Some (example_peer ''b'' False),
      st_Peer = [Some (example_peer ''a'' False), Some (example_peer ''c'' True), None], st_ExitNodeStatus = None\<rparr>"
      "[Some (example_peer ''c'' True), None, Some (example_peer ''a'' False)]"]
  by (simp add: peer_ids_def non_nil_filter example_peer_def)

end
