(* ===== verification/Router_Client.thy ===== *)
theory Router_Client
  imports Router_Commands Netmap
begin

section \<open>Package router: the client and the dead-man's switch\<close>

text \<open>
  The stateful part of \<^verbatim>\<open>internal/router/router.go\<close>. A command runner (\<^verbatim>\<open>commandRunner\<close>) acts on the
  world \<open>'w\<close>, everything outside the process, and either fails or reports output and exit code. Each
  client method holds the per-address lock for its whole duration, so here it is one operation on
  the router it talks to; \<open>Addr_Locks\<close> and \<open>Router_Calls\<close> show that concurrent calls amount to that. The decoding of
  \<^verbatim>\<open>tailscale status --json\<close> into \<^verbatim>\<open>ipnstate.Status\<close> is the parameter \<open>unmarshal\<close>, and \<open>marker\<close> is what
  \<^verbatim>\<open>newMarker()\<close> returns in the call.

  The interface the poller relies on is the locale \<open>router_client\<close>, interpreted on these definitions.
\<close>

datatype run_result = RunFailed go_error | Ran string string int

type_synonym 'w runner = "string \<Rightarrow> string \<Rightarrow> 'w \<Rightarrow> run_result \<times> 'w"

subsection \<open>Parsing the status\<close>

definition trimDNSName :: "string \<Rightarrow> string" where
  "trimDNSName s = TrimSuffix s ''.''"

definition firstIPv4Addr :: "Addr list \<Rightarrow> string" where
  "firstIPv4Addr addrs =
     (case List.find (\<lambda>a. Is4 (Unmap a)) addrs of None \<Rightarrow> [] | Some a \<Rightarrow> addr_String (Unmap a))"

definition peerToRef :: "PeerStatus \<Rightarrow> ExitNodeRef" where
  "peerToRef p = \<lparr>er_StableID = ps_ID p, er_Name = trimDNSName (ps_DNSName p), er_IP = firstIPv4Addr (ps_TailscaleIPs p)\<rparr>"

definition peer_stats :: "PeerStatus \<Rightarrow> RouterStats" where
  "peer_stats p = \<lparr>rs_RxBytes = ps_RxBytes p, rs_TxBytes = ps_TxBytes p, rs_LastHandshake = ps_LastHandshake p\<rparr>"

text \<open>The in-use peer: the last one the loop sees with its exit-node bit set.\<close>

definition current_peer :: "PeerStatus list \<Rightarrow> PeerStatus option" where
  "current_peer peers = List.find ps_ExitNode (rev peers)"

definition fallback_ref :: "PeerStatus list \<Rightarrow> ExitNodeStatus \<Rightarrow> ExitNodeRef \<times> RouterStats" where
  "fallback_ref peers x =
     (let ref = \<lparr>er_StableID = xs_ID x, er_Name = [], er_IP = firstIPv4Addr (xs_TailscaleIPs x)\<rparr>
      in case List.find (\<lambda>p. ps_ID p = xs_ID x) peers of
           None \<Rightarrow> (ref, zero_RouterStats)
         | Some p \<Rightarrow>
             (ref\<lparr>er_Name := trimDNSName (ps_DNSName p),
                  er_IP := (if er_IP ref = [] then firstIPv4Addr (ps_TailscaleIPs p) else er_IP ref)\<rparr>,
              peer_stats p))"

definition runtime_of :: "Status \<Rightarrow> RouterRuntime" where
  "runtime_of st =
     (let peers = non_nil (st_Peer st);
          rt = zero_RouterRuntime
            \<lparr>rt_Online := (case st_Self st of None \<Rightarrow> False | Some p \<Rightarrow> ps_Online p),
             rt_Options := sort_key er_StableID (map peerToRef (filter ps_ExitNodeOption peers))\<rparr>
      in case current_peer peers of
           Some p \<Rightarrow> rt\<lparr>rt_Current := Some (peerToRef p), rt_Stats := peer_stats p\<rparr>
         | None \<Rightarrow>
             (case st_ExitNodeStatus st of
                Some x \<Rightarrow> rt\<lparr>rt_Current := Some (fst (fallback_ref peers x)), rt_Stats := snd (fallback_ref peers x)\<rparr>
              | None \<Rightarrow> rt))"

definition ParseStatus :: "(string \<Rightarrow> go_error + Status) \<Rightarrow> string \<Rightarrow> go_error + RouterRuntime" where
  "ParseStatus unmarshal raw =
     (case unmarshal raw of
        Inl e \<Rightarrow> Inl (Wrapped ''router: parse tailscale status --json'' e)
      | Inr st \<Rightarrow> Inr (runtime_of st))"

subsection \<open>Commands\<close>

definition routerErr :: "string \<Rightarrow> string \<Rightarrow> go_error \<Rightarrow> go_error" where
  "routerErr addr what e = Wrapped (''router '' @ addr @ '': '' @ what) e"

definition status :: "'w runner \<Rightarrow> (string \<Rightarrow> go_error + Status) \<Rightarrow> string \<Rightarrow> 'w \<Rightarrow> (go_error + RouterRuntime) \<times> 'w" where
  "status run unmarshal addr w =
     (case run addr statusCmd w of
        (RunFailed e, w') \<Rightarrow> (Inl (routerErr addr ''status'' e), w')
      | (Ran out err ex, w') \<Rightarrow>
          if ex \<noteq> 0 then
            (Inl (CommandErr \<lparr>ce_Addr = addr, ce_Cmd = Quote statusCmd, ce_StderrText = err, ce_Exit = ex\<rparr>), w')
          else (ParseStatus unmarshal out, w'))"

text \<open>One command of the switch whose output is not used: the error it gives, if any.\<close>

definition run_step :: "'w runner \<Rightarrow> string \<Rightarrow> string \<Rightarrow> string \<Rightarrow> 'w \<Rightarrow> go_error option \<times> 'w" where
  "run_step run addr cmd what w =
     (case run addr cmd w of
        (RunFailed e, w') \<Rightarrow> (Some (routerErr addr what e), w')
      | (Ran out err ex, w') \<Rightarrow>
          if ex \<noteq> 0 then
            (Some (CommandErr \<lparr>ce_Addr = addr, ce_Cmd = what, ce_StderrText = err, ce_Exit = ex\<rparr>), w')
          else (None, w'))"

definition KeepExitNode :: "'w runner \<Rightarrow> string \<Rightarrow> string \<Rightarrow> 'w \<Rightarrow> go_error option \<times> 'w" where
  "KeepExitNode run addr marker w = run_step run addr (keepCmd marker) ''keep marker (revert may fire)'' w"

definition ApplyExitNode ::
    "'w runner \<Rightarrow> (string \<Rightarrow> go_error + Status) \<Rightarrow> bool option \<Rightarrow> string \<Rightarrow>
     string \<Rightarrow> ExitNodeRef option \<Rightarrow> ExitNodeRef option \<Rightarrow> bool \<Rightarrow> 'w \<Rightarrow>
     (RouterRuntime \<times> string \<times> go_error option) \<times> 'w" where
  "ApplyExitNode run unmarshal lanAccess marker addr target prev autoKeep w =
     (case exitArg target of
        Inl e \<Rightarrow> ((zero_RouterRuntime, [], Some (routerErr addr ''target'' e)), w)
      | Inr targetArg \<Rightarrow>
     (case exitArg prev of
        Inl e \<Rightarrow> ((zero_RouterRuntime, [], Some (routerErr addr ''prev'' e)), w)
      | Inr prevArg \<Rightarrow>
     (let setting = (targetArg \<noteq> [])
      in case run_step run addr (armCmd marker prevArg) ''arm revert'' w of
           (Some e, w1) \<Rightarrow> ((zero_RouterRuntime, [], Some e), w1)
         | (None, w1) \<Rightarrow>
      (case run_step run addr (applyCmd targetArg setting lanAccess) ''apply exit-node'' w1 of
           (Some e, w2) \<Rightarrow> ((zero_RouterRuntime, [], Some e), w2)
         | (None, w2) \<Rightarrow>
      (case status run unmarshal addr w2 of
           (Inl e, w3) \<Rightarrow>
             ((zero_RouterRuntime, [], Some (routerErr addr ''confirm read failed (revert will fire)'' e)), w3)
         | (Inr rt, w3) \<Rightarrow>
             if \<not> confirmed rt targetArg setting then
               ((rt, [], Some (ErrorString (''router '' @ addr @ '': exit-node not confirmed (revert will fire): want '' @
                  describeArg targetArg @ '', got '' @ describeCurrent rt))), w3)
             else if \<not> autoKeep then ((rt, marker, None), w3)
             else (case KeepExitNode run addr marker w3 of
                     (Some e, w4) \<Rightarrow> ((rt, [], Some e), w4)
                   | (None, w4) \<Rightarrow> ((rt, [], None), w4)))))))"

definition router_SetExitNode ::
    "'w runner \<Rightarrow> (string \<Rightarrow> go_error + Status) \<Rightarrow> bool option \<Rightarrow> string \<Rightarrow>
     string \<Rightarrow> ExitNodeRef option \<Rightarrow> ExitNodeRef option \<Rightarrow> 'w \<Rightarrow> (RouterRuntime \<times> go_error option) \<times> 'w" where
  "router_SetExitNode run unmarshal lanAccess marker addr target prev w =
     (case ApplyExitNode run unmarshal lanAccess marker addr target prev True w of
        ((rt, _, err), w') \<Rightarrow> ((rt, err), w'))"

definition router_Probe :: "'w runner \<Rightarrow> string \<Rightarrow> 'w \<Rightarrow> (go_error + string) \<times> 'w" where
  "router_Probe run addr w =
     (case run addr probeCmd w of
        (RunFailed e, w') \<Rightarrow> (Inl (routerErr addr ''probe'' e), w')
      | (Ran out err ex, w') \<Rightarrow>
          if ex \<noteq> 0 then
            (Inl (CommandErr \<lparr>ce_Addr = addr, ce_Cmd = ''probe'', ce_StderrText = err, ce_Exit = ex\<rparr>), w')
          else (Inr (TrimSpace out), w'))"

definition EgressProbe :: "'w runner \<Rightarrow> string \<Rightarrow> string \<Rightarrow> 'w \<Rightarrow> (go_error + bool \<times> string) \<times> 'w" where
  "EgressProbe run addr url w =
     (case ValidateEgressURL url of
        Some e \<Rightarrow> (Inl e, w)
      | None \<Rightarrow>
          (case run addr (egressCmd url) w of
             (RunFailed e, w') \<Rightarrow> (Inl (routerErr addr ''egress probe'' e), w')
           | (Ran out err ex, w') \<Rightarrow>
               (case parseEgressExit out of
                  None \<Rightarrow>
                    (let o1 = TrimSpace out
                     in (Inr (False, if o1 = [] then TrimSpace err else o1), w'))
                | Some (n, detail) \<Rightarrow> (Inr (n = 0, detail), w'))))"

lemmas client_defs = status_def run_step_def KeepExitNode_def ApplyExitNode_def Let_def

subsection \<open>The protocol of the switch\<close>

text \<open>A runner that also records the commands it is given, in order.\<close>

definition recording :: "'w runner \<Rightarrow> ((string \<times> string) list \<times> 'w) runner" where
  "recording run addr cmd tw =
     (case run addr cmd (snd tw) of (r, w') \<Rightarrow> (r, (fst tw @ [(addr, cmd)], w')))"

lemma run_step_recording:
  "run_step (recording run) addr cmd what (tr, w) =
     (case run_step run addr cmd what w of (e, w') \<Rightarrow> (e, (tr @ [(addr, cmd)], w')))"
  by (simp add: run_step_def recording_def split: prod.splits run_result.splits)

lemma status_recording:
  "status (recording run) unm addr (tr, w) =
     (case status run unm addr w of (e, w') \<Rightarrow> (e, (tr @ [(addr, statusCmd)], w')))"
  by (simp add: status_def recording_def split: prod.splits run_result.splits)

text \<open>
  The commands of one attempt, and the prefix of them that was issued: \<open>n\<close> of arm, apply, read and
  keep.
\<close>

definition switch_cmds :: "string \<Rightarrow> bool option \<Rightarrow> string \<Rightarrow> string \<Rightarrow> string \<Rightarrow> (string \<times> string) list" where
  "switch_cmds addr lan marker targetArg prevArg =
     map (Pair addr) [armCmd marker prevArg, applyCmd targetArg (targetArg \<noteq> []) lan, statusCmd, keepCmd marker]"

lemma ApplyExitNode_trace:
  assumes "ApplyExitNode (recording run) unm lan marker addr target prev autoKeep ([], w) = ((rt, m, err), (tr, w'))"
    and "exitArg target = Inr targetArg" and "exitArg prev = Inr prevArg"
  shows "\<exists>n \<in> {1..4}. tr = take n (switch_cmds addr lan marker targetArg prevArg) \<and>
    (n = 4 \<longrightarrow> autoKeep) \<and> (3 < n \<or> err = None \<longrightarrow> confirmed rt targetArg (targetArg \<noteq> [])) \<and>
    (err = None \<longrightarrow> n = (if autoKeep then 4 else 3) \<and> m = (if autoKeep then [] else marker)) \<and>
    (err \<noteq> None \<longrightarrow> m = [])"
proof -
  let ?P = "\<lambda>n. tr = take n (switch_cmds addr lan marker targetArg prevArg) \<and>
    (n = 4 \<longrightarrow> autoKeep) \<and> (3 < n \<or> err = None \<longrightarrow> confirmed rt targetArg (targetArg \<noteq> [])) \<and>
    (err = None \<longrightarrow> n = (if autoKeep then 4 else 3) \<and> m = (if autoKeep then [] else marker)) \<and>
    (err \<noteq> None \<longrightarrow> m = [])"
  have "?P 1 \<or> ?P 2 \<or> ?P 3 \<or> ?P 4"
    using assms
    by (auto simp: ApplyExitNode_def KeepExitNode_def run_step_recording status_recording switch_cmds_def Let_def
        split: prod.splits option.splits sum.splits if_splits)
  then show ?thesis by (elim disjE) (rule bexI [of _ 1] bexI [of _ 2] bexI [of _ 3] bexI [of _ 4], assumption, simp)+
qed

text \<open>
  C2 (safety, ordering). Every attempt to change an exit node issues a prefix of arm, apply, read,
  keep on that router and nothing else. The exit node is never touched before the revert was armed
  without error; the keep-marker is written only if the caller asked for it and only after the router
  was read back as having the requested selection; success is reported only in that case, and then the
  marker is returned exactly when it was not written. A bad address issues no command at all.
\<close>

theorem ApplyExitNode_protocol:
  assumes "ApplyExitNode (recording run) unm lan marker addr target prev autoKeep ([], w) = ((rt, m, err), (tr, w'))"
  shows "(case (exitArg target, exitArg prev) of
      (Inr targetArg, Inr prevArg) \<Rightarrow>
        (\<exists>n \<in> {1..4}. tr = take n (switch_cmds addr lan marker targetArg prevArg) \<and>
           (n = 4 \<longrightarrow> autoKeep) \<and> (3 < n \<or> err = None \<longrightarrow> confirmed rt targetArg (targetArg \<noteq> [])) \<and>
           (err = None \<longrightarrow> n = (if autoKeep then 4 else 3) \<and> m = (if autoKeep then [] else marker)) \<and>
           (err \<noteq> None \<longrightarrow> m = []))
    | _ \<Rightarrow> tr = [] \<and> err \<noteq> None \<and> m = [] \<and> w' = w)"
proof (cases "exitArg target"; cases "exitArg prev")
  fix a b assume "exitArg target = Inr a" "exitArg prev = Inr b"
  with ApplyExitNode_trace [OF assms this] show ?thesis by simp
qed (use assms in \<open>auto simp: ApplyExitNode_def\<close>)

definition mute_run :: "unit runner" where
  "mute_run addr cmd w = (Ran [] [] 0, w)"

definition no_selection :: "string \<Rightarrow> go_error + Status" where
  "no_selection raw = Inr \<lparr>st_Self = None, st_Peer = [], st_ExitNodeStatus = None\<rparr>"

theorem ApplyExitNode_protocol_witness:
  "let r = ApplyExitNode (recording mute_run) no_selection None ''/tmp/m'' ''100.64.0.1'' None None True ([], ())
   in snd (snd (fst r)) = None \<and> fst (snd r) = switch_cmds ''100.64.0.1'' None ''/tmp/m'' [] []"
proof -
  obtain rt m err tr w' where r: "ApplyExitNode (recording mute_run) no_selection None ''/tmp/m'' ''100.64.0.1'' None None True ([], ()) =
      ((rt, m, err), (tr, w'))" by (metis prod.exhaust)
  then have "err = None"
    by (simp add: ApplyExitNode_def run_step_def status_def KeepExitNode_def recording_def mute_run_def
        no_selection_def ParseStatus_def runtime_of_def current_peer_def non_nil_def confirmed_def
        zero_RouterRuntime_def Let_def)
  with ApplyExitNode_protocol [OF r] r show ?thesis
    by (auto simp: switch_cmds_def Let_def)
qed

subsection \<open>The interface of the poller\<close>

text \<open>
  What \<^verbatim>\<open>poller.RouterClient\<close> promises. \<open>apply_exit\<close> yields the runtime it read, a marker and an error. The first
  contract is about the marker only: none comes with an error or after an immediate keep, and a deferred keep of a
  selection comes with one. The second adds what a success means.
\<close>

locale marker_client =
  fixes apply_exit :: "string \<Rightarrow> ExitNodeRef option \<Rightarrow> ExitNodeRef option \<Rightarrow> bool \<Rightarrow> 'w \<Rightarrow>
      (RouterRuntime \<times> string \<times> go_error option) \<times> 'w"
  assumes error_no_marker: "apply_exit addr target prev auto w = ((rt, m, Some e), w') \<Longrightarrow> m = []"
    and auto_no_marker: "apply_exit addr target prev True w = ((rt, m, None), w') \<Longrightarrow> m = []"
    and selected_marker: "apply_exit addr (Some r) prev False w = ((rt, m, None), w') \<Longrightarrow> er_IP r \<noteq> [] \<Longrightarrow> m \<noteq> []"
begin

lemma marker_deferred:
  assumes "apply_exit addr target prev auto w = ((rt, m, err), w')" and "m \<noteq> []"
  shows "err = None \<and> \<not> auto"
  using assms error_no_marker auto_no_marker by (cases err; cases auto) auto

end

locale router_client = marker_client apply_exit
  for apply_exit :: "string \<Rightarrow> ExitNodeRef option \<Rightarrow> ExitNodeRef option \<Rightarrow> bool \<Rightarrow> 'w \<Rightarrow>
      (RouterRuntime \<times> string \<times> go_error option) \<times> 'w" +
  assumes deferred_marker: "apply_exit addr target prev False w = ((rt, m, None), w') \<Longrightarrow> m \<noteq> []"
    and ok_confirmed: "apply_exit addr target prev auto w = ((rt, m, None), w') \<Longrightarrow>
      \<exists>arg. exitArg target = Inr arg \<and> confirmed rt arg (arg \<noteq> [])"
begin

lemma marker_iff_deferred:
  "apply_exit addr target prev auto w = ((rt, m, err), w') \<Longrightarrow> m \<noteq> [] \<longleftrightarrow> err = None \<and> \<not> auto"
  using error_no_marker auto_no_marker deferred_marker by (cases err; cases auto) auto

lemma ok_clear:
  assumes "apply_exit addr None prev auto w = ((rt, m, None), w')"
  shows "rt_Current rt = None"
  using ok_confirmed [OF assms] by (auto simp: confirmed_def)

lemma ok_set:
  assumes "apply_exit addr (Some r) prev auto w = ((rt, m, None), w')" and "er_IP r \<noteq> []"
  obtains c where "rt_Current rt = Some c" "exitArg (Some r) = Inr (er_IP c)"
proof -
  obtain arg where arg: "exitArg (Some r) = Inr arg" "confirmed rt arg (arg \<noteq> [])"
    using ok_confirmed [OF assms(1)] by blast
  have "arg \<noteq> []" using dotted_quad_not_Nil [OF exitArg_set_dotted_quad [OF arg(1) assms(2)]] .
  with arg that show thesis by (auto simp: confirmed_def split: option.splits)
qed

end

lemma ApplyExitNode_result:
  assumes "ApplyExitNode run unm lan marker addr target prev auto w = ((rt, m, err), w')"
  shows "(err \<noteq> None \<longrightarrow> m = []) \<and> (err = None \<longrightarrow> m = (if auto then [] else marker) \<and>
    (\<exists>arg. exitArg target = Inr arg \<and> confirmed rt arg (arg \<noteq> [])))"
  using assms
  by (auto simp: ApplyExitNode_def Let_def split: prod.splits option.splits sum.splits if_splits)

interpretation ssh: router_client "ApplyExitNode run unm lan (defaultMarker t r)" for run unm lan t r
  by unfold_locales (auto simp: defaultMarker_def dest!: ApplyExitNode_result)

end
