(* ===== verification/Router_Transport.thy ===== *)
theory Router_Transport
  imports Router_Client
begin

section \<open>Package router: transports, host keys and one SSH command\<close>

text \<open>
  \<^verbatim>\<open>New\<close>, \<^verbatim>\<open>runSSH\<close> (\<^verbatim>\<open>internal/router/router.go\<close>) and \<^verbatim>\<open>internal/router/hostkey.go\<close>. The network, the SSH
  library and the \<^verbatim>\<open>knownhosts\<close> package are parameters: \<open>ssh_env\<close> holds the outcome of each call of one
  \<^verbatim>\<open>runSSH\<close>, and the record \<open>knownhosts\<close> the functions of that package. A known-hosts file is its
  bytes, \<open>None\<close> if it does not exist.
\<close>

subsection \<open>Host-key policies\<close>

datatype hostkey_policy = IgnoreHostKey | Tofu string | KnownHosts string

datatype load_error = FileMissing | LoadError go_error

definition knownHostsFileCallback ::
    "(string \<Rightarrow> load_error option) \<Rightarrow> string \<Rightarrow> string \<Rightarrow> go_error + hostkey_policy" where
  "knownHostsFileCallback kh_New path mode =
     (if path = [] then Inl (ErrorString (''router: host-key mode '' @ Quote mode @ '' requires a known_hosts path''))
      else case kh_New path of
          Some FileMissing \<Rightarrow>
            Inl (ErrorString (''router: host-key mode '' @ Quote mode @
              '' requires a pre-seeded known_hosts file, but '' @ Quote path @ '' does not exist''))
        | Some (LoadError e) \<Rightarrow>
            Inl (Wrapped (''router: load known_hosts '' @ Quote path @ '' for host-key mode '' @ Quote mode) e)
        | None \<Rightarrow> Inr (KnownHosts path))"

definition tofuCallback :: "string \<Rightarrow> go_error + hostkey_policy" where
  "tofuCallback path =
     (if path = [] then Inl (ErrorString ''router: tofu host-key mode requires a known_hosts path'')
      else Inr (Tofu path))"

definition hostKeyCallback ::
    "(string \<Rightarrow> load_error option) \<Rightarrow> string \<Rightarrow> string \<Rightarrow> go_error + hostkey_policy" where
  "hostKeyCallback kh_New mode path =
     (if mode = [] \<or> mode = ''tofu'' then tofuCallback path
      else if mode = ''strict'' then knownHostsFileCallback kh_New path ''strict''
      else if mode = ''pin'' then knownHostsFileCallback kh_New path ''pin''
      else if mode = ''insecure'' then Inr IgnoreHostKey
      else Inl (ErrorString (''router: unknown host-key mode '' @ Quote mode @ '' (want tofu|strict|pin|insecure)'')))"

subsection \<open>Trust on first use\<close>

text \<open>
  The package: parsing a file (\<^verbatim>\<open>New\<close> on its content), checking a key against it, the line to record for some
  addresses and a key, and the normal form of an address. A \<^verbatim>\<open>KeyError\<close> carries \<^verbatim>\<open>Want\<close>, the keys on record for the host.
\<close>

datatype verdict = KeyOK | KeyError "string list" | OtherError go_error

record knownhosts =
  kh_parse :: "string \<Rightarrow> go_error option"
  kh_verify :: "string \<Rightarrow> string \<Rightarrow> string option \<Rightarrow> string \<Rightarrow> verdict"
  kh_Line :: "string list \<Rightarrow> string \<Rightarrow> string"
  kh_Normalize :: "string \<Rightarrow> string"

definition knownHostsAddresses :: "(string \<Rightarrow> string) \<Rightarrow> string \<Rightarrow> string option \<Rightarrow> string list" where
  "knownHostsAddresses norm hostname remote =
     snd (foldl (\<lambda>(seen, addrs) a.
        if a = [] then (seen, addrs)
        else if norm a \<in> set seen then (seen, addrs)
        else (norm a # seen, addrs @ [a])) ([], []) (hostname # (case remote of None \<Rightarrow> [] | Some r \<Rightarrow> [r])))"

text \<open>
  \<open>appendKey\<close>: the faults of creating the directory, opening the file (which creates an empty one) and writing the line. A
  write that fails may have written the first bytes of the line.
\<close>

record append_io =
  ap_mkdir :: "go_error option"
  ap_open :: "go_error option"
  ap_write :: "(go_error \<times> nat) option"

definition content_of :: "string option \<Rightarrow> string" where
  "content_of file = (case file of None \<Rightarrow> [] | Some c \<Rightarrow> c)"

abbreviation newline :: char where "newline \<equiv> CHR 0x0A"

definition appendKey ::
    "knownhosts \<Rightarrow> append_io \<Rightarrow> string \<Rightarrow> string \<Rightarrow> string option \<Rightarrow> string \<Rightarrow> string option \<Rightarrow>
     go_error option \<times> string option" where
  "appendKey kh io path hostname remote key file =
     (let line = kh_Line kh (knownHostsAddresses (kh_Normalize kh) hostname remote) key @ [newline]
      in case ap_mkdir io of
           Some e \<Rightarrow> (Some (Wrapped ''router: create known_hosts dir'' e), file)
         | None \<Rightarrow>
      (case ap_open io of
           Some e \<Rightarrow> (Some (Wrapped (''router: open known_hosts '' @ Quote path @ '' for append'') e), file)
         | None \<Rightarrow>
      (case ap_write io of
           Some (e, n) \<Rightarrow> (Some (Wrapped (''router: append to known_hosts '' @ Quote path) e), Some (content_of file @ take n line))
         | None \<Rightarrow> (None, Some (content_of file @ line)))))"

definition tofu_check ::
    "knownhosts \<Rightarrow> go_error option \<Rightarrow> append_io \<Rightarrow> string \<Rightarrow> string \<Rightarrow> string option \<Rightarrow> string \<Rightarrow> string option \<Rightarrow>
     go_error option \<times> string option" where
  "tofu_check kh load_fault io path hostname remote key file =
     (case load_fault of
        Some e \<Rightarrow> (Some (Wrapped (''router: load known_hosts '' @ Quote path) e), file)
      | None \<Rightarrow>
     (case file of
        None \<Rightarrow> appendKey kh io path hostname remote key file
      | Some content \<Rightarrow>
          (case kh_parse kh content of
             Some e \<Rightarrow> (Some (Wrapped (''router: load known_hosts '' @ Quote path) e), file)
           | None \<Rightarrow>
               (case kh_verify kh content hostname remote key of
                  KeyOK \<Rightarrow> (None, file)
                | KeyError want \<Rightarrow>
                    if want = [] then appendKey kh io path hostname remote key file
                    else (Some (Wrapped (''router: host key for '' @ hostname @
                       '' changed (possible MITM) -- refusing. If this change is expected, remove the stale entry from '' @
                       path @ '' and reconnect'') (ErrorString ''knownhosts: key mismatch'')), file)
                | OtherError e \<Rightarrow> (Some e, file)))))"

subsection \<open>Client construction\<close>

datatype dialer = TailnetDial | HostDial
datatype auth_method = PasswordAuth string | KeyboardInteractiveAuth string

record Options =
  op_Transport :: string
  op_TailscaleDial :: bool
  op_RouterAddrs :: "string \<Rightarrow> string option"
  op_User :: string
  op_Password :: string
  op_KeyboardInteractive :: bool
  op_HostKeyMode :: string
  op_KnownHostsPath :: string
  op_Timeout :: duration
  op_LANAccess :: "bool option"

record Client =
  cl_dial :: dialer
  cl_user :: string
  cl_timeout :: duration
  cl_endpointFor :: "string \<Rightarrow> go_error + string"
  cl_authMethods :: "auth_method list"
  cl_hostKey :: hostkey_policy
  cl_lanAccess :: "bool option"

definition passwordAuthMethods :: "Options \<Rightarrow> auth_method list" where
  "passwordAuthMethods opts =
     PasswordAuth (op_Password opts) #
     (if op_KeyboardInteractive opts then [KeyboardInteractiveAuth (op_Password opts)] else [])"

definition tailnet_endpoint :: "string \<Rightarrow> go_error + string" where
  "tailnet_endpoint addr = Inr (JoinHostPort addr ''22'')"

definition lan_endpoint :: "(string \<Rightarrow> string option) \<Rightarrow> string \<Rightarrow> go_error + string" where
  "lan_endpoint addrs addr =
     (let ep = TrimSpace (case addrs addr of None \<Rightarrow> [] | Some e \<Rightarrow> e)
      in if ep = [] then
           Inl (ErrorString (''router '' @ addr @ '': no LAN endpoint mapping for the ip-password transport '' @
             ''(add it to -router-addrs / TSCTL_ROUTER_ADDRS as '' @ addr @ ''=host[:port])''))
         else Inr (ensurePort ep))"

definition router_New :: "(string \<Rightarrow> load_error option) \<Rightarrow> Options \<Rightarrow> go_error + Client" where
  "router_New kh_New opts =
     (let c = (\<lambda>d ep auth hk. \<lparr>cl_dial = d, cl_user = op_User opts, cl_timeout = op_Timeout opts,
                cl_endpointFor = ep, cl_authMethods = auth, cl_hostKey = hk, cl_lanAccess = op_LANAccess opts\<rparr>)
      in if op_Transport opts = [] \<or> op_Transport opts = ''tailscale-ssh'' then
           (if \<not> op_TailscaleDial opts then
              Inl (ErrorString ''router: tailscale-ssh transport requires a dial func (tsnet.Server.Dial)'')
            else Inr (c TailnetDial tailnet_endpoint [] IgnoreHostKey))
         else if op_Transport opts = ''ip-password'' then
           (if op_Password opts = [] then Inl (ErrorString ''router: ip-password transport requires a password'')
            else case hostKeyCallback kh_New (op_HostKeyMode opts) (op_KnownHostsPath opts) of
                Inl e \<Rightarrow> Inl e
              | Inr hk \<Rightarrow> Inr (c HostDial (lan_endpoint (op_RouterAddrs opts)) (passwordAuthMethods opts) hk))
         else if op_Transport opts = ''tailnet-password'' then
           (if \<not> op_TailscaleDial opts then
              Inl (ErrorString ''router: tailnet-password transport requires a dial func (tsnet.Server.Dial)'')
            else if op_Password opts = [] then
              Inl (ErrorString ''router: tailnet-password transport requires a password'')
            else Inr (c TailnetDial tailnet_endpoint (passwordAuthMethods opts) IgnoreHostKey))
         else Inl (ErrorString (''router: unknown transport '' @ Quote (op_Transport opts) @
             '' (want tailscale-ssh, tailnet-password, or ip-password)'')))"

subsection \<open>One command over SSH\<close>

datatype session_result = SessionOK | SessionExit int | SessionError go_error

record ssh_env =
  se_dial :: "go_error option"
  se_setDeadline :: "go_error option"
  se_handshake :: "go_error option"
  se_clearDeadline :: "go_error option"
  se_session :: "go_error option"
  se_stdout :: "string list"
  se_stderr :: "string list"
  se_run :: session_result
  se_ctxErr :: "go_error option"

definition runSSH :: "Client \<Rightarrow> ssh_env \<Rightarrow> string \<Rightarrow> string \<Rightarrow> run_result" where
  "runSSH c env addr cmd =
     (case cl_endpointFor c addr of
        Inl e \<Rightarrow> RunFailed e
      | Inr endpoint \<Rightarrow>
     (case se_dial env of Some e \<Rightarrow> RunFailed (Wrapped (''dial '' @ endpoint) e) | None \<Rightarrow>
     (case se_setDeadline env of Some e \<Rightarrow> RunFailed (Wrapped (''set handshake deadline '' @ endpoint) e) | None \<Rightarrow>
     (case se_handshake env of Some e \<Rightarrow> RunFailed (Wrapped (''ssh handshake '' @ endpoint) e) | None \<Rightarrow>
     (case se_clearDeadline env of Some e \<Rightarrow> RunFailed (Wrapped (''clear handshake deadline '' @ endpoint) e) | None \<Rightarrow>
     (case se_session env of Some e \<Rightarrow> RunFailed (Wrapped (''ssh session '' @ endpoint) e) | None \<Rightarrow>
     (let outBuf = cb_writes new_cappedBuffer (se_stdout env);
          errBuf = cb_writes new_cappedBuffer (se_stderr env)
      in if cb_overflow outBuf \<or> cb_overflow errBuf then
           RunFailed (ErrorString (''ssh run '' @ Quote cmd @ '' on '' @ endpoint @ '': captured output exceeded '' @
             show_int maxOutputBytes @ ''-byte cap''))
         else (case se_run env of
                 SessionOK \<Rightarrow> Ran (cb_buf outBuf) (cb_buf errBuf) 0
               | SessionExit n \<Rightarrow> Ran (cb_buf outBuf) (cb_buf errBuf) n
               | SessionError e \<Rightarrow>
                   (case se_ctxErr env of
                      Some ce \<Rightarrow> RunFailed (Wrapped (''ssh run on '' @ endpoint @ '' canceled'') ce)
                    | None \<Rightarrow> RunFailed (Wrapped (''ssh run '' @ Quote cmd @ '' on '' @ endpoint) e))))))))))"

subsection \<open>Properties\<close>

text \<open>
  C31 (safety). A result is only ever reported for a command that ran to its end over a completed
  handshake, and its output is complete: never truncated, never longer than the cap.
\<close>

theorem runSSH_result_complete:
  assumes "runSSH c env addr cmd = Ran out err ex"
  shows "out = concat (se_stdout env) \<and> err = concat (se_stderr env) \<and>
    int (length out) \<le> maxOutputBytes \<and> int (length err) \<le> maxOutputBytes \<and>
    se_dial env = None \<and> se_handshake env = None \<and> se_session env = None \<and>
    (\<exists>ep. cl_endpointFor c addr = Inr ep) \<and>
    (ex = 0 \<and> se_run env = SessionOK \<or> se_run env = SessionExit ex)"
  using assms cb_writes_state [of new_cappedBuffer "se_stdout env"] cb_writes_state [of new_cappedBuffer "se_stderr env"]
  by (auto simp: runSSH_def Let_def new_cappedBuffer_def
      split: sum.splits option.splits if_splits session_result.splits)

definition tailscale_client :: Client where
  "tailscale_client = \<lparr>cl_dial = TailnetDial, cl_user = ''root'', cl_timeout = 10 * second,
     cl_endpointFor = tailnet_endpoint, cl_authMethods = [], cl_hostKey = IgnoreHostKey, cl_lanAccess = None\<rparr>"

definition quiet_env :: ssh_env where
  "quiet_env = \<lparr>se_dial = None, se_setDeadline = None, se_handshake = None, se_clearDeadline = None, se_session = None,
     se_stdout = [''ab'', ''c''], se_stderr = [], se_run = SessionExit 3, se_ctxErr = None\<rparr>"

theorem runSSH_result_complete_witness:
  "\<exists>out err. runSSH tailscale_client quiet_env ''100.64.0.1'' ''true'' = Ran out err 3 \<and> out = ''abc''"
proof -
  obtain out err where r: "runSSH tailscale_client quiet_env ''100.64.0.1'' ''true'' = Ran out err 3"
    by (simp add: runSSH_def tailscale_client_def quiet_env_def tailnet_endpoint_def cb_writes_def cb_Write_def
        new_cappedBuffer_def)
  with runSSH_result_complete [OF r] show ?thesis by (auto simp: quiet_env_def)
qed

text \<open>
  Fail closed. Whenever a client is built, it authenticates its peers: it either dials
  over the tailnet, or it has a password and verifies host keys, unless the operator asked for the mode
  insecure by name. A LAN transport resolves an unmapped router to an error, never to an address.
\<close>

theorem router_New_fail_closed:
  assumes "router_New kh_New opts = Inr c"
  shows "(cl_dial c = TailnetDial \<longrightarrow> op_TailscaleDial opts \<and> (\<forall>a. cl_endpointFor c a = Inr (JoinHostPort a ''22''))) \<and>
    (cl_dial c = HostDial \<longrightarrow> op_Transport opts = ''ip-password'' \<and> op_Password opts \<noteq> [] \<and>
       cl_authMethods c \<noteq> [] \<and> (cl_hostKey c = IgnoreHostKey \<longrightarrow> op_HostKeyMode opts = ''insecure'') \<and>
       (\<forall>a. op_RouterAddrs opts a = None \<longrightarrow> (\<exists>e. cl_endpointFor c a = Inl e)))"
  using assms
  by (auto simp: router_New_def Let_def passwordAuthMethods_def hostKeyCallback_def tofuCallback_def
      knownHostsFileCallback_def lan_endpoint_def tailnet_endpoint_def
      split: if_splits sum.splits option.splits load_error.splits)

definition lan_options :: Options where
  "lan_options = \<lparr>op_Transport = ''ip-password'', op_TailscaleDial = False, op_RouterAddrs = (\<lambda>_. None),
     op_User = ''root'', op_Password = ''pw'', op_KeyboardInteractive = True, op_HostKeyMode = [],
     op_KnownHostsPath = ''kh'', op_Timeout = second, op_LANAccess = None\<rparr>"

theorem router_New_fail_closed_witness:
  "\<exists>c. router_New (\<lambda>_. None) lan_options = Inr c \<and> cl_hostKey c = Tofu ''kh'' \<and>
     (\<exists>e. cl_endpointFor c ''100.64.0.9'' = Inl e)"
proof -
  obtain c where c: "router_New (\<lambda>_. None) lan_options = Inr c" "cl_hostKey c = Tofu ''kh''" "cl_dial c = HostDial"
    by (simp add: router_New_def lan_options_def hostKeyCallback_def tofuCallback_def)
  with router_New_fail_closed [OF c(1)] show ?thesis by (auto simp: lan_options_def)
qed

subsection \<open>The lines of a known-hosts file\<close>

text \<open>
  The complete lines of a file, each ended by a newline, and the bytes after the last newline. A file is whole if there
  are none.
\<close>

fun split_lines :: "string \<Rightarrow> string \<Rightarrow> string list \<times> string" where
  "split_lines cur [] = ([], cur)"
| "split_lines cur (c # cs) =
     (if c = newline then (case split_lines [] cs of (ls, r) \<Rightarrow> (cur # ls, r)) else split_lines (cur @ [c]) cs)"

definition complete_lines :: "string \<Rightarrow> string list" where
  "complete_lines s = fst (split_lines [] s)"

definition last_part :: "string \<Rightarrow> string" where
  "last_part s = snd (split_lines [] s)"

lemma split_lines_append:
  "split_lines cur (s @ t) =
     (case split_lines cur s of (ls, r) \<Rightarrow> (case split_lines r t of (ms, q) \<Rightarrow> (ls @ ms, q)))"
  by (induction cur s rule: split_lines.induct) (auto split: prod.splits)

lemma split_lines_part: "newline \<notin> set l \<Longrightarrow> split_lines cur l = ([], cur @ l)"
  by (induction l arbitrary: cur) auto

lemma complete_lines_append: "set (complete_lines s) \<subseteq> set (complete_lines (s @ t))"
  by (auto simp: complete_lines_def split_lines_append split: prod.splits)

text \<open>A line written at the end of a file continues its last part: it is a line of its own only if the file was whole.\<close>

lemma complete_lines_snoc:
  assumes "newline \<notin> set l"
  shows "complete_lines (s @ l @ [newline]) = complete_lines s @ [last_part s @ l]" and "last_part (s @ l @ [newline]) = []"
  using assms
  by (simp_all add: complete_lines_def last_part_def split_lines_append split_lines_part split: prod.splits)

subsection \<open>Trust on first use pins the key\<close>

text \<open>What an append leaves of the file: its bytes are kept, and after an accepted one the whole line follows them.\<close>

lemma appendKey_content:
  assumes "appendKey kh io path h remote k file = (e, file')"
  shows "\<exists>new. content_of file' = content_of file @ new"
    and "e = None \<Longrightarrow> file' = Some (content_of file @ kh_Line kh (knownHostsAddresses (kh_Normalize kh) h remote) k @ [newline])"
  using assms by (auto simp: appendKey_def Let_def content_of_def split: option.splits)

lemma tofu_check_appends:
  assumes "tofu_check kh fault io path h remote k file = (e, file')"
  shows "\<exists>new. content_of file' = content_of file @ new"
  using assms by (auto simp: tofu_check_def split: option.splits verdict.splits if_splits dest: appendKey_content(1))

text \<open>A run of verifications, one at a time (the mutex of \<^verbatim>\<open>check\<close> is held throughout), each with its faults.\<close>

type_synonym verification = "go_error option \<times> append_io \<times> string \<times> string option \<times> string"

fun tofu_runs :: "knownhosts \<Rightarrow> string \<Rightarrow> verification list \<Rightarrow> string option \<Rightarrow> string option" where
  "tofu_runs kh path [] file = file"
| "tofu_runs kh path ((fault, io, h, remote, k) # vs) file =
     tofu_runs kh path vs (snd (tofu_check kh fault io path h remote k file))"

lemma tofu_runs_append: "\<exists>new. content_of (tofu_runs kh path vs file) = content_of file @ new"
proof (induction kh path vs "file" rule: tofu_runs.induct)
  case (2 kh path fault io h remote k vs "file")
  from tofu_check_appends [of kh fault io path h remote k "file"] 2 show ?case
    by (metis append.assoc surjective_pairing tofu_runs.simps(2))
qed simp

lemma tofu_runs_lines: "set (complete_lines (content_of file)) \<subseteq> set (complete_lines (content_of (tofu_runs kh path vs file)))"
  using tofu_runs_append [of kh path vs "file"] complete_lines_append by metis

text \<open>
  What the program relies on of the package, as it documents it. \<^verbatim>\<open>Line\<close> returns one line. And an empty \<^verbatim>\<open>Want\<close> means that
  the host is unknown: for a host that is named by a line of the file, as \<^verbatim>\<open>Line\<close> writes them, a file that parses does
  not yield an empty \<^verbatim>\<open>Want\<close>, whatever key is presented. The second is asked of plain addresses only, without
  the characters that mean something in a pattern.
\<close>

definition addr_chars :: string where
  "addr_chars = ''0123456789abcdefghijklmnopqrstuvwxyzABCDEFGHIJKLMNOPQRSTUVWXYZ.:-[]''"

definition plain_addr :: "string \<Rightarrow> bool" where
  "plain_addr a \<longleftrightarrow> a \<noteq> [] \<and> (\<forall>c \<in> set a. c \<in> set addr_chars)"

definition line_is_one :: "knownhosts \<Rightarrow> bool" where
  "line_is_one kh \<longleftrightarrow> (\<forall>addrs k. newline \<notin> set (kh_Line kh addrs k))"

definition empty_want_means_unknown :: "knownhosts \<Rightarrow> bool" where
  "empty_want_means_unknown kh \<longleftrightarrow>
     (\<forall>content addrs h k r k'. h \<in> set addrs \<and> (\<forall>a \<in> set addrs. plain_addr a) \<and> kh_parse kh content = None \<and>
        kh_Line kh addrs k \<in> set (complete_lines content) \<longrightarrow> kh_verify kh content h r k' \<noteq> KeyError [])"

lemma knownHostsAddresses_subset:
  "set (knownHostsAddresses norm h remote) \<subseteq> insert h (set_option remote)"
  "h \<noteq> [] \<Longrightarrow> h \<in> set (knownHostsAddresses norm h remote)"
  by (auto simp: knownHostsAddresses_def split: option.splits if_splits)

text \<open>
  C30 (safety, trust on first use). Take a host whose key has been accepted on first use, over a file that was missing or
  whole, and any verifications after it, of this and of other hosts, with whatever faults. Then the line that was written
  is still a line of the file, as is every line that was there before; and from then on nothing is ever recorded for that host
  again: a verification of it leaves the file as it is, and accepts a key only if the file loads and the library says that
  this key is the one on record. In particular a key which the library calls a mismatch, a failed read of the file and a file that does
  not parse are refused.
\<close>

theorem tofu_pins_first_key:
  assumes laws: "line_is_one kh" "empty_want_means_unknown kh"
    and plain: "plain_addr h" "\<forall>r \<in> set_option remote. plain_addr r"
    and whole: "last_part (content_of file) = []"
    and first: "\<forall>c. file = Some c \<longrightarrow> kh_verify kh c h remote k = KeyError []"
    and ok: "tofu_check kh fault io path h remote k file = (None, file')"
  shows "\<exists>c. tofu_runs kh path vs file' = Some c \<and>
    insert (kh_Line kh (knownHostsAddresses (kh_Normalize kh) h remote) k) (set (complete_lines (content_of file))) \<subseteq> set (complete_lines c) \<and>
    (\<forall>fault2 io2 remote2 k2 e f. tofu_check kh fault2 io2 path h remote2 k2 (Some c) = (e, f) \<longrightarrow>
       f = Some c \<and> (e = None \<longrightarrow> fault2 = None \<and> kh_parse kh c = None \<and> kh_verify kh c h remote2 k2 = KeyOK))"
proof -
  let ?addrs = "knownHostsAddresses (kh_Normalize kh) h remote"
  let ?line = "kh_Line kh ?addrs k"
  have "appendKey kh io path h remote k file = (None, file')"
    using ok first by (auto simp: tofu_check_def split: option.splits)
  then have f: "file' = Some (content_of file @ ?line @ [newline])" by (rule appendKey_content(2)) simp
  have "complete_lines (content_of file') = complete_lines (content_of file) @ [?line]"
    using laws(1) whole by (simp add: f content_of_def [of "Some _"] line_is_one_def complete_lines_snoc(1))
  with tofu_runs_lines [of file' kh path vs]
  have lines: "insert ?line (set (complete_lines (content_of file))) \<subseteq> set (complete_lines (content_of (tofu_runs kh path vs file')))"
    by auto
  then have "complete_lines (content_of (tofu_runs kh path vs file')) \<noteq> []" by auto
  then obtain c where c: "tofu_runs kh path vs file' = Some c"
    by (cases "tofu_runs kh path vs file'") (auto simp: content_of_def complete_lines_def)
  with lines have rec: "insert ?line (set (complete_lines (content_of file))) \<subseteq> set (complete_lines c)" by (simp add: content_of_def)
  have addrs: "h \<in> set ?addrs" "\<forall>a \<in> set ?addrs. plain_addr a"
    using knownHostsAddresses_subset(1) [of "kh_Normalize kh" h remote] knownHostsAddresses_subset(2) [of h "kh_Normalize kh" remote] plain
    unfolding plain_addr_def by auto
  have "kh_verify kh c h r k' \<noteq> KeyError []" if "kh_parse kh c = None" for r k'
    using laws(2) addrs rec that unfolding empty_want_means_unknown_def by blast
  then have "f = Some c \<and> (e = None \<longrightarrow> fault2 = None \<and> kh_parse kh c = None \<and> kh_verify kh c h remote2 k2 = KeyOK)"
    if "tofu_check kh fault2 io2 path h remote2 k2 (Some c) = (e, f)" for fault2 io2 remote2 k2 e f
    using that by (auto simp: tofu_check_def split: option.splits verdict.splits if_splits)
  with c rec show ?thesis by blast
qed

text \<open>An implementation of the package's interface: addresses ended by commas, a space and the key.\<close>

fun hosts_of :: "string \<Rightarrow> string \<Rightarrow> string list" where
  "hosts_of cur [] = []"
| "hosts_of cur (c # cs) =
     (if c = CHR '','' then cur # hosts_of [] cs else if c = CHR '' '' then [] else hosts_of (cur @ [c]) cs)"

definition plain_line :: "string list \<Rightarrow> string \<Rightarrow> string" where
  "plain_line addrs k = filter ((\<noteq>) newline) (concat (map (\<lambda>a. a @ '','') addrs) @ '' '' @ k)"

definition plain_kh :: knownhosts where
  "plain_kh = \<lparr>kh_parse = (\<lambda>_. None),
     kh_verify = (\<lambda>content h r k.
       let ks = map (\<lambda>l. tl (dropWhile ((\<noteq>) (CHR '' '')) l)) (filter (\<lambda>l. h \<in> set (hosts_of [] l)) (complete_lines content))
       in if ks = [] then KeyError [] else if k \<in> set ks then KeyOK else KeyError ks),
     kh_Line = plain_line, kh_Normalize = id\<rparr>"

lemma hosts_of_addr: "CHR '','' \<notin> set a \<Longrightarrow> CHR '' '' \<notin> set a \<Longrightarrow> hosts_of cur (a @ CHR '','' # s) = (cur @ a) # hosts_of [] s"
  by (induction a arbitrary: cur) auto

lemma plain_addr_chars: "plain_addr a \<Longrightarrow> CHR '','' \<notin> set a \<and> CHR '' '' \<notin> set a \<and> newline \<notin> set a"
proof -
  have "CHR '','' \<notin> set addr_chars" "CHR '' '' \<notin> set addr_chars" "newline \<notin> set addr_chars" by code_simp+
  then show "plain_addr a \<Longrightarrow> CHR '','' \<notin> set a \<and> CHR '' '' \<notin> set a \<and> newline \<notin> set a" unfolding plain_addr_def by blast
qed

lemma hosts_of_plain_line: "\<forall>a \<in> set addrs. plain_addr a \<Longrightarrow> hosts_of [] (plain_line addrs k) = addrs"
proof (induction addrs)
  case Nil
  then show ?case by (simp add: plain_line_def)
next
  case (Cons a addrs)
  then have a: "CHR '','' \<notin> set a" "CHR '' '' \<notin> set a" "newline \<notin> set a" using plain_addr_chars by auto
  then have "filter ((\<noteq>) newline) a = a" by (intro filter_True) auto
  then have "plain_line (a # addrs) k = a @ CHR '','' # plain_line addrs k" by (simp add: plain_line_def)
  with Cons hosts_of_addr [OF a(1,2)] show ?case by simp
qed

lemma plain_kh_laws: "line_is_one plain_kh" "empty_want_means_unknown plain_kh"
proof -
  show "line_is_one plain_kh" by (simp add: line_is_one_def plain_kh_def plain_line_def)
  have "kh_verify plain_kh content h r k' \<noteq> KeyError []"
    if "h \<in> set addrs" "\<forall>a \<in> set addrs. plain_addr a" "plain_line addrs k \<in> set (complete_lines content)" for content addrs h k r k'
  proof -
    have "plain_line addrs k \<in> set (filter (\<lambda>l. h \<in> set (hosts_of [] l)) (complete_lines content))"
      using that hosts_of_plain_line by simp
    then have "filter (\<lambda>l. h \<in> set (hosts_of [] l)) (complete_lines content) \<noteq> []" by force
    then show ?thesis by (simp add: plain_kh_def Let_def)
  qed
  then show "empty_want_means_unknown plain_kh" by (auto simp: empty_want_means_unknown_def plain_kh_def)
qed

definition append_ok :: append_io where
  "append_ok = \<lparr>ap_mkdir = None, ap_open = None, ap_write = None\<rparr>"

text \<open>A router is met for the first time, then another one; later a third machine answers at the first address.\<close>

theorem tofu_pins_first_key_witness:
  "\<exists>file' c. tofu_check plain_kh None append_ok ''kh'' ''10.0.0.1:22'' None ''k1'' None = (None, file') \<and>
     tofu_runs plain_kh ''kh'' [(None, append_ok, ''10.0.0.2:22'', None, ''k2'')] file' = Some c \<and>
     (\<exists>e. tofu_check plain_kh None append_ok ''kh'' ''10.0.0.1:22'' None ''k3'' (Some c) = (Some e, Some c))"
proof -
  let ?vs = "[(None, append_ok, ''10.0.0.2:22'', None, ''k2'')]"
  obtain file' where f: "tofu_check plain_kh None append_ok ''kh'' ''10.0.0.1:22'' None ''k1'' None = (None, file')"
    by (simp add: tofu_check_def appendKey_def append_ok_def Let_def)
  have "plain_addr ''10.0.0.1:22''" by code_simp
  from tofu_pins_first_key [OF plain_kh_laws this _ _ _ f, of ?vs]
  obtain c where c: "tofu_runs plain_kh ''kh'' ?vs file' = Some c"
    and pin: "\<And>k2 e f. tofu_check plain_kh None append_ok ''kh'' ''10.0.0.1:22'' None k2 (Some c) = (e, f) \<Longrightarrow>
       f = Some c \<and> (e = None \<longrightarrow> kh_verify plain_kh c ''10.0.0.1:22'' None k2 = KeyOK)"
    by (auto simp: content_of_def last_part_def)
  have "map_option (\<lambda>c. kh_verify plain_kh c ''10.0.0.1:22'' None ''k3'')
      (tofu_runs plain_kh ''kh'' ?vs (snd (tofu_check plain_kh None append_ok ''kh'' ''10.0.0.1:22'' None ''k1'' None))) =
      Some (KeyError [''k1''])"
    by code_simp
  with f c have "kh_verify plain_kh c ''10.0.0.1:22'' None ''k3'' \<noteq> KeyOK" by simp
  with f c pin show ?thesis
    by (cases "tofu_check plain_kh None append_ok ''kh'' ''10.0.0.1:22'' None ''k3'' (Some c)") (metis option.exhaust)
qed

text \<open>
  C10 (error). A known-hosts file need not end with a newline, and \<open>appendKey\<close> does not look: on such a file the line it writes
  continues the last recorded one. An accepted first use then changes that line, so that the key it recorded
  is no longer there as it was, and leaves the new host without a line of its own.
\<close>

theorem append_merges_last_line:
  assumes "line_is_one kh" and "last_part c \<noteq> []" and "kh_parse kh c = None" and "kh_verify kh c h remote k = KeyError []"
    and "tofu_check kh None io path h remote k (Some c) = (None, Some c')"
  shows "complete_lines c' = complete_lines c @ [last_part c @ kh_Line kh (knownHostsAddresses (kh_Normalize kh) h remote) k] \<and> last_part c' = []"
proof -
  have "appendKey kh io path h remote k (Some c) = (None, Some c')" using assms(3-5) by (simp add: tofu_check_def)
  from appendKey_content(2) [OF this] assms(1) show ?thesis by (simp add: content_of_def line_is_one_def complete_lines_snoc)
qed

theorem append_merges_last_line_witness:
  "\<exists>c'. tofu_check plain_kh None append_ok ''kh'' ''10.0.0.2:22'' None ''k2'' (Some ''10.0.0.1:22, k1'') = (None, Some c') \<and>
     complete_lines c' = [''10.0.0.1:22, k110.0.0.2:22, k2'']"
proof -
  have v: "kh_verify plain_kh ''10.0.0.1:22, k1'' ''10.0.0.2:22'' None ''k2'' = KeyError []" "kh_parse plain_kh ''10.0.0.1:22, k1'' = None"
    by code_simp+
  then obtain c' where c: "tofu_check plain_kh None append_ok ''kh'' ''10.0.0.2:22'' None ''k2'' (Some ''10.0.0.1:22, k1'') = (None, Some c')"
    by (simp add: tofu_check_def appendKey_def append_ok_def Let_def)
  have l: "last_part ''10.0.0.1:22, k1'' = ''10.0.0.1:22, k1''" "complete_lines ''10.0.0.1:22, k1'' = []"
    "kh_Line plain_kh (knownHostsAddresses (kh_Normalize plain_kh) ''10.0.0.2:22'' None) ''k2'' = ''10.0.0.2:22, k2''"
    by code_simp+
  from append_merges_last_line [OF plain_kh_laws(1) _ v(2,1) c] l c show ?thesis by simp
qed

end
