(* ===== verification/Authz.thy ===== *)
theory Authz
  imports Store_Types
begin

section \<open>Package authz: the subject of a request and the zone filter\<close>

text \<open>
  \<^verbatim>\<open>internal/authz/authz.go\<close>. A \<open>Subject\<close> is the authenticated identity of a request. The context
  of a request is modelled by what the program puts into it: the subject and the revalidation
  closure, each possibly absent. \<open>FilterSnapshotToZone\<close> scopes a snapshot to the one zone a guest is
  bound to.
\<close>

record Subject =
  sub_Admin :: bool
  sub_GuestID :: string
  sub_ZoneID :: string

definition zero_Subject :: Subject where
  "zero_Subject = \<lparr>sub_Admin = False, sub_GuestID = [], sub_ZoneID = []\<rparr>"

text \<open>
  The request context: the values under the two unexported keys. A closure reads the live stores
  when it is called, so it is a function of the state \<open>'s\<close> of the system at that moment.
\<close>

record 's reqcontext =
  ctx_subject :: "Subject option"
  ctx_revalidate :: "('s \<Rightarrow> bool) option"

definition Background :: "'s reqcontext" where
  "Background = \<lparr>ctx_subject = None, ctx_revalidate = None\<rparr>"

definition WithSubject :: "'s reqcontext \<Rightarrow> Subject \<Rightarrow> 's reqcontext" where
  "WithSubject ctx sub = ctx\<lparr>ctx_subject := Some sub\<rparr>"

definition SubjectFromContext :: "'s reqcontext \<Rightarrow> Subject option" where
  "SubjectFromContext ctx = ctx_subject ctx"

definition WithRevalidate :: "'s reqcontext \<Rightarrow> ('s \<Rightarrow> bool) \<Rightarrow> 's reqcontext" where
  "WithRevalidate ctx fn = ctx\<lparr>ctx_revalidate := Some fn\<rparr>"

definition RevalidateFromContext :: "'s reqcontext \<Rightarrow> ('s \<Rightarrow> bool) option" where
  "RevalidateFromContext ctx = ctx_revalidate ctx"

lemma SubjectFromContext_simps [simp]:
  "SubjectFromContext Background = None"
  "SubjectFromContext (WithSubject ctx sub) = Some sub"
  "SubjectFromContext (WithRevalidate ctx fn) = SubjectFromContext ctx"
  by (simp_all add: SubjectFromContext_def Background_def WithSubject_def WithRevalidate_def)

lemma RevalidateFromContext_simps [simp]:
  "RevalidateFromContext Background = None"
  "RevalidateFromContext (WithRevalidate ctx fn) = Some fn"
  "RevalidateFromContext (WithSubject ctx sub) = RevalidateFromContext ctx"
  by (simp_all add: RevalidateFromContext_def Background_def WithSubject_def WithRevalidate_def)

subsection \<open>The zone filter\<close>

definition member_ids :: "GroupMember list \<Rightarrow> string set" where
  "member_ids ms = gm_StableID ` set ms"

definition FilterSnapshotToZone :: "Snapshot \<Rightarrow> string \<Rightarrow> Snapshot" where
  "FilterSnapshotToZone snap zoneID =
     (let out = \<lparr>sn_Nodes = [], sn_Routers = [], sn_Groups = [], sn_NetmapAt = sn_NetmapAt snap,
                 sn_NetmapErr = sn_NetmapErr snap, sn_BuiltAt = sn_BuiltAt snap\<rparr>
      in case List.find (\<lambda>g. gv_ID g = zoneID) (sn_Groups snap) of
           None \<Rightarrow> out
         | Some gv \<Rightarrow>
             (let consumers = member_ids (gv_Consumers gv);
                  allowed = consumers \<union> member_ids (gv_AllowedExitNodes gv)
              in out\<lparr>sn_Groups := [gv],
                     sn_Nodes := filter (\<lambda>n. nv_StableID n \<in> allowed) (sn_Nodes snap),
                     sn_Routers := filter (\<lambda>rv. nv_StableID (rv_Node rv) \<in> consumers) (sn_Routers snap)\<rparr>))"

text \<open>The zone a guest is bound to, and the part of a snapshot that concerns it.\<close>

definition zone_of :: "Snapshot \<Rightarrow> string \<Rightarrow> GroupView option" where
  "zone_of snap zoneID = List.find (\<lambda>g. gv_ID g = zoneID) (sn_Groups snap)"

definition visible_ids :: "GroupView \<Rightarrow> string set" where
  "visible_ids gv = member_ids (gv_Consumers gv) \<union> member_ids (gv_AllowedExitNodes gv)"

lemma zone_of_ID: "zone_of snap z = Some gv \<Longrightarrow> gv_ID gv = z"
  by (auto simp: zone_of_def dest: find_SomeD)

lemma Filter_None:
  "zone_of snap z = None \<Longrightarrow>
     sn_Nodes (FilterSnapshotToZone snap z) = [] \<and> sn_Routers (FilterSnapshotToZone snap z) = [] \<and>
     sn_Groups (FilterSnapshotToZone snap z) = []"
  by (simp add: FilterSnapshotToZone_def zone_of_def Let_def)

lemma Filter_Some:
  assumes "zone_of snap z = Some gv"
  shows "sn_Groups (FilterSnapshotToZone snap z) = [gv]"
    and "sn_Nodes (FilterSnapshotToZone snap z) =
           filter (\<lambda>n. nv_StableID n \<in> visible_ids gv) (sn_Nodes snap)"
    and "sn_Routers (FilterSnapshotToZone snap z) =
           filter (\<lambda>rv. nv_StableID (rv_Node rv) \<in> member_ids (gv_Consumers gv)) (sn_Routers snap)"
  using assms by (simp_all add: FilterSnapshotToZone_def zone_of_def visible_ids_def Let_def)

lemma Filter_times [simp]:
  "sn_NetmapAt (FilterSnapshotToZone snap z) = sn_NetmapAt snap"
  "sn_NetmapErr (FilterSnapshotToZone snap z) = sn_NetmapErr snap"
  "sn_BuiltAt (FilterSnapshotToZone snap z) = sn_BuiltAt snap"
  by (simp_all add: FilterSnapshotToZone_def Let_def split: option.split)

lemma zone_of_Filter: "zone_of (FilterSnapshotToZone snap z) z = zone_of snap z"
proof (cases "zone_of snap z")
  case None
  then show ?thesis using Filter_None [OF None] by (simp add: zone_of_def)
next
  case (Some gv)
  then show ?thesis using Filter_Some(1) [OF Some] zone_of_ID [OF Some]
    by (simp add: zone_of_def)
qed

lemma Snapshot_eqI:
  fixes s t :: Snapshot
  assumes "sn_Nodes s = sn_Nodes t" "sn_Routers s = sn_Routers t" "sn_Groups s = sn_Groups t"
    "sn_NetmapAt s = sn_NetmapAt t" "sn_NetmapErr s = sn_NetmapErr t" "sn_BuiltAt s = sn_BuiltAt t"
  shows "s = t"
  using assms by simp

text \<open>
  What a guest bound to zone \<open>z\<close> is shown depends on that zone alone: two
  snapshots with the same freshness fields, the same view of the zone, and the same nodes and
  routers among the zone's members are filtered to the same snapshot, whatever else the fleet
  contains.
\<close>

theorem FilterSnapshotToZone_noninterference:
  assumes "sn_NetmapAt s = sn_NetmapAt t" and "sn_NetmapErr s = sn_NetmapErr t"
    and "sn_BuiltAt s = sn_BuiltAt t" and zone: "zone_of s z = zone_of t z"
    and "\<And>gv. zone_of s z = Some gv \<Longrightarrow>
      filter (\<lambda>n. nv_StableID n \<in> visible_ids gv) (sn_Nodes s) =
      filter (\<lambda>n. nv_StableID n \<in> visible_ids gv) (sn_Nodes t)"
    and "\<And>gv. zone_of s z = Some gv \<Longrightarrow>
      filter (\<lambda>rv. nv_StableID (rv_Node rv) \<in> member_ids (gv_Consumers gv)) (sn_Routers s) =
      filter (\<lambda>rv. nv_StableID (rv_Node rv) \<in> member_ids (gv_Consumers gv)) (sn_Routers t)"
  shows "FilterSnapshotToZone s z = FilterSnapshotToZone t z"
proof (cases "zone_of s z")
  case None
  then show ?thesis
    using assms Filter_None [of s z] Filter_None [of t z] by (intro Snapshot_eqI) auto
next
  case (Some gv)
  moreover from Some zone have "zone_of t z = Some gv" by simp
  ultimately show ?thesis
    using assms Filter_Some [of s z gv] Filter_Some [of t z gv] by (intro Snapshot_eqI) auto
qed

text \<open>
  Two snapshots that agree on the zone \<open>z\<close>. This is written out over the members of the zone and does not
  mention the filter: the freshness fields and the zone's own entry are the same, and so are the nodes that are
  consumers or allowed exit nodes of the zone and the routers that are its consumers. Nothing else is compared.
\<close>

definition zone_agrees :: "string \<Rightarrow> Snapshot \<Rightarrow> Snapshot \<Rightarrow> bool" where
  "zone_agrees z s t \<longleftrightarrow>
     sn_NetmapAt s = sn_NetmapAt t \<and> sn_NetmapErr s = sn_NetmapErr t \<and> sn_BuiltAt s = sn_BuiltAt t \<and>
     List.find (\<lambda>g. gv_ID g = z) (sn_Groups s) = List.find (\<lambda>g. gv_ID g = z) (sn_Groups t) \<and>
     (\<forall>gv. List.find (\<lambda>g. gv_ID g = z) (sn_Groups s) = Some gv \<longrightarrow>
        (let consumers = gm_StableID ` set (gv_Consumers gv); allowed = gm_StableID ` set (gv_AllowedExitNodes gv)
         in filter (\<lambda>n. nv_StableID n \<in> consumers \<union> allowed) (sn_Nodes s) =
              filter (\<lambda>n. nv_StableID n \<in> consumers \<union> allowed) (sn_Nodes t) \<and>
            filter (\<lambda>rv. nv_StableID (rv_Node rv) \<in> consumers) (sn_Routers s) =
              filter (\<lambda>rv. nv_StableID (rv_Node rv) \<in> consumers) (sn_Routers t)))"

lemma zone_agrees_Filter:
  assumes "zone_agrees z s t"
  shows "FilterSnapshotToZone s z = FilterSnapshotToZone t z"
  using assms unfolding zone_agrees_def
  by (intro FilterSnapshotToZone_noninterference) (auto simp: zone_of_def visible_ids_def member_ids_def Let_def)

definition example_zone_view :: GroupView where
  "example_zone_view = \<lparr>gv_ID = ''z'', gv_Name = ''Home'', gv_Consumers =
     [\<lparr>gm_StableID = ''r1'', gm_Name = ''r1'', gm_IP = ''100.64.0.1'', gm_Online = True, gm_Present = True\<rparr>],
     gv_AllowedExitNodes = []\<rparr>"

definition example_fleet :: "string list \<Rightarrow> Snapshot" where
  "example_fleet ids = (store_New 1)\<lparr>sn_Nodes := map (\<lambda>i. zero_NodeView\<lparr>nv_StableID := i\<rparr>) ids, sn_Groups := [example_zone_view]\<rparr>"

theorem FilterSnapshotToZone_noninterference_witness:
  "FilterSnapshotToZone (example_fleet [''r1'', ''secret'']) ''z'' = FilterSnapshotToZone (example_fleet [''r1'']) ''z'' \<and>
   sn_Nodes (FilterSnapshotToZone (example_fleet [''r1'']) ''z'') \<noteq> []"
proof -
  have "FilterSnapshotToZone (example_fleet [''r1'', ''secret'']) ''z'' = FilterSnapshotToZone (example_fleet [''r1'']) ''z''"
    by (rule FilterSnapshotToZone_noninterference)
      (auto simp: example_fleet_def example_zone_view_def store_New_def zone_of_def visible_ids_def member_ids_def)
  moreover have "sn_Nodes (FilterSnapshotToZone (example_fleet [''r1'']) ''z'') \<noteq> []"
    by (simp add: example_fleet_def example_zone_view_def store_New_def FilterSnapshotToZone_def member_ids_def)
  ultimately show ?thesis by simp
qed

end
