(* ===== verification/Go_Files.thy ===== *)
theory Go_Files
  imports Go_Strings
begin

section \<open>JSON documents, files and the atomic save both stores use\<close>

text \<open>
  The two persisted stores (\<^verbatim>\<open>internal/groups\<close>, \<^verbatim>\<open>internal/guests\<close>) keep one JSON file each. A file's
  content is modelled as the JSON document it parses to, \<open>None\<close> standing for bytes that are not a
  JSON document (a torn or corrupt file). Strings are coerced to valid UTF-8 by the encoder, as
  \<^verbatim>\<open>encoding/json\<close> does; a time is a leaf of its own, standing for its RFC 3339 rendering. Decoding
  follows \<^verbatim>\<open>json.Unmarshal\<close>: keys match field names up to case, unknown keys are ignored, null leaves
  a field at its zero value, a value of the wrong type is an error.

  \<open>atomic_save\<close> is the body both \<^verbatim>\<open>persistLocked\<close> methods share: temporary file, chmod, write, sync,
  close, rename. Every step may fail, as given by the record \<open>io\<close>, and the list of file-system
  states it passes through is part of the result, so that a crash between any two steps can be
  considered.
\<close>

subsection \<open>JSON\<close>

datatype json =
    JNull | JBool bool | JNum int | JStr string | JTime time
  | JArr "json list" | JObj "(string \<times> json) list"

definition EncodeRune :: "nat \<Rightarrow> nat list" where
  "EncodeRune r =
     (if r < 0x80 then [r]
      else if r < 0x800 then [0xC0 + r div 64, 0x80 + r mod 64]
      else if r < 0x10000 then [0xE0 + r div 4096, 0x80 + r div 64 mod 64, 0x80 + r mod 64]
      else [0xF0 + r div 262144, 0x80 + r div 4096 mod 64, 0x80 + r div 64 mod 64, 0x80 + r mod 64])"

text \<open>The string a JSON encoder writes for \<open>s\<close>: every invalid byte becomes U+FFFD.\<close>

definition json_string :: "string \<Rightarrow> string" where
  "json_string s = map char_of (concat (map EncodeRune (runes (map of_char s))))"

lemma DecodeRune_append:
  assumes "bs \<noteq> []" and "\<not> cont w"
  shows "DecodeRune (bs @ w # ws) = DecodeRune bs"
  using assms by (cases bs) (auto split: list.splits)

lemma DecodeRune_width_le: "bs \<noteq> [] \<Longrightarrow> snd (DecodeRune bs) \<le> length bs"
  by (cases bs) (auto split: list.splits)

lemma runes_append:
  assumes "\<not> cont w"
  shows "runes (bs @ w # ws) = runes bs @ runes (w # ws)"
proof (induction bs rule: runes.induct)
  case (1 bs)
  show ?case
  proof (cases "bs = []")
    case True
    then show ?thesis by (simp add: runes.simps [of "[]"])
  next
    case False
    with 1 show ?thesis
      using DecodeRune_append [OF False assms] DecodeRune_width_le [OF False]
      by (subst runes.simps, subst (2) runes.simps) simp
  qed
qed

text \<open>Valid UTF-8 is a fixed point of the coercion; trimming spaces keeps it valid.\<close>

definition utf8_coerce :: "nat list \<Rightarrow> nat list" where
  "utf8_coerce bs = concat (map EncodeRune (runes bs))"

lemma utf8_coerce_append: "\<not> cont w \<Longrightarrow> utf8_coerce (bs @ w # ws) = utf8_coerce bs @ utf8_coerce (w # ws)"
  by (simp add: utf8_coerce_def runes_append)

lemma space_seqs_utf8:
  "w \<in> set space_seqs \<Longrightarrow> \<exists>b bs. map of_char w = b # bs \<and> \<not> cont b \<and> utf8_coerce (b # bs @ r) = b # bs @ utf8_coerce r"
  apply (simp add: space_seqs_def utf8_coerce_def)
  apply (elim disjE; simp add: cont_def RuneError_def EncodeRune_def runes.simps [of "_ # _"])
  done


lemma json_string_eqI: "utf8_coerce (map of_char s) = map of_char s \<Longrightarrow> json_string s = s"
  by (simp add: json_string_def utf8_coerce_def [symmetric] comp_def)

text \<open>A string the JSON encoder writes as it is.\<close>

definition utf8 :: "string \<Rightarrow> bool" where
  "utf8 s \<longleftrightarrow> utf8_coerce (map of_char s) = map of_char s"

lemma json_string_utf8: "utf8 s \<Longrightarrow> json_string s = s"
  by (simp add: utf8_def json_string_eqI)

lemma utf8_Nil [simp]: "utf8 []"
  by (simp add: utf8_def utf8_coerce_def runes.simps)

lemma utf8_ascii: "\<forall>c \<in> set s. (of_char c :: nat) < 0x80 \<Longrightarrow> utf8 s"
proof -
  assume a: "\<forall>c \<in> set s. (of_char c :: nat) < 0x80"
  have "concat (map EncodeRune bs) = bs" if "\<forall>b \<in> set bs. b < 0x80" for bs
    using that by (induction bs) (auto simp: EncodeRune_def)
  with a show ?thesis by (simp add: utf8_def utf8_coerce_def runes_ascii del: map_map)
qed

lemma utf8_drop_space: "w \<in> set space_seqs \<Longrightarrow> utf8 (w @ s) \<Longrightarrow> utf8 s"
  by (auto simp: utf8_def dest: space_seqs_utf8 [where r = "map of_char s"])

lemma utf8_butlast_space:
  assumes "w \<in> set space_seqs" and "utf8 (s @ w)"
  shows "utf8 s"
proof -
  obtain b bs where b: "map of_char w = b # bs" "\<not> cont b" "utf8_coerce (b # bs) = b # bs @ utf8_coerce []"
    using space_seqs_utf8 [OF assms(1), of "[]"] by auto
  moreover have "utf8_coerce [] = []" by (simp add: utf8_coerce_def runes.simps)
  ultimately show ?thesis
    using assms(2) utf8_coerce_append [OF b(2), of "map of_char s" bs] by (simp add: utf8_def)
qed

lemma utf8_strip: "utf8 s \<Longrightarrow> utf8 (strip space_seqs s)"
proof (induction space_seqs s rule: strip.induct)
  case (1 s)
  show ?case
  proof (cases "lead space_seqs s")
    case None
    with 1 show ?thesis by (simp add: strip_id)
  next
    case (Some w)
    then obtain r where "w \<in> set space_seqs" "s = w @ r" by (auto dest: lead_SomeD)
    with 1 Some show ?thesis by (subst strip.simps) (auto dest: utf8_drop_space)
  qed
qed

lemma utf8_strip_rev: "utf8 (rev s) \<Longrightarrow> utf8 (rev (strip (map rev space_seqs) s))"
proof (induction "map rev space_seqs" s rule: strip.induct)
  case (1 s)
  show ?case
  proof (cases "lead (map rev space_seqs) s")
    case None
    with 1 show ?thesis by (simp add: strip_id)
  next
    case (Some w)
    then have "w \<in> rev ` set space_seqs" "\<exists>r. s = w @ r" by (auto dest: lead_SomeD)
    then obtain v r where v: "v \<in> set space_seqs" "w = rev v" "s = rev v @ r" by blast
    then have "utf8 (rev r)" using 1(2) utf8_butlast_space [of v "rev r"] by simp
    with 1(1) Some v show ?thesis by (subst strip.simps) simp
  qed
qed

lemma utf8_TrimSpace: "utf8 s \<Longrightarrow> utf8 (TrimSpace s)"
  using utf8_strip_rev [of "rev (TrimLeftSpace s)"] utf8_strip [of s]
  by (simp add: TrimSpace_def TrimLeftSpace_def TrimRightSpace_def)

text \<open>A list of strings: a nil slice is written as null.\<close>

definition json_strings :: "string list \<Rightarrow> json" where
  "json_strings xs = (if xs = [] then JNull else JArr (map (JStr \<circ> json_string) xs))"

fun dec_string :: "json \<Rightarrow> string \<Rightarrow> string option" where
  "dec_string (JStr s) old = Some s"
| "dec_string JNull old = Some old"
| "dec_string _ old = None"

fun dec_bool :: "json \<Rightarrow> bool \<Rightarrow> bool option" where
  "dec_bool (JBool b) old = Some b"
| "dec_bool JNull old = Some old"
| "dec_bool _ old = None"

fun dec_time :: "json \<Rightarrow> time \<Rightarrow> time option" where
  "dec_time (JTime t) old = Some t"
| "dec_time JNull old = Some old"
| "dec_time _ old = None"

fun seq_opt :: "'a option list \<Rightarrow> 'a list option" where
  "seq_opt [] = Some []"
| "seq_opt (x # xs) = Option.bind x (\<lambda>a. map_option ((#) a) (seq_opt xs))"

fun dec_strings :: "json \<Rightarrow> string list \<Rightarrow> string list option" where
  "dec_strings (JArr xs) old = seq_opt (map (\<lambda>x. dec_string x []) xs)"
| "dec_strings JNull old = Some []"
| "dec_strings _ old = None"

text \<open>
  The field a JSON key names: an exact match first, else the first field equal up to case.
\<close>

definition json_key :: "(nat \<Rightarrow> nat) \<Rightarrow> string list \<Rightarrow> string \<Rightarrow> string option" where
  "json_key uf fields k = (if k \<in> set fields then Some k else List.find (EqualFold uf k) fields)"

text \<open>
  Decoding an object into a struct: \<open>upd k v r\<close> stores the value of key \<open>k\<close>, or leaves \<open>r\<close> alone for
  an unknown key, or fails on a type mismatch. A null object leaves the struct alone.
\<close>

fun dec_fields :: "(string \<Rightarrow> json \<Rightarrow> 'r \<Rightarrow> 'r option) \<Rightarrow> (string \<times> json) list \<Rightarrow> 'r \<Rightarrow> 'r option" where
  "dec_fields upd [] r = Some r"
| "dec_fields upd ((k, v) # kvs) r = Option.bind (upd k v r) (dec_fields upd kvs)"

fun dec_object :: "(string \<Rightarrow> json \<Rightarrow> 'r \<Rightarrow> 'r option) \<Rightarrow> 'r \<Rightarrow> json \<Rightarrow> 'r option" where
  "dec_object upd zero (JObj kvs) = dec_fields upd kvs zero"
| "dec_object upd zero JNull = Some zero"
| "dec_object upd zero _ = None"

fun dec_array :: "(json \<Rightarrow> 'r option) \<Rightarrow> json \<Rightarrow> 'r list option" where
  "dec_array dec (JArr xs) = seq_opt (map dec xs)"
| "dec_array dec JNull = Some []"
| "dec_array dec _ = None"

lemma seq_opt_map_Some [simp]: "seq_opt (map (\<lambda>x. Some (f x)) xs) = Some (map f xs)"
  by (induction xs) auto

lemma seq_opt_map_SomeI: "(\<And>x. x \<in> set xs \<Longrightarrow> f x = Some (g x)) \<Longrightarrow> seq_opt (map f xs) = Some (map g xs)"
  by (induction xs) auto

lemma dec_strings_json_strings:
  assumes "\<forall>s \<in> set xs. json_string s = s"
  shows "dec_strings (json_strings xs) old = Some xs"
proof -
  have "seq_opt (map (\<lambda>x. dec_string x []) (map (JStr \<circ> json_string) xs)) = Some (map id xs)"
    unfolding map_map using assms by (intro seq_opt_map_SomeI) auto
  then show ?thesis by (simp add: json_strings_def)
qed

subsection \<open>The file system\<close>

type_synonym content = "json option"
type_synonym files = "string \<rightharpoonup> content"

text \<open>
  Which calls of one save fail, with the error's text, the name the temporary file gets, and
  whether removing it fails (a result the code ignores).
\<close>

record io =
  io_tmp :: string
  io_mkdir :: "string option"
  io_create :: "string option"
  io_chmod :: "string option"
  io_write :: "string option"
  io_sync :: "string option"
  io_close :: "string option"
  io_rename :: "string option"
  io_remove_fails :: bool

definition io_ok :: "string \<Rightarrow> io" where
  "io_ok tmp = \<lparr>io_tmp = tmp, io_mkdir = None, io_create = None, io_chmod = None, io_write = None,
     io_sync = None, io_close = None, io_rename = None, io_remove_fails = False\<rparr>"

definition cleanup_tmp :: "io \<Rightarrow> files \<Rightarrow> files" where
  "cleanup_tmp io fs = (if io_remove_fails io then fs else fs(io_tmp io := None))"

text \<open>
  The save: the error (if any) and the states of the file system after each step, in order. While
  the temporary file is being written its content is torn.
\<close>

definition atomic_save :: "io \<Rightarrow> string \<Rightarrow> json \<Rightarrow> files \<Rightarrow> string option \<times> files list" where
  "atomic_save io path doc fs =
     (case io_mkdir io of Some e \<Rightarrow> (Some (''ensuring state dir: '' @ e), [fs]) | None \<Rightarrow>
      case io_create io of Some e \<Rightarrow> (Some (''creating temp file: '' @ e), [fs]) | None \<Rightarrow>
      let torn = fs(io_tmp io \<mapsto> None); full = fs(io_tmp io \<mapsto> Some doc)
      in case io_chmod io of
           Some e \<Rightarrow> (Some (''chmod temp file: '' @ e), [fs, torn, cleanup_tmp io torn])
         | None \<Rightarrow>
         case io_write io of
           Some e \<Rightarrow> (Some (''writing temp file: '' @ e), [fs, torn, cleanup_tmp io torn])
         | None \<Rightarrow>
         case io_sync io of
           Some e \<Rightarrow> (Some (''syncing temp file: '' @ e), [fs, torn, full, cleanup_tmp io full])
         | None \<Rightarrow>
         case io_close io of
           Some e \<Rightarrow> (Some (''closing temp file: '' @ e), [fs, torn, full, cleanup_tmp io full])
         | None \<Rightarrow>
         case io_rename io of
           Some e \<Rightarrow> (Some (''renaming temp file into place: '' @ e), [fs, torn, full, cleanup_tmp io full])
         | None \<Rightarrow> (None, [fs, torn, full, full(path \<mapsto> Some doc, io_tmp io := None)]))"

definition save_final :: "string option \<times> files list \<Rightarrow> files" where
  "save_final r = last (snd r)"

text \<open>
  \<^verbatim>\<open>os.CreateTemp\<close> opens a file that did not exist before, and its pattern never yields the target's
  own name.
\<close>

definition fresh_tmp :: "io \<Rightarrow> string \<Rightarrow> files \<Rightarrow> bool" where
  "fresh_tmp io path fs \<longleftrightarrow> io_tmp io \<noteq> path \<and> fs (io_tmp io) = None"

lemmas save_splits = option.splits if_splits

lemma atomic_save_target:
  assumes "fresh_tmp io path fs" and "fs' \<in> set (snd (atomic_save io path doc fs))"
  shows "fs' path = fs path \<or> fs' path = Some (Some doc)"
  using assms by (auto simp: atomic_save_def Let_def cleanup_tmp_def fresh_tmp_def split: save_splits)

lemma atomic_save_error_target:
  assumes "fresh_tmp io path fs" and "fst (atomic_save io path doc fs) = Some e"
  shows "save_final (atomic_save io path doc fs) path = fs path"
  using assms
  by (auto simp: save_final_def atomic_save_def Let_def cleanup_tmp_def fresh_tmp_def split: save_splits)

lemma atomic_save_ok_target:
  assumes "fresh_tmp io path fs" and "fst (atomic_save io path doc fs) = None"
  shows "save_final (atomic_save io path doc fs) = fs(path \<mapsto> Some doc)"
  using assms
  by (auto simp: save_final_def atomic_save_def Let_def fresh_tmp_def fun_eq_iff split: save_splits)

lemma atomic_save_error_clean:
  assumes "fresh_tmp io path fs" and "fst (atomic_save io path doc fs) = Some e" and "\<not> io_remove_fails io"
  shows "save_final (atomic_save io path doc fs) = fs"
  using assms
  by (auto simp: save_final_def atomic_save_def Let_def cleanup_tmp_def fresh_tmp_def fun_eq_iff
      split: save_splits)

text \<open>A read of the file: missing, unreadable (with an error text), or its content.\<close>

datatype read_result = NotExist | ReadError string | ReadOK content

definition ReadFile :: "string option \<Rightarrow> files \<Rightarrow> string \<Rightarrow> read_result" where
  "ReadFile fault fs path =
     (case fault of Some e \<Rightarrow> ReadError e
      | None \<Rightarrow> (case fs path of None \<Rightarrow> NotExist | Some c \<Rightarrow> ReadOK c))"

end
