(* ===== verification/Api_Wire.thy ===== *)
theory Api_Wire
  imports Authz Go_Files
begin

section \<open>Package api: host names, times and the wire shapes\<close>

text \<open>
  The helpers and the data-transfer objects of \<^verbatim>\<open>internal/api/api.go\<close>: the normalisation of a host
  name, the rendering of a time, and for every store type the record of its wire shape with the JSON
  document \<^verbatim>\<open>encoding/json\<close> writes for it (field order as declared, \<^verbatim>\<open>omitempty\<close> fields left out when
  empty, a nil pointer as null). \<open>ToLower\<close> takes the Unicode lower-case table as an argument.
\<close>

subsection \<open>Host names\<close>

definition ascii_lower :: "char \<Rightarrow> char" where
  "ascii_lower c = char_of (ascii_fold (of_char c))"

definition is_ascii :: "string \<Rightarrow> bool" where
  "is_ascii s \<longleftrightarrow> (\<forall>c \<in> set s. (of_char c :: nat) < 0x80)"

text \<open>\<^verbatim>\<open>strings.ToLower\<close>: bytewise on ASCII, else rune by rune with the table \<open>lower\<close>.\<close>

definition ToLower :: "(nat \<Rightarrow> nat) \<Rightarrow> string \<Rightarrow> string" where
  "ToLower lower s =
     (if is_ascii s then map ascii_lower s
      else map char_of (concat (map (EncodeRune \<circ> lower) (runes (map of_char s)))))"

text \<open>\<^verbatim>\<open>strings.Trim\<close> with a cutset of ASCII characters.\<close>

definition Trim :: "string \<Rightarrow> string \<Rightarrow> string" where
  "Trim s cutset = rev (dropWhile (\<lambda>c. c \<in> set cutset) (rev (dropWhile (\<lambda>c. c \<in> set cutset) s)))"

definition normalizeHost :: "(nat \<Rightarrow> nat) \<Rightarrow> string \<Rightarrow> string" where
  "normalizeHost lower h0 =
     (let h = ToLower lower (TrimSpace h0)
      in if h = [] then []
         else (let h' = (case SplitHostPort h of Inr (host, _) \<Rightarrow> host | Inl _ \<Rightarrow> h) in Trim h' ''[]''))"

text \<open>Upper and lower case, and any port, lead to the same normal form.\<close>

definition plain_host :: "string \<Rightarrow> bool" where
  "plain_host h \<longleftrightarrow> h \<noteq> [] \<and> is_ascii h \<and> (\<forall>c \<in> set h. visible c \<and> c \<notin> set ''[]:'')"

definition plain_port :: "string \<Rightarrow> bool" where
  "plain_port p \<longleftrightarrow> p \<noteq> [] \<and> (\<forall>c \<in> set p. is_digit c)"

lemma of_char_ascii_lower: "(of_char c :: nat) < 0x80 \<Longrightarrow> (of_char (ascii_lower c) :: nat) = ascii_fold (of_char c)"
  by (simp add: ascii_lower_def ascii_fold_def)

lemma ascii_lower_plain:
  assumes "d \<in> set ''[]:''" and "(of_char c :: nat) < 0x80" and "ascii_lower c = d"
  shows "c = d"
proof -
  from assms have "ascii_fold (of_char c) = of_char d" using of_char_ascii_lower by metis
  with assms(1) have "(of_char c :: nat) = of_char d" by (auto simp: ascii_fold_def split: if_splits)
  then show ?thesis by simp
qed

lemma TrimSpace_all_visible: "\<forall>c \<in> set s. visible c \<Longrightarrow> TrimSpace s = s"
  by (cases s; cases s rule: rev_cases) (auto intro: TrimSpace_visible)

lemma dropWhile_none: "\<forall>c \<in> set s. \<not> P c \<Longrightarrow> dropWhile P s = s"
  by (induction s) auto

lemma Trim_none: "\<forall>c \<in> set s. c \<notin> set cutset \<Longrightarrow> Trim s cutset = s"
  by (simp add: Trim_def dropWhile_none)

lemma digit_ascii: "is_digit c \<Longrightarrow> (of_char c :: nat) < 0x80 \<and> ascii_lower c = c \<and> c \<notin> set ''[]:''"
  by (auto simp: is_digit_def ascii_lower_def ascii_fold_def)

lemma lower_plain_host:
  assumes "plain_host h"
  shows "map ascii_lower h \<noteq> []" "\<forall>c \<in> set (map ascii_lower h). c \<notin> set ''[]:''"
proof -
  from assms show "map ascii_lower h \<noteq> []" unfolding plain_host_def by (simp del: set_simps)
  show "\<forall>c \<in> set (map ascii_lower h). c \<notin> set ''[]:''"
  proof (rule ballI, rule notI)
    fix d assume d: "d \<in> set (map ascii_lower h)" "d \<in> set ''[]:''"
    from d(1) obtain c where c: "c \<in> set h" "ascii_lower c = d" unfolding set_map by blast
    then have "c = d" using assms d(2) ascii_lower_plain unfolding plain_host_def is_ascii_def by metis
    with c d assms show False unfolding plain_host_def by metis
  qed
qed

lemma plain_chars: "\<forall>c \<in> set s. c \<notin> set ''[]:'' \<Longrightarrow>
    CHR '':'' \<notin> set s \<and> CHR ''['' \<notin> set s \<and> CHR '']'' \<notin> set s \<and> (\<forall>c \<in> set s. c \<notin> set ''[]'')"
  by auto

lemma normalizeHost_plain:
  assumes "plain_host h"
  shows "normalizeHost lower h = map ascii_lower h"
proof -
  note l = lower_plain_host [OF assms] and k = plain_chars [OF lower_plain_host(2) [OF assms]]
  have t: "ToLower lower (TrimSpace h) = map ascii_lower h"
    using assms unfolding plain_host_def ToLower_def by (metis TrimSpace_all_visible)
  have "LastIndexByte (map ascii_lower h) CHR '':'' = None" using k LastIndexByte_None_iff by metis
  then have "SplitHostPort (map ascii_lower h) = Inl MissingPort" unfolding SplitHostPort_def by simp
  with t l k Trim_none [of "map ascii_lower h" "''[]''"] show ?thesis
    unfolding normalizeHost_def Let_def by simp
qed

lemma normalizeHost_port:
  assumes "plain_host h" and "plain_port p"
  shows "normalizeHost lower (h @ CHR '':'' # p) = normalizeHost lower h"
proof -
  note l = lower_plain_host [OF assms(1)] and k = plain_chars [OF lower_plain_host(2) [OF assms(1)]]
  have p: "map ascii_lower p = p" "is_ascii p" "\<forall>c \<in> set p. visible c" "\<forall>c \<in> set p. c \<notin> set ''[]:''"
    using assms(2) digit_ascii is_digit_visible unfolding plain_port_def is_ascii_def by (metis map_idI)+
  note pk = plain_chars [OF p(4)]
  have colon: "visible CHR '':''" "(of_char CHR '':'' :: nat) < 0x80" "ascii_lower CHR '':'' = CHR '':''"
    by code_simp+
  have "is_ascii h" "\<forall>c \<in> set h. visible c" using assms(1) unfolding plain_host_def by blast+
  with p colon have "is_ascii (h @ CHR '':'' # p)" "\<forall>c \<in> set (h @ CHR '':'' # p). visible c"
    unfolding is_ascii_def set_append list.set by blast+
  then have t: "ToLower lower (TrimSpace (h @ CHR '':'' # p)) = map ascii_lower h @ CHR '':'' # p"
    using p(1) colon(3) by (simp add: ToLower_def TrimSpace_all_visible)
  have "SplitHostPort (JoinHostPort (map ascii_lower h) p) = Inr (map ascii_lower h, p)"
    using k pk by (intro SplitHostPort_JoinHostPort) simp_all
  then have "SplitHostPort (map ascii_lower h @ CHR '':'' # p) = Inr (map ascii_lower h, p)"
    using k by (simp add: JoinHostPort_def)
  with t l k Trim_none [of "map ascii_lower h" "''[]''"] show ?thesis
    unfolding normalizeHost_plain [OF assms(1)] by (simp add: normalizeHost_def)
qed

subsection \<open>Times\<close>

text \<open>
  The civil date of a day number counted from 1 January of year 1, by the usual computation on years that
  start in March: 400-year cycles of 146097 days, and months found from \<open>(5 d + 2) div 153\<close>.
\<close>

definition civil_date :: "int \<Rightarrow> int \<times> int \<times> int" where
  "civil_date d =
     (let z = d + 306; era = z div 146097; doe = z mod 146097;
          yoe = (doe - doe div 1460 + doe div 36524 - doe div 146096) div 365;
          doy = doe - (365 * yoe + yoe div 4 - yoe div 100);
          mp = (5 * doy + 2) div 153;
          day = doy - (153 * mp + 2) div 5 + 1;
          month = (if mp < 10 then mp + 3 else mp - 9)
      in (yoe + era * 400 + (if month \<le> 2 then 1 else 0), month, day))"

text \<open>A decimal number padded with zeros to a width.\<close>

definition pad_int :: "nat \<Rightarrow> int \<Rightarrow> string" where
  "pad_int w i =
     (let ds = show_nat (nat \<bar>i\<bar>) in (if i < 0 then ''-'' else []) @ replicate (w - length ds) CHR ''0'' @ ds)"

definition rfc3339 :: "time \<Rightarrow> string" where
  "rfc3339 t =
     (if t = zero_time then []
      else (let secs = t div second; sod = secs mod 86400;
                (y, m, d) = civil_date (secs div 86400)
            in pad_int 4 y @ ''-'' @ pad_int 2 m @ ''-'' @ pad_int 2 d @ ''T'' @
               pad_int 2 (sod div 3600) @ '':'' @ pad_int 2 (sod div 60 mod 60) @ '':'' @ pad_int 2 (sod mod 60) @ ''Z''))"

subsection \<open>Wire shapes\<close>

fun NodeType_string :: "NodeType \<Rightarrow> string" where
  "NodeType_string NodeExitNode = ''exit-node''"
| "NodeType_string NodeRouter = ''router''"
| "NodeType_string NodeGeneric = ''generic''"
| "NodeType_string NodeTypeZero = []"

fun RouterState_string :: "RouterState \<Rightarrow> string" where
  "RouterState_string RouterOK = ''ok''"
| "RouterState_string RouterPending = ''pending''"
| "RouterState_string RouterUnconfirmed = ''unconfirmed''"
| "RouterState_string RouterUnreachable = ''unreachable''"
| "RouterState_string RouterAwaitingKeep = ''awaiting-keep''"
| "RouterState_string RouterUnprobed = ''unprobed''"
| "RouterState_string RouterStateZero = []"

record NodeDTO =
  nd_StableID :: string
  nd_Name :: string
  nd_Hostname :: string
  nd_TailscaleIPs :: "string list"
  nd_OS :: string
  nd_Online :: bool
  nd_LastSeen :: string
  nd_ExitNodeOption :: bool
  nd_Tags :: "string list"
  nd_Type :: string

record ExitNodeRefDTO =
  ed_StableID :: string
  ed_Name :: string
  ed_IP :: string

record RouterStatsDTO =
  sd_RxBytes :: int
  sd_TxBytes :: int
  sd_LastHandshake :: string

record RouterViewDTO =
  rd_Node :: NodeDTO
  rd_CurrentExitNode :: "ExitNodeRefDTO option"
  rd_Desired :: "ExitNodeRefDTO option"
  rd_State :: string
  rd_Stats :: RouterStatsDTO
  rd_Reachable :: bool
  rd_LastError :: string
  rd_LastConfirmedAt :: string
  rd_RevertAt :: string
  rd_EgressOK :: "bool option"
  rd_EgressDetail :: string
  rd_EgressCheckedAt :: string

record GroupDTO =
  gd_ID :: string
  gd_Name :: string
  gd_Consumers :: "string list"
  gd_AllowedExitNodes :: "string list"

record GroupMemberDTO =
  md_StableID :: string
  md_Name :: string
  md_IP :: string
  md_Online :: bool
  md_Present :: bool

record GroupViewDTO =
  vd_ID :: string
  vd_Name :: string
  vd_Consumers :: "GroupMemberDTO list"
  vd_AllowedExitNodes :: "GroupMemberDTO list"

record SnapshotDTO =
  td_Nodes :: "NodeDTO list"
  td_Routers :: "RouterViewDTO list"
  td_Groups :: "GroupViewDTO list"
  td_NetmapAt :: string
  td_NetmapErr :: string
  td_BuiltAt :: string

record NodesResponse =
  nr_Nodes :: "NodeDTO list"
  nr_BuiltAt :: string
  nr_NetmapErr :: string

record MeResponse =
  me_Role :: string
  me_ZoneID :: string
  me_ZoneName :: string

record GuestDTO =
  ud_ID :: string
  ud_Label :: string
  ud_ZoneID :: string
  ud_Disabled :: bool
  ud_CreatedAt :: string

definition nodeDTO :: "NodeView \<Rightarrow> NodeDTO" where
  "nodeDTO n = \<lparr>nd_StableID = nv_StableID n, nd_Name = nv_Name n, nd_Hostname = nv_Hostname n,
     nd_TailscaleIPs = nv_TailscaleIPs n, nd_OS = nv_OS n, nd_Online = nv_Online n, nd_LastSeen = rfc3339 (nv_LastSeen n),
     nd_ExitNodeOption = nv_ExitNodeOption n, nd_Tags = nv_Tags n, nd_Type = NodeType_string (nv_Type n)\<rparr>"

definition nodeDTOs :: "NodeView list \<Rightarrow> NodeDTO list" where
  "nodeDTOs ns = map nodeDTO ns"

definition exitRefDTO :: "ExitNodeRef option \<Rightarrow> ExitNodeRefDTO option" where
  "exitRefDTO r = map_option (\<lambda>e. \<lparr>ed_StableID = er_StableID e, ed_Name = er_Name e, ed_IP = er_IP e\<rparr>) r"

definition routerViewDTO :: "RouterView \<Rightarrow> RouterViewDTO" where
  "routerViewDTO rv = \<lparr>rd_Node = nodeDTO (rv_Node rv), rd_CurrentExitNode = exitRefDTO (rv_CurrentExitNode rv),
     rd_Desired = exitRefDTO (rv_Desired rv), rd_State = RouterState_string (rv_State rv),
     rd_Stats = \<lparr>sd_RxBytes = rs_RxBytes (rv_Stats rv), sd_TxBytes = rs_TxBytes (rv_Stats rv),
       sd_LastHandshake = rfc3339 (rs_LastHandshake (rv_Stats rv))\<rparr>,
     rd_Reachable = rv_Reachable rv, rd_LastError = rv_LastError rv, rd_LastConfirmedAt = rfc3339 (rv_LastConfirmedAt rv),
     rd_RevertAt = rfc3339 (rv_RevertAt rv), rd_EgressOK = rv_EgressOK rv, rd_EgressDetail = rv_EgressDetail rv,
     rd_EgressCheckedAt = rfc3339 (rv_EgressCheckedAt rv)\<rparr>"

definition groupDTO :: "Group \<Rightarrow> GroupDTO" where
  "groupDTO g = \<lparr>gd_ID = g_ID g, gd_Name = g_Name g, gd_Consumers = g_Consumers g, gd_AllowedExitNodes = g_AllowedExitNodes g\<rparr>"

definition groupDTOs :: "Group list \<Rightarrow> GroupDTO list" where
  "groupDTOs gs = map groupDTO gs"

definition guestDTO :: "Guest \<Rightarrow> GuestDTO" where
  "guestDTO g = \<lparr>ud_ID = gu_ID g, ud_Label = gu_Label g, ud_ZoneID = gu_ZoneID g, ud_Disabled = gu_Disabled g,
     ud_CreatedAt = rfc3339 (gu_CreatedAt g)\<rparr>"

definition guestDTOs :: "Guest list \<Rightarrow> GuestDTO list" where
  "guestDTOs gs = map guestDTO gs"

definition groupMemberDTOs :: "GroupMember list \<Rightarrow> GroupMemberDTO list" where
  "groupMemberDTOs ms = map (\<lambda>m. \<lparr>md_StableID = gm_StableID m, md_Name = gm_Name m, md_IP = gm_IP m,
     md_Online = gm_Online m, md_Present = gm_Present m\<rparr>) ms"

definition groupViewDTOs :: "GroupView list \<Rightarrow> GroupViewDTO list" where
  "groupViewDTOs gvs = map (\<lambda>gv. \<lparr>vd_ID = gv_ID gv, vd_Name = gv_Name gv, vd_Consumers = groupMemberDTOs (gv_Consumers gv),
     vd_AllowedExitNodes = groupMemberDTOs (gv_AllowedExitNodes gv)\<rparr>) gvs"

definition snapshotDTO :: "Snapshot \<Rightarrow> SnapshotDTO" where
  "snapshotDTO s = \<lparr>td_Nodes = nodeDTOs (sn_Nodes s), td_Routers = map routerViewDTO (sn_Routers s),
     td_Groups = groupViewDTOs (sn_Groups s), td_NetmapAt = rfc3339 (sn_NetmapAt s), td_NetmapErr = sn_NetmapErr s,
     td_BuiltAt = rfc3339 (sn_BuiltAt s)\<rparr>"

subsection \<open>The JSON documents\<close>

definition js :: "string \<Rightarrow> json" where
  "js s = JStr (json_string s)"

definition js_list :: "string list \<Rightarrow> json" where
  "js_list xs = JArr (map js xs)"

definition omitempty :: "string \<Rightarrow> string \<Rightarrow> (string \<times> json) list" where
  "omitempty k s = (if s = [] then [] else [(k, js s)])"

definition json_NodeDTO :: "NodeDTO \<Rightarrow> json" where
  "json_NodeDTO n = JObj
     [(''stableID'', js (nd_StableID n)), (''name'', js (nd_Name n)), (''hostname'', js (nd_Hostname n)),
      (''tailscaleIPs'', js_list (nd_TailscaleIPs n)), (''os'', js (nd_OS n)), (''online'', JBool (nd_Online n)),
      (''lastSeen'', js (nd_LastSeen n)), (''exitNodeOption'', JBool (nd_ExitNodeOption n)),
      (''tags'', js_list (nd_Tags n)), (''type'', js (nd_Type n))]"

definition json_ExitNodeRefDTO :: "ExitNodeRefDTO option \<Rightarrow> json" where
  "json_ExitNodeRefDTO r =
     (case r of None \<Rightarrow> JNull
      | Some e \<Rightarrow> JObj [(''stableID'', js (ed_StableID e)), (''name'', js (ed_Name e)), (''ip'', js (ed_IP e))])"

definition json_RouterStatsDTO :: "RouterStatsDTO \<Rightarrow> json" where
  "json_RouterStatsDTO s = JObj
     [(''rxBytes'', JNum (sd_RxBytes s)), (''txBytes'', JNum (sd_TxBytes s)), (''lastHandshake'', js (sd_LastHandshake s))]"

definition json_RouterViewDTO :: "RouterViewDTO \<Rightarrow> json" where
  "json_RouterViewDTO r = JObj
     ([(''node'', json_NodeDTO (rd_Node r)), (''currentExitNode'', json_ExitNodeRefDTO (rd_CurrentExitNode r)),
       (''desired'', json_ExitNodeRefDTO (rd_Desired r)), (''state'', js (rd_State r)),
       (''stats'', json_RouterStatsDTO (rd_Stats r)), (''reachable'', JBool (rd_Reachable r)),
       (''lastError'', js (rd_LastError r)), (''lastConfirmedAt'', js (rd_LastConfirmedAt r))] @
      omitempty ''revertAt'' (rd_RevertAt r) @
      (case rd_EgressOK r of None \<Rightarrow> [] | Some b \<Rightarrow> [(''egressOk'', JBool b)]) @
      omitempty ''egressDetail'' (rd_EgressDetail r) @ omitempty ''egressCheckedAt'' (rd_EgressCheckedAt r))"

definition json_GroupDTO :: "GroupDTO \<Rightarrow> json" where
  "json_GroupDTO g = JObj
     [(''id'', js (gd_ID g)), (''name'', js (gd_Name g)), (''consumers'', js_list (gd_Consumers g)),
      (''allowedExitNodes'', js_list (gd_AllowedExitNodes g))]"

definition json_GroupMemberDTO :: "GroupMemberDTO \<Rightarrow> json" where
  "json_GroupMemberDTO m = JObj
     [(''stableID'', js (md_StableID m)), (''name'', js (md_Name m)), (''ip'', js (md_IP m)),
      (''online'', JBool (md_Online m)), (''present'', JBool (md_Present m))]"

definition json_GroupViewDTO :: "GroupViewDTO \<Rightarrow> json" where
  "json_GroupViewDTO v = JObj
     [(''id'', js (vd_ID v)), (''name'', js (vd_Name v)),
      (''consumers'', JArr (map json_GroupMemberDTO (vd_Consumers v))),
      (''allowedExitNodes'', JArr (map json_GroupMemberDTO (vd_AllowedExitNodes v)))]"

definition json_SnapshotDTO :: "SnapshotDTO \<Rightarrow> json" where
  "json_SnapshotDTO s = JObj
     [(''nodes'', JArr (map json_NodeDTO (td_Nodes s))), (''routers'', JArr (map json_RouterViewDTO (td_Routers s))),
      (''groups'', JArr (map json_GroupViewDTO (td_Groups s))), (''netmapAt'', js (td_NetmapAt s)),
      (''netmapErr'', js (td_NetmapErr s)), (''builtAt'', js (td_BuiltAt s))]"

definition EncodeSnapshot :: "Snapshot \<Rightarrow> json" where
  "EncodeSnapshot s = json_SnapshotDTO (snapshotDTO s)"

definition json_NodesResponse :: "NodesResponse \<Rightarrow> json" where
  "json_NodesResponse r = JObj
     [(''nodes'', JArr (map json_NodeDTO (nr_Nodes r))), (''builtAt'', js (nr_BuiltAt r)), (''netmapErr'', js (nr_NetmapErr r))]"

definition json_MeResponse :: "MeResponse \<Rightarrow> json" where
  "json_MeResponse r = JObj [(''role'', js (me_Role r)), (''zoneId'', js (me_ZoneID r)), (''zoneName'', js (me_ZoneName r))]"

definition json_GuestDTO :: "GuestDTO \<Rightarrow> json" where
  "json_GuestDTO g = JObj
     [(''id'', js (ud_ID g)), (''label'', js (ud_Label g)), (''zoneId'', js (ud_ZoneID g)),
      (''disabled'', JBool (ud_Disabled g)), (''createdAt'', js (ud_CreatedAt g))]"

definition json_ProbeResult :: "ProbeResult \<Rightarrow> json" where
  "json_ProbeResult r = JObj
     ([(''ok'', JBool (pr_OK r))] @ (if pr_DurationMs r = 0 then [] else [(''durationMs'', JNum (pr_DurationMs r))]) @
      omitempty ''output'' (pr_Output r) @ omitempty ''error'' (pr_Error r) @ [(''checkedAt'', JTime (pr_CheckedAt r))])"

end
