(* ===== verification/Config.thy ===== *)
theory Config
  imports Router_Transport Api_Wire
begin

section \<open>cmd/tsctl: configuration\<close>

text \<open>
  \<^verbatim>\<open>cmd/tsctl/config.go\<close>: the configuration from flags and environment, its defaults, the two secrets and the
  validation. The process environment is a map, a credential file is the outcome of reading it, the
  command line is the list of its arguments; the part of the package \<^verbatim>\<open>flag\<close> that the code uses is
  modelled with it (\<open>parse_args\<close> is \<^verbatim>\<open>FlagSet.Parse\<close>). \<^verbatim>\<open>time.ParseDuration\<close> (which computes in floating point) and
  the Unicode lower-case table are arguments.
\<close>

subsection \<open>What is used of the standard library\<close>

definition ParseBool :: "string \<Rightarrow> bool option" where
  "ParseBool s =
     (if s \<in> set [''1'', ''t'', ''T'', ''true'', ''TRUE'', ''True''] then Some True
      else if s \<in> set [''0'', ''f'', ''F'', ''false'', ''FALSE'', ''False''] then Some False
      else None)"

text \<open>\<^verbatim>\<open>filepath.Clean\<close> and \<^verbatim>\<open>filepath.Join\<close> on Unix.\<close>

fun clean_segments :: "bool \<Rightarrow> string list \<Rightarrow> string list \<Rightarrow> string list" where
  "clean_segments rooted out [] = rev out"
| "clean_segments rooted out (s # ss) =
     (if s = [] \<or> s = ''.'' then clean_segments rooted out ss
      else if s = ''..'' then
        (if out = [] \<or> hd out = ''..'' then clean_segments rooted (if rooted then out else s # out) ss
         else clean_segments rooted (tl out) ss)
      else clean_segments rooted (s # out) ss)"

definition Clean :: "string \<Rightarrow> string" where
  "Clean path =
     (let rooted = HasPrefix path ''/''; body = join_with ''/'' (clean_segments rooted [] (Split path CHR ''/''))
      in if rooted then ''/'' @ body else if body = [] then ''.'' else body)"

definition filepath_Join :: "string \<Rightarrow> string \<Rightarrow> string" where
  "filepath_Join dir name = (if dir = [] then Clean name else Clean (dir @ ''/'' @ name))"

fun addr_error_text :: "addr_error \<Rightarrow> string" where
  "addr_error_text MissingPort = ''missing port in address''"
| "addr_error_text TooManyColons = ''too many colons in address''"
| "addr_error_text MissingBracket = ''missing '' @ [CHR 0x27] @ '']'' @ [CHR 0x27] @ '' in address''"
| "addr_error_text UnexpectedLBracket = ''unexpected '' @ [CHR 0x27] @ ''['' @ [CHR 0x27] @ '' in address''"
| "addr_error_text UnexpectedRBracket = ''unexpected '' @ [CHR 0x27] @ '']'' @ [CHR 0x27] @ '' in address''"

definition AddrError :: "string \<Rightarrow> addr_error \<Rightarrow> go_error" where
  "AddrError addr e = ErrorString (''address '' @ addr @ '': '' @ addr_error_text e)"

subsection \<open>Flags\<close>

datatype fval = FStr string | FBool bool | FDur duration

type_synonym flagset = "string \<rightharpoonup> fval"
type_synonym parse_duration = "string \<Rightarrow> go_error + duration"

definition invalid_flag :: "string \<Rightarrow> string \<Rightarrow> string \<Rightarrow> go_error" where
  "invalid_flag what v name = ErrorString (''invalid '' @ what @ '' '' @ Quote v @ '' for '' @ name @ '': parse error'')"

fun flag_Set :: "parse_duration \<Rightarrow> string \<Rightarrow> fval \<Rightarrow> string \<Rightarrow> go_error + fval" where
  "flag_Set pd name (FStr _) v = Inr (FStr v)"
| "flag_Set pd name (FBool _) v =
     (case ParseBool v of None \<Rightarrow> Inl (invalid_flag ''boolean value'' v (CHR ''-'' # name)) | Some b \<Rightarrow> Inr (FBool b))"
| "flag_Set pd name (FDur _) v =
     (case pd v of Inl _ \<Rightarrow> Inl (invalid_flag ''value'' v (''flag -'' @ name)) | Inr d \<Rightarrow> Inr (FDur d))"

text \<open>The name of a flag argument and its inline value.\<close>

definition split_flag :: "string \<Rightarrow> string \<times> string option" where
  "split_flag s =
     (case IndexByte (tl s) CHR ''='' of
        None \<Rightarrow> (s, None)
      | Some i \<Rightarrow> (take (Suc i) s, Some (drop (Suc (Suc i)) s)))"

definition flag_name :: "string \<Rightarrow> string" where
  "flag_name s = (if HasPrefix s ''--'' then drop 2 s else drop 1 s)"

text \<open>\<^verbatim>\<open>FlagSet.Parse\<close>: flags up to the first argument that is none, or up to \<^verbatim>\<open>--\<close>; what follows is left alone.\<close>

fun parse_args :: "parse_duration \<Rightarrow> flagset \<Rightarrow> string list \<Rightarrow> go_error + flagset" where
  "parse_args pd fs [] = Inr fs"
| "parse_args pd fs (s # args) =
     (if length s < 2 \<or> hd s \<noteq> CHR ''-'' then Inr fs
      else if s = ''--'' then Inr fs
      else let body = flag_name s
           in if body = [] \<or> hd body = CHR ''-'' \<or> hd body = CHR ''='' then Inl (ErrorString (''bad flag syntax: '' @ s))
              else (case split_flag body of (name, inline) \<Rightarrow>
                (case fs name of
                   None \<Rightarrow>
                     if name = ''help'' \<or> name = ''h'' then Inl (ErrorString ''flag: help requested'')
                     else Inl (ErrorString (''flag provided but not defined: -'' @ name))
                 | Some (FBool b) \<Rightarrow>
                     (case flag_Set pd name (FBool b) (case inline of Some v \<Rightarrow> v | None \<Rightarrow> ''true'') of
                        Inl e \<Rightarrow> Inl e | Inr x \<Rightarrow> parse_args pd (fs(name \<mapsto> x)) args)
                 | Some old \<Rightarrow>
                     (case inline of
                        Some v \<Rightarrow> (case flag_Set pd name old v of Inl e \<Rightarrow> Inl e | Inr x \<Rightarrow> parse_args pd (fs(name \<mapsto> x)) args)
                      | None \<Rightarrow>
                          (case args of
                             [] \<Rightarrow> Inl (ErrorString (''flag needs an argument: -'' @ name))
                           | v # rest \<Rightarrow>
                               (case flag_Set pd name old v of
                                  Inl e \<Rightarrow> Inl e | Inr x \<Rightarrow> parse_args pd (fs(name \<mapsto> x)) rest))))))"

definition flag_str :: "flagset \<Rightarrow> string \<Rightarrow> string" where
  "flag_str fs n = (case fs n of Some (FStr s) \<Rightarrow> s | _ \<Rightarrow> [])"

definition flag_bool :: "flagset \<Rightarrow> string \<Rightarrow> bool" where
  "flag_bool fs n = (case fs n of Some (FBool b) \<Rightarrow> b | _ \<Rightarrow> False)"

definition flag_dur :: "flagset \<Rightarrow> string \<Rightarrow> duration" where
  "flag_dur fs n = (case fs n of Some (FDur d) \<Rightarrow> d | _ \<Rightarrow> 0)"

subsection \<open>The configuration\<close>

definition defaultEgressURL :: string where
  "defaultEgressURL = ''http://captive.tailscale.com/generate_204''"

record Config =
  cf_Hostname :: string
  cf_StateDir :: string
  cf_Listen :: string
  cf_HealthAddr :: string
  cf_Routers :: "string list"
  cf_SSHUser :: string
  cf_AuthKey :: string
  cf_Debug :: bool
  cf_SSHTimeout :: duration
  cf_Owner :: string
  cf_AllowedHosts :: "string list"
  cf_PollInterval :: duration
  cf_HTTPListen :: string
  cf_UIPassword :: string
  cf_ExitNodeLANAccess :: "bool option"
  cf_EgressCheck :: bool
  cf_EgressURL :: string
  cf_RequireKeep :: bool
  cf_RouterTransport :: string
  cf_RouterHostKeyMode :: string
  cf_SSHPassword :: string
  cf_RouterAddrs :: "string \<rightharpoonup> string"
  cf_KnownHostsPath :: string

type_synonym environ = "string \<rightharpoonup> string"

datatype text_file = NoFile | Unreadable string | Text string

definition env_default :: "environ \<Rightarrow> string \<Rightarrow> string \<Rightarrow> string" where
  "env_default E key def = (case E key of Some v \<Rightarrow> v | None \<Rightarrow> def)"

definition Getenv :: "environ \<Rightarrow> string \<Rightarrow> string" where
  "Getenv E key = env_default E key []"

definition envDur :: "parse_duration \<Rightarrow> environ \<Rightarrow> string \<Rightarrow> duration \<Rightarrow> go_error + duration" where
  "envDur pd E key def =
     (case E key of
        None \<Rightarrow> Inr def
      | Some v \<Rightarrow> (case pd (TrimSpace v) of Inl e \<Rightarrow> Inl (Wrapped (''invalid '' @ key @ '' '' @ Quote v) e) | Inr d \<Rightarrow> Inr d))"

definition envBool :: "environ \<Rightarrow> string \<Rightarrow> bool \<Rightarrow> go_error + bool" where
  "envBool E key def =
     (case E key of
        None \<Rightarrow> Inr def
      | Some v \<Rightarrow>
          (case ParseBool (TrimSpace v) of
             None \<Rightarrow> Inl (Wrapped (''invalid '' @ key @ '' '' @ Quote v @ '': want a boolean (true/false)'')
               (ErrorString (''strconv.ParseBool: parsing '' @ Quote (TrimSpace v) @ '': invalid syntax'')))
           | Some b \<Rightarrow> Inr b))"

definition loadAuthKey :: "environ \<Rightarrow> (string \<Rightarrow> text_file) \<Rightarrow> go_error + string" where
  "loadAuthKey E rd =
     (if Getenv E ''TS_AUTHKEY'' \<noteq> [] then Inr (TrimSpace (Getenv E ''TS_AUTHKEY''))
      else if Getenv E ''CREDENTIALS_DIRECTORY'' \<noteq> [] then
        (case rd (filepath_Join (Getenv E ''CREDENTIALS_DIRECTORY'') ''ts_authkey'') of
           NoFile \<Rightarrow> Inl (Wrapped ''reading LoadCredential ts_authkey'' (ErrorString ''file does not exist''))
         | Unreadable e \<Rightarrow> Inl (Wrapped ''reading LoadCredential ts_authkey'' (ErrorString e))
         | Text t \<Rightarrow> Inr (TrimSpace t))
      else Inr [])"

definition loadSSHPassword :: "environ \<Rightarrow> (string \<Rightarrow> text_file) \<Rightarrow> go_error + string" where
  "loadSSHPassword E rd =
     (case E ''TSCTL_SSH_PASSWORD'' of
        Some v \<Rightarrow> Inr (TrimSpace v)
      | None \<Rightarrow>
          if Getenv E ''CREDENTIALS_DIRECTORY'' \<noteq> [] then
            (case rd (filepath_Join (Getenv E ''CREDENTIALS_DIRECTORY'') ''ssh_password'') of
               NoFile \<Rightarrow> Inr []
             | Unreadable e \<Rightarrow> Inl (Wrapped ''reading LoadCredential ssh_password'' (ErrorString e))
             | Text t \<Rightarrow> Inr (TrimSpace t))
          else Inr [])"

definition requireLoopback :: "string \<Rightarrow> go_error option" where
  "requireLoopback addr =
     (case SplitHostPort addr of
        Inl e \<Rightarrow> Some (Wrapped ''expected host:port'' (AddrError addr e))
      | Inr (host, _) \<Rightarrow>
          (case ParseAddr host of
             Inl e \<Rightarrow> Some (Wrapped ''host must be a loopback IP literal (e.g. 127.0.0.1)'' (ParseAddrError host e))
           | Inr ip \<Rightarrow>
               if \<not> IsLoopback ip then Some (ErrorString (''must bind a loopback address, got '' @ addr_String ip)) else None))"

text \<open>The first router that is not an address, with the reason.\<close>

fun bad_router :: "string list \<Rightarrow> go_error option" where
  "bad_router [] = None"
| "bad_router (r # rs) =
     (case ParseAddr r of
        Inl e \<Rightarrow> Some (Wrapped (''router '' @ Quote r @ '' is not a valid IP (use the 100.x IPv4)'') (ParseAddrError r e))
      | Inr _ \<Rightarrow> bad_router rs)"

definition listen_error :: "string \<Rightarrow> go_error option" where
  "listen_error addr =
     (if addr = [] then None
      else case SplitHostPort addr of
          Inl e \<Rightarrow> Some (ErrorString (''http-listen '' @ Quote addr @ '': '' @ Error (AddrError addr e) @ '' (want host:port, e.g. :8080)''))
        | Inr _ \<Rightarrow> None)"

definition transports :: "string list" where
  "transports = [''tailscale-ssh'', ''ip-password'', ''tailnet-password'']"

definition hostkey_modes :: "string list" where
  "hostkey_modes = [''tofu'', ''strict'', ''pin'', ''insecure'']"

definition password_required :: "string \<Rightarrow> go_error" where
  "password_required transport = ErrorString (''router transport '' @ transport @
     '' requires an SSH password: set TSCTL_SSH_PASSWORD or provide the systemd LoadCredential ssh_password (it is never a flag and never logged)'')"

definition validate :: "Config \<Rightarrow> go_error option" where
  "validate c =
     (if cf_Hostname c = [] then Some (ErrorString ''hostname must not be empty'')
      else if cf_StateDir c = [] then Some (ErrorString ''state-dir must not be empty'')
      else if cf_Listen c = [] then Some (ErrorString ''listen must not be empty'')
      else if cf_SSHUser c = [] then Some (ErrorString ''ssh-user must not be empty'')
      else case requireLoopback (cf_HealthAddr c) of
        Some e \<Rightarrow> Some (Wrapped (''healthz address '' @ Quote (cf_HealthAddr c)) e)
      | None \<Rightarrow>
     (case listen_error (cf_HTTPListen c) of Some e \<Rightarrow> Some e | None \<Rightarrow>
     (case bad_router (cf_Routers c) of Some e \<Rightarrow> Some e | None \<Rightarrow>
     (case ValidateEgressURL (cf_EgressURL c) of
        Some e \<Rightarrow> Some (Wrapped ''invalid -egress-url / TSCTL_EGRESS_URL'' e)
      | None \<Rightarrow>
          if cf_RouterTransport c \<notin> set transports then
            Some (ErrorString (''invalid -router-transport '' @ Quote (cf_RouterTransport c) @ '': want tailscale-ssh, tailnet-password, or ip-password''))
          else if cf_RouterHostKeyMode c \<notin> set hostkey_modes then
            Some (ErrorString (''invalid -router-hostkey-mode '' @ Quote (cf_RouterHostKeyMode c) @ '': want tofu, strict, pin, or insecure''))
          else if cf_RouterTransport c = ''ip-password'' \<and> cf_SSHPassword c = [] then Some (password_required ''ip-password'')
          else if cf_RouterTransport c = ''ip-password'' \<and> cf_RouterHostKeyMode c \<noteq> ''insecure'' \<and> cf_KnownHostsPath c = [] then
            Some (ErrorString (''router transport ip-password with host-key mode '' @ Quote (cf_RouterHostKeyMode c) @
              '' requires a known_hosts path (default $STATE_DIR/known_hosts; set a non-empty -state-dir)''))
          else if cf_RouterTransport c = ''tailnet-password'' \<and> cf_SSHPassword c = [] then Some (password_required ''tailnet-password'')
          else None))))"

subsection \<open>Loading\<close>

definition flag_defaults :: "environ \<Rightarrow> duration \<Rightarrow> duration \<Rightarrow> bool \<Rightarrow> bool \<Rightarrow> flagset" where
  "flag_defaults E sshTimeoutDef pollIntervalDef egressCheckDef requireKeepDef =
     [''hostname'' \<mapsto> FStr (env_default E ''TSCTL_HOSTNAME'' ''tsctl''),
      ''state-dir'' \<mapsto> FStr (env_default E ''TSCTL_STATE_DIR'' (env_default E ''STATE_DIRECTORY'' ''./tsnet-state'')),
      ''listen'' \<mapsto> FStr (env_default E ''TSCTL_LISTEN'' '':80''),
      ''healthz'' \<mapsto> FStr (env_default E ''TSCTL_HEALTH_ADDR'' ''127.0.0.1:8088''),
      ''ssh-user'' \<mapsto> FStr (env_default E ''TSCTL_SSH_USER'' ''root''),
      ''debug'' \<mapsto> FBool (env_default E ''TSCTL_DEBUG'' [] \<noteq> []),
      ''routers'' \<mapsto> FStr (env_default E ''TSCTL_ROUTERS'' []),
      ''ssh-timeout'' \<mapsto> FDur sshTimeoutDef,
      ''owner'' \<mapsto> FStr (env_default E ''TSCTL_OWNER'' []),
      ''http-listen'' \<mapsto> FStr (env_default E ''TSCTL_HTTP_LISTEN'' []),
      ''ui-password'' \<mapsto> FStr (env_default E ''TSCTL_UI_PASSWORD'' []),
      ''allowed-hosts'' \<mapsto> FStr (env_default E ''TSCTL_ALLOWED_HOSTS'' []),
      ''poll-interval'' \<mapsto> FDur pollIntervalDef,
      ''exit-node-lan-access'' \<mapsto> FStr (env_default E ''TSCTL_EXIT_NODE_LAN_ACCESS'' ''preserve''),
      ''egress-check'' \<mapsto> FBool egressCheckDef,
      ''egress-url'' \<mapsto> FStr (env_default E ''TSCTL_EGRESS_URL'' defaultEgressURL),
      ''require-keep'' \<mapsto> FBool requireKeepDef,
      ''router-transport'' \<mapsto> FStr (env_default E ''TSCTL_ROUTER_TRANSPORT'' ''tailscale-ssh''),
      ''router-hostkey-mode'' \<mapsto> FStr (env_default E ''TSCTL_ROUTER_HOSTKEY_MODE'' ''tofu''),
      ''router-addrs'' \<mapsto> FStr (env_default E ''TSCTL_ROUTER_ADDRS'' [])]"

definition lan_access :: "(nat \<Rightarrow> nat) \<Rightarrow> string \<Rightarrow> go_error + bool option" where
  "lan_access lower s =
     (let v = ToLower lower (TrimSpace s)
      in if v \<in> set [[], ''preserve'', ''keep''] then Inr None
         else if v \<in> set [''true'', ''yes'', ''on'', ''1''] then Inr (Some True)
         else if v \<in> set [''false'', ''no'', ''off'', ''0''] then Inr (Some False)
         else Inl (ErrorString (''invalid -exit-node-lan-access '' @ Quote s @ '': want preserve|true|false'')))"

definition comma_list :: "string \<Rightarrow> string list" where
  "comma_list s = filter (\<lambda>x. x \<noteq> []) (map TrimSpace (Split s CHR '',''))"

definition listen_host :: "string \<Rightarrow> string list" where
  "listen_host addr = (case SplitHostPort addr of Inr (host, _) \<Rightarrow> if host \<noteq> [] then [host] else [] | Inl _ \<Rightarrow> [])"

definition config_hosts :: "string \<Rightarrow> string \<Rightarrow> string \<Rightarrow> string \<Rightarrow> string list" where
  "config_hosts hostname listen allowed httpListen =
     [hostname] @ listen_host listen @ comma_list allowed @ (if httpListen \<noteq> [] then listen_host httpListen else [])"

fun router_addrs :: "string list \<Rightarrow> (string \<rightharpoonup> string) \<Rightarrow> go_error + (string \<rightharpoonup> string)" where
  "router_addrs [] acc = Inr acc"
| "router_addrs (pair # pairs) acc =
     (case Cut pair CHR ''='' of (id0, ep0, ok) \<Rightarrow>
        (let ident = TrimSpace id0; ep = TrimSpace ep0
         in if \<not> ok \<or> ident = [] \<or> ep = [] then
              Inl (ErrorString (''invalid -router-addrs entry '' @ Quote pair @ '': want 100.x=host[:port]''))
            else (case ParseAddr ident of
                Inl e \<Rightarrow> Inl (Wrapped (''invalid -router-addrs key '' @ Quote ident @ [CHR '':''] @ '' must be the router'' @ [CHR 0x27] @ ''s 100.x IPv4'')
                  (ParseAddrError ident e))
              | Inr _ \<Rightarrow> router_addrs pairs (acc(ident \<mapsto> ep)))))"

text \<open>The values of the flags as a configuration, before the lists, the secrets and the validation.\<close>

definition flag_config :: "flagset \<Rightarrow> bool option \<Rightarrow> Config" where
  "flag_config fs lan = \<lparr>cf_Hostname = flag_str fs ''hostname'', cf_StateDir = flag_str fs ''state-dir'', cf_Listen = flag_str fs ''listen'',
     cf_HealthAddr = flag_str fs ''healthz'', cf_Routers = comma_list (flag_str fs ''routers''), cf_SSHUser = flag_str fs ''ssh-user'',
     cf_AuthKey = [], cf_Debug = flag_bool fs ''debug'', cf_SSHTimeout = flag_dur fs ''ssh-timeout'', cf_Owner = flag_str fs ''owner'',
     cf_AllowedHosts = config_hosts (flag_str fs ''hostname'') (flag_str fs ''listen'') (flag_str fs ''allowed-hosts'') (flag_str fs ''http-listen''),
     cf_PollInterval = flag_dur fs ''poll-interval'', cf_HTTPListen = flag_str fs ''http-listen'', cf_UIPassword = flag_str fs ''ui-password'',
     cf_ExitNodeLANAccess = lan, cf_EgressCheck = flag_bool fs ''egress-check'', cf_EgressURL = flag_str fs ''egress-url'',
     cf_RequireKeep = flag_bool fs ''require-keep'', cf_RouterTransport = flag_str fs ''router-transport'',
     cf_RouterHostKeyMode = flag_str fs ''router-hostkey-mode'', cf_SSHPassword = [], cf_RouterAddrs = Map.empty, cf_KnownHostsPath = []\<rparr>"

definition loadConfig ::
    "parse_duration \<Rightarrow> (nat \<Rightarrow> nat) \<Rightarrow> environ \<Rightarrow> (string \<Rightarrow> text_file) \<Rightarrow> string list \<Rightarrow> go_error + Config" where
  "loadConfig pd lower E rd args =
     (case envDur pd E ''TSCTL_SSH_TIMEOUT'' (15 * second) of Inl e \<Rightarrow> Inl e | Inr sshTimeoutDef \<Rightarrow>
     (case envDur pd E ''TSCTL_POLL_INTERVAL'' (30 * second) of Inl e \<Rightarrow> Inl e | Inr pollIntervalDef \<Rightarrow>
     (case envBool E ''TSCTL_EGRESS_CHECK'' True of Inl e \<Rightarrow> Inl e | Inr egressCheckDef \<Rightarrow>
     (case envBool E ''TSCTL_REQUIRE_KEEP'' False of Inl e \<Rightarrow> Inl e | Inr requireKeepDef \<Rightarrow>
     (case parse_args pd (flag_defaults E sshTimeoutDef pollIntervalDef egressCheckDef requireKeepDef) args of Inl e \<Rightarrow> Inl e | Inr fs \<Rightarrow>
     (case lan_access lower (flag_str fs ''exit-node-lan-access'') of Inl e \<Rightarrow> Inl e | Inr lan \<Rightarrow>
     (case loadAuthKey E rd of Inl e \<Rightarrow> Inl e | Inr key \<Rightarrow>
     (case router_addrs (comma_list (flag_str fs ''router-addrs'')) Map.empty of Inl e \<Rightarrow> Inl e | Inr addrs \<Rightarrow>
     (case loadSSHPassword E rd of Inl e \<Rightarrow> Inl e | Inr pw \<Rightarrow>
     (let c0 = flag_config fs lan;
          c = c0\<lparr>cf_AuthKey := key, cf_RouterAddrs := addrs,
                 cf_KnownHostsPath := (if cf_StateDir c0 \<noteq> [] then filepath_Join (cf_StateDir c0) ''known_hosts'' else []),
                 cf_SSHPassword := pw\<rparr>
      in case validate c of Some e \<Rightarrow> Inl e | None \<Rightarrow> Inr c))))))))))"

subsection \<open>Properties\<close>

lemma loadConfig_valid: "loadConfig pd lower E rd args = Inr c \<Longrightarrow> validate c = None"
  by (auto simp: loadConfig_def Let_def split: sum.splits option.splits)

lemma router_addrs_keys:
  assumes "router_addrs pairs acc = Inr m" and "\<And>k. acc k \<noteq> None \<Longrightarrow> \<exists>a. ParseAddr k = Inr a" and "m k \<noteq> None"
  shows "\<exists>a. ParseAddr k = Inr a"
  using assms
proof (induction pairs arbitrary: acc)
  case (Cons pair pairs)
  obtain id0 ep0 ok where c: "Cut pair CHR ''='' = (id0, ep0, ok)" by (metis prod_cases3)
  with Cons.prems(1) obtain a where p: "ParseAddr (TrimSpace id0) = Inr a"
      "router_addrs pairs (acc(TrimSpace id0 \<mapsto> TrimSpace ep0)) = Inr m"
    by (auto simp: Let_def split: if_splits sum.splits)
  have "\<And>k. (acc(TrimSpace id0 \<mapsto> TrimSpace ep0)) k \<noteq> None \<Longrightarrow> \<exists>a. ParseAddr k = Inr a"
    using p(1) Cons.prems(2) by (metis fun_upd_apply)
  from Cons.IH [OF p(2) this Cons.prems(3)] show ?case by blast
qed simp

lemma bad_router_None: "bad_router rs = None \<Longrightarrow> r \<in> set rs \<Longrightarrow> \<exists>a. ParseAddr r = Inr a"
  by (induction rs) (auto split: sum.splits)

lemma requireLoopback_None:
  "requireLoopback addr = None \<longleftrightarrow> (\<exists>host port ip. SplitHostPort addr = Inr (host, port) \<and> ParseAddr host = Inr ip \<and> IsLoopback ip)"
  by (auto simp: requireLoopback_def split: sum.splits)

lemma listen_error_None:
  "listen_error addr = None \<longleftrightarrow> addr = [] \<or> (\<exists>host port. SplitHostPort addr = Inr (host, port))"
  by (auto simp: listen_error_def split: sum.splits)

text \<open>
  C33 (configuration, fail closed). A configuration that loads has passed every check of the validation: host name, state directory, tailnet
  address and SSH user are not empty; the health endpoint is bound to a loopback address only; a host port, if any, is a
  well-formed address; every managed router and every key of the LAN map is an IP address; the egress URL is accepted by the
  check that keeps it inert in a router's shell; transport and host-key mode are among the known ones, a
  password transport has its password, and the LAN transport has a known_hosts file unless host keys are ignored by name. The host
  name is on the Host allowlist.
\<close>

theorem loadConfig_fail_closed:
  assumes "loadConfig pd lower E rd args = Inr c"
  shows "cf_Hostname c \<noteq> [] \<and> cf_StateDir c \<noteq> [] \<and> cf_Listen c \<noteq> [] \<and> cf_SSHUser c \<noteq> [] \<and>
    (\<exists>host port ip. SplitHostPort (cf_HealthAddr c) = Inr (host, port) \<and> ParseAddr host = Inr ip \<and> IsLoopback ip) \<and>
    (cf_HTTPListen c \<noteq> [] \<longrightarrow> (\<exists>host port. SplitHostPort (cf_HTTPListen c) = Inr (host, port))) \<and>
    (\<forall>r \<in> set (cf_Routers c). \<exists>a. ParseAddr r = Inr a) \<and> (\<forall>k. cf_RouterAddrs c k \<noteq> None \<longrightarrow> (\<exists>a. ParseAddr k = Inr a)) \<and>
    ValidateEgressURL (cf_EgressURL c) = None \<and> cf_RouterTransport c \<in> set transports \<and>
    cf_RouterHostKeyMode c \<in> set hostkey_modes \<and> (cf_RouterTransport c \<noteq> ''tailscale-ssh'' \<longrightarrow> cf_SSHPassword c \<noteq> []) \<and>
    (cf_RouterTransport c = ''ip-password'' \<longrightarrow> cf_RouterHostKeyMode c = ''insecure'' \<or> cf_KnownHostsPath c \<noteq> []) \<and>
    cf_Hostname c \<in> set (cf_AllowedHosts c)"
proof -
  note v = loadConfig_valid [OF assms]
  have w: "requireLoopback (cf_HealthAddr c) = None" "bad_router (cf_Routers c) = None" "ValidateEgressURL (cf_EgressURL c) = None"
      "cf_RouterTransport c \<in> set transports" "cf_RouterHostKeyMode c \<in> set hostkey_modes" "cf_Hostname c \<noteq> []"
      "cf_RouterTransport c = ''ip-password'' \<Longrightarrow> cf_SSHPassword c \<noteq> []" "cf_RouterTransport c = ''tailnet-password'' \<Longrightarrow> cf_SSHPassword c \<noteq> []"
      "cf_StateDir c \<noteq> []" "cf_Listen c \<noteq> []" "cf_SSHUser c \<noteq> []" "listen_error (cf_HTTPListen c) = None"
      "cf_RouterTransport c = ''ip-password'' \<Longrightarrow> cf_RouterHostKeyMode c = ''insecure'' \<or> cf_KnownHostsPath c \<noteq> []"
    using v by (auto simp: validate_def split: if_splits option.splits)
  have t: "cf_RouterTransport c \<noteq> ''tailscale-ssh'' \<longrightarrow> cf_SSHPassword c \<noteq> []"
    using w(4,7,8) by (auto simp: transports_def)
  from assms obtain fs addrs where a: "router_addrs (comma_list (flag_str fs ''router-addrs'')) Map.empty = Inr addrs" "cf_RouterAddrs c = addrs"
    by (auto simp: loadConfig_def Let_def split: sum.splits option.splits)
  have h: "cf_Hostname c \<in> set (cf_AllowedHosts c)"
    using assms by (auto simp: loadConfig_def Let_def flag_config_def config_hosts_def split: sum.splits option.splits)
  have "\<exists>x. ParseAddr k = Inr x" if "cf_RouterAddrs c k \<noteq> None" for k
    using router_addrs_keys [OF a(1), of k] that a(2) by simp
  with w t h bad_router_None requireLoopback_None listen_error_None show ?thesis by (intro conjI) blast+
qed

lemma default_config_loads:
  "case loadConfig (\<lambda>_. Inl (ErrorString [])) ascii_fold [''TSCTL_OWNER'' \<mapsto> ''me@example''] (\<lambda>_. NoFile) [''-routers'', ''100.64.0.1''] of
     Inl _ \<Rightarrow> False | Inr c \<Rightarrow> cf_Routers c = [''100.64.0.1''] \<and> cf_Owner c = ''me@example'' \<and> cf_RouterTransport c = ''tailscale-ssh'' \<and>
       cf_HTTPListen c = [] \<and> cf_Hostname c = ''tsctl'' \<and> cf_StateDir c = ''./tsnet-state''"
  by code_simp

theorem loadConfig_fail_closed_witness:
  "\<exists>c. loadConfig (\<lambda>_. Inl (ErrorString [])) ascii_fold [''TSCTL_OWNER'' \<mapsto> ''me@example''] (\<lambda>_. NoFile) [''-routers'', ''100.64.0.1''] = Inr c \<and>
     cf_Routers c = [''100.64.0.1''] \<and> cf_Hostname c \<in> set (cf_AllowedHosts c) \<and> ValidateEgressURL (cf_EgressURL c) = None"
proof -
  obtain c where c: "loadConfig (\<lambda>_. Inl (ErrorString [])) ascii_fold [''TSCTL_OWNER'' \<mapsto> ''me@example''] (\<lambda>_. NoFile) [''-routers'', ''100.64.0.1''] = Inr c"
      "cf_Routers c = [''100.64.0.1'']"
    using default_config_loads by (auto split: sum.splits)
  with loadConfig_fail_closed [OF c(1)] show ?thesis by blast
qed

end
