(* ===== verification/Session_Mac.thy ===== *)
theory Session_Mac
  imports Go_Strings "HOL-Library.Word"
begin

section \<open>HMAC-SHA256 and base64url, as the session cookie uses them\<close>

text \<open>
  What \<^verbatim>\<open>internal/api/api.go\<close> uses of the standard library to sign and to transport a session: the
  SHA-256 compression function on 32-bit words, HMAC over it (\<^verbatim>\<open>crypto/hmac\<close>, \<^verbatim>\<open>crypto/sha256\<close>), the
  unpadded URL alphabet of \<^verbatim>\<open>encoding/base64\<close> and big-endian 64-bit integers (\<^verbatim>\<open>encoding/binary\<close>). Byte
  slices are strings. Shown here: a MAC is 32 bytes long, and base64url and the big-endian integers are
  read back as they were written.
\<close>

unbundle bit_operations_syntax

subsection \<open>SHA-256\<close>

type_synonym u32 = "32 word"

text \<open>The round constants and the initial state, in decimal.\<close>

definition sha_K :: "u32 list" where
  "sha_K =
     [1116352408, 1899447441, 3049323471, 3921009573, 961987163, 1508970993, 2453635748, 2870763221,
      3624381080, 310598401, 607225278, 1426881987, 1925078388, 2162078206, 2614888103, 3248222580,
      3835390401, 4022224774, 264347078, 604807628, 770255983, 1249150122, 1555081692, 1996064986,
      2554220882, 2821834349, 2952996808, 3210313671, 3336571891, 3584528711, 113926993, 338241895,
      666307205, 773529912, 1294757372, 1396182291, 1695183700, 1986661051, 2177026350, 2456956037,
      2730485921, 2820302411, 3259730800, 3345764771, 3516065817, 3600352804, 4094571909, 275423344,
      430227734, 506948616, 659060556, 883997877, 958139571, 1322822218, 1537002063, 1747873779,
      1955562222, 2024104815, 2227730452, 2361852424, 2428436474, 2756734187, 3204031479, 3329325298]"

definition sha_init :: "u32 list" where
  "sha_init =
     [1779033703, 3144134277, 1013904242, 2773480762, 1359893119, 2600822924, 528734635, 1541459225]"

definition rotr :: "nat \<Rightarrow> u32 \<Rightarrow> u32" where
  "rotr n x = drop_bit n x OR push_bit (32 - n) x"

definition small_sigma0 :: "u32 \<Rightarrow> u32" where
  "small_sigma0 x = rotr 7 x XOR rotr 18 x XOR drop_bit 3 x"

definition small_sigma1 :: "u32 \<Rightarrow> u32" where
  "small_sigma1 x = rotr 17 x XOR rotr 19 x XOR drop_bit 10 x"

definition big_sigma0 :: "u32 \<Rightarrow> u32" where
  "big_sigma0 x = rotr 2 x XOR rotr 13 x XOR rotr 22 x"

definition big_sigma1 :: "u32 \<Rightarrow> u32" where
  "big_sigma1 x = rotr 6 x XOR rotr 11 x XOR rotr 25 x"

text \<open>The message schedule: \<open>n\<close> further words after the sixteen of the block.\<close>

fun sha_schedule :: "nat \<Rightarrow> u32 list \<Rightarrow> u32 list" where
  "sha_schedule 0 ws = ws"
| "sha_schedule (Suc n) ws =
     (let i = length ws
      in sha_schedule n (ws @ [small_sigma1 (ws ! (i - 2)) + ws ! (i - 7) + small_sigma0 (ws ! (i - 15)) + ws ! (i - 16)]))"

fun sha_round :: "u32 list \<Rightarrow> u32 \<times> u32 \<Rightarrow> u32 list" where
  "sha_round [a, b, c, d, e, f, g, h] (k, w) =
     (let t1 = h + big_sigma1 e + ((e AND f) XOR (NOT e AND g)) + k + w;
          t2 = big_sigma0 a + ((a AND b) XOR (a AND c) XOR (b AND c))
      in [t1 + t2, a, b, c, d + t1, e, f, g])"
| "sha_round hs kw = hs"

definition be32 :: "string \<Rightarrow> u32" where
  "be32 bs = word_of_nat (foldl (\<lambda>acc c. acc * 256 + of_char c) (0::nat) bs)"

fun chunks :: "nat \<Rightarrow> nat \<Rightarrow> 'a list \<Rightarrow> 'a list list" where
  "chunks n 0 xs = []"
| "chunks n (Suc k) xs = take n xs # chunks n k (drop n xs)"

definition sha_compress :: "u32 list \<Rightarrow> string \<Rightarrow> u32 list" where
  "sha_compress hs block =
     map2 (+) hs (foldl sha_round hs (zip sha_K (sha_schedule 48 (map be32 (chunks 4 16 block)))))"

definition be_bytes :: "nat \<Rightarrow> nat \<Rightarrow> string" where
  "be_bytes n v = map (\<lambda>i. char_of (v div 256 ^ (n - 1 - i))) [0..<n]"

definition sha_pad :: "string \<Rightarrow> string" where
  "sha_pad m = m @ [CHR 0x80] @ replicate ((119 - length m mod 64) mod 64) (CHR 0x00) @ be_bytes 8 (8 * length m)"

definition sha256 :: "string \<Rightarrow> string" where
  "sha256 m =
     (let p = sha_pad m
      in concat (map (\<lambda>w. be_bytes 4 (unat w)) (foldl sha_compress sha_init (chunks 64 (length p div 64) p))))"

subsection \<open>HMAC\<close>

definition xor_byte :: "nat \<Rightarrow> char \<Rightarrow> char" where
  "xor_byte k c = char_of (k XOR of_char c)"

definition hmac_key :: "string \<Rightarrow> string" where
  "hmac_key key = (let k = (if length key > 64 then sha256 key else key) in k @ replicate (64 - length k) (CHR 0x00))"

definition hmac_sha256 :: "string \<Rightarrow> string \<Rightarrow> string" where
  "hmac_sha256 key m =
     sha256 (map (xor_byte 0x5c) (hmac_key key) @ sha256 (map (xor_byte 0x36) (hmac_key key) @ m))"

lemma length_be_bytes [simp]: "length (be_bytes n v) = n"
  by (simp add: be_bytes_def)

lemma length_sha_schedule: "length (sha_schedule n ws) = n + length ws"
  by (induction n ws rule: sha_schedule.induct) (auto simp: Let_def)

lemma length_sha_round: "length (sha_round hs kw) = length hs"
  by (induction hs kw rule: sha_round.induct) (auto simp: Let_def)

lemma length_foldl_sha_round: "length (foldl sha_round hs kws) = length hs"
  by (induction kws arbitrary: hs) (auto simp: length_sha_round)

lemma length_sha_compress [simp]: "length (sha_compress hs block) = length hs"
  by (simp add: sha_compress_def length_foldl_sha_round)

lemma length_foldl_sha_compress: "length (foldl sha_compress hs blocks) = length hs"
  by (induction blocks arbitrary: hs) auto

lemma length_sha256 [simp]: "length (sha256 m) = 32"
proof -
  have "length (concat (map (\<lambda>w. be_bytes 4 (unat w)) hs)) = 4 * length hs" for hs :: "u32 list"
    by (induction hs) auto
  moreover have "length sha_init = 8" by (simp add: sha_init_def)
  ultimately show ?thesis by (simp add: sha256_def Let_def length_foldl_sha_compress)
qed

lemma length_hmac_sha256 [simp]: "length (hmac_sha256 key m) = 32"
  by (simp add: hmac_sha256_def)

subsection \<open>base64url\<close>

definition b64_char :: "nat \<Rightarrow> char" where
  "b64_char v =
     (if v < 26 then char_of (65 + v) else if v < 52 then char_of (71 + v) else if v < 62 then char_of (v - 4)
      else if v = 62 then CHR ''-'' else CHR ''_'')"

definition b64_val :: "char \<Rightarrow> nat option" where
  "b64_val c =
     (let n = of_char c :: nat
      in if 65 \<le> n \<and> n \<le> 90 then Some (n - 65) else if 97 \<le> n \<and> n \<le> 122 then Some (n - 71)
         else if 48 \<le> n \<and> n \<le> 57 then Some (n + 4) else if n = 45 then Some 62 else if n = 95 then Some 63 else None)"

fun b64_sextets :: "nat list \<Rightarrow> nat list" where
  "b64_sextets [] = []"
| "b64_sextets [a] = [a div 4, a mod 4 * 16]"
| "b64_sextets [a, b] = [a div 4, a mod 4 * 16 + b div 16, b mod 16 * 4]"
| "b64_sextets (a # b # c # bs) =
     [a div 4, a mod 4 * 16 + b div 16, b mod 16 * 4 + c div 64, c mod 64] @ b64_sextets bs"

definition b64_EncodeToString :: "string \<Rightarrow> string" where
  "b64_EncodeToString s = map b64_char (b64_sextets (map of_char s))"

text \<open>
  The decoder skips line breaks, refuses any other foreign character and a single left-over character,
  and (not being strict) drops the unused trailing bits.
\<close>

fun b64_quanta :: "nat list \<Rightarrow> nat list option" where
  "b64_quanta [] = Some []"
| "b64_quanta [p] = None"
| "b64_quanta [p, q] = Some [p * 4 + q div 16]"
| "b64_quanta [p, q, r] = Some [p * 4 + q div 16, q mod 16 * 16 + r div 4]"
| "b64_quanta (p # q # r # s # vs) =
     map_option (\<lambda>bs. [p * 4 + q div 16, q mod 16 * 16 + r div 4, r mod 4 * 64 + s] @ bs) (b64_quanta vs)"

fun b64_vals :: "string \<Rightarrow> nat list option" where
  "b64_vals [] = Some []"
| "b64_vals (c # cs) =
     (case b64_val c of None \<Rightarrow> None | Some v \<Rightarrow> map_option ((#) v) (b64_vals cs))"

definition b64_DecodeString :: "string \<Rightarrow> string option" where
  "b64_DecodeString s =
     Option.bind (b64_vals (filter (\<lambda>c. c \<noteq> CHR 0x0A \<and> c \<noteq> CHR 0x0D) s))
       (\<lambda>vs. map_option (map char_of) (b64_quanta vs))"

lemma b64_val_char: "v < 64 \<Longrightarrow> b64_val (b64_char v) = Some v"
  by (auto simp: b64_val_def b64_char_def Let_def)

lemma b64_char_no_break: "v < 64 \<Longrightarrow> b64_char v \<noteq> CHR 0x0A \<and> b64_char v \<noteq> CHR 0x0D"
  using b64_val_char [of v] by (auto simp: b64_val_def Let_def)

lemma b64_sextets_bound: "\<forall>b \<in> set bs. b < 256 \<Longrightarrow> \<forall>v \<in> set (b64_sextets bs). v < 64"
  by (induction bs rule: b64_sextets.induct) (auto simp: less_mult_imp_div_less)

lemma b64_quanta_sextets: "\<forall>b \<in> set bs. b < 256 \<Longrightarrow> b64_quanta (b64_sextets bs) = Some bs"
proof (induction bs rule: b64_sextets.induct)
  case (4 a b c bs)
  then have "a < 256" "b < 256" "c < 256" "b64_quanta (b64_sextets bs) = Some bs" by auto
  moreover from this have "b div 16 < 16" "c div 64 < 4" by (auto intro: less_mult_imp_div_less)
  moreover have "a div 4 * 4 + a mod 4 = a" "b div 16 * 16 + b mod 16 = b" "c div 64 * 64 + c mod 64 = c" by auto
  ultimately show ?case by (simp add: div_mult_mod_eq)
next
  case (3 a b)
  then have "b div 16 < 16" by (auto intro: less_mult_imp_div_less)
  then show ?case by simp
qed auto

lemma b64_vals_chars: "\<forall>v \<in> set vs. v < 64 \<Longrightarrow> b64_vals (map b64_char vs) = Some vs"
  by (induction vs) (auto simp: b64_val_char)

lemma b64_roundtrip: "b64_DecodeString (b64_EncodeToString s) = Some s"
proof -
  let ?vs = "b64_sextets (map of_char s)"
  have bytes: "\<forall>b \<in> set (map of_char s). (b::nat) < 256" by auto
  note bound = b64_sextets_bound [OF bytes]
  have "filter (\<lambda>c. c \<noteq> CHR 0x0A \<and> c \<noteq> CHR 0x0D) (map b64_char ?vs) = map b64_char ?vs"
    using bound by (auto simp: filter_id_conv dest: b64_char_no_break)
  then show ?thesis
    using b64_vals_chars [OF bound] b64_quanta_sextets [OF bytes]
    by (simp add: b64_DecodeString_def b64_EncodeToString_def comp_def)
qed

subsection \<open>Big-endian 64-bit integers\<close>

definition PutUint64 :: "64 word \<Rightarrow> string" where
  "PutUint64 w = be_bytes 8 (unat w)"

definition BigEndian_Uint64 :: "string \<Rightarrow> 64 word" where
  "BigEndian_Uint64 bs = word_of_nat (foldl (\<lambda>acc c. acc * 256 + of_char c) (0::nat) bs)"

lemma be_bytes_Suc: "be_bytes (Suc n) v = be_bytes n (v div 256) @ [char_of v]"
proof -
  have "map (\<lambda>i. char_of (v div 256 ^ (n - i))) [0..<n] = map (\<lambda>i. char_of (v div 256 div 256 ^ (n - 1 - i)) :: char) [0..<n]"
  proof (rule map_cong)
    fix i assume "i \<in> set [0..<n]"
    then have "n - i = Suc (n - 1 - i)" by auto
    then show "(char_of (v div 256 ^ (n - i)) :: char) = char_of (v div 256 div 256 ^ (n - 1 - i))"
      by (simp add: div_mult2_eq)
  qed simp
  then show ?thesis by (simp add: be_bytes_def)
qed

lemma be_bytes_value: "foldl (\<lambda>acc c. acc * 256 + of_char c) (0::nat) (be_bytes n v) = v mod 256 ^ n"
proof (induction n arbitrary: v)
  case 0
  then show ?case by (simp add: be_bytes_def)
next
  case (Suc n)
  have "v div 256 mod 256 ^ n * 256 + v mod 256 = v mod 256 ^ Suc n"
    by (simp add: mod_mult2_eq)
  with Suc show ?case by (simp add: be_bytes_Suc)
qed

lemma Uint64_PutUint64 [simp]: "BigEndian_Uint64 (PutUint64 w) = w"
proof -
  have "unat w < 256 ^ 8" using unsigned_less [of w, where 'a = nat] by simp
  then show ?thesis by (simp add: BigEndian_Uint64_def PutUint64_def be_bytes_value)
qed

lemma length_PutUint64 [simp]: "length (PutUint64 w) = 8"
  by (simp add: PutUint64_def)

end
