(* ===== verification/Api_Session.thy ===== *)
theory Api_Session
  imports Authz Session_Mac
begin

section \<open>Package api: signed session cookies\<close>

text \<open>
  \<^verbatim>\<open>newSessionValue\<close>, \<^verbatim>\<open>sessionMAC\<close> and \<^verbatim>\<open>parseSession\<close> of \<^verbatim>\<open>internal/api/api.go\<close>. A session value is
  the base64url text of expiry, nonce, role, length of the guest identifier, guest identifier and an
  HMAC of all of these. The current time and the outcome of \<^verbatim>\<open>rand.Read\<close> are arguments. The properties:
  a minted value is read back as the subject it was minted for until it expires and never after, and
  a value that is accepted carries a MAC of exactly the bytes its subject is read from.
\<close>

abbreviation sessionTTL :: duration where "sessionTTL \<equiv> 7 * 24 * 3600 * second"
abbreviation sessionExpiryLen :: nat where "sessionExpiryLen \<equiv> 8"
abbreviation sessionNonceLen :: nat where "sessionNonceLen \<equiv> 16"
abbreviation sessionRoleLen :: nat where "sessionRoleLen \<equiv> 1"
abbreviation sessionGIDLenLen :: nat where "sessionGIDLenLen \<equiv> 1"
abbreviation sessionMACLen :: nat where "sessionMACLen \<equiv> 32"

definition sessionHeaderLen :: nat where
  "sessionHeaderLen = sessionExpiryLen + sessionNonceLen + sessionRoleLen + sessionGIDLenLen"

definition roleAdmin :: char where "roleAdmin = CHR 0x00"

definition roleGuest :: char where "roleGuest = CHR 0x01"

text \<open>\<^verbatim>\<open>time.Time.Unix\<close>: seconds since 1970, the zero time being the start of year 1.\<close>

definition Unix :: "time \<Rightarrow> int" where
  "Unix t = t div second - 62135596800"

definition sessionMAC :: "string \<Rightarrow> string \<Rightarrow> string" where
  "sessionMAC secret region = hmac_sha256 secret region"

definition session_payload :: "time \<Rightarrow> string \<Rightarrow> Subject \<Rightarrow> string" where
  "session_payload now nonce sub =
     (let role = (if sub_Admin sub then roleAdmin else roleGuest); gid = (if sub_Admin sub then [] else sub_GuestID sub)
      in PutUint64 (word_of_int (Unix (now + sessionTTL))) @ nonce @ [role] @ [char_of (length gid)] @ gid)"

definition newSessionValue :: "string \<Rightarrow> time \<Rightarrow> string + string \<Rightarrow> Subject \<Rightarrow> string + string" where
  "newSessionValue secret now rnd sub =
     (let gid = (if sub_Admin sub then [] else sub_GuestID sub)
      in if length gid > 255 then Inl ''guest id too long for session cookie''
         else case rnd of
             Inl e \<Rightarrow> Inl e
           | Inr nonce \<Rightarrow>
               (let region = session_payload now nonce sub
                in Inr (b64_EncodeToString (region @ sessionMAC secret region))))"

definition parseSession :: "string \<Rightarrow> time \<Rightarrow> string option \<Rightarrow> Subject option" where
  "parseSession secret now cookie =
     (case cookie of
        None \<Rightarrow> None
      | Some val \<Rightarrow>
          if val = [] then None
          else case b64_DecodeString val of
              None \<Rightarrow> None
            | Some raw \<Rightarrow>
                if length raw < sessionHeaderLen + sessionMACLen then None
                else (let gidLen = of_char (raw ! (sessionExpiryLen + sessionNonceLen + sessionRoleLen));
                          signedLen = sessionHeaderLen + gidLen
                      in if length raw \<noteq> signedLen + sessionMACLen then None
                         else (let region = take signedLen raw; mac = drop signedLen raw
                               in if mac \<noteq> sessionMAC secret region then None
                                  else if Unix now \<ge> sint (BigEndian_Uint64 (take sessionExpiryLen region)) then None
                                  else (let role = region ! (sessionExpiryLen + sessionNonceLen)
                                        in if role = roleAdmin then
                                             (if gidLen \<noteq> 0 then None else Some (zero_Subject\<lparr>sub_Admin := True\<rparr>))
                                           else if role = roleGuest then
                                             (if gidLen = 0 then None
                                              else Some (zero_Subject\<lparr>sub_GuestID := drop sessionHeaderLen region\<rparr>))
                                           else None))))"

subsection \<open>Reading back what was signed\<close>

text \<open>What a session keeps of a subject: the role, and the identifier of a guest.\<close>

definition session_subject :: "Subject \<Rightarrow> Subject" where
  "session_subject sub =
     (if sub_Admin sub then zero_Subject\<lparr>sub_Admin := True\<rparr> else zero_Subject\<lparr>sub_GuestID := sub_GuestID sub\<rparr>)"

definition session_ok :: "Subject \<Rightarrow> bool" where
  "session_ok sub \<longleftrightarrow> sub_Admin sub \<or> (sub_GuestID sub \<noteq> [] \<and> length (sub_GuestID sub) \<le> 255)"

definition int64_time :: "time \<Rightarrow> bool" where
  "int64_time t \<longleftrightarrow> - (2 ^ 63) \<le> Unix t \<and> Unix t < 2 ^ 63"

lemma sint_expiry: "int64_time t \<Longrightarrow> sint (word_of_int (Unix t) :: 64 word) = Unix t"
  by (simp add: int64_time_def signed_of_int signed_take_bit_int_eq_self)

lemma b64_EncodeToString_Nil_iff [simp]: "b64_EncodeToString s = [] \<longleftrightarrow> s = []"
proof (cases s)
  case (Cons a r)
  then show ?thesis by (cases r; cases "tl r") (auto simp: b64_EncodeToString_def)
qed (simp add: b64_EncodeToString_def)

text \<open>
  The fields of a payload: with a nonce of its length, every field is found at its place.
\<close>

lemma session_payload_fields:
  fixes now :: time
  assumes "length nonce = sessionNonceLen" and "session_ok sub"
  defines "p \<equiv> session_payload now nonce sub"
  shows "length p = sessionHeaderLen + of_char (p ! 25)"
    and "take sessionExpiryLen p = PutUint64 (word_of_int (Unix (now + sessionTTL)))"
    and "p ! 24 = (if sub_Admin sub then roleAdmin else roleGuest)"
    and "drop sessionHeaderLen p = (if sub_Admin sub then [] else sub_GuestID sub)"
    and "of_char (p ! 25) = (if sub_Admin sub then 0 else length (sub_GuestID sub))"
  using assms by (auto simp: p_def session_payload_def session_ok_def sessionHeaderLen_def Let_def nth_append)

lemma parse_payload:
  assumes "length nonce = sessionNonceLen" and "session_ok sub" and "int64_time (issued + sessionTTL)"
    and "b64_DecodeString val = Some (p @ sessionMAC secret p)" and "p = session_payload issued nonce sub" and "val \<noteq> []"
  shows "parseSession secret now (Some val) =
    (if Unix now < Unix (issued + sessionTTL) then Some (session_subject sub) else None)"
proof -
  note f = session_payload_fields [OF assms(1,2), of issued, folded assms(5)]
  have mac: "length (sessionMAC secret p) = sessionMACLen" by (simp add: sessionMAC_def)
  have p25: "(p @ sessionMAC secret p) ! 25 = p ! 25" and len: "26 \<le> length p"
    using f(1) by (auto simp: nth_append sessionHeaderLen_def)
  have hd: "sessionHeaderLen + of_char (p ! 25) = length p" using f(1) by simp
  show ?thesis
    unfolding parseSession_def option.case assms(4)
    using assms(2,6) f mac len hd p25 sint_expiry [OF assms(3)]
    by (auto simp: Let_def session_subject_def session_ok_def roleAdmin_def roleGuest_def)
qed

lemma new_decodes:
  assumes "newSessionValue secret now (Inr nonce) sub = Inr val"
  shows "b64_DecodeString val =
      Some (session_payload now nonce sub @ sessionMAC secret (session_payload now nonce sub))"
    and "val \<noteq> []"
  using assms
  by (auto simp: newSessionValue_def b64_roundtrip Let_def session_payload_def split: if_splits)

text \<open>
  C18 (session round trip). A session minted for an administrator or for a guest with a non-empty
  identifier of at most 255 bytes is minted without error, is accepted by the same process as exactly that
  role and guest until its expiry seven days later, and is refused from that second on.
\<close>

theorem session_roundtrip:
  assumes "session_ok sub" and "length nonce = sessionNonceLen" and "int64_time (issued + sessionTTL)"
  shows "\<exists>val. newSessionValue secret issued (Inr nonce) sub = Inr val \<and>
    (\<forall>now. parseSession secret now (Some val) =
       (if Unix now < Unix (issued + sessionTTL) then Some (session_subject sub) else None))"
proof -
  obtain val where v: "newSessionValue secret issued (Inr nonce) sub = Inr val"
    using assms(1) by (auto simp: newSessionValue_def session_ok_def Let_def)
  with parse_payload [OF assms(2,1,3) new_decodes(1) [OF v] refl new_decodes(2) [OF v]]
  show ?thesis by blast
qed

theorem session_roundtrip_witness:
  "\<exists>val. newSessionValue ''0123456789abcdef0123456789abcdef'' (62135596800 * second) (Inr (replicate 16 CHR 0x07))
       \<lparr>sub_Admin = False, sub_GuestID = ''g1'', sub_ZoneID = ''z''\<rparr> = Inr val \<and>
     parseSession ''0123456789abcdef0123456789abcdef'' (62135596800 * second) (Some val) =
       Some \<lparr>sub_Admin = False, sub_GuestID = ''g1'', sub_ZoneID = []\<rparr> \<and>
     parseSession ''0123456789abcdef0123456789abcdef'' (62135596800 * second + sessionTTL) (Some val) = None"
proof -
  let ?sub = "\<lparr>sub_Admin = False, sub_GuestID = ''g1'', sub_ZoneID = ''z''\<rparr>"
  have "session_ok ?sub" "length (replicate 16 CHR 0x07) = sessionNonceLen"
      "int64_time (62135596800 * second + sessionTTL)"
    by (simp_all add: session_ok_def int64_time_def Unix_def)
  from session_roundtrip [OF this, of "''0123456789abcdef0123456789abcdef''"] show ?thesis
    by (auto simp: session_subject_def zero_Subject_def Unix_def)
qed

subsection \<open>Only what was signed is accepted\<close>

text \<open>A value whose tag is the MAC of the rest under the secret.\<close>

definition carries_mac :: "string \<Rightarrow> string \<Rightarrow> string \<Rightarrow> bool" where
  "carries_mac secret val m \<longleftrightarrow> b64_DecodeString val = Some (m @ sessionMAC secret m)"

lemma parseSession_SomeD:
  assumes "parseSession secret now (Some val) = Some sub"
  obtains m where "carries_mac secret val m" "val \<noteq> []"
proof -
  from assms obtain raw where raw: "b64_DecodeString val = Some raw" and v: "val \<noteq> []"
    by (auto simp: parseSession_def split: if_splits option.splits)
  let ?n = "sessionHeaderLen + of_char (raw ! 25)"
  have "drop ?n raw = sessionMAC secret (take ?n raw)"
    using assms raw by (auto simp: parseSession_def Let_def split: if_splits)
  then have "raw = take ?n raw @ sessionMAC secret (take ?n raw)" by (metis append_take_drop_id)
  with raw v that show thesis unfolding carries_mac_def by metis
qed

text \<open>
  C14 (sessions cannot be forged). Suppose the only messages whose MAC a presented cookie can carry are
  the payloads this process has signed (the unforgeability of HMAC for a caller without the secret).
  Then an accepted cookie stands for a session that was issued: its role and guest are those of an issued
  session, and that session has not expired. No re-splitting of the signed bytes into fields, and no change
  of the role, the length byte or the expiry, yields anything else.
\<close>

theorem session_unforgeable:
  assumes accepted: "parseSession secret now (Some val) = Some sub"
    and unforgeable: "\<And>m. carries_mac secret val m \<Longrightarrow>
      \<exists>(issued, nonce, sub0) \<in> Issued. m = session_payload issued nonce sub0"
    and wellformed: "\<And>issued nonce sub0. (issued, nonce, sub0) \<in> Issued \<Longrightarrow>
      length nonce = sessionNonceLen \<and> session_ok sub0 \<and> int64_time (issued + sessionTTL)"
  shows "\<exists>(issued, nonce, sub0) \<in> Issued. sub = session_subject sub0 \<and> Unix now < Unix (issued + sessionTTL)"
proof -
  obtain m where m: "carries_mac secret val m" "val \<noteq> []" using parseSession_SomeD [OF accepted] .
  with unforgeable obtain issued nonce sub0 where i: "(issued, nonce, sub0) \<in> Issued" "m = session_payload issued nonce sub0"
    by blast
  note w = wellformed [OF i(1)]
  have "b64_DecodeString val = Some (m @ sessionMAC secret m)" using m by (simp add: carries_mac_def)
  from parse_payload [OF _ _ _ this i(2) m(2)] w accepted
  have "sub = session_subject sub0 \<and> Unix now < Unix (issued + sessionTTL)"
    by (auto split: if_splits)
  with i show ?thesis by blast
qed

definition example_subject :: Subject where
  "example_subject = \<lparr>sub_Admin = False, sub_GuestID = ''g1'', sub_ZoneID = ''z''\<rparr>"

theorem session_unforgeable_witness:
  "\<exists>val sub. parseSession ''secret'' 0 (Some val) = Some sub \<and>
     (\<exists>(issued, nonce, sub0) \<in> {(0, replicate 16 CHR 0x07, example_subject)}.
        sub = session_subject sub0 \<and> Unix 0 < Unix (issued + sessionTTL))"
proof -
  let ?n = "replicate 16 CHR 0x07" and ?I = "{(0::time, replicate 16 CHR 0x07, example_subject)}"
  let ?p = "session_payload 0 ?n example_subject"
  let ?v = "b64_EncodeToString (?p @ sessionMAC ''secret'' ?p)"
  have ok: "length ?n = sessionNonceLen" "session_ok example_subject" "int64_time (0 + sessionTTL)"
    by (simp_all add: session_ok_def example_subject_def int64_time_def Unix_def)
  have dec: "b64_DecodeString ?v = Some (?p @ sessionMAC ''secret'' ?p)" by (simp add: b64_roundtrip)
  have nn: "?v \<noteq> []" by (simp add: session_payload_def Let_def)
  have acc: "parseSession ''secret'' 0 (Some ?v) = Some (session_subject example_subject)"
    using parse_payload [OF ok dec refl nn] by (simp add: Unix_def)
  have unf: "\<exists>(issued, nonce, sub0) \<in> ?I. m = session_payload issued nonce sub0" if "carries_mac ''secret'' ?v m" for m
  proof -
    from that dec have "m @ sessionMAC ''secret'' m = ?p @ sessionMAC ''secret'' ?p" by (simp add: carries_mac_def)
    then have "m = ?p" by (simp add: append_eq_append_conv sessionMAC_def)
    then show ?thesis by simp
  qed
  have "\<exists>(issued, nonce, sub0) \<in> ?I. session_subject example_subject = session_subject sub0 \<and> Unix 0 < Unix (issued + sessionTTL)"
    by (rule session_unforgeable [OF acc unf]) (use ok in auto)
  with acc show ?thesis by blast
qed

end
