(* ===== verification/Keyed_Stores.thy ===== *)
theory Keyed_Stores
  imports Go_Files
begin

section \<open>What the group store and the guest store have in common\<close>

text \<open>
  \<^verbatim>\<open>internal/groups\<close> and \<^verbatim>\<open>internal/guests\<close> are two instances of one design: a mutex-guarded slice of
  records with a server-assigned random identifier and a label that is unique up to case, saved as
  a whole to one JSON file. This theory holds the shared error type, the shared identifier
  generator with its retry loop, and two interfaces as locales: \<open>labelled_store\<close> (the invariant of
  such a slice and its preservation by append, replacement and removal) and \<open>persisted_store\<close> (a
  codec for the records and what a save followed by a load yields). Both are interpreted on the two
  stores in their own theories.
\<close>

subsection \<open>Errors\<close>

datatype store_detail =
    EmptyName | EmptyMember string | NameTaken string
  | EmptyLabel | EmptyZoneID | PasswordTooShort | PasswordTooLong | LabelTaken string

text \<open>
  \<open>NotFoundErr\<close> and \<open>ValidationErr\<close> are the structural \<^verbatim>\<open>*Error\<close> values with an HTTP status;
  \<open>PlainErr\<close> is a plain wrapped error (I/O, random source, hashing).
\<close>

datatype store_error = NotFoundErr string | ValidationErr store_detail | PlainErr string

fun store_HTTPStatus :: "store_error \<Rightarrow> nat option" where
  "store_HTTPStatus (NotFoundErr ident) = Some 404"
| "store_HTTPStatus (ValidationErr d) = Some 422"
| "store_HTTPStatus (PlainErr m) = None"

subsection \<open>Identifiers\<close>

text \<open>
  \<open>rnd i\<close> is the outcome of the \<open>i\<close>-th read of the random source: an error or eight bytes. \<open>NewID\<close>
  renders them as 16 hex digits; \<open>freshIDLocked\<close> retries until the identifier is unused. It has no
  result when every read yields a used one.
\<close>

type_synonym random_source = "nat \<Rightarrow> string + nat list"

definition hex_byte :: "nat \<Rightarrow> string" where
  "hex_byte b = [digit_char (b div 16 mod 16), digit_char (b mod 16)]"

definition EncodeToString :: "nat list \<Rightarrow> string" where
  "EncodeToString bs = concat (map hex_byte bs)"

definition NewID :: "string + nat list \<Rightarrow> store_error + string" where
  "NewID r = (case r of Inl e \<Rightarrow> Inl (PlainErr (''generating id: '' @ e)) | Inr bs \<Rightarrow> Inr (EncodeToString bs))"

partial_function (option) freshIDLocked ::
    "string list \<Rightarrow> random_source \<Rightarrow> nat \<Rightarrow> (store_error + string) option" where
  "freshIDLocked ids rnd i =
     (case NewID (rnd i) of
        Inl e \<Rightarrow> Some (Inl e)
      | Inr ident \<Rightarrow>
          if index_of ((=) ident) ids = None then Some (Inr ident)
          else freshIDLocked ids rnd (Suc i))"

declare freshIDLocked.simps [code]

lemma freshIDLocked_fresh: "freshIDLocked ids rnd i = Some (Inr ident) \<Longrightarrow> ident \<notin> set ids"
proof -
  assume ret: "freshIDLocked ids rnd i = Some (Inr ident)"
  have "\<forall>ident. r = Inr ident \<longrightarrow> ident \<notin> set ids"
    if "freshIDLocked ids rnd i = Some r" for r
  proof (rule freshIDLocked.raw_induct
      [where P = "\<lambda>ids rnd i r. \<forall>ident. r = Inr ident \<longrightarrow> ident \<notin> set ids", OF _ that])
    fix f ids rnd i and r :: "store_error + string"
    assume IH: "\<And>ids rnd i r. f ids rnd i = Some r \<Longrightarrow> \<forall>ident. r = Inr ident \<longrightarrow> ident \<notin> set ids"
      and eq: "(case NewID (rnd i) of Inl e \<Rightarrow> Some (Inl e)
        | Inr ident \<Rightarrow> if index_of ((=) ident) ids = None then Some (Inr ident) else f ids rnd (Suc i)) = Some r"
    show "\<forall>ident. r = Inr ident \<longrightarrow> ident \<notin> set ids"
      using eq IH by (auto split: sum.splits if_splits)
  qed
  with ret show ?thesis by simp
qed

lemma freshIDLocked_drawn: "freshIDLocked ids rnd i = Some (Inr ident) \<Longrightarrow> \<exists>k. NewID (rnd k) = Inr ident"
proof -
  assume ret: "freshIDLocked ids rnd i = Some (Inr ident)"
  have "\<forall>ident. r = Inr ident \<longrightarrow> (\<exists>k. NewID (rnd k) = Inr ident)"
    if "freshIDLocked ids rnd i = Some r" for r
  proof (rule freshIDLocked.raw_induct
      [where P = "\<lambda>ids rnd i r. \<forall>ident. r = Inr ident \<longrightarrow> (\<exists>k. NewID (rnd k) = Inr ident)", OF _ that])
    fix f ids rnd i and r :: "store_error + string"
    assume IH: "\<And>ids rnd i r. f ids rnd i = Some r \<Longrightarrow> \<forall>ident. r = Inr ident \<longrightarrow> (\<exists>k. NewID (rnd k) = Inr ident)"
      and eq: "(case NewID (rnd i) of Inl e \<Rightarrow> Some (Inl e)
        | Inr ident \<Rightarrow> if index_of ((=) ident) ids = None then Some (Inr ident) else f ids rnd (Suc i)) = Some r"
    show "\<forall>ident. r = Inr ident \<longrightarrow> (\<exists>k. NewID (rnd k) = Inr ident)"
      using eq IH by (auto split: sum.splits if_splits)
  qed
  with ret show ?thesis by simp
qed

lemma freshIDLocked_is_hex:
  assumes "freshIDLocked ids rnd i = Some (Inr ident)"
  shows "\<exists>j. \<exists>bs. rnd j = Inr bs \<and> ident = EncodeToString bs"
proof -
  have "\<forall>ident. r = Inr ident \<longrightarrow> (\<exists>j bs. rnd j = Inr bs \<and> ident = EncodeToString bs)"
    if "freshIDLocked ids rnd i = Some r" for r
  proof (rule freshIDLocked.raw_induct
      [where P = "\<lambda>ids rnd i r. \<forall>ident. r = Inr ident \<longrightarrow> (\<exists>j bs. rnd j = Inr bs \<and> ident = EncodeToString bs)", OF _ that])
    fix f ids i r and rnd :: random_source
    assume IH: "\<And>ids rnd i r. f ids rnd i = Some r \<Longrightarrow>
        \<forall>ident. r = Inr ident \<longrightarrow> (\<exists>j bs. rnd j = Inr bs \<and> ident = EncodeToString bs)"
      and eq: "(case NewID (rnd i) of Inl e \<Rightarrow> Some (Inl e)
        | Inr ident \<Rightarrow> if index_of ((=) ident) ids = None then Some (Inr ident) else f ids rnd (Suc i)) = Some r"
    show "\<forall>ident. r = Inr ident \<longrightarrow> (\<exists>j bs. rnd j = Inr bs \<and> ident = EncodeToString bs)"
      using eq IH by (auto simp: NewID_def split: sum.splits if_splits)
  qed
  with assms show ?thesis by blast
qed

text \<open>
  The retry loop returns as soon as the source fails or yields an unused identifier: if that
  happens at some read \<open>i + k\<close>, there is a result.
\<close>

definition read_settles :: "string list \<Rightarrow> string + nat list \<Rightarrow> bool" where
  "read_settles ids r \<longleftrightarrow> (case r of Inl e \<Rightarrow> True | Inr bs \<Rightarrow> EncodeToString bs \<notin> set ids)"

lemma freshIDLocked_terminates:
  "read_settles ids (rnd (i + k)) \<Longrightarrow> \<exists>r. freshIDLocked ids rnd i = Some r"
proof (induction k arbitrary: i)
  case 0
  then show ?case
    by (subst freshIDLocked.simps) (auto simp: read_settles_def NewID_def split: sum.splits)
next
  case (Suc k)
  from Suc.prems have "read_settles ids (rnd (Suc i + k))" by simp
  then obtain r where "freshIDLocked ids rnd (Suc i) = Some r" using Suc.IH by blast
  then show ?case
    by (subst freshIDLocked.simps) (auto simp: NewID_def split: sum.splits)
qed

text \<open>\<^verbatim>\<open>rand.Read\<close> fills the eight-byte buffer it is given, or fails.\<close>

definition eight_bytes :: "random_source \<Rightarrow> bool" where
  "eight_bytes rnd \<longleftrightarrow> (\<forall>i bs. rnd i = Inr bs \<longrightarrow> length bs = 8)"

lemma EncodeToString_length: "length (EncodeToString bs) = 2 * length bs"
  by (induction bs) (auto simp: EncodeToString_def hex_byte_def)

lemma freshIDLocked_length:
  "eight_bytes rnd \<Longrightarrow> freshIDLocked ids rnd i = Some (Inr ident) \<Longrightarrow> length ident = 16"
  by (auto simp: eight_bytes_def EncodeToString_length dest!: freshIDLocked_is_hex)

lemma EncodeToString_ascii: "c \<in> set (EncodeToString bs) \<Longrightarrow> (of_char c :: nat) < 0x80"
proof -
  have "(of_char (digit_char (n mod 16)) :: nat) < 0x80" for n
    by (simp add: digit_char_def) presburger
  then show "c \<in> set (EncodeToString bs) \<Longrightarrow> (of_char c :: nat) < 0x80"
    by (auto simp: EncodeToString_def hex_byte_def)
qed

lemma utf8_EncodeToString: "utf8 (EncodeToString bs)"
  by (intro utf8_ascii) (auto dest: EncodeToString_ascii)

lemma freshIDLocked_props:
  assumes "eight_bytes rnd" and "freshIDLocked ids rnd i = Some (Inr ident)"
  shows "ident \<noteq> []" and "utf8 ident" and "ident \<notin> set ids"
  using assms freshIDLocked_length [OF assms] freshIDLocked_is_hex [OF assms(2)]
    freshIDLocked_fresh [OF assms(2)]
  by (auto simp: utf8_EncodeToString)

subsection \<open>The invariant of a labelled slice\<close>

definition store_inv :: "('r \<Rightarrow> string) \<Rightarrow> ('r \<Rightarrow> 'r \<Rightarrow> bool) \<Rightarrow> ('r \<Rightarrow> bool) \<Rightarrow> 'r list \<Rightarrow> bool" where
  "store_inv key same good items \<longleftrightarrow>
     distinct (map key items) \<and> distinct_by same items \<and> (\<forall>r \<in> set items. key r \<noteq> [] \<and> good r)"

locale labelled_store =
  fixes key :: "'r \<Rightarrow> string"
    and same :: "'r \<Rightarrow> 'r \<Rightarrow> bool"
    and good :: "'r \<Rightarrow> bool"
  assumes same_sym: "same a b \<Longrightarrow> same b a"
begin

lemma inv_Nil: "store_inv key same good []"
  by (simp add: store_inv_def)

lemma inv_append:
  assumes "store_inv key same good items" and "key r \<noteq> []" and "good r"
    and "key r \<notin> key ` set items" and "\<forall>x \<in> set items. \<not> same x r"
  shows "store_inv key same good (items @ [r])"
proof -
  have "distinct_by same (items @ [r])"
    unfolding distinct_by_def
  proof (intro allI impI)
    fix i j
    assume ij: "i < length (items @ [r])" "j < length (items @ [r])"
      and s: "same ((items @ [r]) ! i) ((items @ [r]) ! j)"
    consider "i < length items" "j < length items" | "i < length items" "j = length items"
      | "i = length items" "j < length items" | "i = length items" "j = length items"
      using ij by fastforce
    then show "i = j"
    proof cases
      case 1
      with s assms(1) show ?thesis by (auto simp: nth_append store_inv_def dest: distinct_byD)
    next
      case 2
      with s assms(5) show ?thesis by (auto simp: nth_append)
    next
      case 3
      then have "same r (items ! j)" using s by (simp add: nth_append)
      with 3 assms(5) show ?thesis using same_sym nth_mem by blast
    next
      case 4
      then show ?thesis by simp
    qed
  qed
  with assms show ?thesis by (auto simp: store_inv_def)
qed

lemma inv_update:
  assumes inv: "store_inv key same good items" and i: "i < length items"
    and k: "key r = key (items ! i)" and "good r"
    and other: "\<forall>x \<in> set items. key x \<noteq> key r \<longrightarrow> \<not> same x r"
  shows "store_inv key same good (items[i := r])"
proof -
  from inv have d: "distinct (map key items)" and b: "distinct_by same items"
    by (simp_all add: store_inv_def)
  have ns: "\<not> same (items ! j) r" if "j < length items" "j \<noteq> i" for j
    using that d i k other by (metis distinct_conv_nth length_map nth_map nth_mem)
  have "distinct_by same (items[i := r])"
    unfolding distinct_by_def
  proof (intro allI impI)
    fix a c
    assume "a < length (items[i := r])" "c < length (items[i := r])"
      and s: "same (items[i := r] ! a) (items[i := r] ! c)"
    then have l: "a < length items" "c < length items" by auto
    show "a = c"
    proof (cases "a = i"; cases "c = i")
      assume "a \<noteq> i" "c \<noteq> i"
      with s l b show ?thesis by (auto dest: distinct_byD)
    next
      assume "a = i" "c \<noteq> i"
      with s l ns [of c] show ?thesis using same_sym [of r "items ! c"] by simp
    next
      assume "a \<noteq> i" "c = i"
      with s l ns [of a] show ?thesis by auto
    qed simp
  qed
  moreover have "distinct (map key (items[i := r]))"
    using d by (simp add: map_update_same [OF k])
  moreover have "key r \<noteq> []"
    using inv i k by (auto simp: store_inv_def)
  ultimately show ?thesis
    using inv \<open>good r\<close> by (auto simp: store_inv_def dest: in_set_update_cases)
qed

lemma inv_remove:
  assumes inv: "store_inv key same good items" and i: "i < length items"
  shows "store_inv key same good (remove_at i items)"
proof -
  from inv have b: "distinct_by same items" by (simp add: store_inv_def)
  let ?at = "\<lambda>a. if a < i then a else Suc a"
  have at: "remove_at i items ! a = items ! ?at a \<and> ?at a < length items"
    if "a < length (remove_at i items)" for a
    using that i by (auto simp: remove_at_def nth_append)
  have "distinct_by same (remove_at i items)"
    unfolding distinct_by_def
  proof (intro allI impI)
    fix a c
    assume l: "a < length (remove_at i items)" "c < length (remove_at i items)"
      and "same (remove_at i items ! a) (remove_at i items ! c)"
    then have "?at a = ?at c" using b at [OF l(1)] at [OF l(2)] by (auto dest: distinct_byD)
    then show "a = c" by (auto split: if_splits)
  qed
  then show ?thesis
    using inv set_remove_at_subset [of i items]
    by (auto simp: store_inv_def map_remove_at distinct_remove_at)
qed

end

subsection \<open>Save and load\<close>

text \<open>The file holds the slice: missing for an empty one, else its encoding.\<close>

definition on_disk :: "(json \<Rightarrow> 'r list option) \<Rightarrow> files \<Rightarrow> string \<Rightarrow> 'r list \<Rightarrow> bool" where
  "on_disk dec fs path items \<longleftrightarrow>
     (case fs path of None \<Rightarrow> items = [] | Some None \<Rightarrow> False | Some (Some doc) \<Rightarrow> dec doc = Some items)"

locale persisted_store =
  fixes enc :: "'r list \<Rightarrow> json"
    and dec :: "json \<Rightarrow> 'r list option"
    and codable :: "'r \<Rightarrow> bool"
  assumes dec_enc: "\<forall>r \<in> set items. codable r \<Longrightarrow> dec (enc items) = Some items"
begin

lemma save_ok_on_disk:
  assumes "fresh_tmp io path fs" and "fst (atomic_save io path (enc items) fs) = None"
    and "\<forall>r \<in> set items. codable r"
  shows "on_disk dec (save_final (atomic_save io path (enc items) fs)) path items"
  using atomic_save_ok_target [OF assms(1,2)] dec_enc [OF assms(3)] by (simp add: on_disk_def)

lemma save_error_on_disk:
  assumes "fresh_tmp io path fs" and "fst (atomic_save io path doc fs) = Some e"
    and "on_disk dec fs path items"
  shows "on_disk dec (save_final (atomic_save io path doc fs)) path items"
  using atomic_save_error_target [OF assms(1,2)] assms(3) by (simp add: on_disk_def)

text \<open>A crash after any step of a save leaves the old slice or the new one.\<close>

lemma crash_on_disk:
  assumes "fresh_tmp io path fs" and "on_disk dec fs path old" and "\<forall>r \<in> set new. codable r"
    and "fs' \<in> set (snd (atomic_save io path (enc new) fs))"
  shows "on_disk dec fs' path old \<or> on_disk dec fs' path new"
  using atomic_save_target [OF assms(1,4)] assms(2) dec_enc [OF assms(3)]
  by (auto simp: on_disk_def)

end

text \<open>
  Both contracts together: the slice in memory satisfies its invariant and is what the file holds.
\<close>

definition store_ok ::
    "('r \<Rightarrow> string) \<Rightarrow> ('r \<Rightarrow> 'r \<Rightarrow> bool) \<Rightarrow> ('r \<Rightarrow> bool) \<Rightarrow> (json \<Rightarrow> 'r list option) \<Rightarrow> string \<Rightarrow> 'r list \<Rightarrow> files \<Rightarrow> bool" where
  "store_ok key same good dec path items fs \<longleftrightarrow> store_inv key same good items \<and> on_disk dec fs path items"

locale durable_store = labelled_store key same good + persisted_store enc dec codable
  for key :: "'r \<Rightarrow> string" and same :: "'r \<Rightarrow> 'r \<Rightarrow> bool" and good :: "'r \<Rightarrow> bool"
    and enc :: "'r list \<Rightarrow> json" and dec :: "json \<Rightarrow> 'r list option" and codable :: "'r \<Rightarrow> bool" +
  assumes good_codable: "good r \<Longrightarrow> codable r"
begin

lemma inv_codable: "store_inv key same good items \<Longrightarrow> \<forall>r \<in> set items. codable r"
  by (auto simp: store_inv_def good_codable)

lemma ok_unchanged:
  "store_ok key same good dec path items fs \<Longrightarrow> fs' path = fs path \<Longrightarrow> store_ok key same good dec path items fs'"
  by (simp add: store_ok_def on_disk_def)

lemma ok_saved:
  "store_inv key same good items \<Longrightarrow> store_ok key same good dec path items (fs(path \<mapsto> Some (enc items)))"
  using dec_enc [OF inv_codable] by (simp add: store_ok_def on_disk_def)

lemma ok_crash:
  assumes "store_ok key same good dec path old fs" and "fresh_tmp io path fs" and "store_inv key same good new"
    and "fs' \<in> set (snd (atomic_save io path (enc new) fs))"
  obtains items where "items \<in> {old, new}" "store_ok key same good dec path items fs'"
proof -
  have "on_disk dec fs' path old \<or> on_disk dec fs' path new"
    using crash_on_disk [OF assms(2) _ inv_codable [OF assms(3)] assms(4)] assms(1) by (simp add: store_ok_def)
  with assms(1,3) that show thesis by (auto simp: store_ok_def)
qed

end

subsection \<open>Lookup by identifier\<close>

text \<open>
  What the clients of a store (the API handlers, the poller's policy) rely on: a listing, and a
  lookup that agrees with it.
\<close>

locale keyed_lookup =
  fixes lst :: "'s \<Rightarrow> 'r list"
    and get :: "'s \<Rightarrow> string \<Rightarrow> 'r option"
    and key :: "'r \<Rightarrow> string"
  assumes get_find: "get s k = List.find (\<lambda>r. key r = k) (lst s)"
begin

lemma get_SomeD: "get s k = Some r \<Longrightarrow> r \<in> set (lst s) \<and> key r = k"
  by (auto simp: get_find dest: find_SomeD)

lemma get_None_iff: "get s k = None \<longleftrightarrow> k \<notin> key ` set (lst s)"
  by (auto simp: get_find find_None_iff)

lemma get_Some_iff: "distinct (map key (lst s)) \<Longrightarrow> get s k = Some r \<longleftrightarrow> r \<in> set (lst s) \<and> key r = k"
  by (simp add: get_find find_key_Some_iff)

end

end
