(* ===== verification/Group_Store.thy ===== *)
theory Group_Store
  imports Keyed_Stores Store_Types
begin

section \<open>Package groups: the persisted zone store\<close>

text \<open>
  \<^verbatim>\<open>internal/groups/groups.go\<close>. The state is the store (path and slice of groups) together with the
  file system. Each operation takes the folding table \<open>uf\<close>, the I/O outcomes \<open>io\<close> of its save and,
  for \<open>Create\<close>, the random source; it returns its result and the new state. \<open>Create\<close> retries random
  identifiers without bound, so its result is an option (\<open>None\<close>: it never returns). The mutex makes
  every operation atomic, so that a concurrent history is a sequence of operations,
  each one a \<open>groups_step\<close>. The clones the accessors return are values here.
\<close>

record GroupsStore =
  gs_path :: string
  gs_items :: "Group list"

subsection \<open>The on-disk shape\<close>

record persistedGroup =
  pg_ID :: string
  pg_Name :: string
  pg_Consumers :: "string list"
  pg_AllowedExitNodes :: "string list"

definition groups_toPersisted :: "Group \<Rightarrow> persistedGroup" where
  "groups_toPersisted g = \<lparr>pg_ID = g_ID g, pg_Name = g_Name g, pg_Consumers = g_Consumers g,
     pg_AllowedExitNodes = g_AllowedExitNodes g\<rparr>"

definition groups_fromPersisted :: "persistedGroup \<Rightarrow> Group" where
  "groups_fromPersisted p = \<lparr>g_ID = pg_ID p, g_Name = pg_Name p, g_Consumers = pg_Consumers p,
     g_AllowedExitNodes = pg_AllowedExitNodes p\<rparr>"

definition enc_persistedGroup :: "persistedGroup \<Rightarrow> json" where
  "enc_persistedGroup p = JObj
     [(''id'', JStr (json_string (pg_ID p))), (''name'', JStr (json_string (pg_Name p))),
      (''consumers'', json_strings (pg_Consumers p)),
      (''allowedExitNodes'', json_strings (pg_AllowedExitNodes p))]"

definition persistedGroup_fields :: "string list" where
  "persistedGroup_fields = [''id'', ''name'', ''consumers'', ''allowedExitNodes'']"

definition upd_persistedGroup ::
    "(nat \<Rightarrow> nat) \<Rightarrow> string \<Rightarrow> json \<Rightarrow> persistedGroup \<Rightarrow> persistedGroup option" where
  "upd_persistedGroup uf k v p =
     (case json_key uf persistedGroup_fields k of
        None \<Rightarrow> Some p
      | Some f \<Rightarrow>
          if f = ''id'' then map_option (\<lambda>x. p\<lparr>pg_ID := x\<rparr>) (dec_string v (pg_ID p))
          else if f = ''name'' then map_option (\<lambda>x. p\<lparr>pg_Name := x\<rparr>) (dec_string v (pg_Name p))
          else if f = ''consumers'' then
            map_option (\<lambda>x. p\<lparr>pg_Consumers := x\<rparr>) (dec_strings v (pg_Consumers p))
          else map_option (\<lambda>x. p\<lparr>pg_AllowedExitNodes := x\<rparr>) (dec_strings v (pg_AllowedExitNodes p)))"

definition zero_persistedGroup :: persistedGroup where
  "zero_persistedGroup = \<lparr>pg_ID = [], pg_Name = [], pg_Consumers = [], pg_AllowedExitNodes = []\<rparr>"

definition groups_enc :: "Group list \<Rightarrow> json" where
  "groups_enc items = JArr (map (enc_persistedGroup \<circ> groups_toPersisted) items)"

definition groups_dec :: "(nat \<Rightarrow> nat) \<Rightarrow> json \<Rightarrow> Group list option" where
  "groups_dec uf doc =
     map_option (map groups_fromPersisted)
       (dec_array (dec_object (upd_persistedGroup uf) zero_persistedGroup) doc)"

subsection \<open>Loading\<close>

definition groups_load :: "(nat \<Rightarrow> nat) \<Rightarrow> string option \<Rightarrow> files \<Rightarrow> string \<Rightarrow> store_error + Group list" where
  "groups_load uf fault fs path =
     (case ReadFile fault fs path of
        NotExist \<Rightarrow> Inr []
      | ReadError e \<Rightarrow> Inl (PlainErr (''groups: reading: '' @ e))
      | ReadOK None \<Rightarrow> Inl (PlainErr ''groups: corrupt groups file'')
      | ReadOK (Some doc) \<Rightarrow>
          (case groups_dec uf doc of
             None \<Rightarrow> Inl (PlainErr ''groups: corrupt groups file'')
           | Some items \<Rightarrow> Inr items))"

definition groups_New :: "(nat \<Rightarrow> nat) \<Rightarrow> string option \<Rightarrow> files \<Rightarrow> string \<Rightarrow> store_error + GroupsStore" where
  "groups_New uf fault fs path =
     map_sum id (\<lambda>items. \<lparr>gs_path = path, gs_items = items\<rparr>) (groups_load uf fault fs path)"

subsection \<open>Reading\<close>

definition groups_List :: "GroupsStore \<Rightarrow> Group list" where
  "groups_List s = gs_items s"

definition groups_indexOfLocked :: "GroupsStore \<Rightarrow> string \<Rightarrow> nat option" where
  "groups_indexOfLocked s gid = index_of (\<lambda>g. g_ID g = gid) (gs_items s)"

definition groups_Get :: "GroupsStore \<Rightarrow> string \<Rightarrow> Group option" where
  "groups_Get s gid = map_option ((!) (gs_items s)) (groups_indexOfLocked s gid)"

definition nameTakenLocked :: "(nat \<Rightarrow> nat) \<Rightarrow> GroupsStore \<Rightarrow> string \<Rightarrow> string \<Rightarrow> bool" where
  "nameTakenLocked uf s name excludeID \<longleftrightarrow>
     (\<exists>g \<in> set (gs_items s). g_ID g \<noteq> excludeID \<and> EqualFold uf (g_Name g) name)"

subsection \<open>Validation\<close>

fun normalizeMembersLoop ::
    "string \<Rightarrow> string list \<Rightarrow> string set \<Rightarrow> string list \<Rightarrow> store_error + string list" where
  "normalizeMembersLoop field [] seen out = Inr out"
| "normalizeMembersLoop field (raw # ids) seen out =
     (let ident = TrimSpace raw
      in if ident = [] then Inl (ValidationErr (EmptyMember field))
         else if ident \<in> seen then normalizeMembersLoop field ids seen out
         else normalizeMembersLoop field ids (insert ident seen) (out @ [ident]))"

definition normalizeMembers :: "string list \<Rightarrow> string \<Rightarrow> store_error + string list" where
  "normalizeMembers ids field = normalizeMembersLoop field ids {} []"

definition Normalize :: "Group \<Rightarrow> store_error + Group" where
  "Normalize g =
     (let name = TrimSpace (g_Name g)
      in if name = [] then Inl (ValidationErr EmptyName)
         else case normalizeMembers (g_Consumers g) ''consumers'' of
             Inl e \<Rightarrow> Inl e
           | Inr consumers \<Rightarrow>
               (case normalizeMembers (g_AllowedExitNodes g) ''allowedExitNodes'' of
                  Inl e \<Rightarrow> Inl e
                | Inr allowed \<Rightarrow>
                    Inr \<lparr>g_ID = g_ID g, g_Name = name, g_Consumers = consumers, g_AllowedExitNodes = allowed\<rparr>))"

subsection \<open>Mutations\<close>

definition groups_persistLocked :: "io \<Rightarrow> GroupsStore \<Rightarrow> files \<Rightarrow> string option \<times> files list" where
  "groups_persistLocked io s fs = atomic_save io (gs_path s) (groups_enc (gs_items s)) fs"

definition groups_Create ::
    "(nat \<Rightarrow> nat) \<Rightarrow> io \<Rightarrow> random_source \<Rightarrow> Group \<Rightarrow> GroupsStore \<Rightarrow> files \<Rightarrow>
     ((store_error + Group) \<times> GroupsStore \<times> files) option" where
  "groups_Create uf io rnd g s fs =
     (case Normalize g of
        Inl e \<Rightarrow> Some (Inl e, s, fs)
      | Inr norm \<Rightarrow>
          if nameTakenLocked uf s (g_Name norm) [] then
            Some (Inl (ValidationErr (NameTaken (g_Name norm))), s, fs)
          else (case freshIDLocked (map g_ID (gs_items s)) rnd 0 of
              None \<Rightarrow> None
            | Some (Inl e) \<Rightarrow> Some (Inl e, s, fs)
            | Some (Inr gid) \<Rightarrow>
                (let norm' = norm\<lparr>g_ID := gid\<rparr>;
                     s' = s\<lparr>gs_items := gs_items s @ [norm']\<rparr>;
                     p = groups_persistLocked io s' fs
                 in case fst p of
                      Some e \<Rightarrow>
                        Some (Inl (PlainErr e), s'\<lparr>gs_items := butlast (gs_items s')\<rparr>, save_final p)
                    | None \<Rightarrow> Some (Inr norm', s', save_final p))))"

definition groups_Update ::
    "(nat \<Rightarrow> nat) \<Rightarrow> io \<Rightarrow> string \<Rightarrow> Group \<Rightarrow> GroupsStore \<Rightarrow> files \<Rightarrow>
     (store_error + Group) \<times> GroupsStore \<times> files" where
  "groups_Update uf io gid g s fs =
     (case Normalize g of
        Inl e \<Rightarrow> (Inl e, s, fs)
      | Inr norm \<Rightarrow>
          (case groups_indexOfLocked s gid of
             None \<Rightarrow> (Inl (NotFoundErr gid), s, fs)
           | Some idx \<Rightarrow>
               if nameTakenLocked uf s (g_Name norm) gid then
                 (Inl (ValidationErr (NameTaken (g_Name norm))), s, fs)
               else
                 (let norm' = norm\<lparr>g_ID := gid\<rparr>;
                      old = gs_items s ! idx;
                      s' = s\<lparr>gs_items := (gs_items s)[idx := norm']\<rparr>;
                      p = groups_persistLocked io s' fs
                  in case fst p of
                       Some e \<Rightarrow>
                         (Inl (PlainErr e), s'\<lparr>gs_items := (gs_items s')[idx := old]\<rparr>, save_final p)
                     | None \<Rightarrow> (Inr norm', s', save_final p))))"

definition groups_Delete ::
    "io \<Rightarrow> string \<Rightarrow> GroupsStore \<Rightarrow> files \<Rightarrow> store_error option \<times> GroupsStore \<times> files" where
  "groups_Delete io gid s fs =
     (case groups_indexOfLocked s gid of
        None \<Rightarrow> (Some (NotFoundErr gid), s, fs)
      | Some idx \<Rightarrow>
          (let old = gs_items s;
               s' = s\<lparr>gs_items := remove_at idx (gs_items s)\<rparr>;
               p = groups_persistLocked io s' fs
           in case fst p of
                Some e \<Rightarrow> (Some (PlainErr e), s'\<lparr>gs_items := old\<rparr>, save_final p)
              | None \<Rightarrow> (None, s', save_final p)))"

text \<open>One mutation of the store with its environment.\<close>

datatype group_op =
    OpCreate io random_source Group
  | OpUpdate io string Group
  | OpDelete io string

fun groups_step :: "(nat \<Rightarrow> nat) \<Rightarrow> group_op \<Rightarrow> GroupsStore \<times> files \<Rightarrow> (GroupsStore \<times> files) option" where
  "groups_step uf (OpCreate io rnd g) (s, fs) = map_option snd (groups_Create uf io rnd g s fs)"
| "groups_step uf (OpUpdate io gid g) (s, fs) = Some (snd (groups_Update uf io gid g s fs))"
| "groups_step uf (OpDelete io gid) (s, fs) = Some (snd (groups_Delete io gid s fs))"

subsection \<open>Normalization\<close>

text \<open>What \<open>normalizeMembers\<close> computes: the trimmed identifiers, first occurrences only, in order.\<close>

fun first_seen :: "'a list \<Rightarrow> 'a list" where
  "first_seen [] = []"
| "first_seen (x # xs) = x # filter ((\<noteq>) x) (first_seen xs)"

lemma set_first_seen [simp]: "set (first_seen xs) = set xs"
  by (induction xs) auto

lemma distinct_first_seen [simp]: "distinct (first_seen xs)"
  by (induction xs) auto

lemma first_seen_distinct: "distinct xs \<Longrightarrow> first_seen xs = xs"
  by (induction xs) (auto intro!: filter_True)

lemma normalizeMembersLoop_eq:
  "normalizeMembersLoop field ids (set out) out =
     (if \<exists>raw \<in> set ids. TrimSpace raw = [] then Inl (ValidationErr (EmptyMember field))
      else Inr (out @ filter (\<lambda>x. x \<notin> set out) (first_seen (map TrimSpace ids))))"
proof (induction ids arbitrary: out)
  case Nil
  then show ?case by simp
next
  case (Cons raw ids)
  have new: "normalizeMembersLoop field ids (insert (TrimSpace raw) (set out)) (out @ [TrimSpace raw]) =
      (if \<exists>raw \<in> set ids. TrimSpace raw = [] then Inl (ValidationErr (EmptyMember field))
       else Inr (out @ TrimSpace raw #
         filter (\<lambda>x. x \<noteq> TrimSpace raw \<and> x \<notin> set out) (first_seen (map TrimSpace ids))))"
    using Cons.IH [of "out @ [TrimSpace raw]"] by simp
  show ?case
    by (auto simp: Let_def Cons.IH [of out] new intro!: filter_cong)
qed

lemma normalizeMembers_eq:
  "normalizeMembers ids field =
     (if \<exists>raw \<in> set ids. TrimSpace raw = [] then Inl (ValidationErr (EmptyMember field))
      else Inr (first_seen (map TrimSpace ids)))"
  using normalizeMembersLoop_eq [of field ids "[]"] by (simp add: normalizeMembers_def)

text \<open>
  A reference definition. The loop of \<^verbatim>\<open>normalizeMembers\<close>, with its set of seen identifiers and its growing
  output, computes the obvious thing: it refuses a list with a blank member, and otherwise yields the trimmed
  members without the later duplicates, in their order.
\<close>

theorem normalizeMembers_dedup:
  "normalizeMembers ids field =
     (if [] \<in> set (map TrimSpace ids) then Inl (ValidationErr (EmptyMember field))
      else Inr (first_seen (map TrimSpace ids)))"
proof -
  have "(\<exists>raw \<in> set ids. TrimSpace raw = []) \<longleftrightarrow> [] \<in> set (map TrimSpace ids)" by force
  then show ?thesis by (simp only: normalizeMembers_eq)
qed

definition normal_members :: "string list \<Rightarrow> bool" where
  "normal_members ids \<longleftrightarrow> distinct ids \<and> (\<forall>x \<in> set ids. x \<noteq> [] \<and> TrimSpace x = x)"

definition normal_group :: "Group \<Rightarrow> bool" where
  "normal_group g \<longleftrightarrow> g_Name g \<noteq> [] \<and> TrimSpace (g_Name g) = g_Name g \<and>
     normal_members (g_Consumers g) \<and> normal_members (g_AllowedExitNodes g)"

definition utf8_group :: "Group \<Rightarrow> bool" where
  "utf8_group g \<longleftrightarrow> utf8 (g_ID g) \<and> utf8 (g_Name g) \<and> list_all utf8 (g_Consumers g) \<and>
     list_all utf8 (g_AllowedExitNodes g)"

lemma normalizeMembers_normal:
  "normalizeMembers ids field = Inr out \<Longrightarrow> normal_members out"
  by (force simp: normalizeMembers_eq normal_members_def TrimSpace_idem split: if_splits)

lemma normalizeMembers_utf8:
  "normalizeMembers ids field = Inr out \<Longrightarrow> list_all utf8 ids \<Longrightarrow> list_all utf8 out"
  by (auto simp: normalizeMembers_eq list_all_iff utf8_TrimSpace split: if_splits)

lemma normalizeMembers_id: "normal_members ids \<Longrightarrow> normalizeMembers ids field = Inr ids"
proof -
  assume n: "normal_members ids"
  then have "map TrimSpace ids = ids" by (intro map_idI) (auto simp: normal_members_def)
  with n show ?thesis by (auto simp: normalizeMembers_eq normal_members_def first_seen_distinct)
qed

lemma Normalize_normal: "Normalize g = Inr g' \<Longrightarrow> normal_group g' \<and> g_ID g' = g_ID g"
  by (auto simp: Normalize_def Let_def normal_group_def TrimSpace_idem
      dest: normalizeMembers_normal split: if_splits sum.splits)

lemma Normalize_utf8: "Normalize g = Inr g' \<Longrightarrow> utf8_group g \<Longrightarrow> utf8_group g'"
  by (auto simp: Normalize_def Let_def utf8_group_def utf8_TrimSpace
      dest: normalizeMembers_utf8 split: if_splits sum.splits)

lemma Normalize_id: "normal_group g \<Longrightarrow> Normalize g = Inr g"
  by (simp add: Normalize_def normal_group_def normalizeMembers_id Let_def)

subsection \<open>The invariant and its interpretations\<close>

definition same_name :: "(nat \<Rightarrow> nat) \<Rightarrow> Group \<Rightarrow> Group \<Rightarrow> bool" where
  "same_name uf a b \<longleftrightarrow> EqualFold uf (g_Name a) (g_Name b)"

definition good_group :: "Group \<Rightarrow> bool" where
  "good_group g \<longleftrightarrow> normal_group g \<and> utf8_group g"

definition groups_inv :: "(nat \<Rightarrow> nat) \<Rightarrow> GroupsStore \<Rightarrow> bool" where
  "groups_inv uf s \<longleftrightarrow> store_inv g_ID (same_name uf) good_group (gs_items s)"

lemma dec_enc_persistedGroup:
  assumes "utf8_group g"
  shows "dec_object (upd_persistedGroup uf) zero_persistedGroup (enc_persistedGroup (groups_toPersisted g)) =
    Some (groups_toPersisted g)"
  using assms
  by (simp add: enc_persistedGroup_def groups_toPersisted_def upd_persistedGroup_def zero_persistedGroup_def
      json_key_def persistedGroup_fields_def utf8_group_def json_string_utf8 dec_strings_json_strings list_all_iff)

lemma groups_fromPersisted_toPersisted [simp]: "groups_fromPersisted (groups_toPersisted g) = g"
  by (simp add: groups_fromPersisted_def groups_toPersisted_def)

interpretation gcodec: persisted_store groups_enc "groups_dec uf" utf8_group for uf
proof
  fix items assume c: "\<forall>r \<in> set items. utf8_group r"
  then have "seq_opt (map (dec_object (upd_persistedGroup uf) zero_persistedGroup)
      (map (enc_persistedGroup \<circ> groups_toPersisted) items)) = Some (map groups_toPersisted items)"
    unfolding map_map by (intro seq_opt_map_SomeI) (simp add: dec_enc_persistedGroup)
  then show "groups_dec uf (groups_enc items) = Some items"
    by (simp add: groups_dec_def groups_enc_def comp_def)
qed

interpretation gslice: labelled_store g_ID "same_name uf" good_group for uf
  by unfold_locales (simp add: same_name_def EqualFold_sym)

interpretation gdurable: durable_store g_ID "same_name uf" good_group groups_enc "groups_dec uf" utf8_group for uf
  by unfold_locales (simp add: good_group_def)

subsection \<open>Every operation commits or rolls back\<close>

text \<open>
  The three lemmas state what a mutation does to memory and file: after an error neither the slice
  nor the target file has changed; after a success both hold the new slice.
\<close>

lemma groups_Create_error:
  assumes "groups_Create uf io rnd g s fs = Some (Inl e, s', fs')" and "fresh_tmp io (gs_path s) fs"
  shows "s' = s \<and> fs' (gs_path s) = fs (gs_path s)"
  using assms
  by (auto simp: groups_Create_def Let_def groups_persistLocked_def
      dest: atomic_save_error_target split: sum.splits if_splits option.splits)

lemma groups_Create_ok:
  assumes "groups_Create uf io rnd g s fs = Some (Inr g', s', fs')" and "fresh_tmp io (gs_path s) fs"
  obtains norm gid where "Normalize g = Inr norm" "\<not> nameTakenLocked uf s (g_Name norm) []"
    "freshIDLocked (map g_ID (gs_items s)) rnd 0 = Some (Inr gid)" "g' = norm\<lparr>g_ID := gid\<rparr>"
    "s' = s\<lparr>gs_items := gs_items s @ [g']\<rparr>" "fs' = fs(gs_path s \<mapsto> Some (groups_enc (gs_items s')))"
  using assms
  by (auto simp: groups_Create_def Let_def groups_persistLocked_def atomic_save_ok_target
      split: sum.splits if_splits option.splits)

lemma groups_Update_error:
  assumes "groups_Update uf io gid g s fs = (Inl e, s', fs')" and "fresh_tmp io (gs_path s) fs"
  shows "s' = s \<and> fs' (gs_path s) = fs (gs_path s)"
  using assms
  by (auto simp: groups_Update_def Let_def groups_persistLocked_def
      dest: atomic_save_error_target split: sum.splits if_splits option.splits)

lemma groups_Update_ok:
  assumes "groups_Update uf io gid g s fs = (Inr g', s', fs')" and "fresh_tmp io (gs_path s) fs"
  obtains norm idx where "Normalize g = Inr norm" "groups_indexOfLocked s gid = Some idx"
    "\<not> nameTakenLocked uf s (g_Name norm) gid" "g' = norm\<lparr>g_ID := gid\<rparr>"
    "s' = s\<lparr>gs_items := (gs_items s)[idx := g']\<rparr>" "fs' = fs(gs_path s \<mapsto> Some (groups_enc (gs_items s')))"
  using assms
  by (auto simp: groups_Update_def Let_def groups_persistLocked_def atomic_save_ok_target
      split: sum.splits if_splits option.splits)

lemma groups_Delete_error:
  assumes "groups_Delete io gid s fs = (Some e, s', fs')" and "fresh_tmp io (gs_path s) fs"
  shows "s' = s \<and> fs' (gs_path s) = fs (gs_path s)"
  using assms
  by (auto simp: groups_Delete_def Let_def groups_persistLocked_def
      dest: atomic_save_error_target split: sum.splits if_splits option.splits)

lemma groups_Delete_ok:
  assumes "groups_Delete io gid s fs = (None, s', fs')" and "fresh_tmp io (gs_path s) fs"
  obtains idx where "groups_indexOfLocked s gid = Some idx"
    "s' = s\<lparr>gs_items := remove_at idx (gs_items s)\<rparr>" "fs' = fs(gs_path s \<mapsto> Some (groups_enc (gs_items s')))"
  using assms
  by (auto simp: groups_Delete_def Let_def groups_persistLocked_def atomic_save_ok_target
      split: sum.splits if_splits option.splits)

subsection \<open>Preservation of the invariant\<close>

lemma groups_indexOfLocked_SomeD:
  "groups_indexOfLocked s gid = Some i \<Longrightarrow> i < length (gs_items s) \<and> g_ID (gs_items s ! i) = gid"
  by (auto simp: groups_indexOfLocked_def dest: index_of_SomeD)

lemma groups_Create_inv [inv_intros]:
  assumes "groups_inv uf s" and "utf8_group g" and "eight_bytes rnd" and "fresh_tmp io (gs_path s) fs"
    and "groups_Create uf io rnd g s fs = Some (Inr g', s', fs')"
  shows "groups_inv uf s'"
proof -
  from groups_Create_ok [OF assms(5,4)] obtain norm gid
    where n: "Normalize g = Inr norm" and t: "\<not> nameTakenLocked uf s (g_Name norm) []"
      and f: "freshIDLocked (map g_ID (gs_items s)) rnd 0 = Some (Inr gid)" and g': "g' = norm\<lparr>g_ID := gid\<rparr>"
      and s': "s' = s\<lparr>gs_items := gs_items s @ [g']\<rparr>" by metis
  note gid = freshIDLocked_props [OF assms(3) f]
  have "good_group g'"
    using Normalize_normal [OF n] Normalize_utf8 [OF n assms(2)] gid(2)
    by (auto simp: g' good_group_def normal_group_def utf8_group_def)
  moreover have "\<forall>x \<in> set (gs_items s). \<not> same_name uf x g'"
    using t assms(1) by (auto simp: nameTakenLocked_def same_name_def g' groups_inv_def store_inv_def)
  ultimately show ?thesis
    using assms(1) gid unfolding groups_inv_def s'
    by (auto simp: g' intro!: gslice.inv_append)
qed

lemma groups_Update_inv [inv_intros]:
  assumes "groups_inv uf s" and "utf8_group g" and "fresh_tmp io (gs_path s) fs"
    and "groups_Update uf io gid g s fs = (Inr g', s', fs')"
  shows "groups_inv uf s'"
proof -
  from groups_Update_ok [OF assms(4,3)] obtain norm idx
    where n: "Normalize g = Inr norm" and i: "groups_indexOfLocked s gid = Some idx"
      and t: "\<not> nameTakenLocked uf s (g_Name norm) gid" and g': "g' = norm\<lparr>g_ID := gid\<rparr>"
      and s': "s' = s\<lparr>gs_items := (gs_items s)[idx := g']\<rparr>" by metis
  note idx = groups_indexOfLocked_SomeD [OF i]
  have "utf8 gid" using assms(1) idx by (auto simp: groups_inv_def store_inv_def good_group_def utf8_group_def)
  then have "good_group g'"
    using Normalize_normal [OF n] Normalize_utf8 [OF n assms(2)]
    by (auto simp: g' good_group_def normal_group_def utf8_group_def)
  moreover have "\<forall>x \<in> set (gs_items s). g_ID x \<noteq> g_ID g' \<longrightarrow> \<not> same_name uf x g'"
    using t by (auto simp: nameTakenLocked_def same_name_def g')
  ultimately show ?thesis
    using assms(1) idx unfolding groups_inv_def s'
    by (auto simp: g' intro!: gslice.inv_update)
qed

lemma groups_Delete_inv [inv_intros]:
  assumes "groups_inv uf s" and "fresh_tmp io (gs_path s) fs" and "groups_Delete io gid s fs = (None, s', fs')"
  shows "groups_inv uf s'"
proof -
  from groups_Delete_ok [OF assms(3,2)] obtain idx
    where i: "groups_indexOfLocked s gid = Some idx" and s': "s' = s\<lparr>gs_items := remove_at idx (gs_items s)\<rparr>"
    by metis
  then show ?thesis
    using assms(1) groups_indexOfLocked_SomeD [OF i] by (auto simp: groups_inv_def intro: gslice.inv_remove)
qed

subsection \<open>Histories, crashes and restarts\<close>

text \<open>
  What the environment of an operation guarantees: the temporary file is new, the random source
  fills its buffer, and a group in a request body is valid UTF-8 (it was decoded from JSON).
\<close>

fun op_io :: "group_op \<Rightarrow> io" where
  "op_io (OpCreate io rnd g) = io"
| "op_io (OpUpdate io gid g) = io"
| "op_io (OpDelete io gid) = io"

fun op_input_ok :: "group_op \<Rightarrow> bool" where
  "op_input_ok (OpCreate io rnd g) \<longleftrightarrow> eight_bytes rnd \<and> utf8_group g"
| "op_input_ok (OpUpdate io gid g) \<longleftrightarrow> utf8_group g"
| "op_input_ok (OpDelete io gid) \<longleftrightarrow> True"

text \<open>
  The store an operation hands to \<^verbatim>\<open>persistLocked\<close>, if it gets that far. The two lemmas tie it to the operations: an
  operation that saves nothing leaves the store and the file system as they are, and the others end with the store
  they have saved or, when the save fails, with the one they found.
\<close>

fun groups_saving :: "(nat \<Rightarrow> nat) \<Rightarrow> group_op \<Rightarrow> GroupsStore \<Rightarrow> GroupsStore option" where
  "groups_saving uf (OpCreate io rnd g) s =
     (case Normalize g of
        Inl e \<Rightarrow> None
      | Inr norm \<Rightarrow>
          if nameTakenLocked uf s (g_Name norm) [] then None
          else (case freshIDLocked (map g_ID (gs_items s)) rnd 0 of
                  Some (Inr gid) \<Rightarrow> Some (s\<lparr>gs_items := gs_items s @ [norm\<lparr>g_ID := gid\<rparr>]\<rparr>)
                | _ \<Rightarrow> None))"
| "groups_saving uf (OpUpdate io gid g) s =
     (case Normalize g of
        Inl e \<Rightarrow> None
      | Inr norm \<Rightarrow>
          (case groups_indexOfLocked s gid of
             None \<Rightarrow> None
           | Some idx \<Rightarrow>
               if nameTakenLocked uf s (g_Name norm) gid then None
               else Some (s\<lparr>gs_items := (gs_items s)[idx := norm\<lparr>g_ID := gid\<rparr>]\<rparr>)))"
| "groups_saving uf (OpDelete io gid) s =
     map_option (\<lambda>idx. s\<lparr>gs_items := remove_at idx (gs_items s)\<rparr>) (groups_indexOfLocked s gid)"

lemma groups_step_none:
  assumes "groups_saving uf opn s = None" and "groups_step uf opn (s, fs) = Some (s', fs')"
  shows "s' = s \<and> fs' = fs"
  using assms
  by (cases opn) (auto simp: groups_Create_def groups_Update_def groups_Delete_def Let_def split: sum.splits if_splits option.splits)

lemma groups_step_saved:
  assumes "groups_saving uf opn s = Some s1"
  shows "let p = groups_persistLocked (op_io opn) s1 fs
    in groups_step uf opn (s, fs) = Some (if fst p = None then s1 else s, save_final p)"
  using assms
  by (cases opn) (auto simp: groups_Create_def groups_Update_def groups_Delete_def Let_def groups_indexOfLocked_SomeD
      split: sum.splits if_splits option.splits)

text \<open>
  The life of a deployment: the process, if one is running, with its store, and the file system. It begins with no
  file and no process. A process that starts loads the file; a running one serves mutations; and it may stop at
  any moment, between two operations or in the middle of the save of one, leaving any of the states of the file system
  the save passes through. Whether the file can be loaded after that is not part of the rules.
\<close>

inductive groups_life :: "(nat \<Rightarrow> nat) \<Rightarrow> string \<Rightarrow> GroupsStore option \<Rightarrow> files \<Rightarrow> bool" for uf path where
  fresh: "fs path = None \<Longrightarrow> groups_life uf path None fs"
| start: "groups_life uf path None fs \<Longrightarrow> groups_New uf None fs path = Inr s \<Longrightarrow> groups_life uf path (Some s) fs"
| mutate: "groups_life uf path (Some s) fs \<Longrightarrow> fresh_tmp (op_io opn) path fs \<Longrightarrow> op_input_ok opn \<Longrightarrow>
    groups_step uf opn (s, fs) = Some (s', fs') \<Longrightarrow> groups_life uf path (Some s') fs'"
| stop: "groups_life uf path (Some s) fs \<Longrightarrow> groups_life uf path None fs"
| crash: "groups_life uf path (Some s) fs \<Longrightarrow> fresh_tmp (op_io opn) path fs \<Longrightarrow> op_input_ok opn \<Longrightarrow>
    groups_saving uf opn s = Some s1 \<Longrightarrow> fs' \<in> set (snd (groups_persistLocked (op_io opn) s1 fs)) \<Longrightarrow>
    groups_life uf path None fs'"

abbreviation groups_reachable :: "(nat \<Rightarrow> nat) \<Rightarrow> string \<Rightarrow> GroupsStore \<Rightarrow> files \<Rightarrow> bool" where
  "groups_reachable uf path s fs \<equiv> groups_life uf path (Some s) fs"

lemma groups_reachable_start: "fs path = None \<Longrightarrow> groups_New uf None fs path = Inr s \<Longrightarrow> groups_reachable uf path s fs"
  by (rule groups_life.start [OF groups_life.fresh])

definition groups_ok :: "(nat \<Rightarrow> nat) \<Rightarrow> string \<Rightarrow> GroupsStore \<Rightarrow> files \<Rightarrow> bool" where
  "groups_ok uf path s fs \<longleftrightarrow>
     gs_path s = path \<and> store_ok g_ID (same_name uf) good_group (groups_dec uf) path (gs_items s) fs"

lemma groups_ok_inv: "groups_ok uf path s fs \<Longrightarrow> gs_path s = path \<and> groups_inv uf s"
  by (simp add: groups_ok_def groups_inv_def store_ok_def)

lemma groups_New_on_disk:
  assumes "on_disk (groups_dec uf) fs path items"
  shows "groups_New uf None fs path = Inr \<lparr>gs_path = path, gs_items = items\<rparr>"
  using assms
  by (auto simp: groups_New_def groups_load_def ReadFile_def on_disk_def split: option.splits)

lemma groups_step_ok:
  assumes ok: "groups_ok uf path s fs" and tmp: "fresh_tmp (op_io opn) path fs"
    and inp: "op_input_ok opn" and step: "groups_step uf opn (s, fs) = Some (s', fs')"
  shows "groups_ok uf path s' fs'"
proof -
  from groups_ok_inv [OF ok] have inv: "groups_inv uf s" and path: "gs_path s = path" by simp_all
  have *: "groups_ok uf path s' fs'" if "s' = s \<and> fs' (gs_path s) = fs (gs_path s)"
    using that ok by (auto simp: groups_ok_def intro: gdurable.ok_unchanged)
  have **: "groups_ok uf path s' fs'"
    if "groups_inv uf s'" "gs_path s' = gs_path s" "fs' = fs(gs_path s \<mapsto> Some (groups_enc (gs_items s')))"
    using that path by (auto simp: groups_ok_def groups_inv_def intro: gdurable.ok_saved)
  show ?thesis
  proof (cases opn)
    case (OpCreate io rnd g)
    with step obtain r where r: "groups_Create uf io rnd g s fs = Some (r, s', fs')" by auto
    show ?thesis
    proof (cases r)
      case (Inl e)
      with r tmp OpCreate path show ?thesis by (intro *) (auto dest: groups_Create_error)
    next
      case (Inr g')
      with r OpCreate tmp path inp inv show ?thesis
        by (intro **) (auto intro: groups_Create_inv elim: groups_Create_ok)
    qed
  next
    case (OpUpdate io gid g)
    with step obtain r where r: "groups_Update uf io gid g s fs = (r, s', fs')"
      by (cases "groups_Update uf io gid g s fs") auto
    show ?thesis
    proof (cases r)
      case (Inl e)
      with r tmp OpUpdate path show ?thesis by (intro *) (auto dest: groups_Update_error)
    next
      case (Inr g')
      with r OpUpdate tmp path inp inv show ?thesis
        by (intro **) (auto intro: groups_Update_inv elim: groups_Update_ok)
    qed
  next
    case (OpDelete io gid)
    with step obtain r where r: "groups_Delete io gid s fs = (r, s', fs')"
      by (cases "groups_Delete io gid s fs") auto
    show ?thesis
    proof (cases r)
      case (Some e)
      with r tmp OpDelete path show ?thesis by (intro *) (auto dest: groups_Delete_error)
    next
      case None
      with r OpDelete tmp path inv show ?thesis
        by (intro **) (auto intro: groups_Delete_inv elim: groups_Delete_ok)
    qed
  qed
qed

text \<open>The store an operation saves satisfies the invariant: with a save that succeeds, it is the next store.\<close>

lemma groups_saving_path: "groups_saving uf opn s = Some s1 \<Longrightarrow> gs_path s1 = gs_path s"
  by (cases opn) (auto split: sum.splits if_splits option.splits)

fun op_with_io :: "io \<Rightarrow> group_op \<Rightarrow> group_op" where
  "op_with_io io' (OpCreate io rnd g) = OpCreate io' rnd g"
| "op_with_io io' (OpUpdate io gid g) = OpUpdate io' gid g"
| "op_with_io io' (OpDelete io gid) = OpDelete io' gid"

lemma op_with_io [simp]:
  "op_io (op_with_io io' opn) = io'" "op_input_ok (op_with_io io' opn) = op_input_ok opn"
  "groups_saving uf (op_with_io io' opn) s = groups_saving uf opn s"
  by (cases opn; simp)+

lemma groups_saving_inv:
  assumes ok: "groups_ok uf path s fs" and "fresh_tmp (op_io opn) path fs" and "op_input_ok opn"
    and "groups_saving uf opn s = Some s1"
  shows "groups_inv uf s1"
proof -
  let ?opn = "op_with_io (io_ok (io_tmp (op_io opn))) opn"
  have "groups_step uf ?opn (s, fs) = Some (s1, save_final (groups_persistLocked (op_io ?opn) s1 fs))"
    using groups_step_saved [of uf ?opn s s1 fs] assms(4)
    by (simp add: Let_def groups_persistLocked_def atomic_save_def io_ok_def)
  from groups_step_ok [OF ok _ _ this] assms(2,3) have "groups_ok uf path s1 (save_final (groups_persistLocked (op_io ?opn) s1 fs))"
    by (simp add: fresh_tmp_def io_ok_def)
  then show ?thesis using groups_ok_inv by blast
qed

text \<open>Wherever its save is interrupted, an operation has happened for the next process or has not.\<close>

lemma groups_crash_atomic:
  assumes ok: "groups_ok uf path s fs" and tmp: "fresh_tmp (op_io opn) path fs" and inp: "op_input_ok opn"
    and sv: "groups_saving uf opn s = Some s1" and fs': "fs' \<in> set (snd (groups_persistLocked (op_io opn) s1 fs))"
  shows "groups_ok uf path s fs' \<or> groups_ok uf path s1 fs'"
proof -
  from groups_ok_inv [OF ok] have path: "gs_path s = path" by simp
  have p1: "gs_path s1 = path" using groups_saving_path [OF sv] path by simp
  have inv1: "groups_inv uf s1" by (rule groups_saving_inv [OF ok tmp inp sv])
  from fs' have "fs' \<in> set (snd (atomic_save (op_io opn) path (groups_enc (gs_items s1)) fs))"
    by (simp add: groups_persistLocked_def p1)
  from atomic_save_target [OF tmp this] show ?thesis
  proof
    assume "fs' path = fs path"
    then have "groups_ok uf path s fs'" using ok by (auto simp: groups_ok_def intro: gdurable.ok_unchanged)
    then show ?thesis ..
  next
    assume "fs' path = Some (Some (groups_enc (gs_items s1)))"
    moreover have "store_ok g_ID (same_name uf) good_group (groups_dec uf) path (gs_items s1) (fs(path \<mapsto> Some (groups_enc (gs_items s1))))"
      by (rule gdurable.ok_saved) (use inv1 in \<open>simp add: groups_inv_def\<close>)
    ultimately have "groups_ok uf path s1 fs'" using p1 by (auto simp: groups_ok_def intro: gdurable.ok_unchanged)
    then show ?thesis ..
  qed
qed

lemma groups_ok_New: "groups_ok uf path s fs \<Longrightarrow> groups_New uf None fs path = Inr s"
  using groups_New_on_disk [of uf fs path "gs_items s"] by (simp add: groups_ok_def store_ok_def)

lemma groups_life_ok: "groups_life uf path p fs \<Longrightarrow> \<exists>s. groups_ok uf path s fs \<and> (\<forall>r. p = Some r \<longrightarrow> r = s)"
proof (induction rule: groups_life.induct)
  case (fresh fs)
  then have "groups_ok uf path \<lparr>gs_path = path, gs_items = []\<rparr> fs"
    by (simp add: groups_ok_def store_ok_def on_disk_def gslice.inv_Nil)
  then show ?case by blast
next
  case (start fs s)
  then show ?case using groups_ok_New by fastforce
next
  case (mutate s fs opn s' fs')
  then show ?case by (auto intro: groups_step_ok)
next
  case (stop s fs)
  then show ?case by blast
next
  case (crash s fs opn s1 fs')
  then have "groups_ok uf path s fs" by blast
  from groups_crash_atomic [OF this crash.hyps(2-5)] show ?case by blast
qed

lemma groups_reachable_ok: "groups_reachable uf path s fs \<Longrightarrow> groups_ok uf path s fs"
  using groups_life_ok by blast

text \<open>
  C19 (invariant, crash safety). At every moment of a deployment, whatever I/O step of a save has failed and
  wherever a crash has interrupted one, a process started from the file system comes up with a store whose identifiers
  are distinct and non-empty, whose names are non-empty, trimmed and distinct up to case, and whose member lists are trimmed
  and free of duplicates; if a process is running, that is exactly its store. And a save is atomic: wherever
  an operation on the store is interrupted, the next process holds the store of before the operation or that of after it.
\<close>

theorem groups_reachable_safe:
  assumes "groups_life uf path p fs"
  shows "\<exists>s. groups_New uf None fs path = Inr s \<and> groups_inv uf s \<and> (\<forall>r. p = Some r \<longrightarrow> r = s) \<and>
    (\<forall>opn s1 fs'. fresh_tmp (op_io opn) path fs \<and> op_input_ok opn \<and> groups_saving uf opn s = Some s1 \<and>
       fs' \<in> set (snd (groups_persistLocked (op_io opn) s1 fs)) \<longrightarrow>
       groups_New uf None fs' path = Inr s \<or> groups_New uf None fs' path = Inr s1)"
proof -
  from groups_life_ok [OF assms] obtain s where s: "groups_ok uf path s fs" "\<forall>r. p = Some r \<longrightarrow> r = s" by blast
  with groups_ok_New [OF s(1)] groups_ok_inv [OF s(1)] show ?thesis
    using groups_crash_atomic [OF s(1)] groups_ok_New by (intro exI [of _ s]) blast
qed

definition example_group :: Group where
  "example_group = \<lparr>g_ID = [], g_Name = ''  Home '', g_Consumers = [''r1'', '' r1''], g_AllowedExitNodes = [''e1'']\<rparr>"

definition example_create :: group_op where
  "example_create = OpCreate (io_ok ''t'') (\<lambda>_. Inr [1, 2, 3, 4, 5, 6, 7, 8]) example_group"

lemma example_create_runs:
  "map_option (\<lambda>(s, fs). gs_items s)
     (groups_step ascii_fold example_create (\<lparr>gs_path = ''g'', gs_items = []\<rparr>, Map.empty)) =
   Some [\<lparr>g_ID = ''0102030405060708'', g_Name = ''Home'', g_Consumers = [''r1''], g_AllowedExitNodes = [''e1'']\<rparr>]"
  by code_simp

lemma example_reachable:
  "\<exists>s fs. groups_reachable ascii_fold ''g'' s fs \<and> map g_Name (gs_items s) = [''Home''] \<and>
     map g_ID (gs_items s) = [''0102030405060708''] \<and> fs ''t'' = None"
proof -
  obtain s fs where st: "groups_step ascii_fold example_create (\<lparr>gs_path = ''g'', gs_items = []\<rparr>, Map.empty) = Some (s, fs)"
    and items: "map g_Name (gs_items s) = [''Home'']" "map g_ID (gs_items s) = [''0102030405060708'']"
    using example_create_runs by (auto simp: map_option_eq_Some)
  have "fs ''t'' = None"
    using st by (auto simp: example_create_def groups_Create_def Let_def groups_persistLocked_def io_ok_def
        atomic_save_def save_final_def split: sum.splits if_splits option.splits)
  moreover have "groups_reachable ascii_fold ''g'' \<lparr>gs_path = ''g'', gs_items = []\<rparr> Map.empty"
    by (rule groups_reachable_start) (simp_all add: groups_New_def groups_load_def ReadFile_def)
  then have "groups_reachable ascii_fold ''g'' s fs"
  proof (rule groups_life.mutate [OF _ _ _ st])
    show "fresh_tmp (op_io example_create) ''g'' Map.empty"
      by (simp add: example_create_def fresh_tmp_def io_ok_def)
    show "op_input_ok example_create"
      by (auto simp: example_create_def example_group_def eight_bytes_def utf8_group_def intro!: utf8_ascii)
  qed
  ultimately show ?thesis using items by (intro exI conjI)
qed

text \<open>A crash while the zone is being removed: the file of the store is whole, the temporary one is torn.\<close>

theorem groups_reachable_safe_witness:
  "\<exists>fs s. groups_life ascii_fold ''g'' None fs \<and> fs ''t'' = Some None \<and> groups_New ascii_fold None fs ''g'' = Inr s \<and>
     groups_inv ascii_fold s \<and> map g_Name (gs_items s) = [''Home'']"
proof -
  let ?del = "OpDelete (io_ok ''t'') ''0102030405060708''"
  obtain s fs where r: "groups_reachable ascii_fold ''g'' s fs" and i: "map g_Name (gs_items s) = [''Home'']"
    "map g_ID (gs_items s) = [''0102030405060708'']" and t: "fs ''t'' = None"
    using example_reachable by (elim exE conjE)
  have tmp: "fresh_tmp (op_io ?del) ''g'' fs" using t by (simp add: fresh_tmp_def io_ok_def)
  obtain x where x: "gs_items s = [x]" "g_ID x = ''0102030405060708''" using i(2) by (auto simp: map_eq_Cons_conv)
  then have sv: "groups_saving ascii_fold ?del s = Some (s\<lparr>gs_items := remove_at 0 (gs_items s)\<rparr>)"
    by (simp add: groups_indexOfLocked_def)
  let ?fs = "fs(''t'' \<mapsto> None)"
  have "?fs \<in> set (snd (groups_persistLocked (op_io ?del) (s\<lparr>gs_items := remove_at 0 (gs_items s)\<rparr>) fs))"
    by (simp add: groups_persistLocked_def atomic_save_def io_ok_def Let_def)
  from groups_life.crash [OF r tmp _ sv this] have life: "groups_life ascii_fold ''g'' None ?fs" by simp
  from groups_reachable_safe [OF life] groups_reachable_safe [OF r] groups_ok_New [OF groups_reachable_ok [OF r]]
  have "\<exists>s'. groups_New ascii_fold None ?fs ''g'' = Inr s' \<and> groups_inv ascii_fold s'" "groups_New ascii_fold None ?fs ''g'' = groups_New ascii_fold None fs ''g''"
    by (auto simp: groups_New_def groups_load_def ReadFile_def)
  with life i(1) groups_ok_New [OF groups_reachable_ok [OF r]] show ?thesis by (intro exI [of _ ?fs] exI [of _ s]) auto
qed

subsection \<open>The store is a map\<close>

interpretation glookup: keyed_lookup groups_List groups_Get g_ID
  by unfold_locales (simp add: groups_Get_def groups_List_def groups_indexOfLocked_def find_eq_index_of)

lemma groups_inv_distinct: "groups_inv uf s \<Longrightarrow> distinct (map g_ID (gs_items s))"
  by (simp add: groups_inv_def store_inv_def)

lemma groups_Get_find: "groups_Get s = (\<lambda>gid. List.find (\<lambda>g. g_ID g = gid) (gs_items s))"
  using glookup.get_find [of s] by (simp add: fun_eq_iff groups_List_def)

lemma groups_Create_map:
  assumes inv: "groups_inv uf s" and tmp: "fresh_tmp io (gs_path s) fs"
    and ret: "groups_Create uf io rnd g s fs = Some (Inr g', s', fs')"
  shows "groups_Get s (g_ID g') = None \<and> groups_Get s' = (groups_Get s)(g_ID g' \<mapsto> g')"
proof -
  from groups_Create_ok [OF ret tmp] obtain norm gid where
    f: "freshIDLocked (map g_ID (gs_items s)) rnd 0 = Some (Inr gid)" and g': "g' = norm\<lparr>g_ID := gid\<rparr>"
    and s': "s' = s\<lparr>gs_items := gs_items s @ [g']\<rparr>" by metis
  have n: "g_ID g' \<notin> g_ID ` set (gs_items s)" using freshIDLocked_fresh [OF f] by (simp add: g')
  then have "distinct (map g_ID (gs_items s @ [g']))" using groups_inv_distinct [OF inv] by simp
  from find_key_append [OF this] have "groups_Get s' = (groups_Get s)(g_ID g' \<mapsto> g')"
    by (simp add: groups_Get_find s' fun_eq_iff)
  moreover have "groups_Get s (g_ID g') = None"
    using n glookup.get_None_iff [of s] by (simp add: groups_List_def)
  ultimately show ?thesis by simp
qed

lemma groups_Update_map:
  assumes inv: "groups_inv uf s" and tmp: "fresh_tmp io (gs_path s) fs"
    and ret: "groups_Update uf io gid g s fs = (Inr g', s', fs')"
  shows "groups_Get s gid \<noteq> None \<and> groups_Get s' = (groups_Get s)(gid \<mapsto> g')"
proof -
  from groups_Update_ok [OF ret tmp] obtain norm idx where
    i: "groups_indexOfLocked s gid = Some idx" and g': "g' = norm\<lparr>g_ID := gid\<rparr>"
    and s': "s' = s\<lparr>gs_items := (gs_items s)[idx := g']\<rparr>" by metis
  have "groups_Get s gid \<noteq> None" using i by (simp add: groups_Get_def)
  with find_key_update [OF groups_inv_distinct [OF inv], of idx g'] groups_indexOfLocked_SomeD [OF i]
  show ?thesis by (simp add: groups_Get_find s' fun_eq_iff g')
qed

lemma groups_Delete_map:
  assumes inv: "groups_inv uf s" and tmp: "fresh_tmp io (gs_path s) fs"
    and ret: "groups_Delete io gid s fs = (None, s', fs')"
  shows "groups_Get s gid \<noteq> None \<and> groups_Get s' = (groups_Get s)(gid := None)"
proof -
  from groups_Delete_ok [OF ret tmp] obtain idx where
    i: "groups_indexOfLocked s gid = Some idx" and s': "s' = s\<lparr>gs_items := remove_at idx (gs_items s)\<rparr>" by metis
  have "groups_Get s gid \<noteq> None" using i by (simp add: groups_Get_def)
  with find_key_remove [OF groups_inv_distinct [OF inv], of idx] groups_indexOfLocked_SomeD [OF i]
  show ?thesis by (simp add: groups_Get_find s' fun_eq_iff)
qed

text \<open>
  The contract of the store, over a map from identifiers to groups: what each result of an
  operation says of the map before and after. A result of \<open>Create\<close> that never comes (\<open>None\<close>) says
  nothing; \<open>groups_Create_terminates\<close> below rules it out.
\<close>

definition create_spec ::
    "(nat \<Rightarrow> nat) \<Rightarrow> Group \<Rightarrow> (string \<rightharpoonup> Group) \<Rightarrow> store_error + Group \<Rightarrow> (string \<rightharpoonup> Group) \<Rightarrow> bool" where
  "create_spec uf g m r m' \<longleftrightarrow>
     (case r of
        Inl e \<Rightarrow> m' = m
      | Inr g' \<Rightarrow> m (g_ID g') = None \<and> m' = m(g_ID g' \<mapsto> g') \<and>
          Normalize g = Inr (g'\<lparr>g_ID := g_ID g\<rparr>) \<and> (\<forall>h \<in> ran m. \<not> same_name uf h g'))"

definition update_spec ::
    "(nat \<Rightarrow> nat) \<Rightarrow> string \<Rightarrow> Group \<Rightarrow> (string \<rightharpoonup> Group) \<Rightarrow> store_error + Group \<Rightarrow> (string \<rightharpoonup> Group) \<Rightarrow> bool" where
  "update_spec uf gid g m r m' \<longleftrightarrow>
     (case r of
        Inl e \<Rightarrow> m' = m
      | Inr g' \<Rightarrow> m gid \<noteq> None \<and> g_ID g' = gid \<and> m' = m(gid \<mapsto> g') \<and>
          Normalize g = Inr (g'\<lparr>g_ID := g_ID g\<rparr>) \<and> (\<forall>h \<in> ran (m(gid := None)). \<not> same_name uf h g'))"

definition delete_spec ::
    "string \<Rightarrow> (string \<rightharpoonup> Group) \<Rightarrow> store_error option \<Rightarrow> (string \<rightharpoonup> Group) \<Rightarrow> bool" where
  "delete_spec gid m r m' \<longleftrightarrow>
     (case r of
        Some (NotFoundErr x) \<Rightarrow> x = gid \<and> m gid = None \<and> m' = m
      | Some e \<Rightarrow> m' = m
      | None \<Rightarrow> m gid \<noteq> None \<and> m' = m(gid := None))"

lemma groups_Get_ran: "h \<in> ran (groups_Get s) \<Longrightarrow> h \<in> set (gs_items s)"
  using glookup.get_SomeD [of s] by (auto simp: ran_def groups_List_def)

lemma groups_Get_ran_other: "h \<in> ran ((groups_Get s)(gid := None)) \<Longrightarrow> h \<in> set (gs_items s) \<and> g_ID h \<noteq> gid"
  using glookup.get_SomeD [of s] by (auto simp: ran_def groups_List_def split: if_splits)

lemma groups_Create_refines:
  assumes "groups_inv uf s" and "fresh_tmp io (gs_path s) fs"
    and "groups_Create uf io rnd g s fs = Some (r, s', fs')"
  shows "create_spec uf g (groups_Get s) r (groups_Get s')"
proof (cases r)
  case (Inl e)
  with assms show ?thesis by (auto simp: create_spec_def dest: groups_Create_error)
next
  case (Inr g')
  with assms(3) have ret: "groups_Create uf io rnd g s fs = Some (Inr g', s', fs')" by simp
  from groups_Create_ok [OF ret assms(2)] obtain norm gid where
    n: "Normalize g = Inr norm" "\<not> nameTakenLocked uf s (g_Name norm) []" "g' = norm\<lparr>g_ID := gid\<rparr>" by metis
  moreover have "\<forall>h \<in> ran (groups_Get s). g_ID h \<noteq> []"
    using assms(1) by (auto simp: groups_inv_def store_inv_def dest!: groups_Get_ran)
  ultimately show ?thesis
    using groups_Create_map [OF assms(1,2) ret] Normalize_normal [OF n(1)] Inr
    by (auto simp: create_spec_def nameTakenLocked_def same_name_def dest: groups_Get_ran)
qed

lemma groups_Update_refines:
  assumes "groups_inv uf s" and "fresh_tmp io (gs_path s) fs" and "groups_Update uf io gid g s fs = (r, s', fs')"
  shows "update_spec uf gid g (groups_Get s) r (groups_Get s')"
proof (cases r)
  case (Inl e)
  with assms show ?thesis by (auto simp: update_spec_def dest: groups_Update_error)
next
  case (Inr g')
  with assms(3) have ret: "groups_Update uf io gid g s fs = (Inr g', s', fs')" by simp
  from groups_Update_ok [OF ret assms(2)] obtain norm where
    n: "Normalize g = Inr norm" "\<not> nameTakenLocked uf s (g_Name norm) gid" "g' = norm\<lparr>g_ID := gid\<rparr>" by metis
  then show ?thesis
    using groups_Update_map [OF assms(1,2) ret] Normalize_normal [OF n(1)] Inr
    by (auto simp: update_spec_def nameTakenLocked_def same_name_def dest: groups_Get_ran_other)
qed

lemma groups_Delete_refines:
  assumes "groups_inv uf s" and "fresh_tmp io (gs_path s) fs" and "groups_Delete io gid s fs = (r, s', fs')"
  shows "delete_spec gid (groups_Get s) r (groups_Get s')"
proof (cases r)
  case None
  with assms show ?thesis using groups_Delete_map [OF assms(1,2)] by (simp add: delete_spec_def)
next
  case (Some e)
  with assms have "s' = s" by (auto dest: groups_Delete_error)
  moreover have "e = NotFoundErr x \<Longrightarrow> x = gid \<and> groups_Get s gid = None" for x
    using assms(3) Some
    by (auto simp: groups_Delete_def groups_Get_def Let_def split: option.splits)
  ultimately show ?thesis using Some by (auto simp: delete_spec_def split: store_error.splits)
qed

text \<open>
  C20 (refinement). The detailed operations, on a slice that is searched, saved and rolled back,
  implement the contract over a map from identifiers to groups, in any reachable state and under any
  I/O fault.
\<close>

theorem groups_refine_map:
  assumes "groups_reachable uf path s fs" and "fresh_tmp io path fs"
  shows "(\<forall>rnd g r s' fs'. groups_Create uf io rnd g s fs = Some (r, s', fs') \<longrightarrow>
            create_spec uf g (groups_Get s) r (groups_Get s')) \<and>
         (\<forall>gid g r s' fs'. groups_Update uf io gid g s fs = (r, s', fs') \<longrightarrow>
            update_spec uf gid g (groups_Get s) r (groups_Get s')) \<and>
         (\<forall>gid r s' fs'. groups_Delete io gid s fs = (r, s', fs') \<longrightarrow>
            delete_spec gid (groups_Get s) r (groups_Get s'))"
  using groups_reachable_ok [OF assms(1)] assms(2)
  by (auto dest!: groups_ok_inv intro: groups_Create_refines groups_Update_refines groups_Delete_refines)

theorem groups_refine_map_witness:
  "\<exists>s fs. groups_reachable ascii_fold ''g'' s fs \<and> groups_Get s ''0102030405060708'' \<noteq> None \<and>
     delete_spec ''0102030405060708'' (groups_Get s)
       (fst (groups_Delete (io_ok ''t'') ''0102030405060708'' s fs))
       (groups_Get (fst (snd (groups_Delete (io_ok ''t'') ''0102030405060708'' s fs))))"
proof -
  obtain s fs where r: "groups_reachable ascii_fold ''g'' s fs" and i: "map g_ID (gs_items s) = [''0102030405060708'']"
    and t: "fs ''t'' = None"
    using example_reachable by (elim exE conjE)
  have "groups_Get s ''0102030405060708'' \<noteq> None"
    using i glookup.get_None_iff [of s "''0102030405060708''"]
    by (auto simp: groups_List_def simp flip: set_map)
  moreover have "fresh_tmp (io_ok ''t'') ''g'' fs" using t by (simp add: fresh_tmp_def io_ok_def)
  moreover obtain e s' fs' where d: "groups_Delete (io_ok ''t'') ''0102030405060708'' s fs = (e, s', fs')"
    by (metis prod_cases3)
  ultimately show ?thesis
    using r groups_refine_map [OF r, of "io_ok ''t''"] by (intro exI [of _ s] exI [of _ fs] conjI) auto
qed

text \<open>
  \<open>Create\<close> returns as soon as the random source fails once or yields one unused
  identifier.
\<close>

theorem groups_Create_terminates:
  assumes "read_settles (map g_ID (gs_items s)) (rnd k)"
  shows "\<exists>r s' fs'. groups_Create uf io rnd g s fs = Some (r, s', fs')"
  using freshIDLocked_terminates [of "map g_ID (gs_items s)" rnd 0 k] assms
  by (auto simp: groups_Create_def Let_def split: sum.splits option.splits)

theorem groups_Create_terminates_witness:
  "\<exists>r s' fs'. groups_Create ascii_fold (io_ok ''t'') (\<lambda>i. if i < 3 then Inr [0] else Inr [1]) example_group
     \<lparr>gs_path = ''g'', gs_items = [example_group\<lparr>g_ID := ''00''\<rparr>]\<rparr> Map.empty = Some (r, s', fs')"
proof (rule groups_Create_terminates [where k = 3])
  show "read_settles (map g_ID (gs_items \<lparr>gs_path = ''g'', gs_items = [example_group\<lparr>g_ID := ''00''\<rparr>]\<rparr>))
      (if (3 :: nat) < 3 then Inr [0] else Inr [1])"
    by code_simp
qed

end
