(* ===== verification/Guest_Store.thy ===== *)
theory Guest_Store
  imports Keyed_Stores Store_Types
begin

section \<open>Package guests: the persisted guest store\<close>

text \<open>
  \<^verbatim>\<open>internal/guests/guests.go\<close>. The state is the store (path and slice of private guest records, which
  carry the password hash) together with the file system; the conventions are those of the group
  store. bcrypt is not code of this repository, so it is a pair of parameters: \<open>gen\<close>, the outcome of
  hashing a password in one call (the salt is drawn inside), and \<open>cmp\<close>, the comparison of a hash with
  a password. \<open>Authenticate\<close> also returns the hashes it compared, in order, so that its timing parity
  can be stated. The text of an I/O error is abbreviated (no package prefix, no path).
\<close>

abbreviation minPasswordLen :: nat where "minPasswordLen \<equiv> 8"
abbreviation maxPasswordLen :: nat where "maxPasswordLen \<equiv> 72"

record guest =
  gst_id :: string
  gst_label :: string
  gst_zoneID :: string
  gst_passwordHash :: string
  gst_disabled :: bool
  gst_createdAt :: time

record GuestsStore =
  gt_path :: string
  gt_items :: "guest list"

definition public :: "guest \<Rightarrow> Guest" where
  "public g = \<lparr>gu_ID = gst_id g, gu_Label = gst_label g, gu_ZoneID = gst_zoneID g,
     gu_Disabled = gst_disabled g, gu_CreatedAt = gst_createdAt g\<rparr>"

subsection \<open>The on-disk shape\<close>

record persistedGuest =
  pgu_ID :: string
  pgu_Label :: string
  pgu_ZoneID :: string
  pgu_PasswordHash :: string
  pgu_Disabled :: bool
  pgu_CreatedAt :: time

definition guests_toPersisted :: "guest \<Rightarrow> persistedGuest" where
  "guests_toPersisted g = \<lparr>pgu_ID = gst_id g, pgu_Label = gst_label g, pgu_ZoneID = gst_zoneID g,
     pgu_PasswordHash = gst_passwordHash g, pgu_Disabled = gst_disabled g, pgu_CreatedAt = gst_createdAt g\<rparr>"

definition guests_fromPersisted :: "persistedGuest \<Rightarrow> guest" where
  "guests_fromPersisted p = \<lparr>gst_id = pgu_ID p, gst_label = pgu_Label p, gst_zoneID = pgu_ZoneID p,
     gst_passwordHash = pgu_PasswordHash p, gst_disabled = pgu_Disabled p, gst_createdAt = pgu_CreatedAt p\<rparr>"

definition enc_persistedGuest :: "persistedGuest \<Rightarrow> json" where
  "enc_persistedGuest p = JObj
     [(''id'', JStr (json_string (pgu_ID p))), (''label'', JStr (json_string (pgu_Label p))),
      (''zoneId'', JStr (json_string (pgu_ZoneID p))),
      (''passwordHash'', JStr (json_string (pgu_PasswordHash p))),
      (''disabled'', JBool (pgu_Disabled p)), (''createdAt'', JTime (pgu_CreatedAt p))]"

definition persistedGuest_fields :: "string list" where
  "persistedGuest_fields = [''id'', ''label'', ''zoneId'', ''passwordHash'', ''disabled'', ''createdAt'']"

definition upd_persistedGuest ::
    "(nat \<Rightarrow> nat) \<Rightarrow> string \<Rightarrow> json \<Rightarrow> persistedGuest \<Rightarrow> persistedGuest option" where
  "upd_persistedGuest uf k v p =
     (case json_key uf persistedGuest_fields k of
        None \<Rightarrow> Some p
      | Some f \<Rightarrow>
          if f = ''id'' then map_option (\<lambda>x. p\<lparr>pgu_ID := x\<rparr>) (dec_string v (pgu_ID p))
          else if f = ''label'' then map_option (\<lambda>x. p\<lparr>pgu_Label := x\<rparr>) (dec_string v (pgu_Label p))
          else if f = ''zoneId'' then map_option (\<lambda>x. p\<lparr>pgu_ZoneID := x\<rparr>) (dec_string v (pgu_ZoneID p))
          else if f = ''passwordHash'' then
            map_option (\<lambda>x. p\<lparr>pgu_PasswordHash := x\<rparr>) (dec_string v (pgu_PasswordHash p))
          else if f = ''disabled'' then map_option (\<lambda>x. p\<lparr>pgu_Disabled := x\<rparr>) (dec_bool v (pgu_Disabled p))
          else map_option (\<lambda>x. p\<lparr>pgu_CreatedAt := x\<rparr>) (dec_time v (pgu_CreatedAt p)))"

definition zero_persistedGuest :: persistedGuest where
  "zero_persistedGuest = \<lparr>pgu_ID = [], pgu_Label = [], pgu_ZoneID = [], pgu_PasswordHash = [],
     pgu_Disabled = False, pgu_CreatedAt = zero_time\<rparr>"

definition guests_enc :: "guest list \<Rightarrow> json" where
  "guests_enc items = JArr (map (enc_persistedGuest \<circ> guests_toPersisted) items)"

definition guests_dec :: "(nat \<Rightarrow> nat) \<Rightarrow> json \<Rightarrow> guest list option" where
  "guests_dec uf doc =
     map_option (map guests_fromPersisted)
       (dec_array (dec_object (upd_persistedGuest uf) zero_persistedGuest) doc)"

subsection \<open>Loading and reading\<close>

definition guests_load :: "(nat \<Rightarrow> nat) \<Rightarrow> string option \<Rightarrow> files \<Rightarrow> string \<Rightarrow> store_error + guest list" where
  "guests_load uf fault fs path =
     (case ReadFile fault fs path of
        NotExist \<Rightarrow> Inr []
      | ReadError e \<Rightarrow> Inl (PlainErr (''guests: reading: '' @ e))
      | ReadOK None \<Rightarrow> Inl (PlainErr ''guests: corrupt guests file'')
      | ReadOK (Some doc) \<Rightarrow>
          (case guests_dec uf doc of
             None \<Rightarrow> Inl (PlainErr ''guests: corrupt guests file'')
           | Some items \<Rightarrow> Inr items))"

definition guests_New :: "(nat \<Rightarrow> nat) \<Rightarrow> string option \<Rightarrow> files \<Rightarrow> string \<Rightarrow> store_error + GuestsStore" where
  "guests_New uf fault fs path =
     map_sum id (\<lambda>items. \<lparr>gt_path = path, gt_items = items\<rparr>) (guests_load uf fault fs path)"

definition guests_List :: "GuestsStore \<Rightarrow> Guest list" where
  "guests_List s = map public (gt_items s)"

definition guests_indexOfLocked :: "GuestsStore \<Rightarrow> string \<Rightarrow> nat option" where
  "guests_indexOfLocked s gid = index_of (\<lambda>g. gst_id g = gid) (gt_items s)"

definition guests_Get :: "GuestsStore \<Rightarrow> string \<Rightarrow> Guest option" where
  "guests_Get s gid = map_option (\<lambda>i. public (gt_items s ! i)) (guests_indexOfLocked s gid)"

definition labelTakenLocked :: "(nat \<Rightarrow> nat) \<Rightarrow> GuestsStore \<Rightarrow> string \<Rightarrow> string \<Rightarrow> bool" where
  "labelTakenLocked uf s label excludeID \<longleftrightarrow>
     (\<exists>g \<in> set (gt_items s). gst_id g \<noteq> excludeID \<and> EqualFold uf (gst_label g) label)"

definition Authenticate ::
    "(nat \<Rightarrow> nat) \<Rightarrow> (string \<Rightarrow> string \<Rightarrow> bool) \<Rightarrow> string \<Rightarrow> GuestsStore \<Rightarrow> string \<Rightarrow> string \<Rightarrow>
     Guest option \<times> string list" where
  "Authenticate uf cmp dummyHash s label0 pw =
     (let label = TrimSpace label0
      in case List.find (\<lambda>g. EqualFold uf (gst_label g) label) (gt_items s) of
           None \<Rightarrow> (None, [dummyHash])
         | Some rec \<Rightarrow>
             if \<not> cmp (gst_passwordHash rec) pw then (None, [gst_passwordHash rec])
             else if gst_disabled rec then (None, [gst_passwordHash rec])
             else (Some (public rec), [gst_passwordHash rec]))"

subsection \<open>Mutations\<close>

definition guests_persistLocked :: "io \<Rightarrow> GuestsStore \<Rightarrow> files \<Rightarrow> string option \<times> files list" where
  "guests_persistLocked io s fs = atomic_save io (gt_path s) (guests_enc (gt_items s)) fs"

definition guests_Create ::
    "(nat \<Rightarrow> nat) \<Rightarrow> (string \<Rightarrow> string + string) \<Rightarrow> io \<Rightarrow> random_source \<Rightarrow> time \<Rightarrow> string \<Rightarrow> string \<Rightarrow> string \<Rightarrow>
     GuestsStore \<Rightarrow> files \<Rightarrow> ((store_error + Guest) \<times> GuestsStore \<times> files) option" where
  "guests_Create uf gen io rnd now label0 zoneID0 pw s fs =
     (let label = TrimSpace label0; zoneID = TrimSpace zoneID0
      in if label = [] then Some (Inl (ValidationErr EmptyLabel), s, fs)
         else if zoneID = [] then Some (Inl (ValidationErr EmptyZoneID), s, fs)
         else if length pw < minPasswordLen then Some (Inl (ValidationErr PasswordTooShort), s, fs)
         else if length pw > maxPasswordLen then Some (Inl (ValidationErr PasswordTooLong), s, fs)
         else case gen pw of
           Inl e \<Rightarrow> Some (Inl (PlainErr (''guests: hashing password: '' @ e)), s, fs)
         | Inr hash \<Rightarrow>
             if labelTakenLocked uf s label [] then Some (Inl (ValidationErr (LabelTaken label)), s, fs)
             else (case freshIDLocked (map gst_id (gt_items s)) rnd 0 of
               None \<Rightarrow> None
             | Some (Inl e) \<Rightarrow> Some (Inl e, s, fs)
             | Some (Inr gid) \<Rightarrow>
                 (let g = \<lparr>gst_id = gid, gst_label = label, gst_zoneID = zoneID, gst_passwordHash = hash,
                           gst_disabled = False, gst_createdAt = now\<rparr>;
                      s' = s\<lparr>gt_items := gt_items s @ [g]\<rparr>;
                      p = guests_persistLocked io s' fs
                  in case fst p of
                       Some e \<Rightarrow> Some (Inl (PlainErr e), s'\<lparr>gt_items := butlast (gt_items s')\<rparr>, save_final p)
                     | None \<Rightarrow> Some (Inr (public g), s', save_final p))))"

definition SetDisabled ::
    "io \<Rightarrow> string \<Rightarrow> bool \<Rightarrow> GuestsStore \<Rightarrow> files \<Rightarrow> (store_error + Guest) \<times> GuestsStore \<times> files" where
  "SetDisabled io gid disabled s fs =
     (case guests_indexOfLocked s gid of
        None \<Rightarrow> (Inl (NotFoundErr gid), s, fs)
      | Some idx \<Rightarrow>
          (let old = gst_disabled (gt_items s ! idx);
               s' = s\<lparr>gt_items := (gt_items s)[idx := (gt_items s ! idx)\<lparr>gst_disabled := disabled\<rparr>]\<rparr>;
               p = guests_persistLocked io s' fs
           in case fst p of
                Some e \<Rightarrow>
                  (Inl (PlainErr e),
                   s'\<lparr>gt_items := (gt_items s')[idx := (gt_items s' ! idx)\<lparr>gst_disabled := old\<rparr>]\<rparr>,
                   save_final p)
              | None \<Rightarrow> (Inr (public (gt_items s' ! idx)), s', save_final p)))"

definition guests_Delete ::
    "io \<Rightarrow> string \<Rightarrow> GuestsStore \<Rightarrow> files \<Rightarrow> store_error option \<times> GuestsStore \<times> files" where
  "guests_Delete io gid s fs =
     (case guests_indexOfLocked s gid of
        None \<Rightarrow> (Some (NotFoundErr gid), s, fs)
      | Some idx \<Rightarrow>
          (let old = gt_items s;
               s' = s\<lparr>gt_items := remove_at idx (gt_items s)\<rparr>;
               p = guests_persistLocked io s' fs
           in case fst p of
                Some e \<Rightarrow> (Some (PlainErr e), s'\<lparr>gt_items := old\<rparr>, save_final p)
              | None \<Rightarrow> (None, s', save_final p)))"

subsection \<open>The invariant and its interpretations\<close>

definition same_label :: "(nat \<Rightarrow> nat) \<Rightarrow> guest \<Rightarrow> guest \<Rightarrow> bool" where
  "same_label uf a b \<longleftrightarrow> EqualFold uf (gst_label a) (gst_label b)"

definition utf8_guest :: "guest \<Rightarrow> bool" where
  "utf8_guest g \<longleftrightarrow> utf8 (gst_id g) \<and> utf8 (gst_label g) \<and> utf8 (gst_zoneID g) \<and> utf8 (gst_passwordHash g)"

definition good_guest :: "guest \<Rightarrow> bool" where
  "good_guest g \<longleftrightarrow> gst_label g \<noteq> [] \<and> TrimSpace (gst_label g) = gst_label g \<and>
     gst_zoneID g \<noteq> [] \<and> TrimSpace (gst_zoneID g) = gst_zoneID g \<and> utf8_guest g"

definition guests_inv :: "(nat \<Rightarrow> nat) \<Rightarrow> GuestsStore \<Rightarrow> bool" where
  "guests_inv uf s \<longleftrightarrow> store_inv gst_id (same_label uf) good_guest (gt_items s)"

lemma dec_enc_persistedGuest:
  assumes "utf8_guest g"
  shows "dec_object (upd_persistedGuest uf) zero_persistedGuest (enc_persistedGuest (guests_toPersisted g)) =
    Some (guests_toPersisted g)"
  using assms
  by (simp add: enc_persistedGuest_def guests_toPersisted_def upd_persistedGuest_def zero_persistedGuest_def
      json_key_def persistedGuest_fields_def utf8_guest_def json_string_utf8)

lemma guests_fromPersisted_toPersisted [simp]: "guests_fromPersisted (guests_toPersisted g) = g"
  by (simp add: guests_fromPersisted_def guests_toPersisted_def)

interpretation ucodec: persisted_store guests_enc "guests_dec uf" utf8_guest for uf
proof
  fix items assume c: "\<forall>r \<in> set items. utf8_guest r"
  then have "seq_opt (map (dec_object (upd_persistedGuest uf) zero_persistedGuest)
      (map (enc_persistedGuest \<circ> guests_toPersisted) items)) = Some (map guests_toPersisted items)"
    unfolding map_map by (intro seq_opt_map_SomeI) (simp add: dec_enc_persistedGuest)
  then show "guests_dec uf (guests_enc items) = Some items"
    by (simp add: guests_dec_def guests_enc_def comp_def)
qed

interpretation uslice: labelled_store gst_id "same_label uf" good_guest for uf
  by unfold_locales (simp add: same_label_def EqualFold_sym)

interpretation udurable: durable_store gst_id "same_label uf" good_guest guests_enc "guests_dec uf" utf8_guest for uf
  by unfold_locales (simp add: good_guest_def)

lemma find_map_public: "List.find (\<lambda>r. gu_ID r = k) (map public xs) = map_option public (List.find (\<lambda>g. gst_id g = k) xs)"
  by (induction xs) (auto simp: public_def)

interpretation ulookup: keyed_lookup guests_List guests_Get gu_ID
  by (unfold_locales, unfold guests_Get_def guests_List_def guests_indexOfLocked_def find_map_public)
    (simp add: find_eq_index_of option.map_comp comp_def)

subsection \<open>Every operation commits or rolls back\<close>

lemma guests_Create_error:
  assumes "guests_Create uf gen io rnd now label zone pw s fs = Some (Inl e, s', fs')" and "fresh_tmp io (gt_path s) fs"
  shows "s' = s \<and> fs' (gt_path s) = fs (gt_path s)"
  using assms
  by (auto simp: guests_Create_def Let_def guests_persistLocked_def
      dest: atomic_save_error_target split: sum.splits if_splits option.splits)

lemma guests_Create_ok:
  assumes "guests_Create uf gen io rnd now label zone pw s fs = Some (Inr g', s', fs')" and "fresh_tmp io (gt_path s) fs"
  obtains rec where "gen pw = Inr (gst_passwordHash rec)" "\<not> labelTakenLocked uf s (TrimSpace label) []"
    "freshIDLocked (map gst_id (gt_items s)) rnd 0 = Some (Inr (gst_id rec))"
    "gst_label rec = TrimSpace label" "gst_label rec \<noteq> []" "gst_zoneID rec = TrimSpace zone" "gst_zoneID rec \<noteq> []"
    "\<not> gst_disabled rec" "minPasswordLen \<le> length pw" "length pw \<le> maxPasswordLen" "g' = public rec"
    "s' = s\<lparr>gt_items := gt_items s @ [rec]\<rparr>" "fs' = fs(gt_path s \<mapsto> Some (guests_enc (gt_items s')))"
proof -
  from assms obtain hash gid where h: "gen pw = Inr hash" "\<not> labelTakenLocked uf s (TrimSpace label) []"
      "freshIDLocked (map gst_id (gt_items s)) rnd 0 = Some (Inr gid)" "TrimSpace label \<noteq> []" "TrimSpace zone \<noteq> []"
      "minPasswordLen \<le> length pw" "length pw \<le> maxPasswordLen"
    and r: "g' = public \<lparr>gst_id = gid, gst_label = TrimSpace label, gst_zoneID = TrimSpace zone,
        gst_passwordHash = hash, gst_disabled = False, gst_createdAt = now\<rparr>"
      "s' = s\<lparr>gt_items := gt_items s @ [\<lparr>gst_id = gid, gst_label = TrimSpace label, gst_zoneID = TrimSpace zone,
        gst_passwordHash = hash, gst_disabled = False, gst_createdAt = now\<rparr>]\<rparr>"
      "fs' = fs(gt_path s \<mapsto> Some (guests_enc (gt_items s')))"
    by (auto simp: guests_Create_def Let_def guests_persistLocked_def atomic_save_ok_target not_less
        split: sum.splits if_splits option.splits)
  show thesis by (rule that) (use h r in simp_all)
qed

lemma guests_indexOfLocked_SomeD:
  "guests_indexOfLocked s gid = Some i \<Longrightarrow> i < length (gt_items s) \<and> gst_id (gt_items s ! i) = gid"
  by (auto simp: guests_indexOfLocked_def dest: index_of_SomeD)

lemma SetDisabled_error:
  assumes "SetDisabled io gid d s fs = (Inl e, s', fs')" and "fresh_tmp io (gt_path s) fs"
  shows "s' = s \<and> fs' (gt_path s) = fs (gt_path s)"
  using assms
  by (auto simp: SetDisabled_def Let_def guests_persistLocked_def
      dest: atomic_save_error_target dest!: guests_indexOfLocked_SomeD split: option.splits)

lemma SetDisabled_ok:
  assumes "SetDisabled io gid d s fs = (Inr g', s', fs')" and "fresh_tmp io (gt_path s) fs"
  obtains idx where "guests_indexOfLocked s gid = Some idx" "g' = public ((gt_items s ! idx)\<lparr>gst_disabled := d\<rparr>)"
    "s' = s\<lparr>gt_items := (gt_items s)[idx := (gt_items s ! idx)\<lparr>gst_disabled := d\<rparr>]\<rparr>"
    "fs' = fs(gt_path s \<mapsto> Some (guests_enc (gt_items s')))"
  using assms
  by (auto simp: SetDisabled_def Let_def guests_persistLocked_def atomic_save_ok_target
      dest: guests_indexOfLocked_SomeD split: option.splits)

lemma guests_Delete_error:
  assumes "guests_Delete io gid s fs = (Some e, s', fs')" and "fresh_tmp io (gt_path s) fs"
  shows "s' = s \<and> fs' (gt_path s) = fs (gt_path s)"
  using assms
  by (auto simp: guests_Delete_def Let_def guests_persistLocked_def
      dest: atomic_save_error_target split: option.splits)

lemma guests_Delete_ok:
  assumes "guests_Delete io gid s fs = (None, s', fs')" and "fresh_tmp io (gt_path s) fs"
  obtains idx where "guests_indexOfLocked s gid = Some idx"
    "s' = s\<lparr>gt_items := remove_at idx (gt_items s)\<rparr>" "fs' = fs(gt_path s \<mapsto> Some (guests_enc (gt_items s')))"
  using assms
  by (auto simp: guests_Delete_def Let_def guests_persistLocked_def atomic_save_ok_target
      split: option.splits)

subsection \<open>Preservation of the invariant\<close>

lemma guests_Create_inv [inv_intros]:
  assumes "guests_inv uf s" and "utf8 label" and "utf8 zone" and "\<And>h. gen pw = Inr h \<Longrightarrow> utf8 h"
    and "eight_bytes rnd" and "fresh_tmp io (gt_path s) fs"
    and "guests_Create uf gen io rnd now label zone pw s fs = Some (Inr g', s', fs')"
  shows "guests_inv uf s'"
proof -
  from guests_Create_ok [OF assms(7,6)] obtain rec
    where r: "gen pw = Inr (gst_passwordHash rec)" "\<not> labelTakenLocked uf s (TrimSpace label) []"
      "freshIDLocked (map gst_id (gt_items s)) rnd 0 = Some (Inr (gst_id rec))"
      "gst_label rec = TrimSpace label" "gst_label rec \<noteq> []" "gst_zoneID rec = TrimSpace zone" "gst_zoneID rec \<noteq> []"
      "s' = s\<lparr>gt_items := gt_items s @ [rec]\<rparr>" by metis
  note gid = freshIDLocked_props [OF assms(5) r(3)]
  have "good_guest rec"
    using r gid assms(2-4) by (auto simp: good_guest_def utf8_guest_def TrimSpace_idem utf8_TrimSpace)
  moreover have "\<forall>x \<in> set (gt_items s). \<not> same_label uf x rec"
    using r assms(1) by (auto simp: labelTakenLocked_def same_label_def guests_inv_def store_inv_def)
  ultimately show ?thesis
    using assms(1) gid r unfolding guests_inv_def by (auto intro!: uslice.inv_append)
qed

lemma SetDisabled_inv [inv_intros]:
  assumes inv: "guests_inv uf s" and "fresh_tmp io (gt_path s) fs" and "SetDisabled io gid d s fs = (Inr g', s', fs')"
  shows "guests_inv uf s'"
proof -
  from SetDisabled_ok [OF assms(3,2)] obtain idx where i: "guests_indexOfLocked s gid = Some idx"
    and s': "s' = s\<lparr>gt_items := (gt_items s)[idx := (gt_items s ! idx)\<lparr>gst_disabled := d\<rparr>]\<rparr>" by metis
  note idx = guests_indexOfLocked_SomeD [OF i]
  let ?r = "gt_items s ! idx"
  from inv idx have "good_guest ?r" by (auto simp: guests_inv_def store_inv_def)
  moreover have "\<forall>x \<in> set (gt_items s). gst_id x \<noteq> gst_id ?r \<longrightarrow> \<not> same_label uf x ?r"
  proof (intro ballI impI)
    fix x assume x: "x \<in> set (gt_items s)" "gst_id x \<noteq> gst_id ?r"
    then obtain j where "j < length (gt_items s)" "x = gt_items s ! j" by (metis in_set_conv_nth)
    with x inv idx show "\<not> same_label uf x ?r"
      by (auto simp: guests_inv_def store_inv_def dest: distinct_byD)
  qed
  ultimately show ?thesis
    using inv idx unfolding guests_inv_def s'
    by (auto simp: good_guest_def utf8_guest_def same_label_def intro!: uslice.inv_update)
qed

lemma guests_Delete_inv [inv_intros]:
  assumes "guests_inv uf s" and "fresh_tmp io (gt_path s) fs" and "guests_Delete io gid s fs = (None, s', fs')"
  shows "guests_inv uf s'"
proof -
  from guests_Delete_ok [OF assms(3,2)] obtain idx
    where i: "guests_indexOfLocked s gid = Some idx" and s': "s' = s\<lparr>gt_items := remove_at idx (gt_items s)\<rparr>"
    by metis
  then show ?thesis
    using assms(1) guests_indexOfLocked_SomeD [OF i] by (auto simp: guests_inv_def intro: uslice.inv_remove)
qed

subsection \<open>Histories, crashes and restarts\<close>

text \<open>One mutation of the store with its environment.\<close>

datatype guest_op =
    GuestCreate "string \<Rightarrow> string + string" io random_source time string string string
  | GuestDisable io string bool
  | GuestDelete io string

fun guests_step :: "(nat \<Rightarrow> nat) \<Rightarrow> guest_op \<Rightarrow> GuestsStore \<times> files \<Rightarrow> (GuestsStore \<times> files) option" where
  "guests_step uf (GuestCreate gen io rnd now label zone pw) (s, fs) = map_option snd (guests_Create uf gen io rnd now label zone pw s fs)"
| "guests_step uf (GuestDisable io gid d) (s, fs) = Some (snd (SetDisabled io gid d s fs))"
| "guests_step uf (GuestDelete io gid) (s, fs) = Some (snd (guests_Delete io gid s fs))"

fun gop_io :: "guest_op \<Rightarrow> io" where
  "gop_io (GuestCreate gen io rnd now label zone pw) = io"
| "gop_io (GuestDisable io gid d) = io"
| "gop_io (GuestDelete io gid) = io"

fun gop_input_ok :: "guest_op \<Rightarrow> bool" where
  "gop_input_ok (GuestCreate gen io rnd now label zone pw) \<longleftrightarrow>
     utf8 label \<and> utf8 zone \<and> (\<forall>h. gen pw = Inr h \<longrightarrow> utf8 h) \<and> eight_bytes rnd"
| "gop_input_ok _ \<longleftrightarrow> True"

text \<open>
  The store an operation hands to \<^verbatim>\<open>persistLocked\<close>, if it gets that far; the two lemmas tie it to the operations.
\<close>

fun guests_saving :: "(nat \<Rightarrow> nat) \<Rightarrow> guest_op \<Rightarrow> GuestsStore \<Rightarrow> GuestsStore option" where
  "guests_saving uf (GuestCreate gen io rnd now label zone pw) s =
     (if TrimSpace label = [] \<or> TrimSpace zone = [] \<or> length pw < minPasswordLen \<or> length pw > maxPasswordLen then None
      else case gen pw of
        Inl e \<Rightarrow> None
      | Inr hash \<Rightarrow>
          if labelTakenLocked uf s (TrimSpace label) [] then None
          else (case freshIDLocked (map gst_id (gt_items s)) rnd 0 of
                  Some (Inr gid) \<Rightarrow> Some (s\<lparr>gt_items := gt_items s @ [\<lparr>gst_id = gid, gst_label = TrimSpace label,
                    gst_zoneID = TrimSpace zone, gst_passwordHash = hash, gst_disabled = False, gst_createdAt = now\<rparr>]\<rparr>)
                | _ \<Rightarrow> None))"
| "guests_saving uf (GuestDisable io gid d) s =
     map_option (\<lambda>idx. s\<lparr>gt_items := (gt_items s)[idx := (gt_items s ! idx)\<lparr>gst_disabled := d\<rparr>]\<rparr>) (guests_indexOfLocked s gid)"
| "guests_saving uf (GuestDelete io gid) s =
     map_option (\<lambda>idx. s\<lparr>gt_items := remove_at idx (gt_items s)\<rparr>) (guests_indexOfLocked s gid)"

lemma guests_step_none:
  assumes "guests_saving uf opn s = None" and "guests_step uf opn (s, fs) = Some (s', fs')"
  shows "s' = s \<and> fs' = fs"
  using assms
  by (cases opn) (auto simp: guests_Create_def SetDisabled_def guests_Delete_def Let_def split: sum.splits if_splits option.splits)

lemma guests_step_saved:
  assumes "guests_saving uf opn s = Some s1"
  shows "let p = guests_persistLocked (gop_io opn) s1 fs
    in guests_step uf opn (s, fs) = Some (if fst p = None then s1 else s, save_final p)"
  using assms
  by (cases opn) (auto simp: guests_Create_def SetDisabled_def guests_Delete_def Let_def guests_indexOfLocked_SomeD
      split: sum.splits if_splits option.splits)

text \<open>
  The life of a deployment, as for the groups: with a process or without, which may stop between two operations or in
  the middle of the save of one. Whether the file can be loaded after that is not part of the rules.
\<close>

inductive guests_life :: "(nat \<Rightarrow> nat) \<Rightarrow> string \<Rightarrow> GuestsStore option \<Rightarrow> files \<Rightarrow> bool" for uf path where
  fresh: "fs path = None \<Longrightarrow> guests_life uf path None fs"
| start: "guests_life uf path None fs \<Longrightarrow> guests_New uf None fs path = Inr s \<Longrightarrow> guests_life uf path (Some s) fs"
| mutate: "guests_life uf path (Some s) fs \<Longrightarrow> fresh_tmp (gop_io opn) path fs \<Longrightarrow> gop_input_ok opn \<Longrightarrow>
    guests_step uf opn (s, fs) = Some (s', fs') \<Longrightarrow> guests_life uf path (Some s') fs'"
| stop: "guests_life uf path (Some s) fs \<Longrightarrow> guests_life uf path None fs"
| crash: "guests_life uf path (Some s) fs \<Longrightarrow> fresh_tmp (gop_io opn) path fs \<Longrightarrow> gop_input_ok opn \<Longrightarrow>
    guests_saving uf opn s = Some s1 \<Longrightarrow> fs' \<in> set (snd (guests_persistLocked (gop_io opn) s1 fs)) \<Longrightarrow>
    guests_life uf path None fs'"

abbreviation guests_reachable :: "(nat \<Rightarrow> nat) \<Rightarrow> string \<Rightarrow> GuestsStore \<Rightarrow> files \<Rightarrow> bool" where
  "guests_reachable uf path s fs \<equiv> guests_life uf path (Some s) fs"

lemma guests_reachable_start: "fs path = None \<Longrightarrow> guests_New uf None fs path = Inr s \<Longrightarrow> guests_reachable uf path s fs"
  by (rule guests_life.start [OF guests_life.fresh])

lemma guests_reachable_create:
  assumes "guests_reachable uf path s fs" and "fresh_tmp io path fs" and "utf8 label" and "utf8 zone"
    and "\<And>h. gen pw = Inr h \<Longrightarrow> utf8 h" and "eight_bytes rnd"
    and "guests_Create uf gen io rnd now label zone pw s fs = Some (r, s', fs')"
  shows "guests_reachable uf path s' fs'"
  by (rule guests_life.mutate [OF assms(1), of "GuestCreate gen io rnd now label zone pw"]) (use assms in auto)

definition guests_ok :: "(nat \<Rightarrow> nat) \<Rightarrow> string \<Rightarrow> GuestsStore \<Rightarrow> files \<Rightarrow> bool" where
  "guests_ok uf path s fs \<longleftrightarrow>
     gt_path s = path \<and> store_ok gst_id (same_label uf) good_guest (guests_dec uf) path (gt_items s) fs"

lemma guests_ok_inv: "guests_ok uf path s fs \<Longrightarrow> gt_path s = path \<and> guests_inv uf s"
  by (simp add: guests_ok_def guests_inv_def store_ok_def)

lemma guests_ok_unchanged:
  "guests_ok uf path s fs \<Longrightarrow> s' = s \<and> fs' (gt_path s) = fs (gt_path s) \<Longrightarrow> guests_ok uf path s' fs'"
  by (auto simp: guests_ok_def intro: udurable.ok_unchanged)

lemma guests_ok_saved:
  "guests_inv uf s' \<Longrightarrow> gt_path s' = path \<Longrightarrow> fs' = fs(path \<mapsto> Some (guests_enc (gt_items s'))) \<Longrightarrow>
   guests_ok uf path s' fs'"
  by (auto simp: guests_ok_def guests_inv_def intro: udurable.ok_saved)

lemma guests_New_on_disk:
  assumes "on_disk (guests_dec uf) fs path items"
  shows "guests_New uf None fs path = Inr \<lparr>gt_path = path, gt_items = items\<rparr>"
  using assms
  by (auto simp: guests_New_def guests_load_def ReadFile_def on_disk_def split: option.splits)

lemma guests_Create_step_ok:
  assumes ok: "guests_ok uf path s fs" and tmp: "fresh_tmp io path fs" and inp: "utf8 label" "utf8 zone"
    and hash: "\<And>h. gen pw = Inr h \<Longrightarrow> utf8 h" and rnd: "eight_bytes rnd"
    and ret: "guests_Create uf gen io rnd now label zone pw s fs = Some (r, s', fs')"
  shows "guests_ok uf path s' fs'"
proof -
  from guests_ok_inv [OF ok] have inv: "guests_inv uf s" and path: "gt_path s = path" by simp_all
  note tmp' = tmp [folded path]
  show ?thesis
  proof (cases r)
    case (Inl e)
    show ?thesis by (rule guests_ok_unchanged [OF ok, of s' fs', OF guests_Create_error [OF ret [unfolded Inl] tmp']])
  next
    case (Inr g')
    note ret' = ret [unfolded Inr]
    have inv': "guests_inv uf s'" by (rule guests_Create_inv [OF inv inp hash rnd tmp' ret'])
    obtain rec where "s' = s\<lparr>gt_items := gt_items s @ [rec]\<rparr>"
        "fs' = fs(gt_path s \<mapsto> Some (guests_enc (gt_items s')))"
      by (rule guests_Create_ok [OF ret' tmp'])
    then show ?thesis using path by (intro guests_ok_saved [OF inv', of path _ fs]) simp_all
  qed
qed

lemma SetDisabled_step_ok:
  assumes ok: "guests_ok uf path s fs" and tmp: "fresh_tmp io path fs"
    and ret: "SetDisabled io gid d s fs = (r, s', fs')"
  shows "guests_ok uf path s' fs'"
proof -
  from guests_ok_inv [OF ok] have inv: "guests_inv uf s" and path: "gt_path s = path" by simp_all
  note tmp' = tmp [folded path]
  show ?thesis
  proof (cases r)
    case (Inl e)
    show ?thesis by (rule guests_ok_unchanged [OF ok, of s' fs', OF SetDisabled_error [OF ret [unfolded Inl] tmp']])
  next
    case (Inr g')
    note ret' = ret [unfolded Inr]
    obtain idx where "s' = s\<lparr>gt_items := (gt_items s)[idx := (gt_items s ! idx)\<lparr>gst_disabled := d\<rparr>]\<rparr>"
        "fs' = fs(gt_path s \<mapsto> Some (guests_enc (gt_items s')))"
      by (rule SetDisabled_ok [OF ret' tmp'])
    then show ?thesis
      using path by (intro guests_ok_saved [OF SetDisabled_inv [OF inv tmp' ret'], of path _ fs]) simp_all
  qed
qed

lemma guests_Delete_step_ok:
  assumes ok: "guests_ok uf path s fs" and tmp: "fresh_tmp io path fs"
    and ret: "guests_Delete io gid s fs = (e, s', fs')"
  shows "guests_ok uf path s' fs'"
proof -
  from guests_ok_inv [OF ok] have inv: "guests_inv uf s" and path: "gt_path s = path" by simp_all
  note tmp' = tmp [folded path]
  show ?thesis
  proof (cases e)
    case (Some x)
    show ?thesis by (rule guests_ok_unchanged [OF ok, of s' fs', OF guests_Delete_error [OF ret [unfolded Some] tmp']])
  next
    case None
    note ret' = ret [unfolded None]
    obtain idx where "s' = s\<lparr>gt_items := remove_at idx (gt_items s)\<rparr>"
        "fs' = fs(gt_path s \<mapsto> Some (guests_enc (gt_items s')))"
      by (rule guests_Delete_ok [OF ret' tmp'])
    then show ?thesis
      using path by (intro guests_ok_saved [OF guests_Delete_inv [OF inv tmp' ret'], of path _ fs]) simp_all
  qed
qed

lemma guests_step_ok:
  assumes "guests_ok uf path s fs" and "fresh_tmp (gop_io opn) path fs" and "gop_input_ok opn"
    and "guests_step uf opn (s, fs) = Some (s', fs')"
  shows "guests_ok uf path s' fs'"
proof (cases opn)
  case (GuestCreate gen io rnd now label zone pw)
  with assms show ?thesis by (auto intro: guests_Create_step_ok)
next
  case (GuestDisable io gid d)
  with assms(4) obtain r where "SetDisabled io gid d s fs = (r, s', fs')" by (cases "SetDisabled io gid d s fs") auto
  with assms GuestDisable show ?thesis by (auto intro: SetDisabled_step_ok)
next
  case (GuestDelete io gid)
  with assms(4) obtain e where "guests_Delete io gid s fs = (e, s', fs')" by (cases "guests_Delete io gid s fs") auto
  with assms GuestDelete show ?thesis by (auto intro: guests_Delete_step_ok)
qed

text \<open>The store an operation saves satisfies the invariant: with a save that succeeds, it is the next store.\<close>

lemma guests_saving_path: "guests_saving uf opn s = Some s1 \<Longrightarrow> gt_path s1 = gt_path s"
  by (cases opn) (auto split: sum.splits if_splits option.splits)

fun gop_with_io :: "io \<Rightarrow> guest_op \<Rightarrow> guest_op" where
  "gop_with_io io' (GuestCreate gen io rnd now label zone pw) = GuestCreate gen io' rnd now label zone pw"
| "gop_with_io io' (GuestDisable io gid d) = GuestDisable io' gid d"
| "gop_with_io io' (GuestDelete io gid) = GuestDelete io' gid"

lemma gop_with_io [simp]:
  "gop_io (gop_with_io io' opn) = io'" "gop_input_ok (gop_with_io io' opn) = gop_input_ok opn"
  "guests_saving uf (gop_with_io io' opn) s = guests_saving uf opn s"
  by (cases opn; simp)+

lemma guests_saving_inv:
  assumes ok: "guests_ok uf path s fs" and "fresh_tmp (gop_io opn) path fs" and "gop_input_ok opn"
    and "guests_saving uf opn s = Some s1"
  shows "guests_inv uf s1"
proof -
  let ?opn = "gop_with_io (io_ok (io_tmp (gop_io opn))) opn"
  have "guests_step uf ?opn (s, fs) = Some (s1, save_final (guests_persistLocked (gop_io ?opn) s1 fs))"
    using guests_step_saved [of uf ?opn s s1 fs] assms(4)
    by (simp add: Let_def guests_persistLocked_def atomic_save_def io_ok_def)
  from guests_step_ok [OF ok _ _ this] assms(2,3) have "guests_ok uf path s1 (save_final (guests_persistLocked (gop_io ?opn) s1 fs))"
    by (simp add: fresh_tmp_def io_ok_def)
  then show ?thesis using guests_ok_inv by blast
qed

text \<open>Wherever its save is interrupted, an operation has happened for the next process or has not.\<close>

lemma guests_crash_atomic:
  assumes ok: "guests_ok uf path s fs" and tmp: "fresh_tmp (gop_io opn) path fs" and inp: "gop_input_ok opn"
    and sv: "guests_saving uf opn s = Some s1" and fs': "fs' \<in> set (snd (guests_persistLocked (gop_io opn) s1 fs))"
  shows "guests_ok uf path s fs' \<or> guests_ok uf path s1 fs'"
proof -
  from guests_ok_inv [OF ok] have path: "gt_path s = path" by simp
  have p1: "gt_path s1 = path" using guests_saving_path [OF sv] path by simp
  have inv1: "guests_inv uf s1" by (rule guests_saving_inv [OF ok tmp inp sv])
  from fs' have "fs' \<in> set (snd (atomic_save (gop_io opn) path (guests_enc (gt_items s1)) fs))"
    by (simp add: guests_persistLocked_def p1)
  from atomic_save_target [OF tmp this] show ?thesis
  proof
    assume "fs' path = fs path"
    then have "guests_ok uf path s fs'" using ok by (auto simp: guests_ok_def intro: udurable.ok_unchanged)
    then show ?thesis ..
  next
    assume "fs' path = Some (Some (guests_enc (gt_items s1)))"
    moreover have "store_ok gst_id (same_label uf) good_guest (guests_dec uf) path (gt_items s1) (fs(path \<mapsto> Some (guests_enc (gt_items s1))))"
      by (rule udurable.ok_saved) (use inv1 in \<open>simp add: guests_inv_def\<close>)
    ultimately have "guests_ok uf path s1 fs'" using p1 by (auto simp: guests_ok_def intro: udurable.ok_unchanged)
    then show ?thesis ..
  qed
qed

lemma guests_ok_New: "guests_ok uf path s fs \<Longrightarrow> guests_New uf None fs path = Inr s"
  using guests_New_on_disk [of uf fs path "gt_items s"] by (simp add: guests_ok_def store_ok_def)

lemma guests_life_ok: "guests_life uf path p fs \<Longrightarrow> \<exists>s. guests_ok uf path s fs \<and> (\<forall>r. p = Some r \<longrightarrow> r = s)"
proof (induction rule: guests_life.induct)
  case (fresh fs)
  then have "guests_ok uf path \<lparr>gt_path = path, gt_items = []\<rparr> fs"
    by (simp add: guests_ok_def store_ok_def on_disk_def uslice.inv_Nil)
  then show ?case by blast
next
  case (start fs s)
  then show ?case using guests_ok_New by fastforce
next
  case (mutate s fs opn s' fs')
  then show ?case by (auto intro: guests_step_ok)
next
  case (stop s fs)
  then show ?case by blast
next
  case (crash s fs opn s1 fs')
  then have "guests_ok uf path s fs" by blast
  from guests_crash_atomic [OF this crash.hyps(2-5)] show ?case by blast
qed

lemma guests_reachable_ok: "guests_reachable uf path s fs \<Longrightarrow> guests_ok uf path s fs"
  using guests_life_ok by blast

subsection \<open>Authentication\<close>

lemma find_unique:
  assumes "x \<in> set xs" "P x" "\<And>y. y \<in> set xs \<Longrightarrow> P y \<Longrightarrow> y = x"
  shows "List.find P xs = Some x"
proof (cases "List.find P xs")
  case None
  with assms(1,2) show ?thesis by (simp add: find_None_iff)
next
  case (Some y)
  with assms(3) [of y] show ?thesis using find_SomeD [OF Some] by simp
qed

lemma find_label:
  assumes "guests_inv uf s" and "g \<in> set (gt_items s)" and "EqualFold uf (gst_label g) l"
  shows "List.find (\<lambda>g. EqualFold uf (gst_label g) l) (gt_items s) = Some g"
proof (rule find_unique)
  fix y assume y: "y \<in> set (gt_items s)" "EqualFold uf (gst_label y) l"
  then have "same_label uf y g"
    using assms(3) by (auto simp: same_label_def EqualFold_def)
  moreover obtain i j where "i < length (gt_items s)" "y = gt_items s ! i" "j < length (gt_items s)" "g = gt_items s ! j"
    using y assms(2) by (metis in_set_conv_nth)
  ultimately show "y = g"
    using assms(1) by (auto simp: guests_inv_def store_inv_def dest: distinct_byD)
qed (use assms in auto)

text \<open>
  Whoever is let in: the one enabled guest with that label (up to case and surrounding space) whose
  stored hash accepts the password.
\<close>

lemma Authenticate_Some_iff:
  assumes "guests_inv uf s"
  shows "fst (Authenticate uf cmp dummyHash s label pw) = Some g \<longleftrightarrow>
    (\<exists>rec \<in> set (gt_items s). EqualFold uf (gst_label rec) (TrimSpace label) \<and>
       cmp (gst_passwordHash rec) pw \<and> \<not> gst_disabled rec \<and> g = public rec)"
  using find_label [OF assms, of _ "TrimSpace label"]
  by (auto simp: Authenticate_def Let_def split: option.splits dest: find_SomeD)

lemma Authenticate_one_compare: "length (snd (Authenticate uf cmp dummyHash s label pw)) = 1"
  by (simp add: Authenticate_def Let_def split: option.splits)

subsection \<open>Properties\<close>

text \<open>A concrete hashing scheme and a concrete run, for the instances below.\<close>

definition plain_gen :: "string \<Rightarrow> string + string" where "plain_gen pw = Inr (CHR ''$'' # pw)"
definition plain_cmp :: "string \<Rightarrow> string \<Rightarrow> bool" where "plain_cmp h pw \<longleftrightarrow> h = CHR ''$'' # pw"

definition guest_create :: "((store_error + Guest) \<times> GuestsStore \<times> files) option" where
  "guest_create = guests_Create ascii_fold plain_gen (io_ok ''t'') (\<lambda>_. Inr [1, 2, 3, 4, 5, 6, 7, 8]) 5
     '' Ann '' ''z1'' ''password'' \<lparr>gt_path = ''u'', gt_items = []\<rparr> Map.empty"

lemma guest_create_runs:
  "map_option (\<lambda>(r, s, fs). gt_items s) guest_create =
     Some [\<lparr>gst_id = ''0102030405060708'', gst_label = ''Ann'', gst_zoneID = ''z1'',
            gst_passwordHash = ''$password'', gst_disabled = False, gst_createdAt = 5\<rparr>]"
  by code_simp

lemma example_guest:
  obtains g s fs where "guest_create = Some (Inr g, s, fs)" "guests_reachable ascii_fold ''u'' s fs"
    "map gst_id (gt_items s) = [''0102030405060708'']" "fs ''t'' = None"
proof -
  obtain r s fs where st: "guest_create = Some (r, s, fs)"
    and items: "map gst_id (gt_items s) = [''0102030405060708'']"
    using guest_create_runs by (auto simp: map_option_eq_Some)
  have tmp: "fresh_tmp (io_ok ''t'') ''u'' Map.empty" by (simp add: fresh_tmp_def io_ok_def)
  have "r \<noteq> Inl e" for e
  proof
    assume "r = Inl e"
    with st tmp have "s = \<lparr>gt_path = ''u'', gt_items = []\<rparr>"
      unfolding guest_create_def by (auto dest: guests_Create_error)
    with items show False by simp
  qed
  then obtain g where g: "r = Inr g" by (cases r) auto
  have "guests_reachable ascii_fold ''u'' \<lparr>gt_path = ''u'', gt_items = []\<rparr> Map.empty"
    by (rule guests_reachable_start) (simp_all add: guests_New_def guests_load_def ReadFile_def)
  then have reach: "guests_reachable ascii_fold ''u'' s fs"
    by (rule guests_reachable_create [OF _ tmp _ _ _ _ st [unfolded guest_create_def]])
      (auto simp: eight_bytes_def plain_gen_def intro!: utf8_ascii)
  have "fs ''t'' = None"
    using st by (auto simp: guest_create_def guests_Create_def Let_def guests_persistLocked_def io_ok_def
        atomic_save_def save_final_def split: sum.splits if_splits option.splits)
  with st g items reach show thesis by (intro that [of g s fs]) simp_all
qed

text \<open>
  C22 (invariant, crash safety). At every moment of a deployment, whatever I/O step of a save has failed and
  wherever a crash has interrupted one, a process started from the file system comes up with a guest store whose identifiers
  are distinct and non-empty and whose labels are non-empty, trimmed and distinct up to case; if a process is
  running, that is exactly its store, disabled flags included. And a save is atomic: wherever an operation on the
  store is interrupted, the next process holds the guests of before the operation or those of after it.
\<close>

theorem guests_reachable_safe:
  assumes "guests_life uf path p fs"
  shows "\<exists>s. guests_New uf None fs path = Inr s \<and> guests_inv uf s \<and> (\<forall>r. p = Some r \<longrightarrow> r = s) \<and>
    (\<forall>opn s1 fs'. fresh_tmp (gop_io opn) path fs \<and> gop_input_ok opn \<and> guests_saving uf opn s = Some s1 \<and>
       fs' \<in> set (snd (guests_persistLocked (gop_io opn) s1 fs)) \<longrightarrow>
       guests_New uf None fs' path = Inr s \<or> guests_New uf None fs' path = Inr s1)"
proof -
  from guests_life_ok [OF assms] obtain s where s: "guests_ok uf path s fs" "\<forall>r. p = Some r \<longrightarrow> r = s" by blast
  with guests_ok_New [OF s(1)] guests_ok_inv [OF s(1)] show ?thesis
    using guests_crash_atomic [OF s(1)] guests_ok_New by (intro exI [of _ s]) blast
qed

text \<open>A crash while the guest is being removed: the file of the store is whole, the temporary one is torn.\<close>

theorem guests_reachable_safe_witness:
  "\<exists>fs s. guests_life ascii_fold ''u'' None fs \<and> fs ''t'' = Some None \<and> guests_New ascii_fold None fs ''u'' = Inr s \<and>
     guests_inv ascii_fold s \<and> map gst_id (gt_items s) = [''0102030405060708'']"
proof -
  let ?del = "GuestDelete (io_ok ''t'') ''0102030405060708''"
  obtain g s fs where r: "guests_reachable ascii_fold ''u'' s fs"
    and i: "map gst_id (gt_items s) = [''0102030405060708'']" and t: "fs ''t'' = None"
    by (rule example_guest)
  have tmp: "fresh_tmp (gop_io ?del) ''u'' fs" using t by (simp add: fresh_tmp_def io_ok_def)
  obtain x where x: "gt_items s = [x]" "gst_id x = ''0102030405060708''" using i by (auto simp: map_eq_Cons_conv)
  then have sv: "guests_saving ascii_fold ?del s = Some (s\<lparr>gt_items := remove_at 0 (gt_items s)\<rparr>)"
    by (simp add: guests_indexOfLocked_def)
  let ?fs = "fs(''t'' \<mapsto> None)"
  have "?fs \<in> set (snd (guests_persistLocked (gop_io ?del) (s\<lparr>gt_items := remove_at 0 (gt_items s)\<rparr>) fs))"
    by (simp add: guests_persistLocked_def atomic_save_def io_ok_def Let_def)
  from guests_life.crash [OF r tmp _ sv this] have life: "guests_life ascii_fold ''u'' None ?fs" by simp
  from guests_reachable_safe [OF life]
  have "\<exists>s'. guests_New ascii_fold None ?fs ''u'' = Inr s' \<and> guests_inv ascii_fold s'" by blast
  moreover have "guests_New ascii_fold None ?fs ''u'' = Inr s"
    using guests_ok_New [OF guests_reachable_ok [OF r]] by (simp add: guests_New_def guests_load_def ReadFile_def)
  ultimately show ?thesis using life i by (intro exI [of _ ?fs] exI [of _ s]) auto
qed

text \<open>
  C23 (functional, timing parity). In every reachable state \<open>Authenticate\<close> lets somebody in exactly when
  an enabled guest with that label exists whose hash accepts the password, and returns that guest
  without its hash; and for every label and password, known or unknown, it compares exactly one hash.
\<close>

theorem Authenticate_correct:
  assumes "guests_reachable uf path s fs"
  shows "(fst (Authenticate uf cmp dummyHash s label pw) = Some g \<longleftrightarrow>
      (\<exists>rec \<in> set (gt_items s). EqualFold uf (gst_label rec) (TrimSpace label) \<and>
         cmp (gst_passwordHash rec) pw \<and> \<not> gst_disabled rec \<and> g = public rec)) \<and>
    length (snd (Authenticate uf cmp dummyHash s label pw)) = 1"
  using guests_ok_inv [OF guests_reachable_ok [OF assms]] Authenticate_Some_iff Authenticate_one_compare by blast

theorem Authenticate_correct_witness:
  "\<exists>s fs. guests_reachable ascii_fold ''u'' s fs \<and>
     length (snd (Authenticate ascii_fold plain_cmp ''d'' s ''nobody'' ''x'')) = 1"
proof -
  obtain g s fs where "guests_reachable ascii_fold ''u'' s fs" by (rule example_guest)
  with Authenticate_correct show ?thesis by (intro exI [of _ s] exI [of _ fs]) simp
qed

text \<open>
  A round trip. After a successful \<open>Create\<close> the same password logs in, under the label given or any
  other spelling of it in case and surrounding space, and yields the guest that was created, bound to
  the zone that was given. The hypothesis on bcrypt is that a hash accepts the password it was made from.
\<close>

theorem guest_login_after_create:
  assumes "guests_reachable uf path s fs" and "fresh_tmp io path fs" and "utf8 label" and "utf8 zone"
    and "\<And>h. gen pw = Inr h \<Longrightarrow> utf8 h" and "eight_bytes rnd"
    and ret: "guests_Create uf gen io rnd now label zone pw s fs = Some (Inr g, s', fs')"
    and bcrypt: "\<And>h. gen pw = Inr h \<Longrightarrow> cmp h pw"
    and same: "EqualFold uf (TrimSpace label) (TrimSpace label')"
  shows "fst (Authenticate uf cmp dummyHash s' label' pw) = Some g \<and> gu_ZoneID g = TrimSpace zone"
proof -
  have path: "gt_path s = path" using guests_ok_inv [OF guests_reachable_ok [OF assms(1)]] by simp
  have "guests_reachable uf path s' fs'" by (rule guests_reachable_create [OF assms(1-7)])
  then have inv: "guests_inv uf s'" using guests_ok_inv [OF guests_reachable_ok] by blast
  obtain rec where r: "gen pw = Inr (gst_passwordHash rec)" "gst_label rec = TrimSpace label"
      "gst_zoneID rec = TrimSpace zone" "\<not> gst_disabled rec" "g = public rec"
      "s' = s\<lparr>gt_items := gt_items s @ [rec]\<rparr>"
    by (rule guests_Create_ok [OF ret assms(2) [folded path]])
  then have "rec \<in> set (gt_items s')" by simp
  with r same bcrypt [OF r(1)] show ?thesis
    unfolding Authenticate_Some_iff [OF inv] by (auto simp: public_def)
qed

theorem guest_login_after_create_witness:
  "\<exists>g s fs. guest_create = Some (Inr g, s, fs) \<and>
     fst (Authenticate ascii_fold plain_cmp ''d'' s ''aNN '' ''password'') = Some g"
proof -
  obtain g s fs where st: "guest_create = Some (Inr g, s, fs)" by (rule example_guest)
  have "guests_reachable ascii_fold ''u'' \<lparr>gt_path = ''u'', gt_items = []\<rparr> Map.empty"
    by (rule guests_reachable_start) (simp_all add: guests_New_def guests_load_def ReadFile_def)
  moreover have "EqualFold ascii_fold (TrimSpace '' Ann '') (TrimSpace ''aNN '')" by code_simp
  moreover have "utf8 '' Ann ''" "utf8 ''z1''" "utf8 ''$password''" by (auto intro!: utf8_ascii)
  ultimately have "fst (Authenticate ascii_fold plain_cmp ''d'' s ''aNN '' ''password'') = Some g"
    using guest_login_after_create [of ascii_fold "''u''" _ Map.empty "io_ok ''t''" _ _ plain_gen _ _ _ g s fs
        plain_cmp "''aNN ''" "''d''", OF _ _ _ _ _ _ st [unfolded guest_create_def]]
    by (auto simp: eight_bytes_def plain_gen_def plain_cmp_def fresh_tmp_def io_ok_def)
  with st show ?thesis by (intro exI conjI)
qed

lemma SetDisabled_disables:
  assumes d: "distinct (map gst_id (gt_items s))" and tmp: "fresh_tmp io (gt_path s) fs"
    and ret: "SetDisabled io gid True s fs = (Inr g, s', fs')"
    and rec: "rec \<in> set (gt_items s')" "gst_id rec = gid"
  shows "gst_disabled rec"
proof -
  obtain idx where i: "guests_indexOfLocked s gid = Some idx"
    and s': "s' = s\<lparr>gt_items := (gt_items s)[idx := (gt_items s ! idx)\<lparr>gst_disabled := True\<rparr>]\<rparr>"
    by (rule SetDisabled_ok [OF ret tmp])
  note idx = guests_indexOfLocked_SomeD [OF i]
  have "set (gt_items s') = insert ((gt_items s ! idx)\<lparr>gst_disabled := True\<rparr>) (set (gt_items s) - {gt_items s ! idx})"
    using d idx by (simp add: s' set_update_distinct distinct_map)
  then consider "rec = (gt_items s ! idx)\<lparr>gst_disabled := True\<rparr>" | "rec \<in> set (gt_items s) - {gt_items s ! idx}"
    using rec(1) by (simp only: insert_iff) blast
  then show ?thesis
  proof cases
    case 1
    then show ?thesis by simp
  next
    case 2
    with d idx rec(2) have False unfolding distinct_map inj_on_def by (metis DiffE nth_mem singletonI)
    then show ?thesis ..
  qed
qed

text \<open>
  Whether a guest is barred: every record with its identifier is disabled. It stays so under every operation except one
  that enables it again or draws its identifier for a new guest.
\<close>

definition barred :: "string \<Rightarrow> GuestsStore \<Rightarrow> bool" where
  "barred gid s \<longleftrightarrow> (\<forall>rec \<in> set (gt_items s). gst_id rec = gid \<longrightarrow> gst_disabled rec)"

lemma barred_Create:
  assumes "guests_Create uf gen io rnd now label zone pw s fs = Some (r, s', fs')" and "barred gid s" and "\<And>k. NewID (rnd k) \<noteq> Inr gid"
  shows "barred gid s'"
proof -
  have "freshIDLocked ids rnd i \<noteq> Some (Inr gid)" for ids i
    using freshIDLocked_drawn assms(3) by blast
  with assms(1,2) show ?thesis
    by (auto simp: guests_Create_def barred_def Let_def split: sum.splits if_splits option.splits)
qed

lemma barred_SetDisabled:
  assumes "SetDisabled io i d s fs = (r, s', fs')" and "barred gid s" and "i = gid \<Longrightarrow> d"
  shows "barred gid s'"
proof (cases "guests_indexOfLocked s i")
  case (Some idx)
  note idx = guests_indexOfLocked_SomeD [OF Some]
  have "barred gid (s\<lparr>gt_items := (gt_items s)[idx := (gt_items s ! idx)\<lparr>gst_disabled := d\<rparr>]\<rparr>)"
    using assms(2,3) idx by (auto simp: barred_def dest!: set_update_subset_insert [THEN subsetD])
  with assms(1,2) idx Some show ?thesis by (auto simp: SetDisabled_def Let_def split: option.splits)
qed (use assms in \<open>auto simp: SetDisabled_def\<close>)

lemma barred_Delete: "guests_Delete io i s fs = (r, s', fs') \<Longrightarrow> barred gid s \<Longrightarrow> barred gid s'"
  using set_remove_at_subset
  by (fastforce simp: guests_Delete_def barred_def Let_def split: option.splits)

lemma guests_Delete_removes:
  assumes d: "distinct (map gst_id (gt_items s))" and tmp: "fresh_tmp io (gt_path s) fs"
    and ret: "guests_Delete io gid s fs = (None, s', fs')"
  shows "gid \<notin> gst_id ` set (gt_items s')"
proof -
  obtain idx where i: "guests_indexOfLocked s gid = Some idx"
    and s': "s' = s\<lparr>gt_items := remove_at idx (gt_items s)\<rparr>"
    by (rule guests_Delete_ok [OF ret tmp])
  from guests_indexOfLocked_SomeD [OF i] s' in_set_remove_at_distinct [OF d] show ?thesis by auto
qed

text \<open>
  Revocation. Once a guest has been disabled or deleted, no label and no password
  authenticates as it, in the running store and in one restarted from the disk.
\<close>

theorem guest_revoked:
  assumes reach: "guests_reachable uf path s fs" and tmp: "fresh_tmp io path fs"
    and rev: "(\<exists>g. SetDisabled io gid True s fs = (Inr g, s', fs')) \<or> guests_Delete io gid s fs = (None, s', fs')"
  shows "guests_New uf None fs' path = Inr s' \<and>
    (\<forall>label pw g. fst (Authenticate uf cmp dummyHash s' label pw) = Some g \<longrightarrow> gu_ID g \<noteq> gid)"
proof -
  note ok0 = guests_reachable_ok [OF reach]
  then have path: "gt_path s = path" and d: "distinct (map gst_id (gt_items s))"
    using guests_ok_inv [OF ok0] by (simp_all add: guests_inv_def store_inv_def)
  note tmp' = tmp [folded path]
  from rev have ok: "guests_ok uf path s' fs'"
    by (elim disjE exE) (erule SetDisabled_step_ok [OF ok0 tmp], erule guests_Delete_step_ok [OF ok0 tmp])
  have dis: "gst_disabled rec" if "rec \<in> set (gt_items s')" "gst_id rec = gid" for rec
    using rev
  proof (elim disjE exE)
    fix g assume "SetDisabled io gid True s fs = (Inr g, s', fs')"
    then show ?thesis by (rule SetDisabled_disables [OF d tmp' _ that])
  next
    assume "guests_Delete io gid s fs = (None, s', fs')"
    with that guests_Delete_removes [OF d tmp'] show ?thesis by blast
  qed
  have "gu_ID g \<noteq> gid" if "fst (Authenticate uf cmp dummyHash s' label pw) = Some g" for label pw g
    using that dis unfolding Authenticate_Some_iff [OF conjunct2 [OF guests_ok_inv [OF ok]]]
    by (auto simp: public_def)
  moreover have "guests_New uf None fs' path = Inr s'"
    using ok guests_New_on_disk [of uf fs' path "gt_items s'"] by (simp add: guests_ok_def store_ok_def)
  ultimately show ?thesis by blast
qed

theorem guest_revoked_witness:
  "\<exists>s fs s' fs'. guests_reachable ascii_fold ''u'' s fs \<and>
     guests_Delete (io_ok ''t'') ''0102030405060708'' s fs = (None, s', fs') \<and>
     (\<forall>label pw g. fst (Authenticate ascii_fold plain_cmp ''d'' s' label pw) = Some g \<longrightarrow> gu_ID g \<noteq> ''0102030405060708'')"
proof -
  obtain g s fs where r: "guests_reachable ascii_fold ''u'' s fs"
    and i: "map gst_id (gt_items s) = [''0102030405060708'']" and t: "fs ''t'' = None"
    by (rule example_guest)
  have tmp: "fresh_tmp (io_ok ''t'') ''u'' fs" using t by (simp add: fresh_tmp_def io_ok_def)
  obtain x where x: "gt_items s = [x]" "gst_id x = ''0102030405060708''" using i by (auto simp: map_eq_Cons_conv)
  then have "guests_indexOfLocked s ''0102030405060708'' = Some 0" by (simp add: guests_indexOfLocked_def)
  then obtain s' fs' where d: "guests_Delete (io_ok ''t'') ''0102030405060708'' s fs = (None, s', fs')"
    by (simp add: guests_Delete_def guests_persistLocked_def atomic_save_def io_ok_def Let_def)
  from guest_revoked [OF r tmp] d
  have "\<forall>label pw g. fst (Authenticate ascii_fold plain_cmp ''d'' s' label pw) = Some g \<longrightarrow> gu_ID g \<noteq> ''0102030405060708''"
    by blast
  with r d show ?thesis by (intro exI conjI)
qed

end
