(* ===== verification/Poller_Core.thy ===== *)
theory Poller_Core
  imports Router_Client
begin

section \<open>Package poller: the pure helpers\<close>

text \<open>
  The helper functions of \<^verbatim>\<open>internal/poller/poller.go\<close>: how a node is addressed and found, which routers
  are controlled, how zones are resolved and enforced, how the state of a router follows from a fresh
  read, and how a snapshot with one router changed is made. The instants the code takes from
  \<^verbatim>\<open>time.Now()\<close> are arguments.
\<close>

subsection \<open>Nodes and lookups\<close>

definition primaryIP :: "NodeView \<Rightarrow> string" where
  "primaryIP n =
     (case List.find (\<lambda>ip. Contains ip ''.'') (nv_TailscaleIPs n) of
        Some ip \<Rightarrow> ip
      | None \<Rightarrow> (case nv_TailscaleIPs n of [] \<Rightarrow> [] | ip # _ \<Rightarrow> ip))"

definition displayName :: "NodeView \<Rightarrow> string" where
  "displayName n =
     (if nv_Name n \<noteq> [] then nv_Name n else if nv_Hostname n \<noteq> [] then nv_Hostname n else nv_StableID n)"

definition node_hasTag :: "NodeView \<Rightarrow> string \<Rightarrow> bool" where
  "node_hasTag n tag \<longleftrightarrow> (\<exists>t \<in> set (nv_Tags n). t = tag)"

definition has_ip :: "string \<Rightarrow> NodeView \<Rightarrow> bool" where
  "has_ip addr n \<longleftrightarrow> addr \<in> set (nv_TailscaleIPs n)"

definition findNodeByIP :: "NodeView list \<Rightarrow> string \<Rightarrow> NodeView option" where
  "findNodeByIP nodes addr = List.find (has_ip addr) nodes"

definition findNodeByStableID :: "NodeView list \<Rightarrow> string \<Rightarrow> NodeView option" where
  "findNodeByStableID nodes i = List.find (\<lambda>n. nv_StableID n = i) nodes"

definition findRouterView :: "Snapshot \<Rightarrow> string \<Rightarrow> RouterView option" where
  "findRouterView snap addr = List.find (\<lambda>rv. has_ip addr (rv_Node rv)) (sn_Routers snap)"

definition findRouterViewByStableID :: "Snapshot \<Rightarrow> string \<Rightarrow> RouterView option" where
  "findRouterViewByStableID snap i = List.find (\<lambda>rv. nv_StableID (rv_Node rv) = i) (sn_Routers snap)"

subsection \<open>Which routers are controlled\<close>

definition tsctlTag :: string where
  "tsctlTag = ''tag:tsctl''"

definition controllable :: "NodeView \<Rightarrow> bool" where
  "controllable n \<longleftrightarrow> \<not> (nv_IsSelf n \<or> node_hasTag n tsctlTag)"

definition autoDiscoverRouters :: "NodeView list \<Rightarrow> string list \<times> bool" where
  "autoDiscoverRouters nodes =
     (let addrs = map primaryIP (filter (\<lambda>n. controllable n \<and> nv_Type n = NodeRouter \<and> primaryIP n \<noteq> []) nodes)
      in if addrs \<noteq> [] then (sort addrs, False)
         else (sort (map primaryIP (filter (\<lambda>n. \<not> nv_ExitNodeOption n \<and> controllable n \<and> primaryIP n \<noteq> []) nodes)), True))"

subsection \<open>Zones\<close>

definition allowedExitNodeSet :: "Group list \<Rightarrow> string \<Rightarrow> string set \<times> bool" where
  "allowedExitNodeSet gs consumer =
     (let zones = filter (\<lambda>g. consumer \<in> set (g_Consumers g)) gs
      in (\<Union>g \<in> set zones. set (g_AllowedExitNodes g), zones \<noteq> []))"

text \<open>The index by identifier: a later node with the same identifier replaces an earlier one.\<close>

definition byID :: "NodeView list \<Rightarrow> string \<Rightarrow> NodeView option" where
  "byID nodes i = List.find (\<lambda>n. nv_StableID n = i) (rev nodes)"

definition resolveMember :: "NodeView list \<Rightarrow> string \<Rightarrow> GroupMember" where
  "resolveMember nodes i =
     (case byID nodes i of
        None \<Rightarrow> \<lparr>gm_StableID = i, gm_Name = [], gm_IP = [], gm_Online = False, gm_Present = False\<rparr>
      | Some n \<Rightarrow> \<lparr>gm_StableID = i, gm_Name = displayName n, gm_IP = primaryIP n, gm_Online = nv_Online n,
                   gm_Present = True\<rparr>)"

definition resolveMembers :: "string list \<Rightarrow> NodeView list \<Rightarrow> GroupMember list" where
  "resolveMembers ids nodes = map (resolveMember nodes) ids"

definition group_view :: "NodeView list \<Rightarrow> Group \<Rightarrow> GroupView" where
  "group_view nodes g = \<lparr>gv_ID = g_ID g, gv_Name = g_Name g, gv_Consumers = resolveMembers (g_Consumers g) nodes,
     gv_AllowedExitNodes = resolveMembers (g_AllowedExitNodes g) nodes\<rparr>"

text \<open>
  Sorted by name, then identifier. Sorting by the identifier and then, stably, by the name is the
  lexicographic order of the comparison function of the code.
\<close>

definition buildGroupViews :: "Group list \<Rightarrow> NodeView list \<Rightarrow> GroupView list" where
  "buildGroupViews gs nodes = map (group_view nodes) (sort_key g_Name (sort_key g_ID gs))"

subsection \<open>The state of a router\<close>

definition sameExitNode :: "ExitNodeRef option \<Rightarrow> ExitNodeRef option \<Rightarrow> bool" where
  "sameExitNode a b \<longleftrightarrow>
     (case (a, b) of
        (Some x, Some y) \<Rightarrow>
          if er_StableID x \<noteq> [] \<and> er_StableID y \<noteq> [] then er_StableID x = er_StableID y else er_IP x = er_IP y
      | _ \<Rightarrow> a = None \<and> b = None)"

definition reconcileState :: "RouterView \<Rightarrow> time \<Rightarrow> duration \<Rightarrow> RouterView" where
  "reconcileState rv now grace =
     (if \<not> rv_Reachable rv then rv\<lparr>rv_State := RouterUnreachable\<rparr>
      else if rv_Desired rv \<noteq> None \<and> \<not> sameExitNode (rv_CurrentExitNode rv) (rv_Desired rv) \<and>
              (rv_DesiredSince rv = zero_time \<or> now - rv_DesiredSince rv < grace)
      then rv\<lparr>rv_State := RouterUnconfirmed\<rparr>
      else rv\<lparr>rv_Desired := None, rv_DesiredSince := zero_time, rv_State := RouterOK\<rparr>)"

text \<open>
  \<open>withRouter\<close>: the current snapshot with \<open>mutate\<close> applied to every router view at \<open>addr\<close>, and whether
  there was one.
\<close>

definition withRouter :: "Snapshot \<Rightarrow> time \<Rightarrow> string \<Rightarrow> (RouterView \<Rightarrow> RouterView) \<Rightarrow> Snapshot \<times> bool" where
  "withRouter cur now addr mutate =
     (cur\<lparr>sn_Routers := map (\<lambda>rv. if has_ip addr (rv_Node rv) then mutate rv else rv) (sn_Routers cur),
          sn_BuiltAt := now\<rparr>,
      \<exists>rv \<in> set (sn_Routers cur). has_ip addr (rv_Node rv))"

subsection \<open>Lemmas\<close>

lemma allowedExitNodeSet_iff:
  "x \<in> fst (allowedExitNodeSet gs c) \<longleftrightarrow> (\<exists>g \<in> set gs. c \<in> set (g_Consumers g) \<and> x \<in> set (g_AllowedExitNodes g))"
  "snd (allowedExitNodeSet gs c) \<longleftrightarrow> (\<exists>g \<in> set gs. c \<in> set (g_Consumers g))"
  by (auto simp: allowedExitNodeSet_def Let_def filter_empty_conv)

lemma gm_StableID_resolveMember [simp]: "gm_StableID (resolveMember nodes i) = i"
  by (simp add: resolveMember_def split: option.splits)

lemma resolveMembers_ids: "map gm_StableID (resolveMembers ids nodes) = ids"
  by (simp add: resolveMembers_def comp_def)

lemma primaryIP_mem: "primaryIP n \<noteq> [] \<Longrightarrow> primaryIP n \<in> set (nv_TailscaleIPs n)"
  by (auto simp: primaryIP_def split: option.splits list.splits dest: find_SomeD)

lemma primaryIP_has_ip: "primaryIP n = addr \<Longrightarrow> addr \<noteq> [] \<Longrightarrow> has_ip addr n"
  using primaryIP_mem [of n] by (auto simp: has_ip_def)

lemma withRouter_node:
  assumes "\<And>rv. rv_Node (f rv) = rv_Node rv"
  shows "map rv_Node (sn_Routers (fst (withRouter cur now addr f))) = map rv_Node (sn_Routers cur)"
  using assms by (auto simp: withRouter_def)

lemma withRouter_find:
  assumes "\<And>rv. rv_Node (f rv) = rv_Node rv"
  shows "findRouterView (fst (withRouter cur now addr f)) a =
    map_option (\<lambda>rv. if has_ip addr (rv_Node rv) then f rv else rv) (findRouterView cur a)"
proof -
  have "List.find (\<lambda>rv. has_ip a (rv_Node rv)) (map (\<lambda>rv. if has_ip addr (rv_Node rv) then f rv else rv) rvs) =
      map_option (\<lambda>rv. if has_ip addr (rv_Node rv) then f rv else rv) (List.find (\<lambda>rv. has_ip a (rv_Node rv)) rvs)" for rvs
    using assms by (induction rvs) auto
  then show ?thesis by (simp add: findRouterView_def withRouter_def)
qed

lemma withRouter_find_same:
  assumes "\<And>rv. rv_Node (f rv) = rv_Node rv"
  shows "findRouterView (fst (withRouter cur now addr f)) addr = map_option f (findRouterView cur addr)"
proof -
  have "rv \<in> set_option (findRouterView cur addr) \<Longrightarrow> has_ip addr (rv_Node rv)" for rv
    by (auto simp: findRouterView_def dest: find_SomeD)
  then show ?thesis unfolding withRouter_find [OF assms] by (cases "findRouterView cur addr") auto
qed

lemma withRouter_ok_iff: "snd (withRouter cur now addr f) \<longleftrightarrow> findRouterView cur addr \<noteq> None"
  by (auto simp: withRouter_def findRouterView_def find_None_iff)

lemma withRouter_other:
  "sn_Nodes (fst (withRouter cur now addr f)) = sn_Nodes cur"
  "sn_Groups (fst (withRouter cur now addr f)) = sn_Groups cur"
  "sn_NetmapAt (fst (withRouter cur now addr f)) = sn_NetmapAt cur"
  "sn_NetmapErr (fst (withRouter cur now addr f)) = sn_NetmapErr cur"
  by (simp_all add: withRouter_def)

lemma reconcileState_same [simp]:
  "rv_Node (reconcileState rv now grace) = rv_Node rv"
  "rv_CurrentExitNode (reconcileState rv now grace) = rv_CurrentExitNode rv"
  "rv_Reachable (reconcileState rv now grace) = rv_Reachable rv"
  by (simp_all add: reconcileState_def)

end
