(* ===== verification/Poller.thy ===== *)
theory Poller
  imports Poller_Core
begin

section \<open>Package poller: controller operations\<close>

text \<open>
  The \<^verbatim>\<open>Poller\<close> of \<^verbatim>\<open>internal/poller/poller.go\<close>. Its shared state, guarded by \<^verbatim>\<open>mu\<close>, is the record
  \<open>pstate\<close>: the published snapshot, the counters \<^verbatim>\<open>setSeq\<close> and \<^verbatim>\<open>setGen\<close>, the pending keeps, and (as a
  history) the frames broadcast so far. An operation that releases \<^verbatim>\<open>mu\<close> for its slow work is split at
  those points into phases, each of them atomic; the operation is the composition of its phases, and
  \<open>Poller_Steps\<close> interleaves the phases of concurrent operations. The router client is a record of
  functions on the world \<open>'w\<close>; \<open>time.Now()\<close> instants are arguments. Sequence numbers are unbounded (the
  code counts in 64 bits).
\<close>

subsection \<open>State\<close>

record keepEntry =
  ke_marker :: string
  ke_revertAt :: time
  ke_seq :: nat

record pconfig =
  pc_routers :: "string list"
  pc_egressCheck :: bool
  pc_egressURL :: string
  pc_requireKeep :: bool
  pc_revertWindow :: duration

record pstate =
  po_snap :: Snapshot
  po_setSeq :: "string \<Rightarrow> nat"
  po_setGen :: "string \<Rightarrow> nat"
  po_pendingKeep :: "string \<rightharpoonup> keepEntry"
  po_frames :: "Snapshot list"

definition poller_New :: "Snapshot \<Rightarrow> pstate" where
  "poller_New snap = \<lparr>po_snap = snap, po_setSeq = (\<lambda>_. 0), po_setGen = (\<lambda>_. 0), po_pendingKeep = Map.empty, po_frames = []\<rparr>"

definition ConfigureEgress :: "bool \<Rightarrow> string \<Rightarrow> pconfig \<Rightarrow> pconfig" where
  "ConfigureEgress check url cfg = cfg\<lparr>pc_egressCheck := check, pc_egressURL := url\<rparr>"

definition ConfigureKeep :: "bool \<Rightarrow> pconfig \<Rightarrow> pconfig" where
  "ConfigureKeep require cfg = cfg\<lparr>pc_requireKeep := require\<rparr>"

definition bump :: "(string \<Rightarrow> nat) \<Rightarrow> string \<Rightarrow> string \<Rightarrow> nat" where
  "bump f addr = f(addr := Suc (f addr))"

definition Broadcast :: "Snapshot \<Rightarrow> pstate \<Rightarrow> pstate" where
  "Broadcast snap s = s\<lparr>po_frames := po_frames s @ [snap]\<rparr>"

record 'w router_ops =
  ro_Status :: "string \<Rightarrow> 'w \<Rightarrow> (go_error + RouterRuntime) \<times> 'w"
  ro_Apply :: "string \<Rightarrow> ExitNodeRef option \<Rightarrow> ExitNodeRef option \<Rightarrow> bool \<Rightarrow> 'w \<Rightarrow>
    (RouterRuntime \<times> string \<times> go_error option) \<times> 'w"
  ro_Keep :: "string \<Rightarrow> string \<Rightarrow> 'w \<Rightarrow> go_error option \<times> 'w"
  ro_Probe :: "string \<Rightarrow> 'w \<Rightarrow> (go_error + string) \<times> 'w"
  ro_Egress :: "string \<Rightarrow> string \<Rightarrow> 'w \<Rightarrow> (go_error + bool \<times> string) \<times> 'w"

subsection \<open>Control errors\<close>

record controlError =
  ctl_status :: nat
  ctl_msg :: string
  ctl_detail :: string
  ctl_stderr :: string
  ctl_err :: "go_error option"

definition mk_controlError :: "nat \<Rightarrow> string \<Rightarrow> controlError" where
  "mk_controlError st msg = \<lparr>ctl_status = st, ctl_msg = msg, ctl_detail = [], ctl_stderr = [], ctl_err = None\<rparr>"

definition preflightErr :: "string \<Rightarrow> controlError" where
  "preflightErr msg = mk_controlError 400 msg"

definition extractStderr :: "go_error \<Rightarrow> string" where
  "extractStderr e = (case as_CommandError e of None \<Rightarrow> [] | Some c \<Rightarrow> Stderr c)"

definition routerControlError :: "go_error \<Rightarrow> controlError" where
  "routerControlError e = \<lparr>ctl_status = 502, ctl_msg = ''router command failed'', ctl_detail = Error e,
     ctl_stderr = extractStderr e, ctl_err = Some e\<rparr>"

definition vanishedErr :: "string \<Rightarrow> string \<Rightarrow> controlError" where
  "vanishedErr routerID what = (mk_controlError 502 ''router state unavailable'')
     \<lparr>ctl_detail := ''router '' @ Quote routerID @ '' vanished from the snapshot before its '' @ what @ '' could be reconciled''\<rparr>"

subsection \<open>SetExitNode\<close>

record set_plan =
  sp_addr :: string
  sp_prev :: "ExitNodeRef option"
  sp_target :: "ExitNodeRef option"

text \<open>The pre-flight on the loaded snapshot and the current zones.\<close>

definition set_preflight :: "Group list \<Rightarrow> Snapshot \<Rightarrow> string \<Rightarrow> string \<Rightarrow> controlError + set_plan" where
  "set_preflight gs snap routerID targetStableID =
     (case findRouterViewByStableID snap routerID of
        None \<Rightarrow> Inl (preflightErr (''unknown router '' @ Quote routerID))
      | Some prevRV \<Rightarrow>
     (let addr = primaryIP (rv_Node prevRV)
      in if addr = [] then Inl (preflightErr (''router '' @ Quote routerID @ '' has no Tailscale IPv4 address''))
         else if targetStableID = [] then
           Inr \<lparr>sp_addr = addr, sp_prev = rv_CurrentExitNode prevRV, sp_target = None\<rparr>
         else (case findNodeByStableID (sn_Nodes snap) targetStableID of
             None \<Rightarrow> Inl (preflightErr (''unknown exit node '' @ Quote targetStableID))
           | Some nv \<Rightarrow>
               if nv_StableID nv = routerID then
                 Inl (preflightErr (''cannot route router '' @ Quote routerID @ '' through itself''))
               else if \<not> nv_Online nv then
                 Inl (preflightErr (''exit node '' @ Quote (displayName nv) @ '' is offline''))
               else if \<not> nv_ExitNodeOption nv then
                 Inl (preflightErr (''node '' @ Quote (displayName nv) @ '' is not an approved exit node''))
               else let ip = primaryIP nv
                    in if ip = [] then
                         Inl (preflightErr (''exit node '' @ Quote (displayName nv) @ '' has no Tailscale IPv4 address''))
                       else if ip = addr then
                         Inl (preflightErr (''cannot route router '' @ Quote routerID @ '' through itself (loop)''))
                       else (case allowedExitNodeSet gs routerID of
                           (allowed, inAnyZone) \<Rightarrow>
                             if inAnyZone \<and> nv_StableID nv \<notin> allowed then
                               Inl (mk_controlError 422 (''exit node '' @ Quote (displayName nv) @
                                 '' is not allowed for '' @ Quote (displayName (rv_Node prevRV)) @ '' in its zone(s)''))
                             else Inr \<lparr>sp_addr = addr, sp_prev = rv_CurrentExitNode prevRV,
                               sp_target = Some \<lparr>er_StableID = nv_StableID nv, er_Name = nv_Name nv, er_IP = ip\<rparr>\<rparr>))))"

text \<open>Step 1, under \<^verbatim>\<open>mu\<close>: take a sequence number and publish the intent as pending.\<close>

definition pending_view :: "ExitNodeRef option \<Rightarrow> RouterView \<Rightarrow> RouterView" where
  "pending_view target rv = rv\<lparr>rv_Desired := target, rv_DesiredSince := zero_time, rv_State := RouterPending, rv_LastError := []\<rparr>"

definition set_step1 :: "string \<Rightarrow> ExitNodeRef option \<Rightarrow> time \<Rightarrow> pstate \<Rightarrow> nat \<times> Snapshot option \<times> pstate" where
  "set_step1 addr target now s =
     (let s1 = s\<lparr>po_setSeq := bump (po_setSeq s) addr, po_setGen := bump (po_setGen s) addr\<rparr>;
          mySeq = po_setSeq s1 addr
      in case withRouter (po_snap s1) now addr (pending_view target) of
           (pending, True) \<Rightarrow> (mySeq, Some pending, s1\<lparr>po_snap := pending\<rparr>)
         | (_, False) \<Rightarrow> (mySeq, None, s1))"

text \<open>The slow part, outside \<^verbatim>\<open>mu\<close>: the switch, the re-read after a hard failure, the egress probe.\<close>

record apply_result =
  ar_rt :: RouterRuntime
  ar_marker :: string
  ar_err :: "go_error option"
  ar_reread :: "RouterRuntime option"
  ar_egress :: "(bool \<times> string) option"

definition autoKeep_of :: "pconfig \<Rightarrow> ExitNodeRef option \<Rightarrow> bool" where
  "autoKeep_of cfg target \<longleftrightarrow> \<not> pc_requireKeep cfg \<or> target = None"

definition hardFail :: "go_error option \<Rightarrow> bool" where
  "hardFail err \<longleftrightarrow> (case err of None \<Rightarrow> False | Some e \<Rightarrow> as_CommandError e \<noteq> None)"

definition set_apply :: "pconfig \<Rightarrow> 'w router_ops \<Rightarrow> set_plan \<Rightarrow> 'w \<Rightarrow> apply_result \<times> 'w" where
  "set_apply cfg rc plan w =
     (case ro_Apply rc (sp_addr plan) (sp_target plan) (sp_prev plan) (autoKeep_of cfg (sp_target plan)) w of
        ((rt, marker, setErr), w1) \<Rightarrow>
     (case (if hardFail setErr then
              (case ro_Status rc (sp_addr plan) w1 of (Inr rr, w') \<Rightarrow> (Some rr, w') | (Inl _, w') \<Rightarrow> (None, w'))
            else (None, w1)) of
        (reread, w2) \<Rightarrow>
     (case (if setErr = None \<and> sp_target plan \<noteq> None \<and> pc_egressCheck cfg then
              (case ro_Egress rc (sp_addr plan) (pc_egressURL cfg) w2 of
                 (Inr (eok, edet), w') \<Rightarrow> (Some (eok, edet), w')
               | (Inl e, w') \<Rightarrow> (Some (False, Error e), w'))
            else (None, w2)) of
        (egress, w3) \<Rightarrow>
          (\<lparr>ar_rt = rt, ar_marker = marker, ar_err = setErr, ar_reread = reread, ar_egress = egress\<rparr>, w3))))"

text \<open>Step 3: how the result is reflected in the router's view.\<close>

definition egress_view :: "apply_result \<Rightarrow> bool \<Rightarrow> time \<Rightarrow> RouterView \<Rightarrow> RouterView" where
  "egress_view ar setting now rv =
     (if \<not> setting then rv\<lparr>rv_EgressOK := None, rv_EgressDetail := [], rv_EgressCheckedAt := zero_time\<rparr>
      else case ar_egress ar of
          Some (eok, edet) \<Rightarrow> rv\<lparr>rv_EgressOK := Some eok, rv_EgressDetail := edet, rv_EgressCheckedAt := now\<rparr>
        | None \<Rightarrow> rv)"

definition final_view :: "pconfig \<Rightarrow> ExitNodeRef option \<Rightarrow> apply_result \<Rightarrow> time \<Rightarrow> time \<Rightarrow> RouterView \<Rightarrow> RouterView" where
  "final_view cfg target ar armAt now rv0 =
     (let rv = rv0\<lparr>rv_RevertAt := zero_time\<rparr>; rt = ar_rt ar
      in case ar_err ar of
           None \<Rightarrow>
             (let rv1 = rv\<lparr>rv_Stats := rt_Stats rt, rv_Reachable := True, rv_CurrentExitNode := rt_Current rt,
                           rv_Desired := None, rv_DesiredSince := zero_time, rv_LastError := [], rv_LastConfirmedAt := now\<rparr>;
                  rv2 = (if autoKeep_of cfg target then rv1\<lparr>rv_State := RouterOK\<rparr>
                         else rv1\<lparr>rv_State := RouterAwaitingKeep, rv_RevertAt := armAt + pc_revertWindow cfg\<rparr>)
              in egress_view ar (target \<noteq> None) now rv2)
         | Some e \<Rightarrow>
             if hardFail (Some e) then
               (let rv1 = rv\<lparr>rv_Desired := None, rv_DesiredSince := zero_time, rv_LastError := Error e\<rparr>
                in case ar_reread ar of
                     Some rr \<Rightarrow> rv1\<lparr>rv_Reachable := True, rv_CurrentExitNode := rt_Current rr, rv_Stats := rt_Stats rr,
                                   rv_State := RouterOK, rv_LastConfirmedAt := now\<rparr>
                   | None \<Rightarrow> rv1\<lparr>rv_Reachable := False, rv_State := RouterUnreachable\<rparr>)
             else if rt_Online rt then
               rv\<lparr>rv_Stats := rt_Stats rt, rv_Reachable := True, rv_CurrentExitNode := rt_Current rt, rv_Desired := target,
                  rv_DesiredSince := armAt, rv_State := RouterUnconfirmed, rv_LastError := Error e\<rparr>
             else
               rv\<lparr>rv_Stats := rt_Stats rt, rv_Reachable := False, rv_Desired := target, rv_DesiredSince := armAt,
                  rv_State := RouterUnreachable, rv_LastError := Error e\<rparr>)"

text \<open>
  Step 3, under \<^verbatim>\<open>mu\<close>: publish unless superseded, record or drop the gate, and say which markers must be
  disarmed. The result is the published snapshot, if any, the view, whether the router is still in the
  snapshot, and the markers.
\<close>

record set_outcome =
  so_published :: "Snapshot option"
  so_ok :: bool
  so_updated :: RouterView
  so_disarm :: "string list"

definition last_view :: "Snapshot \<Rightarrow> string \<Rightarrow> RouterView" where
  "last_view snap addr =
     (case List.find (\<lambda>rv. has_ip addr (rv_Node rv)) (rev (sn_Routers snap)) of Some rv \<Rightarrow> rv | None \<Rightarrow> zero_RouterView)"

definition set_step3 ::
    "pconfig \<Rightarrow> set_plan \<Rightarrow> nat \<Rightarrow> apply_result \<Rightarrow> time \<Rightarrow> time \<Rightarrow> time \<Rightarrow> pstate \<Rightarrow> set_outcome \<times> pstate" where
  "set_step3 cfg plan mySeq ar armAt now builtAt s =
     (let addr = sp_addr plan;
          s1 = s\<lparr>po_setGen := bump (po_setGen s) addr\<rparr>;
          superseded = (po_setSeq s1 addr \<noteq> mySeq);
          prior = po_pendingKeep s1 addr
      in case withRouter (po_snap s1) builtAt addr (final_view cfg (sp_target plan) ar armAt now) of
           (final, ok) \<Rightarrow>
             if ok \<and> \<not> superseded then
               (let disarm = (if ar_err ar \<noteq> None then []
                              else case prior of
                                  None \<Rightarrow> []
                                | Some p \<Rightarrow>
                                    if ke_marker p = [] then []
                                    else if \<not> autoKeep_of cfg (sp_target plan) \<and> ke_marker p = ar_marker ar then []
                                    else [ke_marker p]);
                    pk = (if ar_err ar \<noteq> None then po_pendingKeep s1
                          else if autoKeep_of cfg (sp_target plan) then (po_pendingKeep s1)(addr := None)
                          else (po_pendingKeep s1)(addr \<mapsto>
                            \<lparr>ke_marker = ar_marker ar, ke_revertAt = armAt + pc_revertWindow cfg, ke_seq = mySeq\<rparr>))
                in (\<lparr>so_published = Some final, so_ok = True, so_updated = last_view final addr, so_disarm = disarm\<rparr>,
                    s1\<lparr>po_snap := final, po_pendingKeep := pk\<rparr>))
             else (\<lparr>so_published = None, so_ok = ok, so_updated = (if ok then last_view final addr else zero_RouterView),
                    so_disarm = (if ar_marker ar \<noteq> [] then [ar_marker ar] else [])\<rparr>, s1))"

fun disarm_all :: "'w router_ops \<Rightarrow> string \<Rightarrow> string list \<Rightarrow> 'w \<Rightarrow> 'w" where
  "disarm_all rc addr [] w = w"
| "disarm_all rc addr (m # ms) w = disarm_all rc addr ms (snd (ro_Keep rc addr m w))"

definition set_result :: "string \<Rightarrow> apply_result \<Rightarrow> set_outcome \<Rightarrow> RouterView \<times> controlError option" where
  "set_result routerID ar out =
     (if \<not> so_ok out then
        (zero_RouterView, Some (case ar_err ar of Some e \<Rightarrow> routerControlError e | None \<Rightarrow> vanishedErr routerID ''result''))
      else case ar_err ar of
          None \<Rightarrow> (so_updated out, None)
        | Some e \<Rightarrow>
            if hardFail (Some e) then (so_updated out, Some (routerControlError e))
            else if rt_Online (ar_rt ar) then (so_updated out, None)
            else (so_updated out, Some (routerControlError e)))"

record set_times =
  ts_step1 :: time
  ts_arm :: time
  ts_now :: time
  ts_step3 :: time

definition SetExitNode ::
    "pconfig \<Rightarrow> 'w router_ops \<Rightarrow> Group list \<Rightarrow> set_times \<Rightarrow> string \<Rightarrow> string \<Rightarrow> pstate \<times> 'w \<Rightarrow>
     (RouterView \<times> controlError option) \<times> pstate \<times> 'w" where
  "SetExitNode cfg rc gs ts routerID targetStableID sw =
     (case sw of (s, w) \<Rightarrow>
        (case set_preflight gs (po_snap s) routerID targetStableID of
           Inl e \<Rightarrow> ((zero_RouterView, Some e), s, w)
         | Inr plan \<Rightarrow>
        (case set_step1 (sp_addr plan) (sp_target plan) (ts_step1 ts) s of
           (_, None, s1) \<Rightarrow>
             ((zero_RouterView, Some (preflightErr (''router '' @ Quote routerID @ '' is no longer present in the snapshot''))), s1, w)
         | (mySeq, Some pending, s1) \<Rightarrow>
             (let s2 = Broadcast pending s1
              in case set_apply cfg rc plan w of
                   (ar, w1) \<Rightarrow>
              (case set_step3 cfg plan mySeq ar (ts_arm ts) (ts_now ts) (ts_step3 ts) s2 of
                   (out, s3) \<Rightarrow>
                     (let w2 = disarm_all rc (sp_addr plan) (so_disarm out) w1;
                          s4 = (case so_published out of None \<Rightarrow> s3 | Some snap \<Rightarrow> Broadcast snap s3)
                      in (set_result routerID ar out, s4, w2)))))))"

subsection \<open>Keep\<close>

definition keep_target :: "Snapshot \<Rightarrow> string \<Rightarrow> controlError + string" where
  "keep_target snap routerID =
     (case findRouterViewByStableID snap routerID of
        None \<Rightarrow> Inl (mk_controlError 404 (''unknown router '' @ Quote routerID))
      | Some rv \<Rightarrow>
          (let addr = primaryIP (rv_Node rv)
           in if addr = [] then
                Inl (mk_controlError 404 (''router '' @ Quote routerID @ '' has no Tailscale IPv4 address''))
              else Inr addr))"

definition reverted_view :: "RouterView \<Rightarrow> RouterView" where
  "reverted_view rv =
     rv\<lparr>rv_State := RouterUnprobed, rv_RevertAt := zero_time, rv_CurrentExitNode := None, rv_Desired := None,
        rv_DesiredSince := zero_time, rv_Reachable := False\<rparr>"

definition expire_view :: "RouterView \<Rightarrow> RouterView" where
  "expire_view rv = (if rv_State rv = RouterAwaitingKeep then reverted_view rv else rv)"

text \<open>
  The validation under \<^verbatim>\<open>mu\<close>: an error, with the snapshot published on expiry, or the entry to keep.
\<close>

datatype keep_check = KeepRefused controlError "Snapshot option" | KeepEntry keepEntry

definition keep_validate :: "string \<Rightarrow> time \<Rightarrow> time \<Rightarrow> pstate \<Rightarrow> keep_check \<times> pstate" where
  "keep_validate addr now builtAt s =
     (case po_pendingKeep s addr of
        None \<Rightarrow> (KeepRefused (mk_controlError 409 ''no exit-node change is awaiting confirmation'') None, s)
      | Some entry \<Rightarrow>
          if now > ke_revertAt entry then
            (let s1 = s\<lparr>po_pendingKeep := (po_pendingKeep s)(addr := None), po_setGen := bump (po_setGen s) addr\<rparr>;
                 err = mk_controlError 409 ''the revert window elapsed; the router has reverted''
             in case withRouter (po_snap s1) builtAt addr expire_view of
                  (reverted, True) \<Rightarrow> (KeepRefused err (Some reverted), s1\<lparr>po_snap := reverted\<rparr>)
                | (_, False) \<Rightarrow> (KeepRefused err None, s1))
          else if ke_seq entry \<noteq> po_setSeq s addr then
            (KeepRefused (mk_controlError 409 ''a newer exit-node change superseded this one'') None, s)
          else (KeepEntry entry, s))"

definition kept_view :: "RouterView \<Rightarrow> RouterView" where
  "kept_view rv = rv\<lparr>rv_State := RouterOK, rv_RevertAt := zero_time, rv_LastError := []\<rparr>"

definition keep_commit ::
    "string \<Rightarrow> string \<Rightarrow> nat \<Rightarrow> time \<Rightarrow> pstate \<Rightarrow> (controlError + RouterView) \<times> Snapshot option \<times> pstate" where
  "keep_commit routerID addr mySeq builtAt s =
     (if po_setSeq s addr \<noteq> mySeq then
        (Inl (mk_controlError 409 ''a newer exit-node change superseded this one''), None, s)
      else
        (let s1 = s\<lparr>po_setGen := bump (po_setGen s) addr, po_pendingKeep := (po_pendingKeep s)(addr := None)\<rparr>
         in case withRouter (po_snap s1) builtAt addr kept_view of
              (final, True) \<Rightarrow> (Inr (last_view final addr), Some final, s1\<lparr>po_snap := final\<rparr>)
            | (_, False) \<Rightarrow> (Inl (vanishedErr routerID ''keep''), None, s1)))"

definition maybe_broadcast :: "Snapshot option \<Rightarrow> pstate \<Rightarrow> pstate" where
  "maybe_broadcast snap s = (case snap of None \<Rightarrow> s | Some x \<Rightarrow> Broadcast x s)"

definition Keep ::
    "'w router_ops \<Rightarrow> time \<Rightarrow> time \<Rightarrow> string \<Rightarrow> pstate \<times> 'w \<Rightarrow> (controlError + RouterView) \<times> pstate \<times> 'w" where
  "Keep rc now builtAt routerID sw =
     (case sw of (s, w) \<Rightarrow>
        (case keep_target (po_snap s) routerID of
           Inl e \<Rightarrow> (Inl e, s, w)
         | Inr addr \<Rightarrow>
        (case keep_validate addr now builtAt s of
           (KeepRefused e snap, s1) \<Rightarrow> (Inl e, maybe_broadcast snap s1, w)
         | (KeepEntry entry, s1) \<Rightarrow>
        (case ro_Keep rc addr (ke_marker entry) w of
           (Some e, w1) \<Rightarrow> (Inl (routerControlError e), s1, w1)
         | (None, w1) \<Rightarrow>
             (case keep_commit routerID addr (ke_seq entry) builtAt s1 of
                (r, snap, s2) \<Rightarrow> (r, maybe_broadcast snap s2, w1))))))"

subsection \<open>Probe\<close>

definition resolved_view :: "RouterRuntime \<Rightarrow> time \<Rightarrow> duration \<Rightarrow> RouterView \<Rightarrow> RouterView" where
  "resolved_view rt now grace rv =
     reconcileState (rv\<lparr>rv_Reachable := True, rv_CurrentExitNode := rt_Current rt, rv_Stats := rt_Stats rt,
       rv_LastError := [], rv_LastConfirmedAt := now\<rparr>) now grace"

text \<open>The two locked sections of \<^verbatim>\<open>resolveAfterProbe\<close>: capture the generation, then publish if it is unchanged.\<close>

definition resolve_capture :: "string \<Rightarrow> pstate \<Rightarrow> nat option" where
  "resolve_capture addr s = (if po_pendingKeep s addr \<noteq> None then None else Some (po_setGen s addr))"

definition resolve_commit ::
    "pconfig \<Rightarrow> string \<Rightarrow> nat \<Rightarrow> RouterRuntime \<Rightarrow> time \<Rightarrow> pstate \<Rightarrow> Snapshot option \<times> pstate" where
  "resolve_commit cfg addr genAt rt now s =
     (if po_setGen s addr = genAt \<and> po_pendingKeep s addr = None then
        (case withRouter (po_snap s) now addr (resolved_view rt now (pc_revertWindow cfg)) of
           (final, True) \<Rightarrow> (Some final, s\<lparr>po_setGen := bump (po_setGen s) addr, po_snap := final\<rparr>)
         | (_, False) \<Rightarrow> (None, s))
      else (None, s))"

definition resolveAfterProbe :: "pconfig \<Rightarrow> 'w router_ops \<Rightarrow> time \<Rightarrow> string \<Rightarrow> pstate \<times> 'w \<Rightarrow> pstate \<times> 'w" where
  "resolveAfterProbe cfg rc now addr sw =
     (case sw of (s, w) \<Rightarrow>
        (case resolve_capture addr s of
           None \<Rightarrow> (s, w)
         | Some genAt \<Rightarrow>
             (case ro_Status rc addr w of
                (Inl _, w1) \<Rightarrow> (s, w1)
              | (Inr rt, w1) \<Rightarrow>
                  (case resolve_commit cfg addr genAt rt now s of
                     (snap, s1) \<Rightarrow> (maybe_broadcast snap s1, w1)))))"

record probe_times =
  tp_start :: time
  tp_end :: time
  tp_checked :: time

definition Probe ::
    "pconfig \<Rightarrow> 'w router_ops \<Rightarrow> probe_times \<Rightarrow> string \<Rightarrow> pstate \<times> 'w \<Rightarrow> (controlError + ProbeResult) \<times> pstate \<times> 'w" where
  "Probe cfg rc ts routerID sw =
     (case sw of (s, w) \<Rightarrow>
        (case findRouterViewByStableID (po_snap s) routerID of
           None \<Rightarrow> (Inl (mk_controlError 404 (''unknown router '' @ Quote routerID)), s, w)
         | Some rv \<Rightarrow>
             (let addr = primaryIP (rv_Node rv); dur = (tp_end ts - tp_start ts) div 1000000
              in if addr = [] then
                   (Inl (mk_controlError 404 (''router '' @ Quote routerID @ '' has no Tailscale IPv4 address'')), s, w)
                 else if \<not> nv_Online (rv_Node rv) then
                   (Inr \<lparr>pr_OK = False, pr_DurationMs = 0, pr_Output = [], pr_Error = ''node is offline'',
                         pr_CheckedAt = tp_checked ts\<rparr>, s, w)
                 else (case ro_Probe rc addr w of
                     (Inl e, w1) \<Rightarrow>
                       (Inr \<lparr>pr_OK = False, pr_DurationMs = dur, pr_Output = [], pr_Error = Error e,
                             pr_CheckedAt = tp_checked ts\<rparr>, s, w1)
                   | (Inr out, w1) \<Rightarrow>
                       (case resolveAfterProbe cfg rc (tp_checked ts) addr (s, w1) of
                          (s2, w2) \<Rightarrow>
                            (Inr \<lparr>pr_OK = True, pr_DurationMs = dur, pr_Output = out, pr_Error = [],
                                  pr_CheckedAt = tp_checked ts\<rparr>, s2, w2))))))"

subsection \<open>Refresh\<close>

definition carry_forward :: "Snapshot \<Rightarrow> string \<Rightarrow> RouterView \<Rightarrow> RouterView" where
  "carry_forward prev addr rv =
     (case findRouterView prev addr of
        None \<Rightarrow> rv
      | Some p \<Rightarrow> rv\<lparr>rv_Desired := rv_Desired p, rv_DesiredSince := rv_DesiredSince p,
           rv_CurrentExitNode := rv_CurrentExitNode p, rv_Stats := rv_Stats p, rv_LastConfirmedAt := rv_LastConfirmedAt p,
           rv_EgressOK := rv_EgressOK p, rv_EgressDetail := rv_EgressDetail p, rv_EgressCheckedAt := rv_EgressCheckedAt p\<rparr>)"

definition node_or_stub :: "NodeView list \<Rightarrow> string \<Rightarrow> NodeType \<Rightarrow> NodeView" where
  "node_or_stub nodes addr ty =
     (case findNodeByIP nodes addr of Some nv \<Rightarrow> nv | None \<Rightarrow> zero_NodeView\<lparr>nv_TailscaleIPs := [addr], nv_Type := ty\<rparr>)"

definition offline_view :: "RouterView \<Rightarrow> RouterView" where
  "offline_view rv = rv\<lparr>rv_Reachable := False, rv_State := RouterUnreachable, rv_LastError := ''node is offline''\<rparr>"

definition known_offline :: "NodeView list \<Rightarrow> string \<Rightarrow> bool" where
  "known_offline nodes addr \<longleftrightarrow> (case findNodeByIP nodes addr of Some nv \<Rightarrow> \<not> nv_Online nv | None \<Rightarrow> False)"

definition buildRouterView ::
    "pconfig \<Rightarrow> 'w router_ops \<Rightarrow> time \<Rightarrow> string \<Rightarrow> NodeView list \<Rightarrow> Snapshot \<Rightarrow> 'w \<Rightarrow> RouterView \<times> 'w" where
  "buildRouterView cfg rc now addr nodes prev w =
     (let rv = carry_forward prev addr (zero_RouterView\<lparr>rv_Node := node_or_stub nodes addr NodeRouter\<rparr>)
      in if known_offline nodes addr then (offline_view rv, w)
         else (case ro_Status rc addr w of
             (Inl e, w1) \<Rightarrow> (rv\<lparr>rv_Reachable := False, rv_State := RouterUnreachable, rv_LastError := Error e\<rparr>, w1)
           | (Inr rt, w1) \<Rightarrow> (resolved_view rt now (pc_revertWindow cfg) rv, w1)))"

definition prevState :: "RouterView option \<Rightarrow> RouterState" where
  "prevState p = (case p of None \<Rightarrow> RouterStateZero | Some rv \<Rightarrow> rv_State rv)"

definition buildListedRouterView :: "string \<Rightarrow> NodeView list \<Rightarrow> Snapshot \<Rightarrow> RouterView" where
  "buildListedRouterView addr nodes prev =
     (let rv = carry_forward prev addr (zero_RouterView\<lparr>rv_Node := node_or_stub nodes addr NodeGeneric\<rparr>);
          p = findRouterView prev addr
      in if known_offline nodes addr then offline_view rv
         else if prevState p \<in> {RouterOK, RouterUnconfirmed, RouterPending, RouterAwaitingKeep} then
           (case p of
              Some q \<Rightarrow> rv\<lparr>rv_State := rv_State q, rv_Reachable := rv_Reachable q, rv_LastError := rv_LastError q,
                             rv_RevertAt := rv_RevertAt q\<rparr>
            | None \<Rightarrow> rv)
         else rv\<lparr>rv_State := RouterUnprobed, rv_Reachable := False\<rparr>)"

text \<open>The dials of one refresh, in order.\<close>

fun build_views ::
    "pconfig \<Rightarrow> 'w router_ops \<Rightarrow> time \<Rightarrow> bool \<Rightarrow> NodeView list \<Rightarrow> Snapshot \<Rightarrow> string list \<Rightarrow> 'w \<Rightarrow> RouterView list \<times> 'w" where
  "build_views cfg rc now fallback nodes prev [] w = ([], w)"
| "build_views cfg rc now fallback nodes prev (addr # addrs) w =
     (case (if fallback then (buildListedRouterView addr nodes prev, w) else buildRouterView cfg rc now addr nodes prev w) of
        (rv, w1) \<Rightarrow>
          (case build_views cfg rc now fallback nodes prev addrs w1 of (rvs, w2) \<Rightarrow> (rv # rvs, w2)))"

definition router_set :: "pconfig \<Rightarrow> NodeView list \<Rightarrow> string list \<times> bool" where
  "router_set cfg nodes = (if pc_routers cfg = [] then autoDiscoverRouters nodes else (pc_routers cfg, False))"

text \<open>The merge of one router under \<^verbatim>\<open>mu\<close>: its view, and the pending keeps after.\<close>

definition merge_router ::
    "pstate \<Rightarrow> (string \<Rightarrow> nat) \<Rightarrow> time \<Rightarrow> string \<Rightarrow> RouterView \<Rightarrow> (string \<rightharpoonup> keepEntry) \<Rightarrow> RouterView \<times> (string \<rightharpoonup> keepEntry)" where
  "merge_router s genAt now addr rv pk =
     (if po_setGen s addr \<noteq> genAt addr then
        (case findRouterView (po_snap s) addr of Some cur \<Rightarrow> (cur, pk) | None \<Rightarrow> (rv, pk))
      else case pk addr of
          None \<Rightarrow> (rv, pk)
        | Some e \<Rightarrow>
            if now > ke_revertAt e then (expire_view rv, pk(addr := None))
            else if rv_Reachable rv then (rv\<lparr>rv_State := RouterAwaitingKeep, rv_RevertAt := ke_revertAt e\<rparr>, pk)
            else (rv, pk))"

fun merge_routers ::
    "pstate \<Rightarrow> (string \<Rightarrow> nat) \<Rightarrow> time \<Rightarrow> (string \<times> RouterView) list \<Rightarrow> (string \<rightharpoonup> keepEntry) \<Rightarrow>
     RouterView list \<times> (string \<rightharpoonup> keepEntry)" where
  "merge_routers s genAt now [] pk = ([], pk)"
| "merge_routers s genAt now ((addr, rv) # rest) pk =
     (case merge_router s genAt now addr rv pk of
        (rv', pk') \<Rightarrow> (case merge_routers s genAt now rest pk' of (rvs, pk'') \<Rightarrow> (rv' # rvs, pk'')))"

text \<open>What a refresh has gathered before its merge.\<close>

record gathered =
  ga_now :: time
  ga_nodes :: "NodeView list"
  ga_netmapAt :: time
  ga_netmapErr :: string
  ga_addrs :: "string list"
  ga_fallback :: bool
  ga_genAt :: "string \<Rightarrow> nat"
  ga_routers :: "RouterView list"

definition refresh_inventory :: "pconfig \<Rightarrow> go_error + NodeView list \<Rightarrow> time \<Rightarrow> Snapshot \<Rightarrow> gathered" where
  "refresh_inventory cfg inven now prev =
     (let nodes = (case inven of Inr ns \<Rightarrow> ns | Inl _ \<Rightarrow> sn_Nodes prev);
          (addrs, fallback) = router_set cfg nodes
      in \<lparr>ga_now = now, ga_nodes = nodes,
          ga_netmapAt = (case inven of Inr _ \<Rightarrow> now | Inl _ \<Rightarrow> sn_NetmapAt prev),
          ga_netmapErr = (case inven of Inr _ \<Rightarrow> [] | Inl e \<Rightarrow> Error e),
          ga_addrs = addrs, ga_fallback = fallback, ga_genAt = (\<lambda>_. 0), ga_routers = []\<rparr>)"

definition refresh_capture :: "pstate \<Rightarrow> gathered \<Rightarrow> gathered" where
  "refresh_capture s ga = ga\<lparr>ga_genAt := po_setGen s\<rparr>"

definition refresh_dial :: "pconfig \<Rightarrow> 'w router_ops \<Rightarrow> time \<Rightarrow> Snapshot \<Rightarrow> gathered \<Rightarrow> 'w \<Rightarrow> gathered \<times> 'w" where
  "refresh_dial cfg rc dialAt prev ga w =
     (case build_views cfg rc dialAt (ga_fallback ga) (ga_nodes ga) prev (ga_addrs ga) w of
        (rvs, w1) \<Rightarrow> (ga\<lparr>ga_routers := rvs\<rparr>, w1))"

definition refresh_merge :: "Group list \<Rightarrow> time \<Rightarrow> gathered \<Rightarrow> pstate \<Rightarrow> pstate" where
  "refresh_merge gs mergeAt ga s =
     (case merge_routers s (ga_genAt ga) mergeAt (zip (ga_addrs ga) (ga_routers ga)) (po_pendingKeep s) of
        (rvs, pk) \<Rightarrow>
          (let snap = \<lparr>sn_Nodes = ga_nodes ga, sn_Routers = rvs, sn_Groups = buildGroupViews gs (ga_nodes ga),
                       sn_NetmapAt = ga_netmapAt ga, sn_NetmapErr = ga_netmapErr ga, sn_BuiltAt = ga_now ga\<rparr>
           in Broadcast snap (s\<lparr>po_snap := snap, po_pendingKeep := pk\<rparr>)))"

record refresh_times =
  tr_now :: time
  tr_dial :: time
  tr_merge :: time

definition refreshOnce ::
    "pconfig \<Rightarrow> 'w router_ops \<Rightarrow> go_error + NodeView list \<Rightarrow> Group list \<Rightarrow> refresh_times \<Rightarrow> pstate \<times> 'w \<Rightarrow>
     go_error option \<times> pstate \<times> 'w" where
  "refreshOnce cfg rc inven gs ts sw =
     (case sw of (s, w) \<Rightarrow>
        (let ga = refresh_capture s (refresh_inventory cfg inven (tr_now ts) (po_snap s))
         in case refresh_dial cfg rc (tr_dial ts) (po_snap s) ga w of
              (ga', w1) \<Rightarrow>
                ((case inven of Inl e \<Rightarrow> Some e | Inr _ \<Rightarrow> None), refresh_merge gs (tr_merge ts) ga' s, w1)))"

definition RefreshGroups :: "Group list \<Rightarrow> time \<Rightarrow> pstate \<Rightarrow> pstate" where
  "RefreshGroups gs now s =
     (let snap = (po_snap s)\<lparr>sn_Groups := buildGroupViews gs (sn_Nodes (po_snap s)), sn_BuiltAt := now\<rparr>
      in Broadcast snap (s\<lparr>po_snap := snap\<rparr>))"

subsection \<open>The idle-aware loop\<close>

text \<open>
  The variables of \<^verbatim>\<open>Run\<close>: whether it is active, whether the ticker runs and whether the linger timer is
  armed. An event is what the \<^verbatim>\<open>select\<close> receives; the second component of the result says whether a refresh
  is made.
\<close>

record run_state =
  ru_active :: bool
  ru_ticker :: bool
  ru_linger :: bool

datatype run_event = Clients nat | LingerFires | Tick

definition run_init :: run_state where
  "run_init = \<lparr>ru_active = False, ru_ticker = False, ru_linger = False\<rparr>"

fun run_step_loop :: "run_event \<Rightarrow> run_state \<Rightarrow> run_state \<times> bool" where
  "run_step_loop (Clients n) r =
     (if n > 0 then
        (let r1 = r\<lparr>ru_linger := False\<rparr>
         in if \<not> ru_active r1 then (r1\<lparr>ru_active := True, ru_ticker := True\<rparr>, True) else (r1, False))
      else if ru_active r then (r\<lparr>ru_linger := True\<rparr>, False)
      else (r, False))"
| "run_step_loop LingerFires r = (r\<lparr>ru_active := False, ru_ticker := False, ru_linger := False\<rparr>, False)"
| "run_step_loop Tick r = (r, True)"

fun run_enabled :: "run_event \<Rightarrow> run_state \<Rightarrow> bool" where
  "run_enabled (Clients n) r \<longleftrightarrow> True"
| "run_enabled LingerFires r \<longleftrightarrow> ru_linger r"
| "run_enabled Tick r \<longleftrightarrow> ru_ticker r"

end
