(* ===== verification/Api.thy ===== *)
theory Api
  imports Api_Session Api_Wire Group_Store Guest_Store Poller
begin

section \<open>Package api: middleware, handlers and routes\<close>

text \<open>
  \<^verbatim>\<open>internal/api/api.go\<close>: authentication, Host pinning, the CSRF check, the authorization of router writes,
  and the bootstrap handlers; the data handlers and the routing table follow in the next theory. A handler is a function of the request's
  environment, the request and the state of the system; its result is the response and the new state,
  or \<open>None\<close> where the code does not return (the identifier generator of a store retrying for ever).

  The system is the poller with its published snapshot (the \<^verbatim>\<open>store.Store\<close> the handlers load from), the world
  of routers, the two persisted stores (\<open>None\<close> for a store that is not wired) and the files. A handler is
  one step here; how the phases of concurrent controller operations interleave is the subject of the
  theory of poller steps.

  Parameters of the model: the Unicode tables, \<^verbatim>\<open>url.Parse\<close> (by the host it finds, or its failure) and the two
  bcrypt functions. Texts of I/O errors are without their package prefix and path.
\<close>

subsection \<open>State, environment, requests and responses\<close>

record 'w system =
  sy_poller :: pstate
  sy_world :: 'w
  sy_groups :: "GroupsStore option"
  sy_guests :: "GuestsStore option"
  sy_files :: files

text \<open>What one request finds in its environment: the clock, \<^verbatim>\<open>WhoIs\<close>, random bytes and the outcomes of file I/O.\<close>

record env =
  ev_now :: time
  ev_whois :: "string \<Rightarrow> go_error + string \<times> bool"
  ev_nonce :: "string + string"
  ev_token :: "string + nat list"
  ev_random :: random_source
  ev_io :: io
  ev_set :: set_times
  ev_keepAt :: time
  ev_keepBuilt :: time
  ev_probe :: probe_times
  ev_refreshed :: time

record 'w API =
  a_owner :: string
  a_uiPassword :: string
  a_sessionSecret :: string
  a_allowedHosts :: "string set"
  a_fold :: "nat \<Rightarrow> nat"
  a_lower :: "nat \<Rightarrow> nat"
  a_urlHost :: "string \<Rightarrow> string option"
  a_bcryptCompare :: "string \<Rightarrow> string \<Rightarrow> bool"
  a_bcryptGenerate :: "string \<Rightarrow> string + string"
  a_dummyHash :: string
  a_cfg :: pconfig
  a_rc :: "'w router_ops"

text \<open>
  What a JSON decoder reads from a body cut off after so many bytes: nothing, an error, or a document,
  with the text of the error that decoding it into a struct would give on a value of the wrong type.
\<close>

datatype body = BodyEOF | BodyErr string | BodyDoc json string

record 'w request =
  rq_Method :: string
  rq_Host :: string
  rq_RemoteAddr :: string
  rq_Origin :: string
  rq_SecFetchSite :: string
  rq_CSRF :: string
  rq_cookie :: "string \<rightharpoonup> string"
  rq_path :: "string list"
  rq_body :: "nat \<Rightarrow> body"
  rq_ctx :: "(env \<times> 'w system) reqcontext"

record set_cookie =
  sc_Name :: string
  sc_Value :: string
  sc_HttpOnly :: bool
  sc_SameSiteStrict :: bool
  sc_MaxAge :: int

record response =
  rsp_status :: nat
  rsp_body :: "json option"
  rsp_cookies :: "set_cookie list"

type_synonym 'w result = "(response \<times> 'w system) option"
type_synonym 'w handler = "env \<Rightarrow> 'w request \<Rightarrow> 'w system \<Rightarrow> 'w result"

definition writeJSON :: "nat \<Rightarrow> json \<Rightarrow> response" where
  "writeJSON st v = \<lparr>rsp_status = st, rsp_body = Some v, rsp_cookies = []\<rparr>"

definition writeErr :: "nat \<Rightarrow> string \<Rightarrow> response" where
  "writeErr st msg = writeJSON st (JObj [(''error'', js msg)])"

definition writeErrDetail :: "nat \<Rightarrow> string \<Rightarrow> string \<Rightarrow> string \<Rightarrow> response" where
  "writeErrDetail st errMsg detail stderr =
     writeJSON st (JObj [(''detail'', js detail), (''error'', js errMsg), (''stderr'', js stderr)])"

definition WriteHeader :: "nat \<Rightarrow> response" where
  "WriteHeader st = \<lparr>rsp_status = st, rsp_body = None, rsp_cookies = []\<rparr>"

definition json_ok :: json where
  "json_ok = JObj [(''ok'', JBool True)]"

definition decode_body :: "(json \<Rightarrow> 'r option) \<Rightarrow> 'r \<Rightarrow> body \<Rightarrow> string + 'r" where
  "decode_body dec zero b =
     (case b of
        BodyEOF \<Rightarrow> Inr zero
      | BodyErr e \<Rightarrow> Inl e
      | BodyDoc doc e \<Rightarrow> (case dec doc of None \<Rightarrow> Inl e | Some r \<Rightarrow> Inr r))"

subsection \<open>Construction\<close>

record api_config =
  ac_Owner :: string
  ac_UIPassword :: string
  ac_AllowedHosts :: "string list"

text \<open>
  \<^verbatim>\<open>api.New\<close>: the allowlist is normalised (empty entries are dropped) and the secret is drawn; a failing
  random source is a panic. \<open>base\<close> carries the injected dependencies.
\<close>

definition api_New :: "'w API \<Rightarrow> api_config \<Rightarrow> string + string \<Rightarrow> 'w API option" where
  "api_New base cfg rnd =
     (case rnd of
        Inl e \<Rightarrow> None
      | Inr secret \<Rightarrow> Some (base\<lparr>a_owner := ac_Owner cfg, a_uiPassword := ac_UIPassword cfg, a_sessionSecret := secret,
          a_allowedHosts := {n. n \<noteq> [] \<and> n \<in> normalizeHost (a_lower base) ` set (ac_AllowedHosts cfg)}\<rparr>))"

subsection \<open>Host pinning and the CSRF check\<close>

definition hostAllowed :: "'w API \<Rightarrow> string \<Rightarrow> bool" where
  "hostAllowed a host = (let h = normalizeHost (a_lower a) host in h \<noteq> [] \<and> h \<in> a_allowedHosts a)"

definition RequireHost :: "'w API \<Rightarrow> 'w handler \<Rightarrow> 'w handler" where
  "RequireHost a next env r sys =
     (if \<not> hostAllowed a (rq_Host r) then Some (writeErr 403 ''bad Host header'', sys) else next env r sys)"

definition origin_ok :: "'w API \<Rightarrow> 'w request \<Rightarrow> bool" where
  "origin_ok a r \<longleftrightarrow>
     rq_Origin r = [] \<or>
     (case a_urlHost a (rq_Origin r) of
        None \<Rightarrow> False
      | Some h \<Rightarrow> EqualFold (a_fold a) (normalizeHost (a_lower a) h) (normalizeHost (a_lower a) (rq_Host r)))"

definition fetch_site_ok :: "'w request \<Rightarrow> bool" where
  "fetch_site_ok r \<longleftrightarrow> rq_SecFetchSite r = [] \<or> rq_SecFetchSite r = ''same-origin'' \<or> rq_SecFetchSite r = ''none''"

definition double_submit_ok :: "'w request \<Rightarrow> bool" where
  "double_submit_ok r \<longleftrightarrow>
     rq_CSRF r \<noteq> [] \<and> (case rq_cookie r ''tsctl_csrf'' of None \<Rightarrow> False | Some v \<Rightarrow> v \<noteq> [] \<and> rq_CSRF r = v)"

definition RequireCSRF :: "'w API \<Rightarrow> 'w handler \<Rightarrow> 'w handler" where
  "RequireCSRF a next env r sys =
     (if rq_Method r = ''GET'' \<or> rq_Method r = ''HEAD'' then next env r sys
      else if \<not> origin_ok a r then Some (writeErr 403 ''bad Origin'', sys)
      else if \<not> fetch_site_ok r then Some (writeErr 403 ''cross-site request blocked'', sys)
      else if \<not> double_submit_ok r then Some (writeErr 403 ''invalid CSRF token'', sys)
      else next env r sys)"

subsection \<open>Authentication\<close>

definition tailnet_owner :: "'w API \<Rightarrow> env \<Rightarrow> 'w request \<Rightarrow> bool" where
  "tailnet_owner a env r \<longleftrightarrow>
     a_owner a \<noteq> [] \<and>
     (case ev_whois env (rq_RemoteAddr r) of
        Inl _ \<Rightarrow> False
      | Inr (login, tagged) \<Rightarrow> \<not> tagged \<and> login \<noteq> [] \<and> login = a_owner a)"

definition resolveSubject :: "'w API \<Rightarrow> env \<Rightarrow> 'w request \<Rightarrow> 'w system \<Rightarrow> Subject option" where
  "resolveSubject a env r sys =
     (if tailnet_owner a env r then Some (zero_Subject\<lparr>sub_Admin := True\<rparr>)
      else case parseSession (a_sessionSecret a) (ev_now env) (rq_cookie r ''tsctl_session'') of
          None \<Rightarrow> None
        | Some sub \<Rightarrow>
            if sub_Admin sub then Some sub
            else (case sy_guests sys of
                None \<Rightarrow> None
              | Some us \<Rightarrow>
                  (case guests_Get us (sub_GuestID sub) of
                     None \<Rightarrow> None
                   | Some g \<Rightarrow>
                       if gu_Disabled g then None
                       else (case sy_groups sys of
                           None \<Rightarrow> None
                         | Some gs \<Rightarrow>
                             (case groups_Get gs (gu_ZoneID g) of
                                None \<Rightarrow> None
                              | Some _ \<Rightarrow> Some (zero_Subject\<lparr>sub_GuestID := gu_ID g, sub_ZoneID := gu_ZoneID g\<rparr>))))))"

definition auth_context :: "'w API \<Rightarrow> 'w request \<Rightarrow> Subject \<Rightarrow> (env \<times> 'w system) reqcontext" where
  "auth_context a r sub =
     WithRevalidate (WithSubject (rq_ctx r) sub) (\<lambda>(env, sys). resolveSubject a env r sys \<noteq> None)"

definition RequireAuth :: "'w API \<Rightarrow> 'w handler \<Rightarrow> 'w handler" where
  "RequireAuth a next env r sys =
     (case resolveSubject a env r sys of
        None \<Rightarrow> Some (writeErr 401 ''login required'', sys)
      | Some sub \<Rightarrow> next env (r\<lparr>rq_ctx := auth_context a r sub\<rparr>) sys)"

definition RequireAdmin :: "'w handler \<Rightarrow> 'w handler" where
  "RequireAdmin next env r sys =
     (case SubjectFromContext (rq_ctx r) of
        None \<Rightarrow> Some (writeErr 403 ''admin only'', sys)
      | Some sub \<Rightarrow> if \<not> sub_Admin sub then Some (writeErr 403 ''admin only'', sys) else next env r sys)"

subsection \<open>Bootstrap handlers\<close>

record login_body =
  lb_Label :: string
  lb_Password :: string

definition login_fields :: "string list" where
  "login_fields = [''label'', ''password'']"

definition upd_login :: "(nat \<Rightarrow> nat) \<Rightarrow> string \<Rightarrow> json \<Rightarrow> login_body \<Rightarrow> login_body option" where
  "upd_login uf k v b =
     (case json_key uf login_fields k of
        None \<Rightarrow> Some b
      | Some f \<Rightarrow>
          if f = ''label'' then map_option (\<lambda>x. b\<lparr>lb_Label := x\<rparr>) (dec_string v (lb_Label b))
          else map_option (\<lambda>x. b\<lparr>lb_Password := x\<rparr>) (dec_string v (lb_Password b)))"

definition session_cookie :: "string \<Rightarrow> int \<Rightarrow> set_cookie" where
  "session_cookie val maxAge = \<lparr>sc_Name = ''tsctl_session'', sc_Value = val, sc_HttpOnly = True, sc_SameSiteStrict = True,
     sc_MaxAge = maxAge\<rparr>"

text \<open>Who a login's credentials are: an error response or the subject.\<close>

definition login_subject :: "'w API \<Rightarrow> login_body \<Rightarrow> 'w system \<Rightarrow> response + Subject" where
  "login_subject a body sys =
     (if TrimSpace (lb_Label body) = [] then
        (if a_uiPassword a = [] then Inl (writeErr 404 ''password login is disabled'')
         else if lb_Password body \<noteq> a_uiPassword a then Inl (writeErr 401 ''invalid credentials'')
         else Inr (zero_Subject\<lparr>sub_Admin := True\<rparr>))
      else case sy_guests sys of
          None \<Rightarrow> Inl (writeErr 401 ''invalid credentials'')
        | Some us \<Rightarrow>
            (case fst (Authenticate (a_fold a) (a_bcryptCompare a) (a_dummyHash a) us (lb_Label body) (lb_Password body)) of
               None \<Rightarrow> Inl (writeErr 401 ''invalid credentials'')
             | Some g \<Rightarrow> Inr (zero_Subject\<lparr>sub_GuestID := gu_ID g, sub_ZoneID := gu_ZoneID g\<rparr>)))"

definition handleLogin :: "'w API \<Rightarrow> 'w handler" where
  "handleLogin a env r sys =
     (case decode_body (dec_object (upd_login (a_fold a)) \<lparr>lb_Label = [], lb_Password = []\<rparr>)
             \<lparr>lb_Label = [], lb_Password = []\<rparr> (rq_body r 4096) of
        Inl e \<Rightarrow> Some (writeErrDetail 400 ''invalid request body'' e [], sys)
      | Inr body \<Rightarrow>
          (case login_subject a body sys of
             Inl resp \<Rightarrow> Some (resp, sys)
           | Inr sub \<Rightarrow>
               (case newSessionValue (a_sessionSecret a) (ev_now env) (ev_nonce env) sub of
                  Inl _ \<Rightarrow> Some (writeErr 500 ''could not create session'', sys)
                | Inr val \<Rightarrow>
                    Some ((writeJSON 200 json_ok)\<lparr>rsp_cookies := [session_cookie val (sessionTTL div second)]\<rparr>, sys))))"

definition handleLogout :: "'w handler" where
  "handleLogout env r sys = Some ((writeJSON 200 json_ok)\<lparr>rsp_cookies := [session_cookie [] (-1)]\<rparr>, sys)"

definition randomToken :: "string + nat list \<Rightarrow> string + string" where
  "randomToken rnd = (case rnd of Inl e \<Rightarrow> Inl e | Inr bs \<Rightarrow> Inr (EncodeToString bs))"

definition handleCSRF :: "'w handler" where
  "handleCSRF env r sys =
     (case randomToken (ev_token env) of
        Inl _ \<Rightarrow> Some (writeErr 500 ''could not generate CSRF token'', sys)
      | Inr tok \<Rightarrow>
          Some ((writeJSON 200 (JObj [(''token'', js tok)]))
            \<lparr>rsp_cookies := [\<lparr>sc_Name = ''tsctl_csrf'', sc_Value = tok, sc_HttpOnly = False, sc_SameSiteStrict = True, sc_MaxAge = 0\<rparr>]\<rparr>,
            sys))"

end
