(* ===== verification/Api_Handlers.thy ===== *)
theory Api_Handlers
  imports Api
begin

section \<open>Package api: data handlers and routes\<close>

text \<open>
  The handlers behind authentication, in the order of \<^verbatim>\<open>internal/api/api.go\<close> (reads, router writes with their
  authorization choke point, zone CRUD, guest CRUD), and \<^verbatim>\<open>Routes\<close>: the two muxes with the middleware around
  them. A mux pattern with method GET also serves HEAD; a path without a pattern is 404, a path with
  patterns for other methods only is 405. A path is the list of its segments after \<^verbatim>\<open>/api/\<close>.
\<close>

subsection \<open>Reads\<close>

abbreviation sy_snap :: "'w system \<Rightarrow> Snapshot" where
  "sy_snap sys \<equiv> po_snap (sy_poller sys)"

abbreviation subject_of :: "'w request \<Rightarrow> Subject option" where
  "subject_of r \<equiv> SubjectFromContext (rq_ctx r)"

definition handleMe :: "'w handler" where
  "handleMe env r sys =
     (case subject_of r of
        None \<Rightarrow> Some (writeErr 401 ''login required'', sys)
      | Some sub \<Rightarrow>
          if sub_Admin sub then
            Some (writeJSON 200 (json_MeResponse \<lparr>me_Role = ''admin'', me_ZoneID = [], me_ZoneName = []\<rparr>), sys)
          else (let zoneName = (case sy_groups sys of
                     None \<Rightarrow> []
                   | Some gs \<Rightarrow> (case groups_Get gs (sub_ZoneID sub) of None \<Rightarrow> [] | Some g \<Rightarrow> g_Name g))
                in Some (writeJSON 200 (json_MeResponse
                     \<lparr>me_Role = ''guest'', me_ZoneID = sub_ZoneID sub, me_ZoneName = zoneName\<rparr>), sys)))"

definition handleNodes :: "'w handler" where
  "handleNodes env r sys =
     (case subject_of r of
        None \<Rightarrow> Some (writeErr 401 ''login required'', sys)
      | Some sub \<Rightarrow>
          (let snap = (if sub_Admin sub then sy_snap sys else FilterSnapshotToZone (sy_snap sys) (sub_ZoneID sub))
           in Some (writeJSON 200 (json_NodesResponse \<lparr>nr_Nodes = nodeDTOs (sn_Nodes snap), nr_BuiltAt = rfc3339 (sn_BuiltAt snap),
                nr_NetmapErr = sn_NetmapErr snap\<rparr>), sys)))"

definition containsStr :: "string list \<Rightarrow> string \<Rightarrow> bool" where
  "containsStr ss s = List.member ss s"

definition routerInZone :: "'w system \<Rightarrow> string \<Rightarrow> string \<Rightarrow> bool" where
  "routerInZone sys zoneID routerID =
     (case sy_groups sys of
        None \<Rightarrow> False
      | Some gs \<Rightarrow> (case groups_Get gs zoneID of None \<Rightarrow> False | Some g \<Rightarrow> containsStr (g_Consumers g) routerID))"

definition router_not_found :: "string \<Rightarrow> response" where
  "router_not_found ident = writeErrDetail 404 ''router not found'' (''no router with id '' @ ident) []"

definition handleRouter :: "string \<Rightarrow> 'w handler" where
  "handleRouter ident env r sys =
     (case subject_of r of
        None \<Rightarrow> Some (writeErr 401 ''login required'', sys)
      | Some sub \<Rightarrow>
          if \<not> sub_Admin sub \<and> \<not> routerInZone sys (sub_ZoneID sub) ident then Some (router_not_found ident, sys)
          else (case findRouterViewByStableID (sy_snap sys) ident of
              Some rv \<Rightarrow> Some (writeJSON 200 (json_RouterViewDTO (routerViewDTO rv)), sys)
            | None \<Rightarrow> Some (router_not_found ident, sys)))"

subsection \<open>Router writes\<close>

text \<open>The choke point: \<open>None\<close> allows, a response refuses (always the same one).\<close>

definition forbidden :: response where
  "forbidden = writeErr 403 ''forbidden''"

definition authorizeRouterWrite :: "'w request \<Rightarrow> 'w system \<Rightarrow> string \<Rightarrow> string \<Rightarrow> response option" where
  "authorizeRouterWrite r sys routerID target =
     (case subject_of r of
        None \<Rightarrow> Some forbidden
      | Some sub \<Rightarrow>
          if sub_Admin sub then None
          else (case sy_groups sys of
              None \<Rightarrow> Some forbidden
            | Some gs \<Rightarrow>
                (case groups_Get gs (sub_ZoneID sub) of
                   None \<Rightarrow> Some forbidden
                 | Some g \<Rightarrow>
                     if \<not> containsStr (g_Consumers g) routerID then Some forbidden
                     else if target \<noteq> [] \<and> \<not> containsStr (g_AllowedExitNodes g) target then Some forbidden
                     else None)))"

definition upd_exitNode :: "(nat \<Rightarrow> nat) \<Rightarrow> string \<Rightarrow> json \<Rightarrow> string \<Rightarrow> string option" where
  "upd_exitNode uf k v b = (case json_key uf [''exitNode''] k of None \<Rightarrow> Some b | Some _ \<Rightarrow> dec_string v b)"

definition control_response :: "controlError \<Rightarrow> response" where
  "control_response e = writeErrDetail (ctl_status e) (ctl_msg e) (ctl_detail e) (ctl_stderr e)"

text \<open>The zones the poller reads are those of the group store.\<close>

definition sy_zones :: "'w system \<Rightarrow> Group list" where
  "sy_zones sys = (case sy_groups sys of None \<Rightarrow> [] | Some gs \<Rightarrow> groups_List gs)"

definition with_poller :: "'w system \<Rightarrow> pstate \<times> 'w \<Rightarrow> 'w system" where
  "with_poller sys pw = sys\<lparr>sy_poller := fst pw, sy_world := snd pw\<rparr>"

definition handleSetExitNode :: "'w API \<Rightarrow> string \<Rightarrow> 'w handler" where
  "handleSetExitNode a ident env r sys =
     (case decode_body (dec_object (upd_exitNode (a_fold a)) []) [] (rq_body r 4096) of
        Inl e \<Rightarrow> Some (writeErrDetail 400 ''invalid request body'' e [], sys)
      | Inr target \<Rightarrow>
          (case authorizeRouterWrite r sys ident target of
             Some resp \<Rightarrow> Some (resp, sys)
           | None \<Rightarrow>
               (case SetExitNode (a_cfg a) (a_rc a) (sy_zones sys) (ev_set env) ident target (sy_poller sys, sy_world sys) of
                  ((rv, Some e), pw) \<Rightarrow> Some (control_response e, with_poller sys pw)
                | ((rv, None), pw) \<Rightarrow> Some (writeJSON 200 (json_RouterViewDTO (routerViewDTO rv)), with_poller sys pw))))"

definition handleKeep :: "'w API \<Rightarrow> string \<Rightarrow> 'w handler" where
  "handleKeep a ident env r sys =
     (case authorizeRouterWrite r sys ident [] of
        Some resp \<Rightarrow> Some (resp, sys)
      | None \<Rightarrow>
          (case Keep (a_rc a) (ev_keepAt env) (ev_keepBuilt env) ident (sy_poller sys, sy_world sys) of
             (Inl e, pw) \<Rightarrow> Some (control_response e, with_poller sys pw)
           | (Inr rv, pw) \<Rightarrow> Some (writeJSON 200 (json_RouterViewDTO (routerViewDTO rv)), with_poller sys pw)))"

definition handleProbe :: "'w API \<Rightarrow> string \<Rightarrow> 'w handler" where
  "handleProbe a ident env r sys =
     (case authorizeRouterWrite r sys ident [] of
        Some resp \<Rightarrow> Some (resp, sys)
      | None \<Rightarrow>
          (case Probe (a_cfg a) (a_rc a) (ev_probe env) ident (sy_poller sys, sy_world sys) of
             (Inl e, pw) \<Rightarrow> Some (control_response e, with_poller sys pw)
           | (Inr res, pw) \<Rightarrow> Some (writeJSON 200 (json_ProbeResult res), with_poller sys pw)))"

subsection \<open>Zone CRUD\<close>

abbreviation groupReqLimit :: nat where "groupReqLimit \<equiv> 65536"

record groupRequest =
  gq_Name :: string
  gq_Consumers :: "string list"
  gq_AllowedExitNodes :: "string list"

definition zero_groupRequest :: groupRequest where
  "zero_groupRequest = \<lparr>gq_Name = [], gq_Consumers = [], gq_AllowedExitNodes = []\<rparr>"

definition upd_groupRequest :: "(nat \<Rightarrow> nat) \<Rightarrow> string \<Rightarrow> json \<Rightarrow> groupRequest \<Rightarrow> groupRequest option" where
  "upd_groupRequest uf k v b =
     (case json_key uf [''name'', ''consumers'', ''allowedExitNodes''] k of
        None \<Rightarrow> Some b
      | Some f \<Rightarrow>
          if f = ''name'' then map_option (\<lambda>x. b\<lparr>gq_Name := x\<rparr>) (dec_string v (gq_Name b))
          else if f = ''consumers'' then map_option (\<lambda>x. b\<lparr>gq_Consumers := x\<rparr>) (dec_strings v (gq_Consumers b))
          else map_option (\<lambda>x. b\<lparr>gq_AllowedExitNodes := x\<rparr>) (dec_strings v (gq_AllowedExitNodes b)))"

definition decodeGroupBody :: "'w API \<Rightarrow> 'w request \<Rightarrow> response + groupRequest" where
  "decodeGroupBody a r =
     (case decode_body (dec_object (upd_groupRequest (a_fold a)) zero_groupRequest) zero_groupRequest (rq_body r groupReqLimit) of
        Inl e \<Rightarrow> Inl (writeErrDetail 400 ''invalid request body'' e [])
      | Inr b \<Rightarrow> Inr b)"

definition request_group :: "groupRequest \<Rightarrow> Group" where
  "request_group b = \<lparr>g_ID = [], g_Name = gq_Name b, g_Consumers = gq_Consumers b, g_AllowedExitNodes = gq_AllowedExitNodes b\<rparr>"

text \<open>The texts of a store's errors; \<open>kind\<close> is the noun of the store.\<close>

fun detail_text :: "store_detail \<Rightarrow> string" where
  "detail_text EmptyName = ''name must not be empty''"
| "detail_text (EmptyMember field) = field @ '' contains an empty member StableID''"
| "detail_text (NameTaken n) = ''a zone named '' @ Quote n @ '' already exists''"
| "detail_text EmptyLabel = ''label must not be empty''"
| "detail_text EmptyZoneID = ''zoneId must not be empty''"
| "detail_text PasswordTooShort = ''password must be at least 8 characters''"
| "detail_text PasswordTooLong = ''password must be at most 72 bytes''"
| "detail_text (LabelTaken l) = ''a guest labeled '' @ Quote l @ '' already exists''"

fun store_Error :: "string \<Rightarrow> store_error \<Rightarrow> string" where
  "store_Error kind (NotFoundErr i) = kind @ '' not found''"
| "store_Error kind (ValidationErr d) = ''invalid '' @ kind"
| "store_Error kind (PlainErr m) = m"

fun store_Detail :: "string \<Rightarrow> store_error \<Rightarrow> string" where
  "store_Detail kind (NotFoundErr i) = ''no '' @ kind @ '' with id '' @ i"
| "store_Detail kind (ValidationErr d) = detail_text d"
| "store_Detail kind (PlainErr m) = []"

definition writeGroupErr :: "string \<Rightarrow> store_error \<Rightarrow> response" where
  "writeGroupErr kind e =
     writeErrDetail (case store_HTTPStatus e of Some st \<Rightarrow> st | None \<Rightarrow> 422) (store_Error kind e) (store_Detail kind e) []"

definition refresh_groups :: "env \<Rightarrow> 'w system \<Rightarrow> 'w system" where
  "refresh_groups env sys = sys\<lparr>sy_poller := RefreshGroups (sy_zones sys) (ev_refreshed env) (sy_poller sys)\<rparr>"

definition with_groups :: "'w system \<Rightarrow> GroupsStore \<Rightarrow> files \<Rightarrow> 'w system" where
  "with_groups sys gs fs = sys\<lparr>sy_groups := Some gs, sy_files := fs\<rparr>"

definition handleListGroups :: "GroupsStore \<Rightarrow> 'w handler" where
  "handleListGroups gs env r sys =
     Some (writeJSON 200 (JArr (map json_GroupDTO (groupDTOs (groups_List gs)))), sys)"

definition handleCreateGroup :: "'w API \<Rightarrow> GroupsStore \<Rightarrow> 'w handler" where
  "handleCreateGroup a gs env r sys =
     (case decodeGroupBody a r of
        Inl resp \<Rightarrow> Some (resp, sys)
      | Inr body \<Rightarrow>
          (case groups_Create (a_fold a) (ev_io env) (ev_random env) (request_group body) gs (sy_files sys) of
             None \<Rightarrow> None
           | Some (Inl e, gs', fs') \<Rightarrow> Some (writeGroupErr ''group'' e, with_groups sys gs' fs')
           | Some (Inr g, gs', fs') \<Rightarrow>
               Some (writeJSON 201 (json_GroupDTO (groupDTO g)), refresh_groups env (with_groups sys gs' fs'))))"

definition handleUpdateGroup :: "'w API \<Rightarrow> GroupsStore \<Rightarrow> string \<Rightarrow> 'w handler" where
  "handleUpdateGroup a gs ident env r sys =
     (case decodeGroupBody a r of
        Inl resp \<Rightarrow> Some (resp, sys)
      | Inr body \<Rightarrow>
          (case groups_Update (a_fold a) (ev_io env) ident (request_group body) gs (sy_files sys) of
             (Inl e, gs', fs') \<Rightarrow> Some (writeGroupErr ''group'' e, with_groups sys gs' fs')
           | (Inr g, gs', fs') \<Rightarrow>
               Some (writeJSON 200 (json_GroupDTO (groupDTO g)), refresh_groups env (with_groups sys gs' fs'))))"

definition zone_in_use :: "'w system \<Rightarrow> string \<Rightarrow> bool" where
  "zone_in_use sys ident \<longleftrightarrow> (case sy_guests sys of None \<Rightarrow> False | Some us \<Rightarrow> \<exists>g \<in> set (guests_List us). gu_ZoneID g = ident)"

definition handleDeleteGroup :: "GroupsStore \<Rightarrow> string \<Rightarrow> 'w handler" where
  "handleDeleteGroup gs ident env r sys =
     (if zone_in_use sys ident then
        Some (writeErrDetail 409 ''zone in use'' ''a guest is assigned to this zone; delete or reassign the guest first'' [], sys)
      else (case groups_Delete (ev_io env) ident gs (sy_files sys) of
          (Some e, gs', fs') \<Rightarrow> Some (writeGroupErr ''group'' e, with_groups sys gs' fs')
        | (None, gs', fs') \<Rightarrow> Some (WriteHeader 204, refresh_groups env (with_groups sys gs' fs'))))"

subsection \<open>Guest CRUD\<close>

abbreviation guestReqLimit :: nat where "guestReqLimit \<equiv> 16384"

record guest_body =
  gb_Label :: string
  gb_ZoneID :: string
  gb_Password :: string

definition zero_guest_body :: guest_body where
  "zero_guest_body = \<lparr>gb_Label = [], gb_ZoneID = [], gb_Password = []\<rparr>"

definition upd_guest_body :: "(nat \<Rightarrow> nat) \<Rightarrow> string \<Rightarrow> json \<Rightarrow> guest_body \<Rightarrow> guest_body option" where
  "upd_guest_body uf k v b =
     (case json_key uf [''label'', ''zoneId'', ''password''] k of
        None \<Rightarrow> Some b
      | Some f \<Rightarrow>
          if f = ''label'' then map_option (\<lambda>x. b\<lparr>gb_Label := x\<rparr>) (dec_string v (gb_Label b))
          else if f = ''zoneId'' then map_option (\<lambda>x. b\<lparr>gb_ZoneID := x\<rparr>) (dec_string v (gb_ZoneID b))
          else map_option (\<lambda>x. b\<lparr>gb_Password := x\<rparr>) (dec_string v (gb_Password b)))"

definition upd_disabled :: "(nat \<Rightarrow> nat) \<Rightarrow> string \<Rightarrow> json \<Rightarrow> bool \<Rightarrow> bool option" where
  "upd_disabled uf k v b = (case json_key uf [''disabled''] k of None \<Rightarrow> Some b | Some _ \<Rightarrow> dec_bool v b)"

definition with_guests :: "'w system \<Rightarrow> GuestsStore \<Rightarrow> files \<Rightarrow> 'w system" where
  "with_guests sys us fs = sys\<lparr>sy_guests := Some us, sy_files := fs\<rparr>"

definition handleListGuests :: "GuestsStore \<Rightarrow> 'w handler" where
  "handleListGuests us env r sys =
     Some (writeJSON 200 (JArr (map json_GuestDTO (guestDTOs (guests_List us)))), sys)"

definition handleCreateGuest :: "'w API \<Rightarrow> GuestsStore \<Rightarrow> 'w handler" where
  "handleCreateGuest a us env r sys =
     (case decode_body (dec_object (upd_guest_body (a_fold a)) zero_guest_body) zero_guest_body (rq_body r guestReqLimit) of
        Inl e \<Rightarrow> Some (writeErrDetail 400 ''invalid request body'' e [], sys)
      | Inr body \<Rightarrow>
          (let zoneID = TrimSpace (gb_ZoneID body)
           in case sy_groups sys of
                None \<Rightarrow> Some (writeErrDetail 422 ''invalid guest'' ''no zones are configured'' [], sys)
              | Some gs \<Rightarrow>
                  (case groups_Get gs zoneID of
                     None \<Rightarrow> Some (writeErrDetail 422 ''invalid guest'' (''no zone with id '' @ gb_ZoneID body) [], sys)
                   | Some _ \<Rightarrow>
                       (case guests_Create (a_fold a) (a_bcryptGenerate a) (ev_io env) (ev_random env) (ev_now env)
                               (gb_Label body) zoneID (gb_Password body) us (sy_files sys) of
                          None \<Rightarrow> None
                        | Some (Inl e, us', fs') \<Rightarrow> Some (writeGroupErr ''guest'' e, with_guests sys us' fs')
                        | Some (Inr g, us', fs') \<Rightarrow>
                            Some (writeJSON 201 (json_GuestDTO (guestDTO g)), with_guests sys us' fs')))))"

definition handleSetGuestDisabled :: "'w API \<Rightarrow> GuestsStore \<Rightarrow> string \<Rightarrow> 'w handler" where
  "handleSetGuestDisabled a us ident env r sys =
     (case decode_body (dec_object (upd_disabled (a_fold a)) False) False (rq_body r guestReqLimit) of
        Inl e \<Rightarrow> Some (writeErrDetail 400 ''invalid request body'' e [], sys)
      | Inr disabled \<Rightarrow>
          (case SetDisabled (ev_io env) ident disabled us (sy_files sys) of
             (Inl e, us', fs') \<Rightarrow> Some (writeGroupErr ''guest'' e, with_guests sys us' fs')
           | (Inr g, us', fs') \<Rightarrow> Some (writeJSON 200 (json_GuestDTO (guestDTO g)), with_guests sys us' fs')))"

definition handleDeleteGuest :: "GuestsStore \<Rightarrow> string \<Rightarrow> 'w handler" where
  "handleDeleteGuest us ident env r sys =
     (case guests_Delete (ev_io env) ident us (sy_files sys) of
        (Some e, us', fs') \<Rightarrow> Some (writeGroupErr ''guest'' e, with_guests sys us' fs')
      | (None, us', fs') \<Rightarrow> Some (WriteHeader 204, with_guests sys us' fs'))"

subsection \<open>Routes\<close>

datatype endpoint =
    EpNodes | EpRouter string | EpExitNode string | EpKeep string | EpProbe string | EpMe
  | EpListGroups | EpCreateGroup | EpUpdateGroup string | EpDeleteGroup string
  | EpListGuests | EpCreateGuest | EpGuestDisabled string | EpDeleteGuest string

text \<open>The patterns of the data mux that match a path, with their methods.\<close>

definition data_patterns :: "bool \<Rightarrow> bool \<Rightarrow> string list \<Rightarrow> (string \<times> endpoint) list" where
  "data_patterns groups guests path =
     (case path of
        [s] \<Rightarrow>
          if s = ''nodes'' then [(''GET'', EpNodes)]
          else if s = ''me'' then [(''GET'', EpMe)]
          else if s = ''groups'' \<and> groups then [(''GET'', EpListGroups), (''POST'', EpCreateGroup)]
          else if s = ''guests'' \<and> guests then [(''GET'', EpListGuests), (''POST'', EpCreateGuest)]
          else []
      | [s, i] \<Rightarrow>
          if i = [] then []
          else if s = ''routers'' then [(''GET'', EpRouter i)]
          else if s = ''groups'' \<and> groups then [(''PUT'', EpUpdateGroup i), (''DELETE'', EpDeleteGroup i)]
          else if s = ''guests'' \<and> guests then [(''DELETE'', EpDeleteGuest i)]
          else []
      | [s, i, v] \<Rightarrow>
          if i = [] then []
          else if s = ''routers'' \<and> v = ''exit-node'' then [(''POST'', EpExitNode i)]
          else if s = ''routers'' \<and> v = ''keep'' then [(''POST'', EpKeep i)]
          else if s = ''routers'' \<and> v = ''probe'' then [(''POST'', EpProbe i)]
          else if s = ''guests'' \<and> v = ''disabled'' \<and> guests then [(''POST'', EpGuestDisabled i)]
          else []
      | _ \<Rightarrow> [])"

definition method_matches :: "string \<Rightarrow> string \<Rightarrow> bool" where
  "method_matches pat m \<longleftrightarrow> pat = m \<or> pat = ''GET'' \<and> m = ''HEAD''"

text \<open>The handler of an endpoint; the stores an endpoint uses are wired when it is registered.\<close>

definition on_groups :: "(GroupsStore \<Rightarrow> 'w handler) \<Rightarrow> 'w handler" where
  "on_groups h env r sys = (case sy_groups sys of None \<Rightarrow> None | Some gs \<Rightarrow> h gs env r sys)"

definition on_guests :: "(GuestsStore \<Rightarrow> 'w handler) \<Rightarrow> 'w handler" where
  "on_guests h env r sys = (case sy_guests sys of None \<Rightarrow> None | Some us \<Rightarrow> h us env r sys)"

fun endpoint_handler :: "'w API \<Rightarrow> endpoint \<Rightarrow> 'w handler" where
  "endpoint_handler a EpNodes = handleNodes"
| "endpoint_handler a (EpRouter i) = handleRouter i"
| "endpoint_handler a (EpExitNode i) = handleSetExitNode a i"
| "endpoint_handler a (EpKeep i) = handleKeep a i"
| "endpoint_handler a (EpProbe i) = handleProbe a i"
| "endpoint_handler a EpMe = handleMe"
| "endpoint_handler a EpListGroups = RequireAdmin (on_groups handleListGroups)"
| "endpoint_handler a EpCreateGroup = RequireAdmin (on_groups (handleCreateGroup a))"
| "endpoint_handler a (EpUpdateGroup i) = RequireAdmin (on_groups (\<lambda>gs. handleUpdateGroup a gs i))"
| "endpoint_handler a (EpDeleteGroup i) = RequireAdmin (on_groups (\<lambda>gs. handleDeleteGroup gs i))"
| "endpoint_handler a EpListGuests = RequireAdmin (on_guests handleListGuests)"
| "endpoint_handler a EpCreateGuest = RequireAdmin (on_guests (handleCreateGuest a))"
| "endpoint_handler a (EpGuestDisabled i) = RequireAdmin (on_guests (\<lambda>us. handleSetGuestDisabled a us i))"
| "endpoint_handler a (EpDeleteGuest i) = RequireAdmin (on_guests (\<lambda>us. handleDeleteGuest us i))"

definition data_mux :: "'w API \<Rightarrow> 'w handler" where
  "data_mux a env r sys =
     (let ps = data_patterns (sy_groups sys \<noteq> None) (sy_guests sys \<noteq> None) (rq_path r)
      in case List.find (\<lambda>p. method_matches (fst p) (rq_Method r)) ps of
           Some (_, ep) \<Rightarrow> endpoint_handler a ep env r sys
         | None \<Rightarrow> Some (WriteHeader (if ps = [] then 404 else 405), sys))"

definition api_mux :: "'w API \<Rightarrow> 'w handler" where
  "api_mux a env r sys =
     (if rq_path r = [''csrf''] \<and> method_matches ''GET'' (rq_Method r) then handleCSRF env r sys
      else if rq_path r = [''login''] \<and> rq_Method r = ''POST'' then handleLogin a env r sys
      else if rq_path r = [''logout''] \<and> rq_Method r = ''POST'' then handleLogout env r sys
      else RequireAuth a (data_mux a) env r sys)"

definition Routes :: "'w API \<Rightarrow> 'w handler" where
  "Routes a = RequireHost a (RequireCSRF a (api_mux a))"

end
