(* ===== verification/Api_Examples.thy ===== *)
theory Api_Examples
  imports Api_Handlers
begin

section \<open>A small system for the HTTP interface\<close>

text \<open>
  A concrete system used by the witnesses: one zone with one router, one guest bound to it, an administrator
  password and a router client whose changes always succeed.
\<close>

definition example_ops :: "unit router_ops" where
  "example_ops = \<lparr>ro_Status = (\<lambda>_ w. (Inr zero_RouterRuntime, w)), ro_Apply = (\<lambda>_ _ _ _ w. ((zero_RouterRuntime, ''m'', None), w)),
     ro_Keep = (\<lambda>_ _ w. (None, w)), ro_Probe = (\<lambda>_ w. (Inr ''up'', w)), ro_Egress = (\<lambda>_ _ w. (Inr (True, []), w))\<rparr>"

definition example_pconfig :: pconfig where
  "example_pconfig = \<lparr>pc_routers = [], pc_egressCheck = False, pc_egressURL = [], pc_requireKeep = False, pc_revertWindow = 60 * second\<rparr>"

definition example_api :: "unit API" where
  "example_api = \<lparr>a_owner = ''owner@example'', a_uiPassword = ''letmein'', a_sessionSecret = ''secret'', a_allowedHosts = {''tsctl''},
     a_fold = ascii_fold, a_lower = ascii_fold, a_urlHost = (\<lambda>_. None), a_bcryptCompare = (\<lambda>h pw. h = pw),
     a_bcryptGenerate = Inr, a_dummyHash = ''dummy'', a_cfg = example_pconfig, a_rc = example_ops\<rparr>"

definition example_env :: env where
  "example_env = \<lparr>ev_now = 0, ev_whois = (\<lambda>_. Inl (ErrorString ''no peer'')), ev_nonce = Inr (replicate 16 CHR 0x07), ev_token = Inr [1],
     ev_random = (\<lambda>_. Inr [1, 2, 3, 4, 5, 6, 7, 8]), ev_io = io_ok ''t'',
     ev_set = \<lparr>ts_step1 = 1, ts_arm = 2, ts_now = 3, ts_step3 = 4\<rparr>, ev_keepAt = 5, ev_keepBuilt = 6,
     ev_probe = \<lparr>tp_start = 7, tp_end = 8, tp_checked = 9\<rparr>, ev_refreshed = 10\<rparr>"

definition example_consumer :: RouterView where
  "example_consumer = zero_RouterView\<lparr>rv_Node := zero_NodeView\<lparr>nv_StableID := ''r1'', nv_TailscaleIPs := [''100.64.0.1'']\<rparr>\<rparr>"

definition example_poller :: pstate where
  "example_poller = poller_New ((store_New 1)\<lparr>sn_Routers := [example_consumer]\<rparr>)"

definition example_groups :: GroupsStore where
  "example_groups = \<lparr>gs_path = ''groups.json'',
     gs_items = [\<lparr>g_ID = ''z'', g_Name = ''Home'', g_Consumers = [''r1''], g_AllowedExitNodes = [''e1'']\<rparr>]\<rparr>"

definition example_guests :: GuestsStore where
  "example_guests = \<lparr>gt_path = ''guests.json'',
     gt_items = [\<lparr>gst_id = ''g1'', gst_label = ''Ann'', gst_zoneID = ''z'', gst_passwordHash = ''swordfish'', gst_disabled = False,
       gst_createdAt = 1\<rparr>]\<rparr>"

definition example_system :: "unit system" where
  "example_system = \<lparr>sy_poller = example_poller, sy_world = (), sy_groups = Some example_groups, sy_guests = Some example_guests,
     sy_files = Map.empty\<rparr>"

text \<open>A session of the guest, and a request that carries it together with a matching CSRF token.\<close>

definition example_cookie :: string where
  "example_cookie =
     (let p = session_payload 0 (replicate 16 CHR 0x07) example_subject
      in b64_EncodeToString (p @ sessionMAC ''secret'' p))"

definition guest_request :: "string \<Rightarrow> string list \<Rightarrow> body \<Rightarrow> unit request" where
  "guest_request meth path b = \<lparr>rq_Method = meth, rq_Host = ''tsctl'', rq_RemoteAddr = ''192.0.2.1:99'', rq_Origin = [], rq_SecFetchSite = [],
     rq_CSRF = ''tok'', rq_cookie = [''tsctl_csrf'' \<mapsto> ''tok'', ''tsctl_session'' \<mapsto> example_cookie], rq_path = path,
     rq_body = (\<lambda>_. b), rq_ctx = Background\<rparr>"

lemma example_session: "parseSession ''secret'' 0 (Some example_cookie) = Some (zero_Subject\<lparr>sub_GuestID := ''g1''\<rparr>)"
proof -
  let ?p = "session_payload 0 (replicate 16 CHR 0x07) example_subject"
  have ok: "length (replicate 16 CHR 0x07) = sessionNonceLen" "session_ok example_subject" "int64_time (0 + sessionTTL)"
    by (simp_all add: session_ok_def example_subject_def int64_time_def Unix_def)
  have dec: "b64_DecodeString example_cookie = Some (?p @ sessionMAC ''secret'' ?p)"
    by (simp add: example_cookie_def b64_roundtrip Let_def)
  have nn: "example_cookie \<noteq> []" by (simp add: example_cookie_def session_payload_def Let_def)
  from parse_payload [OF ok dec refl nn, of 0] show ?thesis
    by (simp add: Unix_def session_subject_def example_subject_def)
qed

lemma example_host: "hostAllowed example_api ''tsctl''"
proof -
  have "normalizeHost ascii_fold ''tsctl'' = ''tsctl''" by code_simp
  then show ?thesis by (simp add: hostAllowed_def example_api_def)
qed

lemma example_not_owner: "\<not> tailnet_owner example_api example_env r"
  by (simp add: tailnet_owner_def example_env_def)

lemma example_resolves:
  "resolveSubject example_api example_env (guest_request m p b) example_system =
     Some (zero_Subject\<lparr>sub_GuestID := ''g1'', sub_ZoneID := ''z''\<rparr>)"
  using example_session
  by (simp add: resolveSubject_def tailnet_owner_def guest_request_def example_system_def guests_Get_def guests_indexOfLocked_def
      example_guests_def groups_Get_def groups_indexOfLocked_def example_groups_def public_def zero_Subject_def example_api_def example_env_def)

lemma example_passes: "Routes example_api env (guest_request m p b) sys = api_mux example_api env (guest_request m p b) sys"
proof -
  have "origin_ok example_api (guest_request m p b)" "fetch_site_ok (guest_request m p b)" "double_submit_ok (guest_request m p b)"
    and "rq_Host (guest_request m p b) = ''tsctl''"
    by (simp_all add: origin_ok_def fetch_site_ok_def double_submit_ok_def guest_request_def)
  then show ?thesis using example_host by (simp add: Routes_def RequireHost_def RequireCSRF_def)
qed

lemma example_change:
  "po_frames (fst (snd (SetExitNode example_pconfig example_ops (groups_List example_groups)
      \<lparr>ts_step1 = 1, ts_arm = 2, ts_now = 3, ts_step3 = 4\<rparr> ''r1'' [] (example_poller, ())))) \<noteq> []"
  by code_simp

text \<open>The guest clears the exit node of its router: the request is served and the system changes.\<close>

lemma example_clear:
  "\<exists>resp sys'. Routes example_api example_env (guest_request ''POST'' [''routers'', ''r1'', ''exit-node''] BodyEOF) example_system =
     Some (resp, sys') \<and> sys' \<noteq> example_system \<and> sy_guests sys' = Some example_guests"
proof -
  let ?q = "guest_request ''POST'' [''routers'', ''r1'', ''exit-node''] BodyEOF"
  let ?sub = "zero_Subject\<lparr>sub_GuestID := ''g1'', sub_ZoneID := ''z''\<rparr>"
  let ?r = "?q\<lparr>rq_ctx := auth_context example_api ?q ?sub\<rparr>"
  have path: "rq_path ?q = [''routers'', ''r1'', ''exit-node'']" "rq_Method ?q = ''POST''" "rq_body ?q n = BodyEOF" for n
    by (simp_all add: guest_request_def)
  have "api_mux example_api example_env ?q example_system = data_mux example_api example_env ?r example_system"
    by (simp add: api_mux_def path RequireAuth_def example_resolves)
  moreover have "data_mux example_api example_env ?r example_system = handleSetExitNode example_api ''r1'' example_env ?r example_system"
    by (simp add: data_mux_def path data_patterns_def method_matches_def Let_def)
  moreover have "authorizeRouterWrite ?r example_system ''r1'' [] = None"
    by (simp add: authorizeRouterWrite_def auth_context_def example_system_def groups_Get_def groups_indexOfLocked_def
        example_groups_def zero_Subject_def containsStr_def)
  moreover obtain rv e s w where c: "SetExitNode example_pconfig example_ops (groups_List example_groups)
      \<lparr>ts_step1 = 1, ts_arm = 2, ts_now = 3, ts_step3 = 4\<rparr> ''r1'' [] (example_poller, ()) = ((rv, e), s, w)"
    by (metis surj_pair)
  ultimately have "\<exists>resp. Routes example_api example_env ?q example_system = Some (resp, with_poller example_system (s, w))"
    unfolding example_passes
    by (cases e) (simp_all add: handleSetExitNode_def path decode_body_def example_system_def sy_zones_def example_api_def example_env_def)
  moreover have "with_poller example_system (s, w) \<noteq> example_system"
  proof
    assume "with_poller example_system (s, w) = example_system"
    then have "s = example_poller" by (simp add: with_poller_def example_system_def)
    then show False using example_change c by (simp add: example_poller_def poller_New_def)
  qed
  moreover have "sy_guests (with_poller example_system (s, w)) = Some example_guests"
    by (simp add: with_poller_def example_system_def)
  ultimately show ?thesis by blast
qed

end
