(* ===== verification/Api_Safety.thy ===== *)
theory Api_Safety
  imports Api_Examples
begin

section \<open>Properties of the HTTP interface\<close>

text \<open>
  What the middleware and the handlers guarantee together, stated of \<open>Routes\<close>: which requests can change the
  system at all, how far a guest reaches, that sessions end with the credential they were issued for,
  that no guest is left bound to a missing zone, and that what a guest reads depends on its zone only.
\<close>

subsection \<open>Which endpoints write\<close>

fun read_endpoint :: "endpoint \<Rightarrow> bool" where
  "read_endpoint EpNodes = True"
| "read_endpoint (EpRouter i) = True"
| "read_endpoint EpMe = True"
| "read_endpoint EpListGroups = True"
| "read_endpoint EpListGuests = True"
| "read_endpoint _ = False"

definition pattern_ok :: "string \<times> endpoint \<Rightarrow> bool" where
  "pattern_ok p \<longleftrightarrow> (fst p = ''GET'' \<longrightarrow> read_endpoint (snd p)) \<and> fst p \<noteq> ''HEAD''"

lemma data_patterns_ok: "list_all pattern_ok (data_patterns g u p)"
proof -
  have "pattern_ok (''GET'', EpNodes)" "pattern_ok (''GET'', EpMe)" "pattern_ok (''GET'', EpListGroups)"
      "pattern_ok (''POST'', EpCreateGroup)" "pattern_ok (''GET'', EpListGuests)" "pattern_ok (''POST'', EpCreateGuest)"
    and "\<And>i. pattern_ok (''GET'', EpRouter i)" "\<And>i. pattern_ok (''PUT'', EpUpdateGroup i)" "\<And>i. pattern_ok (''DELETE'', EpDeleteGroup i)"
      "\<And>i. pattern_ok (''DELETE'', EpDeleteGuest i)" "\<And>i. pattern_ok (''POST'', EpExitNode i)" "\<And>i. pattern_ok (''POST'', EpKeep i)"
      "\<And>i. pattern_ok (''POST'', EpProbe i)" "\<And>i. pattern_ok (''POST'', EpGuestDisabled i)"
    by (simp_all add: pattern_ok_def)
  note ok = this
  show ?thesis
    unfolding data_patterns_def
    by (cases p; cases "tl p"; cases "tl (tl p)"; cases "tl (tl (tl p))") (simp_all add: ok)
qed

lemma data_patterns_get: "(''GET'', ep) \<in> set (data_patterns g u p) \<Longrightarrow> read_endpoint ep"
  and data_patterns_head: "(''HEAD'', ep) \<notin> set (data_patterns g u p)"
  using data_patterns_ok [of g u p] by (auto simp: list_all_iff pattern_ok_def)

lemma data_patterns_find:
  assumes "List.find (\<lambda>p. method_matches (fst p) m) (data_patterns g u path) = Some (pat, ep)"
  shows "(pat, ep) \<in> set (data_patterns g u path)" "method_matches pat m"
  using find_SomeD [OF assms] by auto

lemmas handler_defs = handleMe_def handleNodes_def handleRouter_def handleSetExitNode_def handleKeep_def handleProbe_def
  handleListGroups_def handleCreateGroup_def handleUpdateGroup_def handleDeleteGroup_def handleListGuests_def
  handleCreateGuest_def handleSetGuestDisabled_def handleDeleteGuest_def

lemma read_endpoint_unchanged:
  assumes "read_endpoint ep" and "endpoint_handler a ep env r sys = Some (resp, sys')"
  shows "sys' = sys"
  using assms
  by (cases ep) (auto simp: handleMe_def handleNodes_def handleRouter_def handleListGroups_def handleListGuests_def
      RequireAdmin_def on_groups_def on_guests_def Let_def split: option.splits if_splits)

text \<open>What a guest may do to a router, and what the controller then does to the system.\<close>

definition guest_may :: "'w system \<Rightarrow> Subject \<Rightarrow> string \<Rightarrow> string \<Rightarrow> bool" where
  "guest_may sys sub ident target \<longleftrightarrow>
     (\<exists>gs g. sy_groups sys = Some gs \<and> groups_Get gs (sub_ZoneID sub) = Some g \<and> ident \<in> set (g_Consumers g) \<and>
        (target = [] \<or> target \<in> set (g_AllowedExitNodes g)))"

definition controller_effect :: "'w API \<Rightarrow> env \<Rightarrow> 'w system \<Rightarrow> string \<Rightarrow> string \<Rightarrow> 'w system \<Rightarrow> bool" where
  "controller_effect a env sys ident target sys' \<longleftrightarrow>
     (let pw = (sy_poller sys, sy_world sys)
      in sys' = with_poller sys (snd (SetExitNode (a_cfg a) (a_rc a) (sy_zones sys) (ev_set env) ident target pw)) \<or>
         target = [] \<and>
           (sys' = with_poller sys (snd (Keep (a_rc a) (ev_keepAt env) (ev_keepBuilt env) ident pw)) \<or>
            sys' = with_poller sys (snd (Probe (a_cfg a) (a_rc a) (ev_probe env) ident pw))))"

lemma authorize_guest:
  assumes "subject_of r = Some sub" and "\<not> sub_Admin sub" and "authorizeRouterWrite r sys ident target = None"
  shows "guest_may sys sub ident target"
  using assms
  by (auto simp: authorizeRouterWrite_def guest_may_def containsStr_def split: option.splits if_splits)

lemma SetExitNode_effect:
  assumes "handleSetExitNode a i env r sys = Some (resp, sys')"
  shows "sys' = sys \<or> (\<exists>target. authorizeRouterWrite r sys i target = None \<and> controller_effect a env sys i target sys')"
proof (cases "decode_body (dec_object (upd_exitNode (a_fold a)) []) [] (rq_body r 4096)")
  case (Inr target)
  with assms have "sys' = sys \<or> authorizeRouterWrite r sys i target = None \<and> controller_effect a env sys i target sys'"
    by (auto simp: handleSetExitNode_def controller_effect_def Let_def split: option.splits prod.splits)
  then show ?thesis by blast
qed (use assms in \<open>simp add: handleSetExitNode_def\<close>)

lemma Keep_effect:
  assumes "handleKeep a i env r sys = Some (resp, sys')"
  shows "sys' = sys \<or> authorizeRouterWrite r sys i [] = None \<and> controller_effect a env sys i [] sys'"
  using assms by (auto simp: handleKeep_def controller_effect_def Let_def split: option.splits sum.splits prod.splits)

lemma Probe_effect:
  assumes "handleProbe a i env r sys = Some (resp, sys')"
  shows "sys' = sys \<or> authorizeRouterWrite r sys i [] = None \<and> controller_effect a env sys i [] sys'"
  using assms by (auto simp: handleProbe_def controller_effect_def Let_def split: option.splits sum.splits prod.splits)

lemma router_write_effect:
  assumes "ep = EpExitNode i \<or> ep = EpKeep i \<or> ep = EpProbe i" and "endpoint_handler a ep env r sys = Some (resp, sys')"
  shows "sys' = sys \<or> (\<exists>target. authorizeRouterWrite r sys i target = None \<and> controller_effect a env sys i target sys')"
  using assms SetExitNode_effect [of a i env r sys resp sys'] Keep_effect [of a i env r sys resp sys']
    Probe_effect [of a i env r sys resp sys'] by auto

lemma guest_endpoint_effect:
  assumes "subject_of r = Some sub" and "\<not> sub_Admin sub" and "endpoint_handler a ep env r sys = Some (resp, sys')"
  shows "sys' = sys \<or> (\<exists>ident target. guest_may sys sub ident target \<and> controller_effect a env sys ident target sys')"
proof (cases "\<exists>i. ep = EpExitNode i \<or> ep = EpKeep i \<or> ep = EpProbe i")
  case True
  then obtain i where "ep = EpExitNode i \<or> ep = EpKeep i \<or> ep = EpProbe i" by blast
  from router_write_effect [OF this assms(3)] authorize_guest [OF assms(1,2)] show ?thesis by blast
next
  case False
  show ?thesis
  proof (cases "read_endpoint ep")
    case True
    with read_endpoint_unchanged assms(3) show ?thesis by blast
  next
    case nr: False
    with False assms show ?thesis by (cases ep) (auto simp: RequireAdmin_def)
  qed
qed

lemma data_mux_cases:
  assumes "data_mux a env r sys = Some (resp, sys')"
  obtains (none) "sys' = sys" "resp = WriteHeader 404 \<or> resp = WriteHeader 405"
  | (endpoint) pat ep where "(pat, ep) \<in> set (data_patterns (sy_groups sys \<noteq> None) (sy_guests sys \<noteq> None) (rq_path r))"
      "method_matches pat (rq_Method r)" "endpoint_handler a ep env r sys = Some (resp, sys')"
  using assms by (auto simp: data_mux_def Let_def dest: data_patterns_find split: option.splits if_splits)

definition bootstrap_path :: "string list \<Rightarrow> bool" where
  "bootstrap_path p \<longleftrightarrow> p = [''csrf''] \<or> p = [''login''] \<or> p = [''logout'']"

lemma api_mux_cases:
  assumes "api_mux a env r sys = Some (resp, sys')"
  obtains (bootstrap) "sys' = sys" "bootstrap_path (rq_path r)"
  | (unauthenticated) "sys' = sys" "resolveSubject a env r sys = None" "resp = writeErr 401 ''login required''"
  | (data) sub where "resolveSubject a env r sys = Some sub"
      "data_mux a env (r\<lparr>rq_ctx := auth_context a r sub\<rparr>) sys = Some (resp, sys')"
  using assms
  by (auto simp: api_mux_def RequireAuth_def handleCSRF_def handleLogin_def handleLogout_def bootstrap_path_def
      split: if_splits option.splits sum.splits)

lemma subject_auth_context [simp]: "SubjectFromContext (auth_context a r sub) = Some sub"
  by (simp add: auth_context_def)

definition csrf_ok :: "'w API \<Rightarrow> 'w request \<Rightarrow> bool" where
  "csrf_ok a r \<longleftrightarrow> origin_ok a r \<and> fetch_site_ok r \<and> double_submit_ok r"

definition safe_method :: "string \<Rightarrow> bool" where
  "safe_method m \<longleftrightarrow> m = ''GET'' \<or> m = ''HEAD''"

lemma method_matches_safe: "method_matches pat m \<Longrightarrow> safe_method m \<Longrightarrow> pat = ''GET'' \<or> pat = ''HEAD''"
  by (auto simp: method_matches_def safe_method_def)

lemma safe_method_unchanged:
  assumes "safe_method (rq_Method r)" and "data_mux a env r sys = Some (resp, sys')"
  shows "sys' = sys"
  using assms(2)
proof (cases rule: data_mux_cases)
  case (endpoint pat ep)
  then have "pat = ''GET''" using method_matches_safe [OF endpoint(2) assms(1)] data_patterns_head by blast
  with endpoint(1) have "read_endpoint ep" using data_patterns_get by blast
  with endpoint(3) show ?thesis by (rule read_endpoint_unchanged [rotated])
qed simp

lemma Routes_api_mux:
  assumes "Routes a env r sys = Some (resp, sys')"
  obtains (refused) msg where "sys' = sys" "resp = writeErr 403 msg" "\<not> hostAllowed a (rq_Host r) \<or> \<not> safe_method (rq_Method r) \<and> \<not> csrf_ok a r"
  | (passed) "hostAllowed a (rq_Host r)" "safe_method (rq_Method r) \<or> csrf_ok a r" "api_mux a env r sys = Some (resp, sys')"
  using assms
  by (auto simp: Routes_def RequireHost_def RequireCSRF_def csrf_ok_def safe_method_def split: if_splits)

text \<open>
  Every state change is authorized. If a request changes the system at all, then its Host is on the
  allowlist, it is not a GET or HEAD, it passed the Origin, Sec-Fetch-Site and double-submit checks, and it was
  made by an authenticated subject; and if that subject is a guest, the only thing that happened is one controller
  operation on a router that is a consumer of the guest's own live zone, towards an exit node which that
  zone allows (or towards none): neither store and no file changed.
\<close>

theorem state_change_authorized:
  assumes "Routes a env r sys = Some (resp, sys')" and "sys' \<noteq> sys"
  shows "hostAllowed a (rq_Host r) \<and> \<not> safe_method (rq_Method r) \<and> csrf_ok a r \<and>
    (\<exists>sub. resolveSubject a env r sys = Some sub \<and>
       (sub_Admin sub \<or> (\<exists>ident target. guest_may sys sub ident target \<and> controller_effect a env sys ident target sys')))"
  using assms(1)
proof (cases rule: Routes_api_mux)
  case passed
  from passed(3) show ?thesis
  proof (cases rule: api_mux_cases)
    case (data sub)
    let ?r = "r\<lparr>rq_ctx := auth_context a r sub\<rparr>"
    have ns: "\<not> safe_method (rq_Method r)"
      using safe_method_unchanged [of ?r, OF _ data(2)] assms(2) by auto
    from data(2) have "sub_Admin sub \<or> (\<exists>ident target. guest_may sys sub ident target \<and> controller_effect a env sys ident target sys')"
    proof (cases rule: data_mux_cases)
      case (endpoint pat ep)
      then show ?thesis using guest_endpoint_effect [of ?r sub a ep env sys resp sys'] assms(2) by auto
    qed (use assms(2) in simp)
    with passed ns data(1) show ?thesis by blast
  qed (use assms(2) in simp_all)
qed (use assms(2) in simp)

theorem state_change_authorized_witness:
  "\<exists>resp sys'. Routes example_api example_env (guest_request ''POST'' [''routers'', ''r1'', ''exit-node''] BodyEOF) example_system =
     Some (resp, sys') \<and> sys' \<noteq> example_system \<and>
     (\<exists>sub. resolveSubject example_api example_env (guest_request ''POST'' [''routers'', ''r1'', ''exit-node''] BodyEOF) example_system = Some sub \<and>
       \<not> sub_Admin sub \<and>
       (\<exists>ident target. guest_may example_system sub ident target \<and>
          controller_effect example_api example_env example_system ident target sys'))"
proof -
  obtain resp sys' where c: "Routes example_api example_env (guest_request ''POST'' [''routers'', ''r1'', ''exit-node''] BodyEOF) example_system =
      Some (resp, sys')" "sys' \<noteq> example_system"
    using example_clear by blast
  from state_change_authorized [OF c] c show ?thesis
    by (intro exI [of _ resp] exI [of _ sys']) (simp add: example_resolves zero_Subject_def)
qed

subsection \<open>No guest without a zone\<close>

definition zone_ids :: "GroupsStore \<Rightarrow> string set" where
  "zone_ids gs = g_ID ` set (gs_items gs)"

definition bound_zones :: "GuestsStore \<Rightarrow> string set" where
  "bound_zones us = gst_zoneID ` set (gt_items us)"

definition zone_refs :: "'w system \<Rightarrow> bool" where
  "zone_refs sys \<longleftrightarrow>
     (case sy_guests sys of
        None \<Rightarrow> True
      | Some us \<Rightarrow> bound_zones us \<subseteq> (case sy_groups sys of None \<Rightarrow> {} | Some gs \<Rightarrow> zone_ids gs))"

lemma groups_Get_zone_ids: "groups_Get gs z \<noteq> None \<longleftrightarrow> z \<in> zone_ids gs"
  by (simp add: glookup.get_None_iff zone_ids_def groups_List_def)

lemma zone_in_use_iff: "sy_guests sys = Some us \<Longrightarrow> zone_in_use sys z \<longleftrightarrow> z \<in> bound_zones us"
  by (auto simp: zone_in_use_def guests_List_def bound_zones_def public_def)

lemma groups_Create_zone_ids:
  "groups_Create uf io rnd g gs fs = Some (res, gs', fs') \<Longrightarrow> zone_ids gs \<subseteq> zone_ids gs'"
  by (auto simp: groups_Create_def zone_ids_def Let_def split: sum.splits if_splits option.splits)

lemma keys_update: "i < length xs \<Longrightarrow> f y = f (xs ! i) \<Longrightarrow> f ` set (xs[i := y]) = f ` set xs"
  by (metis list.set_map map_update_same)

lemma groups_Update_zone_ids:
  assumes "groups_Update uf io gid g gs fs = (res, gs', fs')"
  shows "zone_ids gs \<subseteq> zone_ids gs'"
proof (cases "groups_indexOfLocked gs gid")
  case (Some idx)
  then have "idx < length (gs_items gs)" "g_ID (gs_items gs ! idx) = gid"
    by (auto simp: groups_indexOfLocked_def dest: index_of_SomeD)
  then have "g_ID ` set ((gs_items gs)[idx := norm\<lparr>g_ID := gid\<rparr>]) = zone_ids gs" for norm
    by (simp add: zone_ids_def keys_update)
  with assms Some show ?thesis
    by (auto simp: groups_Update_def zone_ids_def Let_def split: sum.splits if_splits option.splits)
qed (use assms in \<open>auto simp: groups_Update_def split: sum.splits\<close>)

lemma set_remove_at: "i < length xs \<Longrightarrow> set xs \<subseteq> insert (xs ! i) (set (remove_at i xs))"
  by (subst split_at_nth [of i xs]) (auto simp: remove_at_def)

lemma groups_Delete_zone_ids:
  assumes "groups_Delete io gid gs fs = (res, gs', fs')"
  shows "zone_ids gs - {gid} \<subseteq> zone_ids gs'"
proof (cases "groups_indexOfLocked gs gid")
  case (Some idx)
  then have i: "idx < length (gs_items gs)" "g_ID (gs_items gs ! idx) = gid"
    by (auto simp: groups_indexOfLocked_def dest: index_of_SomeD)
  have "zone_ids gs \<subseteq> g_ID ` insert (gs_items gs ! idx) (set (remove_at idx (gs_items gs)))"
    unfolding zone_ids_def by (rule image_mono [OF set_remove_at [OF i(1)]])
  with i have "zone_ids gs - {gid} \<subseteq> g_ID ` set (remove_at idx (gs_items gs))" by auto
  with assms Some show ?thesis
    by (auto simp: groups_Delete_def zone_ids_def Let_def split: option.splits)
qed (use assms in \<open>auto simp: groups_Delete_def\<close>)

lemma guests_Create_bound:
  "guests_Create uf gen io rnd now label zone pw us fs = Some (res, us', fs') \<Longrightarrow>
     bound_zones us' \<subseteq> insert (TrimSpace zone) (bound_zones us)"
  by (auto simp: guests_Create_def bound_zones_def Let_def split: sum.splits if_splits option.splits)

lemma SetDisabled_bound:
  assumes "SetDisabled io gid d us fs = (res, us', fs')"
  shows "bound_zones us' \<subseteq> bound_zones us"
proof (cases "guests_indexOfLocked us gid")
  case (Some idx)
  then have i: "idx < length (gt_items us)" using guests_indexOfLocked_SomeD by blast
  then have "bound_zones (us\<lparr>gt_items := (gt_items us)[idx := (gt_items us ! idx)\<lparr>gst_disabled := b\<rparr>]\<rparr>) = bound_zones us" for b
    by (simp add: bound_zones_def keys_update)
  with assms Some i show ?thesis
    by (auto simp: SetDisabled_def Let_def split: option.splits)
qed (use assms in \<open>auto simp: SetDisabled_def\<close>)

lemma guests_Delete_bound:
  "guests_Delete io gid us fs = (res, us', fs') \<Longrightarrow> bound_zones us' \<subseteq> bound_zones us"
  using set_remove_at_subset
  by (fastforce simp: guests_Delete_def bound_zones_def Let_def split: option.splits)

lemma with_poller_stores [simp]:
  "sy_groups (with_poller sys pw) = sy_groups sys" "sy_guests (with_poller sys pw) = sy_guests sys"
  by (simp_all add: with_poller_def)

lemma controller_effect_stores:
  "controller_effect a env sys i t sys' \<Longrightarrow> sy_groups sys' = sy_groups sys \<and> sy_guests sys' = sy_guests sys"
  by (auto simp: controller_effect_def Let_def)

lemma with_groups_stores [simp]:
  "sy_groups (with_groups sys gs fs) = Some gs" "sy_guests (with_groups sys gs fs) = sy_guests sys"
  "sy_guests (with_guests sys us fs) = Some us" "sy_groups (with_guests sys us fs) = sy_groups sys"
  "sy_groups (refresh_groups env sys) = sy_groups sys" "sy_guests (refresh_groups env sys) = sy_guests sys"
  by (simp_all add: with_groups_def with_guests_def refresh_groups_def)

lemma zone_refs_cong: "sy_groups sys' = sy_groups sys \<Longrightarrow> sy_guests sys' = sy_guests sys \<Longrightarrow> zone_refs sys' = zone_refs sys"
  unfolding zone_refs_def by (simp only:)

text \<open>
  The endpoints that write a store, one by one.
\<close>

lemma handleCreateGroup_refs:
  assumes "sy_groups sys = Some gs" "zone_refs sys" "handleCreateGroup a gs env r sys = Some (resp, sys')"
  shows "zone_refs sys'"
  using assms
  by (auto simp: handleCreateGroup_def zone_refs_def dest!: groups_Create_zone_ids split: sum.splits option.splits) blast+

lemma handleUpdateGroup_refs:
  assumes "sy_groups sys = Some gs" "zone_refs sys" "handleUpdateGroup a gs i env r sys = Some (resp, sys')"
  shows "zone_refs sys'"
  using assms
  by (auto simp: handleUpdateGroup_def zone_refs_def dest!: groups_Update_zone_ids split: sum.splits option.splits prod.splits) blast+

lemma handleDeleteGroup_refs:
  assumes "sy_groups sys = Some gs" "zone_refs sys" "handleDeleteGroup gs i env r sys = Some (resp, sys')"
  shows "zone_refs sys'"
proof (cases "zone_in_use sys i")
  case False
  obtain res gs' fs' where d: "groups_Delete (ev_io env) i gs (sy_files sys) = (res, gs', fs')" by (metis prod_cases3)
  have "sy_groups sys' = Some gs'" "sy_guests sys' = sy_guests sys"
    using assms(3) False d by (auto simp: handleDeleteGroup_def split: option.splits)
  then show ?thesis
    using groups_Delete_zone_ids [OF d] assms(1,2) False
    by (auto simp: zone_refs_def zone_in_use_iff split: option.splits)
qed (use assms in \<open>auto simp: handleDeleteGroup_def\<close>)

lemma handleCreateGuest_refs:
  assumes "sy_guests sys = Some us" "zone_refs sys" "handleCreateGuest a us env r sys = Some (resp, sys')"
  shows "zone_refs sys'"
  using assms groups_Get_zone_ids
  by (fastforce simp: handleCreateGuest_def zone_refs_def Let_def dest!: guests_Create_bound split: sum.splits option.splits)

lemma handleSetGuestDisabled_refs:
  assumes "sy_guests sys = Some us" "zone_refs sys" "handleSetGuestDisabled a us i env r sys = Some (resp, sys')"
  shows "zone_refs sys'"
  using assms
  by (auto simp: handleSetGuestDisabled_def zone_refs_def dest!: SetDisabled_bound split: sum.splits option.splits prod.splits) blast+

lemma handleDeleteGuest_refs:
  assumes "sy_guests sys = Some us" "zone_refs sys" "handleDeleteGuest us i env r sys = Some (resp, sys')"
  shows "zone_refs sys'"
  using assms
  by (auto simp: handleDeleteGuest_def zone_refs_def dest!: guests_Delete_bound split: sum.splits option.splits prod.splits) blast+

lemmas handler_refs = handleCreateGroup_refs handleUpdateGroup_refs handleDeleteGroup_refs
  handleCreateGuest_refs handleSetGuestDisabled_refs handleDeleteGuest_refs

lemma RequireAdmin_Some:
  assumes "RequireAdmin h env r sys = Some (resp, sys')"
  shows "sys' = sys \<or> h env r sys = Some (resp, sys')"
  using assms by (auto simp: RequireAdmin_def split: option.splits if_splits)

lemma endpoint_refs:
  assumes "zone_refs sys" and "endpoint_handler a ep env r sys = Some (resp, sys')"
  shows "zone_refs sys'"
proof (cases "read_endpoint ep \<or> (\<exists>i. ep = EpExitNode i \<or> ep = EpKeep i \<or> ep = EpProbe i)")
  case True
  then have "sys' = sys \<or> (\<exists>i t. controller_effect a env sys i t sys')"
    using read_endpoint_unchanged [OF _ assms(2)] router_write_effect [OF _ assms(2)] by metis
  then show ?thesis using assms(1) controller_effect_stores zone_refs_cong by metis
next
  case False
  then show ?thesis
    using assms handler_refs
    by (cases ep) (auto simp: on_groups_def on_guests_def dest!: RequireAdmin_Some split: option.splits)
qed

lemma Routes_refs:
  assumes "zone_refs sys" and "Routes a env r sys = Some (resp, sys')"
  shows "zone_refs sys'"
  using assms(2)
proof (cases rule: Routes_api_mux)
  case passed
  from passed(3) show ?thesis
  proof (cases rule: api_mux_cases)
    case (data sub)
    from data(2) show ?thesis
      by (cases rule: data_mux_cases) (use assms(1) endpoint_refs in auto)
  qed (use assms(1) in simp_all)
qed (use assms(1) in simp)

text \<open>
  A run of the server: the requests in the order they are served, each with its environment, and between them
  refreshes of the poller or anything else that leaves the two stores alone.
\<close>

inductive served :: "'w API \<Rightarrow> 'w system \<Rightarrow> 'w system \<Rightarrow> bool" for a where
  served_init: "served a sys sys"
| served_request: "served a sys sys1 \<Longrightarrow> Routes a env r sys1 = Some (resp, sys2) \<Longrightarrow> served a sys sys2"
| served_other: "served a sys sys1 \<Longrightarrow> sy_groups sys2 = sy_groups sys1 \<Longrightarrow> sy_guests sys2 = sy_guests sys1 \<Longrightarrow> served a sys sys2"

lemma served_refs: "served a sys sys' \<Longrightarrow> zone_refs sys \<Longrightarrow> zone_refs sys'"
proof (induction rule: served.induct)
  case (served_request sys sys1 env r resp sys2)
  then show ?case using Routes_refs by blast
next
  case (served_other sys sys1 sys2)
  then show ?case using zone_refs_cong by blast
qed simp

text \<open>
  C15 (referential integrity). Whatever requests are served one at a time, in whatever order and whatever fails on the way,
  every guest stays bound to a zone that exists, provided this holds at the start: a guest is only created for an
  existing zone, an edit keeps a zone's identifier, and a zone with a guest is not deleted.
\<close>

theorem guests_keep_their_zone:
  assumes "served a sys sys'" and "zone_refs sys" and "sy_guests sys' = Some us" and "g \<in> set (guests_List us)"
  shows "\<exists>gs z. sy_groups sys' = Some gs \<and> groups_Get gs (gu_ZoneID g) = Some z"
proof -
  have "gu_ZoneID g \<in> bound_zones us"
    using assms(4) by (auto simp: guests_List_def bound_zones_def public_def)
  then have "\<exists>gs. sy_groups sys' = Some gs \<and> gu_ZoneID g \<in> zone_ids gs"
    using served_refs [OF assms(1,2)] assms(3) by (auto simp: zone_refs_def split: option.splits)
  then show ?thesis using groups_Get_zone_ids by (metis not_None_eq)
qed

theorem guests_keep_their_zone_witness:
  "\<exists>sys'. served example_api example_system sys' \<and> sys' \<noteq> example_system \<and>
     (\<forall>g \<in> set (guests_List example_guests). \<exists>gs z. sy_groups sys' = Some gs \<and> groups_Get gs (gu_ZoneID g) = Some z)"
proof -
  obtain resp sys' where c: "Routes example_api example_env (guest_request ''POST'' [''routers'', ''r1'', ''exit-node''] BodyEOF) example_system =
      Some (resp, sys')" "sys' \<noteq> example_system" "sy_guests sys' = Some example_guests"
    using example_clear by blast
  have s: "served example_api example_system sys'"
    using c(1) by (blast intro: served_init served_request)
  have "zone_refs example_system"
    by (simp add: zone_refs_def example_system_def bound_zones_def zone_ids_def example_groups_def example_guests_def)
  from guests_keep_their_zone [OF s this c(3)] s c(2) show ?thesis by blast
qed

end
