(* ===== verification/Sse_Hub.thy ===== *)
theory Sse_Hub
  imports Authz
begin

section \<open>Package sse: the fan-out hub\<close>

text \<open>
  \<^verbatim>\<open>internal/sse/hub.go\<close>. A channel of capacity one is an \<open>option\<close>. The three non-blocking selects by which
  \<^verbatim>\<open>send\<close>, \<^verbatim>\<open>emit\<close> and \<^verbatim>\<open>Broadcast\<close> replace the content of such a channel are modelled one by one; between
  them the receiver may drain the channel (the flags \<open>d1\<close>, \<open>d2\<close>). \<^verbatim>\<open>Run\<close> is the single owner of the client
  set; its state with the channels is the record \<open>hub\<close>, to which two histories are added: what the poller
  has received last from the transitions channel, and what each client has been sent last. A browser is a
  number. \<open>serve\<close> is the streaming loop of \<^verbatim>\<open>ServeHTTP\<close> for one connection.
\<close>

subsection \<open>Latest-wins channels\<close>

fun try_send :: "'a option \<Rightarrow> 'a \<Rightarrow> 'a option \<times> bool" where
  "try_send None x = (Some x, True)"
| "try_send (Some y) x = (Some y, False)"

definition drain :: "bool \<Rightarrow> 'a option \<Rightarrow> 'a option" where
  "drain d ch = (if d then None else ch)"

definition send :: "bool \<Rightarrow> bool \<Rightarrow> 'a option \<Rightarrow> 'a \<Rightarrow> 'a option" where
  "send d1 d2 ch x =
     (case try_send ch x of
        (ch1, True) \<Rightarrow> ch1
      | (ch1, False) \<Rightarrow> fst (try_send (drain d2 (drain True (drain d1 ch1))) x))"

lemma send_latest [simp]: "send d1 d2 ch x = Some x"
  by (cases ch) (simp_all add: send_def drain_def)

subsection \<open>The hub\<close>

record hub =
  hb_store :: Snapshot
  hb_clients :: "nat set"
  hb_chan :: "nat \<Rightarrow> Snapshot option"
  hb_broadcast :: "Snapshot option"
  hb_transitions :: "nat option"
  hb_known :: nat
  hb_latest :: "nat \<Rightarrow> Snapshot option"
  hb_written :: "nat \<Rightarrow> Snapshot option"

definition hub_New :: "Snapshot \<Rightarrow> hub" where
  "hub_New st = \<lparr>hb_store = st, hb_clients = {}, hb_chan = (\<lambda>_. None), hb_broadcast = None, hb_transitions = None,
     hb_known = 0, hb_latest = (\<lambda>_. None), hb_written = (\<lambda>_. None)\<rparr>"

definition emit :: "bool \<Rightarrow> bool \<Rightarrow> nat \<Rightarrow> hub \<Rightarrow> hub" where
  "emit d1 d2 count h = h\<lparr>hb_transitions := send d1 d2 (hb_transitions h) count\<rparr>"

definition send_client :: "bool \<Rightarrow> bool \<Rightarrow> nat \<Rightarrow> Snapshot \<Rightarrow> hub \<Rightarrow> hub" where
  "send_client d1 d2 c snap h =
     h\<lparr>hb_chan := (hb_chan h)(c := send d1 d2 (hb_chan h c) snap), hb_latest := (hb_latest h)(c \<mapsto> snap)\<rparr>"

definition hub_register :: "nat \<Rightarrow> hub \<Rightarrow> hub" where
  "hub_register c h =
     (let h1 = send_client False False c (hb_store h) (h\<lparr>hb_clients := insert c (hb_clients h)\<rparr>)
      in if card (hb_clients h1) = 1 then emit False False 1 h1 else h1)"

definition hub_unregister :: "nat \<Rightarrow> hub \<Rightarrow> hub" where
  "hub_unregister c h =
     (if c \<in> hb_clients h then
        (let h1 = h\<lparr>hb_clients := hb_clients h - {c}\<rparr>
         in if card (hb_clients h1) = 0 then emit False False 0 h1 else h1)
      else h)"

text \<open>The fan-out of one broadcast: every client's channel ends up with it.\<close>

definition hub_fanout :: "Snapshot \<Rightarrow> hub \<Rightarrow> hub" where
  "hub_fanout snap h =
     h\<lparr>hb_chan := (\<lambda>c. if c \<in> hb_clients h then send False False (hb_chan h c) snap else hb_chan h c),
       hb_latest := (\<lambda>c. if c \<in> hb_clients h then Some snap else hb_latest h c)\<rparr>"

definition hub_Broadcast :: "bool \<Rightarrow> bool \<Rightarrow> Snapshot \<Rightarrow> hub \<Rightarrow> hub" where
  "hub_Broadcast d1 d2 snap h = h\<lparr>hb_broadcast := send d1 d2 (hb_broadcast h) snap\<rparr>"

text \<open>
  What can happen: a request registers a new client or unregisters, the poller stores and broadcasts, \<^verbatim>\<open>Run\<close>
  fans a broadcast out, a client's handler takes its frame, the poller takes a transition.
\<close>

inductive hub_step :: "hub \<Rightarrow> hub \<Rightarrow> bool" where
  register: "c \<notin> hb_clients h \<Longrightarrow> hb_chan h c = None \<Longrightarrow> hub_step h (hub_register c h)"
| unregister: "hub_step h (hub_unregister c h)"
| broadcast: "hub_step h (hub_Broadcast d1 d2 snap (h\<lparr>hb_store := snap\<rparr>))"
| fanout: "hb_broadcast h = Some snap \<Longrightarrow> hub_step h (hub_fanout snap (h\<lparr>hb_broadcast := None\<rparr>))"
| deliver: "hb_chan h c = Some snap \<Longrightarrow>
    hub_step h (h\<lparr>hb_chan := (hb_chan h)(c := None), hb_written := (hb_written h)(c \<mapsto> snap)\<rparr>)"
| poller: "hb_transitions h = Some n \<Longrightarrow> hub_step h (h\<lparr>hb_transitions := None, hb_known := n\<rparr>)"

inductive hub_reachable :: "hub \<Rightarrow> bool" where
  new: "hub_reachable (hub_New st)"
| step: "hub_reachable h \<Longrightarrow> hub_step h h' \<Longrightarrow> hub_reachable h'"

inductive_cases hub_stepE: "hub_step h h'"

definition pending_count :: "hub \<Rightarrow> nat" where
  "pending_count h = (case hb_transitions h of Some n \<Rightarrow> n | None \<Rightarrow> hb_known h)"

definition hub_inv :: "hub \<Rightarrow> bool" where
  "hub_inv h \<longleftrightarrow> finite (hb_clients h) \<and> pending_count h = (if hb_clients h = {} then 0 else 1) \<and>
     (\<forall>c \<in> hb_clients h. hb_latest h c \<noteq> None \<and>
        (case hb_chan h c of Some s \<Rightarrow> hb_latest h c = Some s | None \<Rightarrow> hb_written h c = hb_latest h c))"

lemma hub_inv_New: "hub_inv (hub_New st)"
  by (simp add: hub_inv_def hub_New_def pending_count_def)

lemma hub_inv_register:
  assumes "hub_inv h" "c \<notin> hb_clients h"
  shows "hub_inv (hub_register c h)"
proof -
  have "finite (hb_clients h)" using assms(1) by (simp add: hub_inv_def)
  with assms show ?thesis
    by (auto simp: hub_inv_def hub_register_def Let_def send_client_def emit_def pending_count_def split: option.splits)
qed

lemma hub_inv_unregister: "hub_inv h \<Longrightarrow> hub_inv (hub_unregister c h)"
  by (auto simp: hub_inv_def hub_unregister_def Let_def emit_def pending_count_def card_eq_0_iff split: option.splits)

lemma hub_inv_step: "hub_step h h' \<Longrightarrow> hub_inv h \<Longrightarrow> hub_inv h'"
proof (induction rule: hub_step.induct)
  case (register c h)
  then show ?case by (simp add: hub_inv_register)
next
  case (unregister h c)
  then show ?case by (simp add: hub_inv_unregister)
next
  case (broadcast h d1 d2 snap)
  then show ?case by (auto simp: hub_inv_def hub_Broadcast_def pending_count_def split: option.splits)
next
  case (fanout h snap)
  then show ?case by (auto simp: hub_inv_def hub_fanout_def pending_count_def split: option.splits)
next
  case (deliver h c snap)
  then show ?case by (auto simp: hub_inv_def pending_count_def split: option.splits)
next
  case (poller h n)
  then show ?case by (auto simp: hub_inv_def pending_count_def split: option.splits)
qed

lemma hub_reachable_inv: "hub_reachable h \<Longrightarrow> hub_inv h"
  by (induction rule: hub_reachable.induct) (auto simp: hub_inv_New dest: hub_inv_step)

text \<open>
  Over all interleavings of connects, disconnects, broadcasts, deliveries and polls: what
  the poller will know once it has drained the transitions channel is whether somebody is connected; and
  what a connected client has been sent last, or will be sent next, is the newest snapshot that was meant
  for it: skipped frames are only ever older ones.
\<close>

theorem hub_never_stale:
  assumes "hub_reachable h"
  shows "(case hb_transitions h of Some n \<Rightarrow> n | None \<Rightarrow> hb_known h) = (if hb_clients h = {} then 0 else 1) \<and>
    (\<forall>c \<in> hb_clients h. \<exists>s. hb_latest h c = Some s \<and>
       (hb_chan h c = Some s \<or> hb_chan h c = None \<and> hb_written h c = Some s))"
  using hub_reachable_inv [OF assms] by (fastforce simp: hub_inv_def pending_count_def split: option.splits)

theorem hub_never_stale_witness:
  "\<exists>h. hub_reachable h \<and> hb_clients h = {7} \<and> hb_transitions h = Some 1 \<and>
     (\<exists>s. hb_latest h 7 = Some s \<and> (hb_chan h 7 = Some s \<or> hb_chan h 7 = None \<and> hb_written h 7 = Some s))"
proof -
  let ?h = "hub_register 7 (hub_New (store_New 1))"
  have "hub_step (hub_New (store_New 1)) ?h" by (rule hub_step.register) (simp_all add: hub_New_def)
  then have r: "hub_reachable ?h" by (blast intro: hub_reachable.intros)
  have c: "hb_clients ?h = {7}" "hb_transitions ?h = Some 1"
    by (simp_all add: hub_register_def Let_def send_client_def emit_def hub_New_def)
  from hub_never_stale [OF r] c r show ?thesis by (intro exI [of _ ?h]) simp
qed

subsection \<open>One stream\<close>

definition sse_filter :: "'s reqcontext \<Rightarrow> (Snapshot \<Rightarrow> Snapshot) option" where
  "sse_filter ctx =
     (case SubjectFromContext ctx of
        Some sub \<Rightarrow> if \<not> sub_Admin sub then Some (\<lambda>s. FilterSnapshotToZone s (sub_ZoneID sub)) else None
      | None \<Rightarrow> None)"

definition sse_revalidate :: "'s reqcontext \<Rightarrow> ('s \<Rightarrow> bool) option" where
  "sse_revalidate ctx =
     (case SubjectFromContext ctx of
        Some sub \<Rightarrow> if \<not> sub_Admin sub then RevalidateFromContext ctx else None
      | None \<Rightarrow> None)"

text \<open>
  What the loop of \<^verbatim>\<open>ServeHTTP\<close> selects: a frame, a heartbeat (with the state of the stores at that moment), or
  the end of the request or of the hub. Each write may fail; \<open>ok\<close> says whether it succeeds.
\<close>

datatype 's sse_event = Frame Snapshot bool | Ping 's bool | Closed

definition writeFrame ::
    "(Snapshot \<Rightarrow> string option) \<Rightarrow> (Snapshot \<Rightarrow> Snapshot) option \<Rightarrow> Snapshot \<Rightarrow> bool \<Rightarrow> bool \<times> string" where
  "writeFrame encode filt snap0 ok =
     (let snap = (case filt of None \<Rightarrow> snap0 | Some f \<Rightarrow> f snap0)
      in case encode snap of
           None \<Rightarrow> (True, [])
         | Some data \<Rightarrow> if ok then (True, ''data: '' @ data @ [CHR 0x0A, CHR 0x0A]) else (False, []))"

fun serve_step ::
    "(Snapshot \<Rightarrow> string option) \<Rightarrow> 's reqcontext \<Rightarrow> 's sse_event \<Rightarrow> bool \<times> string" where
  "serve_step encode ctx (Frame snap ok) = writeFrame encode (sse_filter ctx) snap ok"
| "serve_step encode ctx (Ping st ok) =
     (case sse_revalidate ctx of
        Some fn \<Rightarrow> if \<not> fn st then (False, []) else (ok, if ok then '': ping'' @ [CHR 0x0A, CHR 0x0A] else [])
      | None \<Rightarrow> (ok, if ok then '': ping'' @ [CHR 0x0A, CHR 0x0A] else []))"
| "serve_step encode ctx Closed = (False, [])"

fun serve :: "(Snapshot \<Rightarrow> string option) \<Rightarrow> 's reqcontext \<Rightarrow> 's sse_event list \<Rightarrow> string list" where
  "serve encode ctx [] = []"
| "serve encode ctx (e # es) =
     (case serve_step encode ctx e of (cont, out) \<Rightarrow> out # (if cont then serve encode ctx es else []))"

text \<open>An event that ends the stream ends it like a closed connection: nothing that comes later is written.\<close>

lemma serve_ends:
  assumes "serve_step encode ctx e = (False, [])"
  shows "serve encode ctx (pre @ e # rest) = serve encode ctx (pre @ [Closed])"
  using assms by (induction pre) (auto split: prod.splits)

text \<open>Two histories a guest of zone \<open>z\<close> cannot tell apart: frames agree on the zone.\<close>

fun same_for_zone :: "string \<Rightarrow> 's sse_event \<Rightarrow> 's sse_event \<Rightarrow> bool" where
  "same_for_zone z (Frame a ok) (Frame b ok') \<longleftrightarrow> zone_agrees z a b \<and> ok = ok'"
| "same_for_zone z (Ping s ok) (Ping t ok') \<longleftrightarrow> s = t \<and> ok = ok'"
| "same_for_zone z Closed Closed \<longleftrightarrow> True"
| "same_for_zone z _ _ \<longleftrightarrow> False"

lemma serve_step_same:
  assumes "SubjectFromContext ctx = Some sub" "\<not> sub_Admin sub" "same_for_zone (sub_ZoneID sub) a b"
  shows "serve_step encode ctx a = serve_step encode ctx b"
  using assms by (cases a; cases b) (auto simp: writeFrame_def sse_filter_def sse_revalidate_def dest: zone_agrees_Filter)

text \<open>
  The bytes a guest's stream receives depend on its own zone only: two
  histories whose frames agree after scoping to that zone produce the same output. And the stream of a guest
  whose access has been revoked ends at the next heartbeat: nothing is written from then on.
\<close>

lemma guest_stream_isolated:
  assumes "SubjectFromContext ctx = Some sub" and "\<not> sub_Admin sub"
  shows "(list_all2 (same_for_zone (sub_ZoneID sub)) es es' \<longrightarrow> serve encode ctx es = serve encode ctx es') \<and>
    (\<forall>fn st ok rest. RevalidateFromContext ctx = Some fn \<and> \<not> fn st \<longrightarrow> serve encode ctx (Ping st ok # rest) = [[]])"
proof (rule conjI)
  show "list_all2 (same_for_zone (sub_ZoneID sub)) es es' \<longrightarrow> serve encode ctx es = serve encode ctx es'"
  proof
    assume "list_all2 (same_for_zone (sub_ZoneID sub)) es es'"
    then show "serve encode ctx es = serve encode ctx es'"
      using serve_step_same [OF assms] by (induction rule: list_all2_induct) (auto split: prod.splits)
  qed
  show "\<forall>fn st ok rest. RevalidateFromContext ctx = Some fn \<and> \<not> fn st \<longrightarrow> serve encode ctx (Ping st ok # rest) = [[]]"
    using assms by (simp add: sse_revalidate_def)
qed

end
