(* ===== verification/Api_Access.thy ===== *)
theory Api_Access
  imports Api_Safety Sse_Hub
begin

section \<open>Sessions of guests: how they begin, what they show and how they end\<close>

text \<open>
  The life of a guest session across the components: a login against the guest store yields a cookie that
  authenticates as that guest; what the guest's reads return depends on its zone only; disabling or deleting the guest
  ends the session with the next request and its event stream with the next heartbeat. The stores enter through their lookup interface
  (\<open>glookup\<close>, \<open>ulookup\<close>).
\<close>

subsection \<open>Login\<close>

lemma Authenticate_in_store:
  assumes "fst (Authenticate uf cmp dummy us label pw) = Some g"
  shows "g \<in> set (guests_List us) \<and> \<not> gu_Disabled g"
  using assms
  by (auto simp: Authenticate_def Let_def guests_List_def public_def dest!: find_SomeD split: option.splits if_splits)

lemma guests_List_ids: "map gu_ID (guests_List us) = map gst_id (gt_items us)"
  by (simp add: guests_List_def public_def)

text \<open>The credentials a login has presented.\<close>

definition login_request :: "'w API \<Rightarrow> 'w request \<Rightarrow> login_body option" where
  "login_request a r =
     (case decode_body (dec_object (upd_login (a_fold a)) \<lparr>lb_Label = [], lb_Password = []\<rparr>)
             \<lparr>lb_Label = [], lb_Password = []\<rparr> (rq_body r 4096) of
        Inl _ \<Rightarrow> None | Inr b \<Rightarrow> Some b)"

lemma login_subject_no_cookie: "login_subject a b sys = Inl x \<Longrightarrow> rsp_cookies x = []"
  by (auto simp: login_subject_def writeErr_def writeJSON_def split: if_splits option.splits)

lemma handleLogin_cookie:
  assumes "handleLogin a env r sys = Some (resp, sys')" and "c \<in> set (rsp_cookies resp)"
  obtains body sub tok where "login_request a r = Some body" "login_subject a body sys = Inr sub"
    "newSessionValue (a_sessionSecret a) (ev_now env) (ev_nonce env) sub = Inr tok" "sc_Value c = tok" "sys' = sys"
proof -
  from assms obtain body where b: "login_request a r = Some body"
    by (auto simp: handleLogin_def login_request_def writeErrDetail_def writeJSON_def split: sum.splits)
  with assms obtain sub where s: "login_subject a body sys = Inr sub"
    by (auto simp: handleLogin_def login_request_def dest: login_subject_no_cookie split: sum.splits)
  with assms b obtain tok where "newSessionValue (a_sessionSecret a) (ev_now env) (ev_nonce env) sub = Inr tok"
      "sc_Value c = tok" "sys' = sys"
    by (auto simp: handleLogin_def login_request_def session_cookie_def writeErr_def writeJSON_def split: sum.splits)
  with b s that show thesis by blast
qed

definition session_ids :: "GuestsStore \<Rightarrow> bool" where
  "session_ids us \<longleftrightarrow> distinct (map gst_id (gt_items us)) \<and> (\<forall>g \<in> set (gt_items us). gst_id g \<noteq> [] \<and> length (gst_id g) \<le> 255)"

definition admin_subject :: Subject where
  "admin_subject = zero_Subject\<lparr>sub_Admin := True\<rparr>"

lemma login_subject_cases:
  assumes "login_subject a body sys = Inr sub"
  obtains (admin) "TrimSpace (lb_Label body) = []" "a_uiPassword a \<noteq> []" "lb_Password body = a_uiPassword a" "sub = admin_subject"
  | (guest) us g where "TrimSpace (lb_Label body) \<noteq> []" "sy_guests sys = Some us"
      "fst (Authenticate (a_fold a) (a_bcryptCompare a) (a_dummyHash a) us (lb_Label body) (lb_Password body)) = Some g"
      "sub = zero_Subject\<lparr>sub_GuestID := gu_ID g, sub_ZoneID := gu_ZoneID g\<rparr>"
  using assms by (auto simp: login_subject_def admin_subject_def split: if_splits option.splits)

lemma guest_resolves:
  assumes "sy_guests sys = Some us" and "session_ids us" and "zone_refs sys" and "g \<in> set (guests_List us)" and "\<not> gu_Disabled g"
    and "\<not> tailnet_owner a env r"
    and "parseSession (a_sessionSecret a) (ev_now env) (rq_cookie r ''tsctl_session'') = Some (zero_Subject\<lparr>sub_GuestID := gu_ID g\<rparr>)"
  shows "resolveSubject a env r sys = Some (zero_Subject\<lparr>sub_GuestID := gu_ID g, sub_ZoneID := gu_ZoneID g\<rparr>)"
proof -
  have "guests_Get us (gu_ID g) = Some g"
    using assms(2,4) by (simp add: session_ids_def ulookup.get_Some_iff guests_List_ids)
  moreover have "gu_ZoneID g \<in> bound_zones us"
    using assms(4) by (auto simp: guests_List_def bound_zones_def public_def)
  then obtain gs where "sy_groups sys = Some gs" "gu_ZoneID g \<in> zone_ids gs"
    using assms(1,3) by (auto simp: zone_refs_def split: option.splits)
  moreover from this obtain z where "groups_Get gs (gu_ZoneID g) = Some z"
    using groups_Get_zone_ids by (metis not_None_eq)
  ultimately show ?thesis using assms by (simp add: resolveSubject_def zero_Subject_def)
qed

text \<open>
  C17 (a login is worth exactly its credentials). A login that sets a session cookie was made with the administrator
  password (which is configured) or with the label and password of an enabled guest; and a later request with
  that cookie, before the expiry and with the stores unchanged, is served as that administrator or as that guest in the
  guest's zone.
\<close>

theorem login_then_authorized:
  assumes login: "handleLogin a env r sys = Some (resp, sys')" "c \<in> set (rsp_cookies resp)"
    and env: "\<And>n. ev_nonce env = Inr n \<Longrightarrow> length n = sessionNonceLen" "int64_time (ev_now env + sessionTTL)"
    and stores: "zone_refs sys" "\<And>us. sy_guests sys = Some us \<Longrightarrow> session_ids us"
  shows "\<exists>body sub. login_request a r = Some body \<and>
    (sub = admin_subject \<and> a_uiPassword a \<noteq> [] \<and> lb_Password body = a_uiPassword a \<or>
     (\<exists>us g. sy_guests sys = Some us \<and> \<not> gu_Disabled g \<and>
        fst (Authenticate (a_fold a) (a_bcryptCompare a) (a_dummyHash a) us (lb_Label body) (lb_Password body)) = Some g \<and>
        sub = zero_Subject\<lparr>sub_GuestID := gu_ID g, sub_ZoneID := gu_ZoneID g\<rparr>)) \<and>
    (\<forall>env' r'. rq_cookie r' ''tsctl_session'' = Some (sc_Value c) \<longrightarrow> \<not> tailnet_owner a env' r' \<longrightarrow>
       Unix (ev_now env') < Unix (ev_now env + sessionTTL) \<longrightarrow> resolveSubject a env' r' sys' = Some sub)"
proof -
  from login obtain body sub val where l: "login_request a r = Some body" "login_subject a body sys = Inr sub"
    "newSessionValue (a_sessionSecret a) (ev_now env) (ev_nonce env) sub = Inr val" "sc_Value c = val" "sys' = sys"
    by (rule handleLogin_cookie)
  then obtain n where n: "ev_nonce env = Inr n" "length n = sessionNonceLen"
    using env(1) by (auto simp: newSessionValue_def Let_def split: if_splits sum.splits)
  have parse: "parseSession (a_sessionSecret a) now (Some val) =
      (if Unix now < Unix (ev_now env + sessionTTL) then Some (session_subject sub) else None)" if "session_ok sub" for now
    using parse_payload [OF n(2) that env(2) new_decodes(1) refl new_decodes(2)] l(3) n(1) by auto
  from l(2) show ?thesis
  proof (cases rule: login_subject_cases)
    case admin
    have "session_ok sub" "session_subject sub = sub" "sub_Admin sub"
      using admin by (simp_all add: session_ok_def admin_subject_def session_subject_def)
    with parse l admin show ?thesis by (intro exI [of _ body] exI [of _ sub]) (auto simp: resolveSubject_def admin_subject_def)
  next
    case (guest us g)
    have g: "g \<in> set (guests_List us)" "\<not> gu_Disabled g" using Authenticate_in_store [OF guest(3)] by auto
    note ids = stores(2) [OF guest(2)]
    have "gu_ID g \<in> gst_id ` set (gt_items us)" using g(1) by (auto simp: guests_List_def public_def)
    then have ok: "session_ok sub" using ids guest(4) by (auto simp: session_ok_def session_ids_def)
    have "session_subject sub = zero_Subject\<lparr>sub_GuestID := gu_ID g\<rparr>"
      using guest(4) by (simp add: session_subject_def zero_Subject_def)
    with parse [OF ok] guest_resolves [OF guest(2) ids stores(1) g] l guest g
    show ?thesis by (intro exI [of _ body] exI [of _ sub]) auto
  qed
qed

definition example_login :: "unit request" where
  "example_login = guest_request ''POST'' [''login'']
     (BodyDoc (JObj [(''label'', JStr ''Ann''), (''password'', JStr ''swordfish'')]) [])"

lemma example_stores: "zone_refs example_system" "session_ids example_guests"
  by (simp_all add: zone_refs_def example_system_def bound_zones_def zone_ids_def example_groups_def example_guests_def session_ids_def)

lemma example_login_runs:
  "\<exists>resp sys'. handleLogin example_api example_env example_login example_system = Some (resp, sys') \<and> rsp_cookies resp \<noteq> []"
proof -
  have dec: "decode_body (dec_object (upd_login ascii_fold) \<lparr>lb_Label = [], lb_Password = []\<rparr>)
      \<lparr>lb_Label = [], lb_Password = []\<rparr> (rq_body example_login 4096) = Inr \<lparr>lb_Label = ''Ann'', lb_Password = ''swordfish''\<rparr>"
    by (simp add: decode_body_def example_login_def guest_request_def upd_login_def json_key_def login_fields_def)
  have trim: "TrimSpace ''Ann'' = ''Ann''" by code_simp
  have "login_subject example_api \<lparr>lb_Label = ''Ann'', lb_Password = ''swordfish''\<rparr> example_system =
      Inr (zero_Subject\<lparr>sub_GuestID := ''g1'', sub_ZoneID := ''z''\<rparr>)"
    using trim by (simp add: login_subject_def example_system_def example_guests_def example_api_def Authenticate_def public_def)
  then show ?thesis
    using dec by (simp add: handleLogin_def example_api_def example_env_def newSessionValue_def zero_Subject_def Let_def)
qed

theorem login_then_authorized_witness:
  "\<exists>resp sys' c. handleLogin example_api example_env example_login example_system = Some (resp, sys') \<and> c \<in> set (rsp_cookies resp) \<and>
     (\<exists>body sub. login_request example_api example_login = Some body \<and>
        (\<forall>env' r'. rq_cookie r' ''tsctl_session'' = Some (sc_Value c) \<longrightarrow> \<not> tailnet_owner example_api env' r' \<longrightarrow>
           Unix (ev_now env') < Unix (ev_now example_env + sessionTTL) \<longrightarrow> resolveSubject example_api env' r' sys' = Some sub))"
proof -
  obtain resp sys' where l: "handleLogin example_api example_env example_login example_system = Some (resp, sys')" "rsp_cookies resp \<noteq> []"
    using example_login_runs by blast
  then obtain c where c: "c \<in> set (rsp_cookies resp)" by (cases "rsp_cookies resp") auto
  have "\<And>n. ev_nonce example_env = Inr n \<Longrightarrow> length n = sessionNonceLen" "int64_time (ev_now example_env + sessionTTL)"
    by (auto simp: example_env_def int64_time_def Unix_def)
  from login_then_authorized [OF l(1) c this example_stores(1)] example_stores(2) l c show ?thesis
    by (auto simp: example_system_def)
qed

subsection \<open>Revocation\<close>

text \<open>A request that disabled or deleted the guest, with success.\<close>

definition revoking :: "'w API \<Rightarrow> env \<Rightarrow> 'w request \<Rightarrow> GuestsStore \<Rightarrow> string \<Rightarrow> 'w system \<Rightarrow> 'w system \<Rightarrow> bool" where
  "revoking a env q us gid sys sys' \<longleftrightarrow>
     (\<exists>resp. handleSetGuestDisabled a us gid env q sys = Some (resp, sys') \<and> rsp_status resp = 200 \<and>
        decode_body (dec_object (upd_disabled (a_fold a)) False) False (rq_body q guestReqLimit) = Inr True) \<or>
     (\<exists>resp. handleDeleteGuest us gid env q sys = Some (resp, sys') \<and> rsp_status resp = 204)"

lemma writeGroupErr_status: "rsp_status (writeGroupErr k e) \<noteq> 200 \<and> rsp_status (writeGroupErr k e) \<noteq> 204"
  by (cases e) (simp_all add: writeGroupErr_def writeErrDetail_def writeJSON_def)

lemma revoking_store:
  assumes "revoking a env q us gid sys sys'" and "distinct (map gst_id (gt_items us))" and "fresh_tmp (ev_io env) (gt_path us) (sy_files sys)"
  shows "\<exists>us'. sy_guests sys' = Some us' \<and> barred gid us'"
  using assms(1) unfolding revoking_def
proof (elim disjE exE conjE)
  fix resp
  assume h: "handleSetGuestDisabled a us gid env q sys = Some (resp, sys')" "rsp_status resp = 200"
    "decode_body (dec_object (upd_disabled (a_fold a)) False) False (rq_body q guestReqLimit) = Inr True"
  then obtain g us' fs' where "SetDisabled (ev_io env) gid True us (sy_files sys) = (Inr g, us', fs')" "sys' = with_guests sys us' fs'"
    using writeGroupErr_status by (auto simp: handleSetGuestDisabled_def split: prod.splits sum.splits)
  with SetDisabled_disables [OF assms(2,3)] show ?thesis by (auto simp: barred_def)
next
  fix resp
  assume h: "handleDeleteGuest us gid env q sys = Some (resp, sys')" "rsp_status resp = 204"
  then obtain us' fs' where "guests_Delete (ev_io env) gid us (sy_files sys) = (None, us', fs')" "sys' = with_guests sys us' fs'"
    using writeGroupErr_status by (auto simp: handleDeleteGuest_def split: prod.splits option.splits)
  with guests_Delete_removes [OF assms(2,3)] show ?thesis by (auto simp: barred_def)
qed

text \<open>
  What may happen afterwards: requests, one at a time, none of which enables the guest again or creates a guest with the
  same identifier (an identifier is eight random bytes), and anything that leaves the two stores alone.
\<close>

definition reinstates :: "'w API \<Rightarrow> env \<Rightarrow> 'w request \<Rightarrow> string \<Rightarrow> bool" where
  "reinstates a env q gid \<longleftrightarrow>
     rq_path q = [''guests'', gid, ''disabled''] \<and>
       decode_body (dec_object (upd_disabled (a_fold a)) False) False (rq_body q guestReqLimit) = Inr False \<or>
     rq_path q = [''guests''] \<and> (\<exists>k. NewID (ev_random env k) = Inr gid)"

inductive served_since :: "'w API \<Rightarrow> string \<Rightarrow> 'w system \<Rightarrow> 'w system \<Rightarrow> bool" for a gid sys where
  since_init: "served_since a gid sys sys"
| since_request: "served_since a gid sys sys1 \<Longrightarrow> \<not> reinstates a env q gid \<Longrightarrow> Routes a env q sys1 = Some (resp, sys2) \<Longrightarrow>
    served_since a gid sys sys2"
| since_other: "served_since a gid sys sys1 \<Longrightarrow> sy_groups sys2 = sy_groups sys1 \<Longrightarrow> sy_guests sys2 = sy_guests sys1 \<Longrightarrow>
    served_since a gid sys sys2"

definition shut_out :: "string \<Rightarrow> 'w system \<Rightarrow> bool" where
  "shut_out gid sys \<longleftrightarrow> (\<forall>us. sy_guests sys = Some us \<longrightarrow> barred gid us)"

lemma shut_out_cong: "sy_guests sys' = sy_guests sys \<Longrightarrow> shut_out gid sys' = shut_out gid sys"
  by (simp add: shut_out_def)

definition guest_path :: "string list \<Rightarrow> endpoint \<Rightarrow> bool" where
  "guest_path path ep \<longleftrightarrow>
     (case ep of EpGuestDisabled i \<Rightarrow> path = [''guests'', i, ''disabled''] | EpCreateGuest \<Rightarrow> path = [''guests''] | _ \<Rightarrow> True)"

lemma data_patterns_guest_path: "list_all (\<lambda>p. guest_path path (snd p)) (data_patterns g u path)"
proof -
  have ok: "guest_path p EpNodes" "guest_path p EpMe" "guest_path p EpListGroups" "guest_path p EpCreateGroup" "guest_path p EpListGuests"
      "guest_path p (EpRouter i)" "guest_path p (EpUpdateGroup i)" "guest_path p (EpDeleteGroup i)" "guest_path p (EpDeleteGuest i)"
      "guest_path p (EpExitNode i)" "guest_path p (EpKeep i)" "guest_path p (EpProbe i)" for p i
    by (simp_all add: guest_path_def)
  have new: "s = ''guests'' \<Longrightarrow> guest_path [s] EpCreateGuest"
      "s = ''guests'' \<Longrightarrow> v = ''disabled'' \<Longrightarrow> guest_path [s, i, v] (EpGuestDisabled i)" for s i v
    by (simp_all add: guest_path_def)
  show ?thesis
    unfolding data_patterns_def
    by (cases path; cases "tl path"; cases "tl (tl path)"; cases "tl (tl (tl path))") (simp_all add: ok new)
qed

lemma data_patterns_path:
  "(pat, EpGuestDisabled i) \<in> set (data_patterns g u p) \<Longrightarrow> p = [''guests'', i, ''disabled'']"
  "(pat, EpCreateGuest) \<in> set (data_patterns g u p) \<Longrightarrow> p = [''guests'']"
  using data_patterns_guest_path [of p g u] by (auto simp: list_all_iff guest_path_def)

lemma handleCreateGuest_out:
  assumes us: "sy_guests sys = Some us" "shut_out gid sys" and ret: "handleCreateGuest a us env r sys = Some (resp, sys')"
    and no: "\<forall>k. NewID (ev_random env k) \<noteq> Inr gid"
  shows "shut_out gid sys'"
proof (cases "sy_guests sys' = sy_guests sys")
  case True
  then show ?thesis using us(2) by (simp add: shut_out_def)
next
  case False
  then have neq: "sys' \<noteq> sys" by auto
  with ret obtain body where body: "decode_body (dec_object (upd_guest_body (a_fold a)) zero_guest_body) zero_guest_body (rq_body r guestReqLimit) = Inr body"
    by (cases "decode_body (dec_object (upd_guest_body (a_fold a)) zero_guest_body) zero_guest_body (rq_body r guestReqLimit)")
      (simp_all add: handleCreateGuest_def)
  let ?c = "guests_Create (a_fold a) (a_bcryptGenerate a) (ev_io env) (ev_random env) (ev_now env) (gb_Label body) (TrimSpace (gb_ZoneID body))
      (gb_Password body) us (sy_files sys)"
  obtain gs z where "sy_groups sys = Some gs" "groups_Get gs (TrimSpace (gb_ZoneID body)) = Some z"
    using ret body neq by (simp add: handleCreateGuest_def Let_def split: option.splits)
  with ret body obtain res us' fs' where "?c = Some (res, us', fs')" "sys' = with_guests sys us' fs'"
    by (cases ?c) (auto simp: handleCreateGuest_def Let_def split: sum.splits)
  with barred_Create us no show ?thesis by (fastforce simp: shut_out_def)
qed

lemma handleSetGuestDisabled_out:
  assumes "sy_guests sys = Some us" "shut_out gid sys" "handleSetGuestDisabled a us i env r sys = Some (resp, sys')"
    and "i = gid \<Longrightarrow> decode_body (dec_object (upd_disabled (a_fold a)) False) False (rq_body r guestReqLimit) \<noteq> Inr False"
  shows "shut_out gid sys'"
proof (cases "decode_body (dec_object (upd_disabled (a_fold a)) False) False (rq_body r guestReqLimit)")
  case (Inr d)
  obtain x us' fs' where s: "SetDisabled (ev_io env) i d us (sy_files sys) = (x, us', fs')" by (metis prod_cases3)
  with assms(3) Inr have "sy_guests sys' = Some us'" by (auto simp: handleSetGuestDisabled_def split: sum.splits)
  moreover from assms(4) Inr have "i = gid \<Longrightarrow> d" by (cases d) auto
  ultimately show ?thesis using barred_SetDisabled [OF s] assms(1,2) by (simp add: shut_out_def)
qed (use assms in \<open>auto simp: handleSetGuestDisabled_def\<close>)

lemma handleDeleteGuest_out:
  assumes "sy_guests sys = Some us" "shut_out gid sys" "handleDeleteGuest us i env r sys = Some (resp, sys')"
  shows "shut_out gid sys'"
  using assms
  by (auto simp: handleDeleteGuest_def shut_out_def dest: barred_Delete split: option.splits prod.splits)

lemma group_handlers_guests:
  "handleCreateGroup a gs env r sys = Some (resp, sys') \<Longrightarrow> sy_guests sys' = sy_guests sys"
  "handleUpdateGroup a gs i env r sys = Some (resp, sys') \<Longrightarrow> sy_guests sys' = sy_guests sys"
  "handleDeleteGroup gs i env r sys = Some (resp, sys') \<Longrightarrow> sy_guests sys' = sy_guests sys"
  by (auto simp: handleCreateGroup_def handleUpdateGroup_def handleDeleteGroup_def split: sum.splits option.splits prod.splits if_splits)

lemma group_handlers_out:
  "handleCreateGroup a gs env r sys = Some (resp, sys') \<Longrightarrow> shut_out gid sys \<Longrightarrow> shut_out gid sys'"
  "handleUpdateGroup a gs i env r sys = Some (resp, sys') \<Longrightarrow> shut_out gid sys \<Longrightarrow> shut_out gid sys'"
  "handleDeleteGroup gs i env r sys = Some (resp, sys') \<Longrightarrow> shut_out gid sys \<Longrightarrow> shut_out gid sys'"
  by (simp_all add: shut_out_def group_handlers_guests)

lemma endpoint_out:
  assumes out: "shut_out gid sys" and ret: "endpoint_handler a ep env r sys = Some (resp, sys')"
    and pat: "(pat, ep) \<in> set (data_patterns g u (rq_path r))" and no: "\<not> reinstates a env r gid"
  shows "shut_out gid sys'"
proof (cases "read_endpoint ep \<or> (\<exists>i. ep = EpExitNode i \<or> ep = EpKeep i \<or> ep = EpProbe i)")
  case True
  then have "sys' = sys \<or> (\<exists>i t. controller_effect a env sys i t sys')"
    using read_endpoint_unchanged [OF _ ret] router_write_effect [OF _ ret] by metis
  then show ?thesis using out controller_effect_stores shut_out_cong by metis
next
  case False
  show ?thesis
  proof (cases ep)
    case EpCreateGuest
    then have "\<forall>k. NewID (ev_random env k) \<noteq> Inr gid" using no pat data_patterns_path(2) by (auto simp: reinstates_def)
    with EpCreateGuest ret out show ?thesis
      by (auto simp: on_guests_def dest!: RequireAdmin_Some intro: handleCreateGuest_out split: option.splits)
  next
    case (EpGuestDisabled i)
    then have "i = gid \<Longrightarrow> decode_body (dec_object (upd_disabled (a_fold a)) False) False (rq_body r guestReqLimit) \<noteq> Inr False"
      using no pat data_patterns_path(1) by (auto simp: reinstates_def)
    then show ?thesis
      using EpGuestDisabled ret out handleSetGuestDisabled_out [of sys _ gid a i env r resp sys']
      by (auto simp: on_guests_def dest!: RequireAdmin_Some split: option.splits)
  next
    case (EpDeleteGuest i)
    with ret out show ?thesis
      by (auto simp: on_guests_def dest!: RequireAdmin_Some intro: handleDeleteGuest_out split: option.splits)
  qed (use False ret out in \<open>auto simp: on_groups_def dest!: RequireAdmin_Some dest: group_handlers_out split: option.splits\<close>)
qed

lemma Routes_out:
  assumes "shut_out gid sys" and "Routes a env r sys = Some (resp, sys')" and "\<not> reinstates a env r gid"
  shows "shut_out gid sys'"
  using assms(2)
proof (cases rule: Routes_api_mux)
  case passed
  from passed(3) show ?thesis
  proof (cases rule: api_mux_cases)
    case (data sub)
    from data(2) show ?thesis
    proof (cases rule: data_mux_cases)
      case (endpoint pat ep)
      moreover have "\<not> reinstates a env (r\<lparr>rq_ctx := auth_context a r sub\<rparr>) gid" using assms(3) by (simp add: reinstates_def)
      ultimately show ?thesis using endpoint_out [OF assms(1)] by blast
    qed (use assms(1) in simp)
  qed (use assms(1) in simp_all)
qed (use assms(1) in simp)

lemma served_since_out: "served_since a gid sys sys' \<Longrightarrow> shut_out gid sys \<Longrightarrow> shut_out gid sys'"
  by (induction rule: served_since.induct) (auto dest: Routes_out shut_out_cong)

lemma shut_out_resolve:
  assumes "shut_out (sub_GuestID sub) sys" and "parseSession (a_sessionSecret a) (ev_now env) (rq_cookie r ''tsctl_session'') = Some sub"
    and "\<not> sub_Admin sub" and "\<not> tailnet_owner a env r"
  shows "resolveSubject a env r sys = None"
proof -
  have "gu_Disabled g" if "sy_guests sys = Some us" "guests_Get us (sub_GuestID sub) = Some g" for us g
    using ulookup.get_SomeD [OF that(2)] assms(1) that(1) by (auto simp: shut_out_def barred_def guests_List_def public_def)
  with assms(2-) show ?thesis by (auto simp: resolveSubject_def split: option.splits)
qed

text \<open>
  C13 (revocation is immediate and lasts). After an administrator's request to disable or to delete a guest has succeeded,
  and whatever requests are served from then on as long as none of them enables the guest again or creates a guest with the same
  identifier: a session of that guest, valid and unexpired as its cookie still is, no longer authenticates. The next request that
  carries it is answered with 401; and an event stream opened with it, whatever it has sent before, ends at its next
  heartbeat as if the connection had been closed there, and writes nothing of what happens later.
\<close>

theorem guest_session_revoked:
  assumes "revoking a env q us gid sys sys'" and "distinct (map gst_id (gt_items us))"
    and "fresh_tmp (ev_io env) (gt_path us) (sy_files sys)"
    and later: "served_since a gid sys' sys2"
    and session: "parseSession (a_sessionSecret a) (ev_now env') (rq_cookie r ''tsctl_session'') = Some sub"
      "\<not> sub_Admin sub" "sub_GuestID sub = gid" "\<not> tailnet_owner a env' r"
  shows "RequireAuth a next env' r sys2 = Some (writeErr 401 ''login required'', sys2) \<and>
    (\<forall>sub0 encode pre ok rest. \<not> sub_Admin sub0 \<longrightarrow>
       serve encode (auth_context a r sub0) (pre @ Ping (env', sys2) ok # rest) = serve encode (auth_context a r sub0) (pre @ [Closed]))"
proof -
  obtain us' where "sy_guests sys' = Some us'" "barred gid us'" using revoking_store [OF assms(1-3)] by blast
  then have "shut_out gid sys'" by (simp add: shut_out_def)
  from served_since_out [OF later this] have none: "resolveSubject a env' r sys2 = None"
    using session by (intro shut_out_resolve [of sub]) simp_all
  have "serve encode (auth_context a r sub0) (pre @ Ping (env', sys2) ok # rest) = serve encode (auth_context a r sub0) (pre @ [Closed])"
    if "\<not> sub_Admin sub0" for encode sub0 pre ok rest
    by (rule serve_ends) (use that none in \<open>simp add: sse_revalidate_def auth_context_def\<close>)
  with none show ?thesis by (simp add: RequireAuth_def)
qed

theorem guest_session_revoked_witness:
  "\<exists>sys'. revoking example_api example_env (guest_request ''DELETE'' [''guests'', ''g1''] BodyEOF) example_guests ''g1'' example_system sys' \<and>
     RequireAuth example_api (\<lambda>env r sys. None) example_env (guest_request ''GET'' [''nodes''] BodyEOF) sys' =
       Some (writeErr 401 ''login required'', sys')"
proof -
  let ?q = "guest_request ''DELETE'' [''guests'', ''g1''] BodyEOF" and ?r = "guest_request ''GET'' [''nodes''] BodyEOF"
  obtain us' fs' where d: "guests_Delete (io_ok ''t'') ''g1'' example_guests Map.empty = (None, us', fs')"
    by (simp add: guests_Delete_def guests_indexOfLocked_def example_guests_def guests_persistLocked_def atomic_save_def io_ok_def Let_def)
  then have rev: "revoking example_api example_env ?q example_guests ''g1'' example_system (with_guests example_system us' fs')"
    by (simp add: revoking_def handleDeleteGuest_def example_env_def example_system_def WriteHeader_def)
  have d: "distinct (map gst_id (gt_items example_guests))" by (simp add: example_guests_def)
  have tmp: "fresh_tmp (ev_io example_env) (gt_path example_guests) (sy_files example_system)"
    by (simp add: fresh_tmp_def example_env_def io_ok_def example_guests_def example_system_def)
  have ses: "parseSession (a_sessionSecret example_api) (ev_now example_env) (rq_cookie ?r ''tsctl_session'') = Some (zero_Subject\<lparr>sub_GuestID := ''g1''\<rparr>)"
    using example_session by (simp add: example_api_def example_env_def guest_request_def)
  have "RequireAuth example_api (\<lambda>env r sys. None) example_env ?r (with_guests example_system us' fs') =
      Some (writeErr 401 ''login required'', with_guests example_system us' fs')"
    using guest_session_revoked [OF rev d tmp since_init ses _ _ example_not_owner] by (simp add: zero_Subject_def)
  with rev show ?thesis by blast
qed

subsection \<open>What a guest can read\<close>

definition zone_group :: "'w system \<Rightarrow> string \<Rightarrow> Group option" where
  "zone_group sys z = Option.bind (sy_groups sys) (\<lambda>gs. groups_Get gs z)"

text \<open>Two systems that agree on a zone: its definition, its part of the snapshot and its routers.\<close>

definition same_view :: "string \<Rightarrow> 'w system \<Rightarrow> 'w system \<Rightarrow> bool" where
  "same_view z s t \<longleftrightarrow>
     (sy_groups s = None \<longleftrightarrow> sy_groups t = None) \<and> (sy_guests s = None \<longleftrightarrow> sy_guests t = None) \<and>
     zone_group s z = zone_group t z \<and> zone_agrees z (sy_snap s) (sy_snap t) \<and>
     (\<forall>g ident. zone_group s z = Some g \<longrightarrow> ident \<in> set (g_Consumers g) \<longrightarrow>
        findRouterViewByStableID (sy_snap s) ident = findRouterViewByStableID (sy_snap t) ident)"

lemma routerInZone_iff: "routerInZone sys z i \<longleftrightarrow> (\<exists>g. zone_group sys z = Some g \<and> i \<in> set (g_Consumers g))"
  by (auto simp: routerInZone_def zone_group_def containsStr_def split: option.splits)

lemma handleRouter_same:
  assumes "subject_of r = Some sub" "\<not> sub_Admin sub" "same_view (sub_ZoneID sub) s t"
  shows "map_option fst (handleRouter i env r s) = map_option fst (handleRouter i env r t)"
proof (cases "routerInZone s (sub_ZoneID sub) i")
  case True
  moreover from True have "routerInZone t (sub_ZoneID sub) i" using assms(3) by (simp add: routerInZone_iff same_view_def)
  moreover from True have "findRouterViewByStableID (sy_snap s) i = findRouterViewByStableID (sy_snap t) i"
    using assms(3) by (auto simp: routerInZone_iff same_view_def)
  ultimately show ?thesis using assms(1) by (simp add: handleRouter_def split: option.splits)
next
  case False
  moreover from False have "\<not> routerInZone t (sub_ZoneID sub) i" using assms(3) by (simp add: routerInZone_iff same_view_def)
  ultimately show ?thesis using assms(1,2) by (simp add: handleRouter_def)
qed

lemma handleMe_same:
  assumes "subject_of r = Some sub" "\<not> sub_Admin sub" "same_view (sub_ZoneID sub) s t"
  shows "map_option fst (handleMe env r s) = map_option fst (handleMe env r t)"
proof -
  have "(case sy_groups x of None \<Rightarrow> [] | Some gs \<Rightarrow> case groups_Get gs z of None \<Rightarrow> [] | Some g \<Rightarrow> g_Name g) =
      (case zone_group x z of None \<Rightarrow> [] | Some g \<Rightarrow> g_Name g)" for x :: "'a system" and z
    by (simp add: zone_group_def split: option.splits)
  then show ?thesis using assms by (simp add: handleMe_def same_view_def Let_def)
qed

lemma read_endpoint_same:
  assumes "subject_of r = Some sub" "\<not> sub_Admin sub" "same_view (sub_ZoneID sub) s t" "read_endpoint ep"
  shows "map_option fst (endpoint_handler a ep env r s) = map_option fst (endpoint_handler a ep env r t)"
proof (cases ep)
  case EpNodes
  moreover have "FilterSnapshotToZone (sy_snap s) (sub_ZoneID sub) = FilterSnapshotToZone (sy_snap t) (sub_ZoneID sub)"
    using assms(3) by (auto simp: same_view_def intro: zone_agrees_Filter)
  ultimately show ?thesis using assms by (simp add: handleNodes_def Let_def)
qed (use assms handleRouter_same [OF assms(1-3)] handleMe_same [OF assms(1-3)] in \<open>simp_all add: RequireAdmin_def\<close>)

lemma data_mux_same:
  assumes "subject_of r = Some sub" "\<not> sub_Admin sub" "same_view (sub_ZoneID sub) s t" "safe_method (rq_Method r)"
  shows "map_option fst (data_mux a env r s) = map_option fst (data_mux a env r t)"
proof -
  define ps where "ps = data_patterns (sy_groups s \<noteq> None) (sy_guests s \<noteq> None) (rq_path r)"
  have pt: "data_patterns (sy_groups t \<noteq> None) (sy_guests t \<noteq> None) (rq_path r) = ps"
    using assms(3) unfolding ps_def same_view_def by simp
  show ?thesis
  proof (cases "List.find (\<lambda>p. method_matches (fst p) (rq_Method r)) ps")
    case None
    then show ?thesis unfolding data_mux_def pt ps_def [symmetric] Let_def by simp
  next
    case (Some p)
    then obtain pat ep where p: "p = (pat, ep)" "(pat, ep) \<in> set ps" "method_matches pat (rq_Method r)"
      using find_SomeD [OF Some] by (cases p) auto
    then have "pat = ''GET''" using method_matches_safe [OF p(3) assms(4)] data_patterns_head unfolding ps_def by blast
    with p(2) have "read_endpoint ep" using data_patterns_get unfolding ps_def by blast
    with read_endpoint_same [OF assms(1-3)] Some p(1) show ?thesis
      unfolding data_mux_def pt ps_def [symmetric] Let_def by simp
  qed
qed

text \<open>
  C16 (confidentiality of reads). To a guest, the answers to all its GET and HEAD requests are the same in any two
  systems that agree on its zone (the zone's definition, what the snapshot shows of it, and the zone's routers),
  however they differ otherwise: other zones, other routers and nodes, other guests, the state of any change under way.
  In particular a router outside the zone is answered like one that does not exist.
\<close>

theorem guest_reads_confined:
  assumes "resolveSubject a env r s = Some sub" and "resolveSubject a env r t = Some sub" and "\<not> sub_Admin sub"
    and "same_view (sub_ZoneID sub) s t" and "safe_method (rq_Method r)"
  shows "map_option fst (Routes a env r s) = map_option fst (Routes a env r t)"
proof -
  let ?r = "r\<lparr>rq_ctx := auth_context a r sub\<rparr>"
  have d: "map_option fst (data_mux a env ?r s) = map_option fst (data_mux a env ?r t)"
    by (rule data_mux_same [of _ sub]) (use assms in simp_all)
  have c: "map_option fst (handleCSRF env r s) = map_option fst (handleCSRF env r t)"
    by (simp add: handleCSRF_def split: sum.splits)
  have "rq_Method r \<noteq> ''POST''" using assms(5) by (auto simp: safe_method_def)
  with assms(1,2) d c have "map_option fst (api_mux a env r s) = map_option fst (api_mux a env r t)"
    by (simp add: api_mux_def RequireAuth_def)
  then show ?thesis by (simp add: Routes_def RequireHost_def RequireCSRF_def)
qed

text \<open>A system that has published its zone and the zone's router, and the same with another zone, another node and another router.\<close>

definition example_zoned :: "unit system" where
  "example_zoned = example_system\<lparr>sy_poller := example_poller\<lparr>po_snap := (po_snap example_poller)
     \<lparr>sn_Groups := [example_zone_view], sn_Nodes := [zero_NodeView\<lparr>nv_StableID := ''r1''\<rparr>]\<rparr>\<rparr>\<rparr>"

definition example_other :: "unit system" where
  "example_other = example_zoned
     \<lparr>sy_groups := Some (example_groups\<lparr>gs_items := gs_items example_groups @
        [\<lparr>g_ID = ''y'', g_Name = ''Office'', g_Consumers = [''r9''], g_AllowedExitNodes = []\<rparr>]\<rparr>),
      sy_poller := example_poller\<lparr>po_snap := (po_snap example_poller)
        \<lparr>sn_Groups := [example_zone_view], sn_Nodes := [zero_NodeView\<lparr>nv_StableID := ''r1''\<rparr>, zero_NodeView\<lparr>nv_StableID := ''r9''\<rparr>],
         sn_Routers := [example_consumer, example_consumer\<lparr>rv_Node := zero_NodeView\<lparr>nv_StableID := ''r9''\<rparr>\<rparr>]\<rparr>\<rparr>\<rparr>"

lemma example_other_view: "same_view ''z'' example_zoned example_other"
  by (simp add: same_view_def zone_agrees_def example_zoned_def example_other_def example_system_def zone_group_def groups_Get_def
      groups_indexOfLocked_def example_groups_def example_poller_def poller_New_def store_New_def findRouterViewByStableID_def
      example_zone_view_def example_consumer_def zero_NodeView_def)

theorem guest_reads_confined_witness:
  "map_option fst (Routes example_api example_env (guest_request ''GET'' [''nodes''] BodyEOF) example_zoned) =
     map_option fst (Routes example_api example_env (guest_request ''GET'' [''nodes''] BodyEOF) example_other) \<and>
   sn_Nodes (sy_snap example_other) \<noteq> sn_Nodes (sy_snap example_zoned)"
proof
  let ?r = "guest_request ''GET'' [''nodes''] BodyEOF" and ?sub = "zero_Subject\<lparr>sub_GuestID := ''g1'', sub_ZoneID := ''z''\<rparr>"
  have z: "resolveSubject example_api example_env ?r example_zoned = Some ?sub"
    and o: "resolveSubject example_api example_env ?r example_other = Some ?sub"
    using example_session
    by (simp_all add: resolveSubject_def tailnet_owner_def guest_request_def example_other_def example_zoned_def example_system_def guests_Get_def
        guests_indexOfLocked_def example_guests_def groups_Get_def groups_indexOfLocked_def example_groups_def public_def
        zero_Subject_def example_api_def example_env_def)
  have v: "same_view (sub_ZoneID ?sub) example_zoned example_other"
    using example_other_view by (simp add: zero_Subject_def)
  show "map_option fst (Routes example_api example_env ?r example_zoned) = map_option fst (Routes example_api example_env ?r example_other)"
    by (rule guest_reads_confined [OF z o _ v]) (simp_all add: zero_Subject_def safe_method_def guest_request_def)
  show "sn_Nodes (sy_snap example_other) \<noteq> sn_Nodes (sy_snap example_zoned)"
    by (simp add: example_other_def example_zoned_def)
qed

end
