(* ===== verification/Tsctl_Main.thy ===== *)
theory Tsctl_Main
  imports Config Api_Access Sse_Hub "HOL-Library.Signed_Division"
begin

section \<open>cmd/tsctl: the composition root\<close>

text \<open>
  \<^verbatim>\<open>cmd/tsctl/main.go\<close> and \<^verbatim>\<open>sdnotify.go\<close>: the choice of the command, the checks before serving, the wiring of the
  components (stores from the state directory, router client, poller, API) and the HTTP surface all listeners share.
  What the process prints and how it talks to systemd is in \<open>Tsctl_Commands\<close>, its goroutines in \<open>Server_Goroutines\<close>; the tailnet node enters by whether it comes up and by
  the status it reports.
\<close>

subsection \<open>Commands\<close>

datatype command = CmdHelp | CmdVersion | CmdServe "string list" | CmdSpike string | CmdSpikeUsage | CmdDemo | CmdUnknown string

definition main_dispatch :: "string list \<Rightarrow> command" where
  "main_dispatch args =
     (if args \<noteq> [] \<and> hd args \<in> set [''help'', ''-h'', ''-help'', ''--help''] then CmdHelp
      else if args \<noteq> [] \<and> hd args \<in> set [''version'', ''-v'', ''-version'', ''--version''] then CmdVersion
      else (let (cmd, rest) = (if args \<noteq> [] \<and> \<not> HasPrefix (hd args) ''-'' then (hd args, tl args) else (''serve'', args))
            in if cmd = ''serve'' then CmdServe rest
               else if cmd = ''spike'' then (case rest of [] \<Rightarrow> CmdSpikeUsage | r # _ \<Rightarrow> CmdSpike r)
               else if cmd = ''demo'' then CmdDemo
               else CmdUnknown cmd))"

subsection \<open>Before serving\<close>

definition serve_guard :: "Config \<Rightarrow> go_error option" where
  "serve_guard cfg =
     (if cf_Owner cfg = [] \<and> cf_UIPassword cfg = [] then
        Some (ErrorString ''no authentication configured: set an owner (TSCTL_OWNER / --owner) for the tailnet path and/or a UI password (TSCTL_UI_PASSWORD / --ui-password) for the host-port path'')
      else if cf_HTTPListen cfg \<noteq> [] \<and> cf_UIPassword cfg = [] then
        Some (ErrorString ''a password is required to expose the UI on a host port; set TSCTL_UI_PASSWORD'')
      else None)"

definition self_hosts :: "PeerStatus \<Rightarrow> string list" where
  "self_hosts self =
     (let dn = TrimSuffix (ps_DNSName self) ''.''
      in (if dn = [] then []
          else dn # (case IndexByte dn CHR ''.'' of Some i \<Rightarrow> if i > 0 then [take i dn] else [] | None \<Rightarrow> [])) @
         map addr_String (ps_TailscaleIPs self))"

definition allowedHosts :: "Config \<Rightarrow> go_error + Status option \<Rightarrow> string list" where
  "allowedHosts cfg lc_status =
     cf_AllowedHosts cfg @
     (case lc_status of Inr (Some st) \<Rightarrow> (case st_Self st of Some self \<Rightarrow> self_hosts self | None \<Rightarrow> []) | _ \<Rightarrow> [])"

definition routerOptions :: "Config \<Rightarrow> bool \<Rightarrow> Options" where
  "routerOptions cfg tailscaleDial = \<lparr>op_Transport = cf_RouterTransport cfg, op_TailscaleDial = tailscaleDial,
     op_RouterAddrs = cf_RouterAddrs cfg, op_User = cf_SSHUser cfg, op_Password = cf_SSHPassword cfg, op_KeyboardInteractive = True,
     op_HostKeyMode = cf_RouterHostKeyMode cfg, op_KnownHostsPath = cf_KnownHostsPath cfg, op_Timeout = cf_SSHTimeout cfg,
     op_LANAccess = cf_ExitNodeLANAccess cfg\<rparr>"

definition warnIfInsecureHostKey :: "Config \<Rightarrow> bool" where
  "warnIfInsecureHostKey cfg \<longleftrightarrow> cf_RouterTransport cfg = ''ip-password'' \<and> cf_RouterHostKeyMode cfg = ''insecure''"

subsection \<open>Wiring\<close>

text \<open>
  What a start of the server meets outside: the files of the state directory with the fault (if any) of reading each
  store, whether the tailnet node comes up, its status, the known_hosts library, the random secret, the clock and
  whether each of the three sockets can be opened.
\<close>

record start_env =
  se_files :: files
  se_groupsFault :: "string option"
  se_guestsFault :: "string option"
  se_up :: "go_error option"
  se_localClient :: "go_error option"
  se_status :: "go_error + Status option"
  se_knownHosts :: "string \<Rightarrow> load_error option"
  se_secret :: "string + string"
  se_now :: time
  se_listen :: "go_error option"
  se_hostListen :: "go_error option"
  se_healthListen :: "go_error option"

definition open_listeners :: "start_env \<Rightarrow> Config \<Rightarrow> go_error option" where
  "open_listeners se cfg =
     (case se_listen se of Some e \<Rightarrow> Some (Wrapped ''tsnet listen'' e) | None \<Rightarrow>
     (case (if cf_HTTPListen cfg \<noteq> [] then se_hostListen se else None) of
        Some e \<Rightarrow> Some (Wrapped (''http-listen '' @ Quote (cf_HTTPListen cfg)) e)
      | None \<Rightarrow> map_option (Wrapped ''healthz listen'') (se_healthListen se)))"

definition store_failure :: "string \<Rightarrow> string \<Rightarrow> store_error \<Rightarrow> go_error" where
  "store_failure what kind e = Wrapped what (ErrorString (store_Error kind e))"

definition poller_config :: "Config \<Rightarrow> pconfig" where
  "poller_config cfg =
     ConfigureKeep (cf_RequireKeep cfg) (ConfigureEgress (cf_EgressCheck cfg) (cf_EgressURL cfg)
       \<lparr>pc_routers = cf_Routers cfg, pc_egressCheck = False, pc_egressURL = [], pc_requireKeep = False, pc_revertWindow = RevertWindow\<rparr>)"

record 'w server =
  sv_config :: Config
  sv_client :: Client
  sv_api :: "'w API"
  sv_system :: "'w system"

text \<open>
  \<^verbatim>\<open>runServe\<close> up to the point where it serves: an error, or the wired server on its open sockets. \<open>base\<close> holds the injected libraries and the
  router operations over the client; a failing random source is a panic, which is \<open>None\<close>.
\<close>

definition runServe :: "'w API \<Rightarrow> 'w \<Rightarrow> start_env \<Rightarrow> go_error + Config \<Rightarrow> (go_error + 'w server) option" where
  "runServe base w se loaded =
     (case loaded of Inl e \<Rightarrow> Some (Inl (Wrapped ''config'' e)) | Inr cfg \<Rightarrow>
     (case serve_guard cfg of Some e \<Rightarrow> Some (Inl e) | None \<Rightarrow>
     (case se_up se of Some e \<Rightarrow> Some (Inl (Wrapped ''tsnet up'' e)) | None \<Rightarrow>
     (case se_localClient se of Some e \<Rightarrow> Some (Inl (Wrapped ''tsnet local client'' e)) | None \<Rightarrow>
     (case router_New (se_knownHosts se) (routerOptions cfg True) of Inl e \<Rightarrow> Some (Inl (Wrapped ''router client'' e)) | Inr rc \<Rightarrow>
     (case groups_New (a_fold base) (se_groupsFault se) (se_files se) (filepath_Join (cf_StateDir cfg) ''groups.json'') of
        Inl e \<Rightarrow> Some (Inl (store_failure ''groups store'' ''group'' e))
      | Inr gs \<Rightarrow>
     (case guests_New (a_fold base) (se_guestsFault se) (se_files se) (filepath_Join (cf_StateDir cfg) ''guests.json'') of
        Inl e \<Rightarrow> Some (Inl (store_failure ''guests store'' ''guest'' e))
      | Inr us \<Rightarrow>
     (case api_New (base\<lparr>a_cfg := poller_config cfg\<rparr>)
             \<lparr>ac_Owner = cf_Owner cfg, ac_UIPassword = cf_UIPassword cfg, ac_AllowedHosts = allowedHosts cfg (se_status se)\<rparr> (se_secret se) of
        None \<Rightarrow> None
      | Some a \<Rightarrow>
     (case open_listeners se cfg of Some e \<Rightarrow> Some (Inl e) | None \<Rightarrow>
        Some (Inr \<lparr>sv_config = cfg, sv_client = rc, sv_api = a,
          sv_system = \<lparr>sy_poller = poller_New (store_New (se_now se)), sy_world = w, sy_groups = Some gs, sy_guests = Some us,
                       sy_files = se_files se\<rparr>\<rparr>))))))))))"

subsection \<open>The HTTP surface\<close>

text \<open>
  \<^verbatim>\<open>buildMux\<close>: the event stream, the API and the static files, by the segments of the path. \<open>hub\<close> and \<open>static\<close> are the
  handlers of the hub and of the embedded files.
\<close>

definition buildMux :: "'w API \<Rightarrow> 'w handler \<Rightarrow> 'w handler \<Rightarrow> string list \<Rightarrow> 'w handler" where
  "buildMux a hub static path ev r sys =
     (case path of
        s # t # rest \<Rightarrow>
          if s = ''api'' \<and> t = ''events'' \<and> rest = [] then RequireAuth a (RequireHost a hub) ev r sys
          else if s = ''api'' then Routes a ev (r\<lparr>rq_path := t # rest\<rparr>) sys
          else static ev r sys
      | _ \<Rightarrow> static ev r sys)"

definition security_headers :: "(string \<times> string) list" where
  "security_headers =
     [(''Content-Security-Policy'', ''default-src '' @ [CHR 0x27] @ ''self'' @ [CHR 0x27] @ ''; style-src '' @ [CHR 0x27] @ ''self'' @ [CHR 0x27] @
        '' '' @ [CHR 0x27] @ ''unsafe-inline'' @ [CHR 0x27] @ ''; img-src '' @ [CHR 0x27] @ ''self'' @ [CHR 0x27] @ '' data:; object-src '' @
        [CHR 0x27] @ ''none'' @ [CHR 0x27] @ ''; base-uri '' @ [CHR 0x27] @ ''self'' @ [CHR 0x27] @ ''; frame-ancestors '' @ [CHR 0x27] @ ''none'' @ [CHR 0x27]),
      (''X-Content-Type-Options'', ''nosniff''), (''Referrer-Policy'', ''same-origin'')]"

definition securityHeaders :: "'w handler \<Rightarrow> env \<Rightarrow> 'w request \<Rightarrow> 'w system \<Rightarrow> ((string \<times> string) list \<times> response \<times> 'w system) option" where
  "securityHeaders next ev r sys = map_option (\<lambda>x. (security_headers, x)) (next ev r sys)"

definition healthz :: "bool \<Rightarrow> Snapshot \<Rightarrow> nat \<times> string" where
  "healthz healthy snap =
     (if \<not> healthy then (503, ''shutting down'' @ [CHR 0x0A])
      else if sn_NetmapErr snap \<noteq> [] then (200, ''ok (netmap error: '' @ sn_NetmapErr snap @ '')'' @ [CHR 0x0A])
      else (200, ''ok'' @ [CHR 0x0A]))"

subsection \<open>Shutdown\<close>

text \<open>
  The end of \<^verbatim>\<open>runServe\<close>, from the signal on: the steps it takes in order, what it logs and what it returns. \<open>fails\<close> says which
  of the steps that can fail do. A step that fails is logged and the next one is taken; only the error of closing the
  node is returned.
\<close>

datatype stop_step = NotifyStopping | MarkUnhealthy | CancelWorkers | AwaitWorkers | DrainTailnet | DrainHost | DrainHealth | CloseNode

definition stop_steps :: "Config \<Rightarrow> stop_step list" where
  "stop_steps cfg = [NotifyStopping, MarkUnhealthy, CancelWorkers, AwaitWorkers, DrainTailnet] @
     (if cf_HTTPListen cfg \<noteq> [] then [DrainHost] else []) @ [DrainHealth, CloseNode]"

fun stop_failure :: "stop_step \<Rightarrow> string option" where
  "stop_failure NotifyStopping = Some ''sd_notify STOPPING: ''"
| "stop_failure DrainTailnet = Some ''tailnet http shutdown: ''"
| "stop_failure DrainHost = Some ''host http shutdown: ''"
| "stop_failure DrainHealth = Some ''healthz shutdown: ''"
| "stop_failure _ = None"

definition stop_log :: "(stop_step \<Rightarrow> go_error option) \<Rightarrow> stop_step \<Rightarrow> string list" where
  "stop_log fails st =
     (case (stop_failure st, fails st) of (Some what, Some e) \<Rightarrow> [what @ Error e] | _ \<Rightarrow> [])"

definition shutdown :: "Config \<Rightarrow> (stop_step \<Rightarrow> go_error option) \<Rightarrow> stop_step list \<times> string list \<times> go_error option" where
  "shutdown cfg fails =
     (let steps = stop_steps cfg;
          logs = ''shutdown signal received; draining'' # concat (map (stop_log fails) steps)
      in case fails CloseNode of
           Some e \<Rightarrow> (steps, logs, Some (Wrapped ''tsnet close'' e))
         | None \<Rightarrow> (steps, logs @ [''clean shutdown''], None))"

subsection \<open>The diagnostic of one router\<close>

text \<open>
  \<^verbatim>\<open>runSpike\<close>: the configured transport to one router, one status, and a summary of it. \<open>up\<close> is the outcome of bringing the
  tailnet node up, which the LAN transport does not need; \<open>connect\<close> runs commands over a client.
\<close>

definition show_bool :: "bool \<Rightarrow> string" where
  "show_bool b = (if b then ''true'' else ''false'')"

definition spike_current :: "ExitNodeRef option \<Rightarrow> string" where
  "spike_current cur =
     (case cur of
        None \<Rightarrow> ''(none)''
      | Some x \<Rightarrow> if er_Name x \<noteq> [] then er_IP x @ '' ('' @ er_Name x @ '')'' else er_IP x)"

definition spike_report :: "Config \<Rightarrow> string \<Rightarrow> RouterRuntime \<Rightarrow> string list" where
  "spike_report cfg addr rt =
     [''=== tailscale status --json @ '' @ addr @ '' via '' @ cf_RouterTransport cfg @ '' transport ==='',
      ''online:            '' @ show_bool (rt_Online rt),
      ''current exit node: '' @ spike_current (rt_Current rt),
      ''exit-node options: '' @ show_int (int (length (rt_Options rt)))] @
     map (\<lambda>x. ''  - '' @ er_IP x @ '' '' @ er_Name x) (rt_Options rt)"

definition runSpike ::
    "(string \<Rightarrow> load_error option) \<Rightarrow> (Client \<Rightarrow> 'w runner) \<Rightarrow> (string \<Rightarrow> go_error + Status) \<Rightarrow> go_error option \<Rightarrow>
     go_error + Config \<Rightarrow> string \<Rightarrow> 'w \<Rightarrow> (go_error + string list) \<times> 'w" where
  "runSpike kh connect unmarshal up loaded addr w =
     (case loaded of Inl e \<Rightarrow> (Inl (Wrapped ''config'' e), w) | Inr cfg \<Rightarrow>
     (case (if cf_RouterTransport cfg = ''ip-password'' then None else up) of Some e \<Rightarrow> (Inl (Wrapped ''tsnet up'' e), w) | None \<Rightarrow>
     (case router_New kh (routerOptions cfg (cf_RouterTransport cfg \<noteq> ''ip-password'')) of
        Inl e \<Rightarrow> (Inl (Wrapped ''router client'' e), w)
      | Inr rc \<Rightarrow>
     (case status (connect rc) unmarshal addr w of
        (Inl e, w') \<Rightarrow> (Inl e, w')
      | (Inr rt, w') \<Rightarrow> (Inr (spike_report cfg addr rt), w')))))"

subsection \<open>systemd notification\<close>

definition notify_socket :: "environ \<Rightarrow> string option" where
  "notify_socket E =
     (let s = Getenv E ''NOTIFY_SOCKET''
      in if s = [] then None else if HasPrefix s ''@'' then Some (CHR 0x00 # tl s) else Some s)"

text \<open>
  The interval of the watchdog: half of \<^verbatim>\<open>WATCHDOG_USEC\<close> microseconds, computed in 64 bits. \<open>parseInt\<close> is
  \<^verbatim>\<open>strconv.ParseInt\<close> in base 10 (\<open>Atoi\<close> on a 64-bit platform).
\<close>

definition watchdog_interval :: "environ \<Rightarrow> 64 word option" where
  "watchdog_interval E =
     (let s = Getenv E ''WATCHDOG_USEC''
      in if s = [] then None
         else case Atoi s of
             None \<Rightarrow> None
           | Some usec \<Rightarrow> if usec \<le> 0 then None else Some (word_of_int (sint (word_of_int (usec * 1000) :: 64 word) sdiv 2)))"

subsection \<open>Lemmas\<close>

lemma watchdog_positive:
  assumes "Atoi (Getenv E ''WATCHDOG_USEC'') = Some usec" "0 < usec" "usec * 1000 < 2 ^ 63" "Getenv E ''WATCHDOG_USEC'' \<noteq> []"
  shows "\<exists>i. watchdog_interval E = Some i \<and> 0 < sint i"
proof -
  have w: "sint (word_of_int k :: 64 word) = k" if "0 < k" "k < 2 ^ 63" for k
    using that by (simp add: signed_of_int signed_take_bit_int_eq_self)
  have "usec * 1000 sdiv 2 = usec * 500" using assms(2) by (simp add: signed_divide_int_def sgn_if abs_if)
  then have "watchdog_interval E = Some (word_of_int (usec * 500))"
    using assms w [of "usec * 1000"] by (simp add: watchdog_interval_def)
  then show ?thesis using assms(2,3) w [of "usec * 500"] by simp
qed

text \<open>Beyond that bound the product wraps around: the interval is negative, and a ticker with it panics.\<close>

lemma watchdog_overflow:
  assumes "Atoi (Getenv E ''WATCHDOG_USEC'') = Some 9223372036854776" "Getenv E ''WATCHDOG_USEC'' \<noteq> []"
  shows "\<exists>i. watchdog_interval E = Some i \<and> sint i < 0"
  using assms by (simp add: watchdog_interval_def signed_divide_int_def sgn_if abs_if)

text \<open>
  Whatever fails, the workers have ended before any server drains (a stream that has not ended would hold the drain up),
  every server drains before the node is closed, and no failure goes unreported.
\<close>

lemma shutdown_order:
  assumes "shutdown cfg fails = (steps, logs, result)"
  shows "\<exists>drains. steps = [NotifyStopping, MarkUnhealthy, CancelWorkers, AwaitWorkers] @ drains @ [CloseNode] \<and>
      set drains \<subseteq> {DrainTailnet, DrainHost, DrainHealth} \<and> (DrainHost \<in> set drains \<longleftrightarrow> cf_HTTPListen cfg \<noteq> [])"
    "st \<in> set steps \<Longrightarrow> fails st = Some e \<Longrightarrow> stop_failure st = Some what \<Longrightarrow> what @ Error e \<in> set logs"
    "result = map_option (Wrapped ''tsnet close'') (fails CloseNode)"
  using assms by (auto simp: shutdown_def stop_steps_def stop_log_def Let_def split: option.splits if_splits)

lemma runServe_Some:
  assumes "runServe base w se loaded = Some (Inr sv)"
  obtains cfg gs us where "loaded = Inr cfg" "sv_config sv = cfg" "serve_guard cfg = None"
    "router_New (se_knownHosts se) (routerOptions cfg True) = Inr (sv_client sv)"
    "groups_New (a_fold base) (se_groupsFault se) (se_files se) (filepath_Join (cf_StateDir cfg) ''groups.json'') = Inr gs"
    "guests_New (a_fold base) (se_guestsFault se) (se_files se) (filepath_Join (cf_StateDir cfg) ''guests.json'') = Inr us"
    "api_New (base\<lparr>a_cfg := poller_config cfg\<rparr>) \<lparr>ac_Owner = cf_Owner cfg, ac_UIPassword = cf_UIPassword cfg,
       ac_AllowedHosts = allowedHosts cfg (se_status se)\<rparr> (se_secret se) = Some (sv_api sv)"
    "sv_system sv = \<lparr>sy_poller = poller_New (store_New (se_now se)), sy_world = w, sy_groups = Some gs, sy_guests = Some us,
       sy_files = se_files se\<rparr>"
  using assms by (auto simp: runServe_def split: sum.splits option.splits)

lemma api_New_Some:
  assumes "api_New base cfg rnd = Some a"
  shows "a_owner a = ac_Owner cfg" "a_uiPassword a = ac_UIPassword cfg" "a_lower a = a_lower base"
    "\<And>h. h \<in> set (ac_AllowedHosts cfg) \<Longrightarrow> normalizeHost (a_lower base) h \<noteq> [] \<Longrightarrow> hostAllowed a h"
  using assms by (auto simp: api_New_def hostAllowed_def Let_def split: sum.splits)

text \<open>The event stream behind its middleware, for any hub.\<close>

lemma events_cases:
  assumes "buildMux a hub static [''api'', ''events''] ev r sys = Some (resp, sys')"
  obtains (refused) "sys' = sys" "rsp_status resp = 401 \<or> rsp_status resp = 403"
  | (stream) sub where "resolveSubject a ev r sys = Some sub" "hostAllowed a (rq_Host r)"
      "hub ev (r\<lparr>rq_ctx := auth_context a r sub\<rparr>) sys = Some (resp, sys')"
  using assms
  by (auto simp: buildMux_def RequireAuth_def RequireHost_def writeErr_def writeJSON_def split: option.splits if_splits)

end
