(* ===== verification/Dead_Mans_Switch.thy ===== *)
theory Dead_Mans_Switch
  imports Router_Client
begin

section \<open>The dead-man's switch heals the router\<close>

text \<open>
  The switch runs on the router: a shell, the \<^verbatim>\<open>tailscale\<close> command and a file for the marker, none of
  them code of this repository. They are a parameter \<open>dev\<close>: how a command changes the device, which exit
  node it uses, which reverts are armed, which markers exist, and the passing of more than
  \<open>RevertWindow\<close> without a command. \<open>device_behaviour\<close> is what the program relies on: a command that
  reports exit code 0 has had its effect, one that fails with a code has had none where it is a single
  action, one whose connection was lost may or may not have had it, and an armed revert sets the old
  exit node when the window ends unless its marker exists. \<open>sim_device\<close> is a device that behaves so.
\<close>

record 'd device_ops =
  dev_exec :: "string \<Rightarrow> 'd \<Rightarrow> run_result \<times> 'd"
  dev_exit :: "'d \<Rightarrow> string"
  dev_pending :: "'d \<Rightarrow> (string \<times> string) list"
  dev_marked :: "'d \<Rightarrow> string \<Rightarrow> bool"
  dev_wait :: "'d \<Rightarrow> 'd"

definition words_only :: "string \<Rightarrow> bool" where
  "words_only s \<longleftrightarrow> (\<forall>c \<in> set s. word_char c)"

fun exit_zero :: "run_result \<Rightarrow> bool" where
  "exit_zero (Ran out err ex) \<longleftrightarrow> ex = 0"
| "exit_zero (RunFailed e) \<longleftrightarrow> False"

definition fire :: "('d, 'x) device_ops_scheme \<Rightarrow> 'd \<Rightarrow> string" where
  "fire dev d = foldl (\<lambda>x (m, p). if dev_marked dev d m then x else p) (dev_exit dev d) (dev_pending dev d)"

definition device_behaviour :: "'d device_ops \<Rightarrow> bool" where
  "device_behaviour dev \<longleftrightarrow>
     (\<forall>m p d r d'. words_only m \<longrightarrow> words_only p \<longrightarrow> dev_exec dev (armCmd m p) d = (r, d') \<longrightarrow>
        dev_exit dev d' = dev_exit dev d \<and> dev_marked dev d' = dev_marked dev d \<and>
        (dev_pending dev d' = dev_pending dev d @ [(m, p)] \<or>
         \<not> exit_zero r \<and> dev_pending dev d' = dev_pending dev d)) \<and>
     (\<forall>t lan d r d'. words_only t \<longrightarrow> dev_exec dev (applyCmd t (t \<noteq> []) lan) d = (r, d') \<longrightarrow>
        dev_pending dev d' = dev_pending dev d \<and> dev_marked dev d' = dev_marked dev d \<and>
        (dev_exit dev d' = t \<or> \<not> exit_zero r \<and> dev_exit dev d' = dev_exit dev d)) \<and>
     (\<forall>d r d'. dev_exec dev statusCmd d = (r, d') \<longrightarrow>
        dev_exit dev d' = dev_exit dev d \<and> dev_pending dev d' = dev_pending dev d \<and>
        dev_marked dev d' = dev_marked dev d) \<and>
     (\<forall>m d r d'. words_only m \<longrightarrow> dev_exec dev (keepCmd m) d = (r, d') \<longrightarrow>
        dev_exit dev d' = dev_exit dev d \<and> dev_pending dev d' = dev_pending dev d \<and>
        (dev_marked dev d' = (dev_marked dev d)(m := True) \<or>
         \<not> exit_zero r \<and> dev_marked dev d' = dev_marked dev d)) \<and>
     (\<forall>d. dev_exit dev (dev_wait dev d) = fire dev d)"

abbreviation device_run :: "'d device_ops \<Rightarrow> 'd runner" where
  "device_run dev \<equiv> \<lambda>addr. dev_exec dev"

subsection \<open>One command at a time\<close>

lemma run_step_arm:
  assumes "device_behaviour dev" "words_only m" "words_only p"
    and "run_step (device_run dev) addr (armCmd m p) what d = (e, d')"
  shows "dev_exit dev d' = dev_exit dev d \<and> dev_marked dev d' = dev_marked dev d \<and>
    (dev_pending dev d' = dev_pending dev d @ [(m, p)] \<or> e \<noteq> None \<and> dev_pending dev d' = dev_pending dev d)"
proof -
  obtain r where r: "dev_exec dev (armCmd m p) d = (r, d')" and e: "e = None \<Longrightarrow> exit_zero r"
    using assms(4) by (auto simp: run_step_def split: prod.splits run_result.splits if_splits)
  from assms(1-3) r show ?thesis unfolding device_behaviour_def using e by blast
qed

lemma run_step_apply:
  assumes "device_behaviour dev" "words_only t"
    and "run_step (device_run dev) addr (applyCmd t (t \<noteq> []) lan) what d = (e, d')"
  shows "dev_pending dev d' = dev_pending dev d \<and> dev_marked dev d' = dev_marked dev d \<and>
    (dev_exit dev d' = t \<or> e \<noteq> None \<and> dev_exit dev d' = dev_exit dev d)"
proof -
  obtain r where r: "dev_exec dev (applyCmd t (t \<noteq> []) lan) d = (r, d')" and e: "e = None \<Longrightarrow> exit_zero r"
    using assms(3) by (auto simp: run_step_def split: prod.splits run_result.splits if_splits)
  from assms(1,2) r show ?thesis unfolding device_behaviour_def using e by blast
qed

lemma status_device:
  assumes "device_behaviour dev" and "status (device_run dev) unm addr d = (r, d')"
  shows "dev_exit dev d' = dev_exit dev d \<and> dev_pending dev d' = dev_pending dev d \<and>
    dev_marked dev d' = dev_marked dev d"
proof -
  obtain r' where "dev_exec dev statusCmd d = (r', d')"
    using assms(2) by (auto simp: status_def split: prod.splits run_result.splits if_splits)
  with assms(1) show ?thesis unfolding device_behaviour_def by blast
qed

lemma KeepExitNode_device:
  assumes "device_behaviour dev" "words_only m" and "KeepExitNode (device_run dev) addr m d = (e, d')"
  shows "dev_exit dev d' = dev_exit dev d \<and> dev_pending dev d' = dev_pending dev d \<and>
    (dev_marked dev d' = (dev_marked dev d)(m := True) \<or> e \<noteq> None \<and> dev_marked dev d' = dev_marked dev d)"
proof -
  obtain r where r: "dev_exec dev (keepCmd m) d = (r, d')" and e: "e = None \<Longrightarrow> exit_zero r"
    using assms(3) by (auto simp: KeepExitNode_def run_step_def split: prod.splits run_result.splits if_splits)
  from assms(1,2) r show ?thesis unfolding device_behaviour_def using e by blast
qed

lemma wait_fires: "device_behaviour dev \<Longrightarrow> dev_exit dev (dev_wait dev d) = fire dev d"
  by (simp add: device_behaviour_def)

lemma wait_reverts:
  assumes "device_behaviour dev" "dev_pending dev d = [(m, p)]" "\<not> dev_marked dev d m"
  shows "dev_exit dev (dev_wait dev d) = p"
  using assms by (simp add: wait_fires fire_def)

lemma wait_keeps:
  assumes "device_behaviour dev" "dev_pending dev d = [(m, p)]" "dev_marked dev d m"
  shows "dev_exit dev (dev_wait dev d) = dev_exit dev d"
  using assms by (simp add: wait_fires fire_def)

subsection \<open>The whole attempt\<close>

text \<open>How the device stands after an attempt that was started with no revert armed.\<close>

definition settled :: "'d device_ops \<Rightarrow> string \<Rightarrow> string \<Rightarrow> string \<Rightarrow> bool \<Rightarrow> go_error option \<Rightarrow> 'd \<Rightarrow> bool" where
  "settled dev m t p auto err d \<longleftrightarrow>
     (if err = None then dev_pending dev d = [(m, p)] \<and> dev_exit dev d = t \<and> (dev_marked dev d m \<longleftrightarrow> auto)
      else dev_pending dev d = [] \<and> dev_exit dev d = p \<or>
           dev_pending dev d = [(m, p)] \<and> \<not> dev_marked dev d m \<or>
           auto \<and> dev_pending dev d = [(m, p)] \<and> dev_marked dev d m \<and> dev_exit dev d = t)"

lemma ApplyExitNode_settled:
  assumes beh: "device_behaviour dev" and m: "words_only m"
    and t: "exitArg target = Inr t" and p: "exitArg prev = Inr p"
    and start: "dev_pending dev d = []" "dev_exit dev d = p" "\<not> dev_marked dev d m"
    and ret: "ApplyExitNode (device_run dev) unm lan m addr target prev auto d = ((rt, mk, err), d')"
  shows "settled dev m t p auto err d'"
proof -
  have tw: "words_only t" and pw: "words_only p"
    using exitArg_word [OF t] exitArg_word [OF p] by (simp_all add: words_only_def)
  obtain e1 d1 where s1: "run_step (device_run dev) addr (armCmd m p) ''arm revert'' d = (e1, d1)" by fastforce
  note a = run_step_arm [OF beh m pw s1] start
  show ?thesis
  proof (cases e1)
    case (Some e)
    with ret t p s1 have "err \<noteq> None" "d' = d1" by (auto simp: ApplyExitNode_def)
    with a show ?thesis by (auto simp: settled_def)
  next
    case e1: None
    obtain e2 d2 where s2: "run_step (device_run dev) addr (applyCmd t (t \<noteq> []) lan) ''apply exit-node'' d1 = (e2, d2)"
      by fastforce
    note b = run_step_apply [OF beh tw s2] a
    show ?thesis
    proof (cases e2)
      case (Some e)
      with ret t p s1 e1 s2 have "err \<noteq> None" "d' = d2" by (auto simp: ApplyExitNode_def)
      with b e1 show ?thesis by (auto simp: settled_def)
    next
      case e2: None
      obtain r3 d3 where s3: "status (device_run dev) unm addr d2 = (r3, d3)" by fastforce
      have c: "dev_pending dev d3 = [(m, p)]" "dev_exit dev d3 = t" "\<not> dev_marked dev d3 m"
        using status_device [OF beh s3] b e1 e2 by auto
      show ?thesis
      proof (cases "\<exists>rt'. r3 = Inr rt' \<and> confirmed rt' t (t \<noteq> []) \<and> auto")
        case False
        with ret t p s1 e1 s2 e2 s3 have "d' = d3" "auto \<Longrightarrow> err \<noteq> None"
          by (auto simp: ApplyExitNode_def split: sum.splits if_splits)
        with c show ?thesis by (auto simp: settled_def)
      next
        case True
        then obtain rt' where r3: "r3 = Inr rt'" "confirmed rt' t (t \<noteq> [])" and auto by blast
        obtain e4 d4 where s4: "KeepExitNode (device_run dev) addr m d3 = (e4, d4)" by fastforce
        from ret t p s1 e1 s2 e2 s3 r3 \<open>auto\<close> s4 have "err = e4" "d' = d4"
          by (auto simp: ApplyExitNode_def split: option.splits)
        with KeepExitNode_device [OF beh m s4] c \<open>auto\<close> show ?thesis by (auto simp: settled_def)
      qed
    qed
  qed
qed

text \<open>
  C1 (safety and liveness of the switch). Started on a router with no revert armed, whatever command
  fails or is lost: after an error the router is back on its previous exit node once the window has
  passed, unless the caller had asked for an immediate keep and its keep-marker reached the router all
  the same; after a success with an immediate keep it stays on the requested exit node; after a success
  without one it is on the requested exit node now, falls back to the previous one when the window ends
  with no keep, and stays on the requested one if \<open>KeepExitNode\<close> succeeds in time.
\<close>

theorem dead_mans_switch:
  assumes beh: "device_behaviour dev"
    and args: "exitArg target = Inr t" "exitArg prev = Inr p"
    and start: "dev_pending dev d = []" "dev_exit dev d = p" "\<not> dev_marked dev d (defaultMarker now rnd)"
    and ret: "ApplyExitNode (device_run dev) unm lan (defaultMarker now rnd) addr target prev auto d = ((rt, mk, err), d')"
  shows "(err \<noteq> None \<and> \<not> (auto \<and> dev_marked dev d' (defaultMarker now rnd)) \<longrightarrow> dev_exit dev (dev_wait dev d') = p) \<and>
    (err = None \<and> auto \<longrightarrow> dev_exit dev d' = t \<and> dev_exit dev (dev_wait dev d') = t) \<and>
    (err = None \<and> \<not> auto \<longrightarrow> dev_exit dev d' = t \<and> dev_exit dev (dev_wait dev d') = p \<and>
       (\<forall>d''. KeepExitNode (device_run dev) addr mk d' = (None, d'') \<longrightarrow>
          dev_exit dev d'' = t \<and> dev_exit dev (dev_wait dev d'') = t))"
proof -
  let ?m = "defaultMarker now rnd"
  have m: "words_only ?m" using defaultMarker_word by (simp add: words_only_def)
  note st = ApplyExitNode_settled [OF beh m args start ret]
  have mk: "err = None \<and> \<not> auto \<Longrightarrow> mk = ?m" using ApplyExitNode_result [OF ret] by simp
  have keep: "dev_exit dev d'' = t \<and> dev_exit dev (dev_wait dev d'') = t"
    if "KeepExitNode (device_run dev) addr mk d' = (None, d'')" "err = None" "\<not> auto" for d''
  proof -
    from that mk have k: "KeepExitNode (device_run dev) addr ?m d' = (None, d'')" by simp
    have "dev_pending dev d'' = [(?m, p)]" "dev_marked dev d'' ?m" "dev_exit dev d'' = t"
      using KeepExitNode_device [OF beh m k] st that by (auto simp: settled_def)
    then show ?thesis using wait_keeps [OF beh] by simp
  qed
  have no: "dev_exit dev (dev_wait dev d') = dev_exit dev d'" if "dev_pending dev d' = []"
    using that by (simp add: wait_fires [OF beh] fire_def)
  have "err \<noteq> None \<and> \<not> (auto \<and> dev_marked dev d' ?m) \<longrightarrow> dev_exit dev (dev_wait dev d') = p"
    using st no wait_reverts [OF beh] by (auto simp: settled_def split: if_splits)
  moreover have "err = None \<and> auto \<longrightarrow> dev_exit dev d' = t \<and> dev_exit dev (dev_wait dev d') = t"
    using st wait_keeps [OF beh] by (auto simp: settled_def)
  moreover have "err = None \<and> \<not> auto \<longrightarrow> dev_exit dev d' = t \<and> dev_exit dev (dev_wait dev d') = p"
    using st wait_reverts [OF beh] by (auto simp: settled_def)
  ultimately show ?thesis using keep by blast
qed

subsection \<open>A device that behaves so\<close>

record sim =
  sim_exit :: string
  sim_pending :: "(string \<times> string) list"
  sim_marked :: "string list"

definition sim_arm_prefix :: string where
  "sim_arm_prefix = ''nohup sh -c '' @ squote @ ''sleep 60; [ -f ''"

text \<open>It reads the marker, the address and the keep path back out of the command lines it is sent.\<close>

definition sim_exec :: "string \<Rightarrow> sim \<Rightarrow> run_result \<times> sim" where
  "sim_exec cmd d =
     (if HasPrefix cmd sim_arm_prefix then
        (let rest = drop (length sim_arm_prefix) cmd;
             m = takeWhile (\<lambda>c. c \<noteq> CHR '' '') rest;
             p = takeWhile (\<lambda>c. c \<noteq> CHR 0x27) (drop (length m + length ('' ] && exit 0; tailscale set --exit-node='')) rest)
         in (Ran [] [] 0, d\<lparr>sim_pending := sim_pending d @ [(m, p)]\<rparr>))
      else if HasPrefix cmd ''tailscale set --exit-node='' then
        (Ran [] [] 0, d\<lparr>sim_exit := takeWhile (\<lambda>c. c \<noteq> CHR '' '') (drop (length ''tailscale set --exit-node='') cmd)\<rparr>)
      else if HasPrefix cmd '': > '' then (Ran [] [] 0, d\<lparr>sim_marked := drop 4 cmd # sim_marked d\<rparr>)
      else (Ran (sim_exit d) [] 0, d))"

definition sim_device :: "sim device_ops" where
  "sim_device = \<lparr>dev_exec = sim_exec, dev_exit = sim_exit, dev_pending = sim_pending,
     dev_marked = (\<lambda>d m. m \<in> set (sim_marked d)),
     dev_wait = (\<lambda>d. d\<lparr>sim_exit := foldl (\<lambda>x (m, p). if m \<in> set (sim_marked d) then x else p) (sim_exit d) (sim_pending d),
                       sim_pending := []\<rparr>)\<rparr>"

lemma takeWhile_stop: "\<forall>c \<in> set s. c \<noteq> x \<Longrightarrow> takeWhile (\<lambda>c. c \<noteq> x) (s @ x # r) = s"
  by (induction s) auto

lemma words_only_no_space: "words_only s \<Longrightarrow> \<forall>c \<in> set s. c \<noteq> CHR '' '' \<and> c \<noteq> CHR 0x27"
  by (auto simp: words_only_def word_char_def is_digit_def)

lemma sim_exec_arm:
  assumes "words_only m" "words_only p"
  shows "sim_exec (armCmd m p) d = (Ran [] [] 0, d\<lparr>sim_pending := sim_pending d @ [(m, p)]\<rparr>)"
proof -
  let ?tail = "p @ CHR 0x27 # '' >/dev/null 2>&1 &''"
  have n: "show_nat 60 = ''60''" by code_simp
  have cmd: "armCmd m p = sim_arm_prefix @ m @ '' ] && exit 0; tailscale set --exit-node='' @ ?tail"
    by (simp add: armCmd_def revert_script_def n sim_arm_prefix_def)
  have "takeWhile (\<lambda>c. c \<noteq> CHR '' '') (m @ '' ] && exit 0; tailscale set --exit-node='' @ ?tail) = m"
    using takeWhile_stop [of m "CHR '' ''"] words_only_no_space [OF assms(1)] by simp
  moreover have "takeWhile (\<lambda>c. c \<noteq> CHR 0x27) ?tail = p"
    using takeWhile_stop [of p "CHR 0x27"] words_only_no_space [OF assms(2)] by simp
  ultimately show ?thesis
    unfolding cmd sim_exec_def Let_def by simp
qed

lemma sim_exec_apply:
  assumes "words_only t"
  shows "sim_exec (applyCmd t (t \<noteq> []) lan) d = (Ran [] [] 0, d\<lparr>sim_exit := t\<rparr>)"
proof -
  have w: "\<forall>c \<in> set t. c \<noteq> CHR '' ''" using words_only_no_space [OF assms] by blast
  have "takeWhile (\<lambda>c. c \<noteq> CHR '' '') t = t" using w by (simp add: takeWhile_eq_all_conv)
  moreover have "takeWhile (\<lambda>c. c \<noteq> CHR '' '') (t @ CHR '' '' # x) = t" for x
    using takeWhile_stop [OF w] .
  ultimately show ?thesis
    by (auto simp: applyCmd_def sim_exec_def sim_arm_prefix_def HasPrefix_def Let_def split: bool.splits option.splits)
qed

lemma sim_exec_keep: "sim_exec (keepCmd m) d = (Ran [] [] 0, d\<lparr>sim_marked := m # sim_marked d\<rparr>)"
  by (simp add: keepCmd_def sim_exec_def sim_arm_prefix_def HasPrefix_def)

lemma sim_exec_status: "sim_exec statusCmd d = (Ran (sim_exit d) [] 0, d)"
  by (simp add: statusCmd_def sim_exec_def sim_arm_prefix_def HasPrefix_def)

lemma sim_device_behaviour: "device_behaviour sim_device"
  by (auto simp: device_behaviour_def sim_device_def sim_exec_arm sim_exec_apply sim_exec_keep sim_exec_status
      fire_def fun_eq_iff)

text \<open>The status parser that goes with it: the output is the selected address.\<close>

definition sim_status :: "string \<Rightarrow> go_error + Status" where
  "sim_status raw = Inr \<lparr>st_Self = None, st_Peer = [],
     st_ExitNodeStatus = (case ParseAddr raw of Inr a \<Rightarrow> Some \<lparr>xs_ID = ''n'', xs_TailscaleIPs = [a]\<rparr> | Inl _ \<Rightarrow> None)\<rparr>"

theorem dead_mans_switch_witness:
  "let target = Some \<lparr>er_StableID = ''n'', er_Name = [], er_IP = ''100.64.0.7''\<rparr>;
       d = \<lparr>sim_exit = [], sim_pending = [], sim_marked = []\<rparr>;
       r = ApplyExitNode (device_run sim_device) sim_status None (defaultMarker 1 2) ''a'' target None False d
   in snd (snd (fst r)) = None \<and> sim_exit (snd r) = ''100.64.0.7'' \<and> sim_exit (dev_wait sim_device (snd r)) = []"
proof -
  let ?target = "Some \<lparr>er_StableID = ''n'', er_Name = [], er_IP = ''100.64.0.7''\<rparr>"
  let ?d = "\<lparr>sim_exit = [], sim_pending = [], sim_marked = []\<rparr>"
  let ?r = "ApplyExitNode (device_run sim_device) sim_status None (defaultMarker 1 2) ''a'' ?target None False ?d"
  have t: "exitArg ?target = Inr ''100.64.0.7''" by code_simp
  obtain rt mk err d' where r: "?r = ((rt, mk, err), d')" by (metis prod.exhaust)
  have "snd (snd (fst ?r)) = None" by code_simp
  with r have "err = None" by simp
  then show ?thesis
    using dead_mans_switch [OF sim_device_behaviour t exitArg_None _ _ _ r] r
    by (auto simp: sim_device_def)
qed

end
