(* ===== verification/Poller_Safety.thy ===== *)
theory Poller_Safety
  imports Poller Dead_Mans_Switch
begin

section \<open>What the poller promises\<close>

text \<open>
  Properties of the poller's helpers and of its operations taken one at a time: zone enforcement, the
  honesty of the published state, the keep gate, the polling loop. The interleaving of operations is
  the subject of \<open>Poller_Steps\<close>.
\<close>

subsection \<open>Zone enforcement\<close>

lemma set_preflight_target:
  assumes "set_preflight gs snap routerID targetID = Inr plan" and "sp_target plan = Some t"
  obtains nv rv where "findRouterViewByStableID snap routerID = Some rv" "sp_addr plan = primaryIP (rv_Node rv)"
    "findNodeByStableID (sn_Nodes snap) targetID = Some nv" "targetID \<noteq> []"
    "t = \<lparr>er_StableID = nv_StableID nv, er_Name = nv_Name nv, er_IP = primaryIP nv\<rparr>"
    "nv_StableID nv \<noteq> routerID" "nv_Online nv" "nv_ExitNodeOption nv" "primaryIP nv \<noteq> []"
    "primaryIP nv \<noteq> sp_addr plan"
    "snd (allowedExitNodeSet gs routerID) \<longrightarrow> nv_StableID nv \<in> fst (allowedExitNodeSet gs routerID)"
  using assms
  by (auto simp: set_preflight_def Let_def split: option.splits if_splits prod.splits)

text \<open>
  C8 (safety, zone policy). Whatever the request, a router is only ever pointed at a node of the current
  inventory that is online, approved as an exit node, not the router itself, and, when the router is a
  consumer of at least one zone, allowed by one of its zones. Clearing the exit node is never refused by
  a zone.
\<close>

theorem set_preflight_enforces_zones:
  "(set_preflight gs snap routerID targetID = Inr plan \<and> sp_target plan = Some t \<longrightarrow>
      (\<exists>nv \<in> set (sn_Nodes snap). nv_StableID nv = er_StableID t \<and> nv_StableID nv = targetID \<and> nv_Online nv \<and>
         nv_ExitNodeOption nv \<and> nv_StableID nv \<noteq> routerID \<and> er_IP t = primaryIP nv \<and> er_IP t \<noteq> sp_addr plan) \<and>
      ((\<exists>g \<in> set gs. routerID \<in> set (g_Consumers g)) \<longrightarrow>
         (\<exists>g \<in> set gs. routerID \<in> set (g_Consumers g) \<and> er_StableID t \<in> set (g_AllowedExitNodes g)))) \<and>
   (\<forall>e gs'. set_preflight gs snap routerID [] = Inl e \<longrightarrow> set_preflight gs' snap routerID [] = Inl e)"
proof -
  have "(\<exists>nv \<in> set (sn_Nodes snap). nv_StableID nv = er_StableID t \<and> nv_StableID nv = targetID \<and> nv_Online nv \<and>
         nv_ExitNodeOption nv \<and> nv_StableID nv \<noteq> routerID \<and> er_IP t = primaryIP nv \<and> er_IP t \<noteq> sp_addr plan) \<and>
      ((\<exists>g \<in> set gs. routerID \<in> set (g_Consumers g)) \<longrightarrow>
         (\<exists>g \<in> set gs. routerID \<in> set (g_Consumers g) \<and> er_StableID t \<in> set (g_AllowedExitNodes g)))"
    if plan: "set_preflight gs snap routerID targetID = Inr plan" "sp_target plan = Some t"
  proof -
    obtain nv where nv: "findNodeByStableID (sn_Nodes snap) targetID = Some nv"
        "t = \<lparr>er_StableID = nv_StableID nv, er_Name = nv_Name nv, er_IP = primaryIP nv\<rparr>"
        "nv_StableID nv \<noteq> routerID" "nv_Online nv" "nv_ExitNodeOption nv" "primaryIP nv \<noteq> sp_addr plan"
        "snd (allowedExitNodeSet gs routerID) \<longrightarrow> nv_StableID nv \<in> fst (allowedExitNodeSet gs routerID)"
      by (rule set_preflight_target [OF plan])
    have "nv \<in> set (sn_Nodes snap)" "nv_StableID nv = targetID"
      using nv(1) by (auto simp: findNodeByStableID_def dest: find_SomeD)
    with nv show ?thesis by (auto simp: allowedExitNodeSet_iff)
  qed
  moreover have "set_preflight gs' snap routerID [] = Inl e" if "set_preflight gs snap routerID [] = Inl e" for e gs'
    using that by (auto simp: set_preflight_def Let_def split: option.splits if_splits)
  ultimately show ?thesis by blast
qed

definition example_node :: "string \<Rightarrow> string \<Rightarrow> bool \<Rightarrow> NodeView" where
  "example_node i ip exit = zero_NodeView\<lparr>nv_StableID := i, nv_Name := i, nv_TailscaleIPs := [ip], nv_Online := True,
     nv_ExitNodeOption := exit, nv_Type := (if exit then NodeExitNode else NodeRouter)\<rparr>"

definition example_router :: RouterView where
  "example_router = zero_RouterView\<lparr>rv_Node := example_node ''r1'' ''100.64.0.1'' False, rv_State := RouterOK, rv_Reachable := True\<rparr>"

definition example_snap :: Snapshot where
  "example_snap = (store_New 1)\<lparr>sn_Nodes := [example_node ''r1'' ''100.64.0.1'' False, example_node ''e1'' ''100.64.0.7'' True],
     sn_Routers := [example_router]\<rparr>"

definition example_zone :: Group where
  "example_zone = \<lparr>g_ID = ''z'', g_Name = ''Home'', g_Consumers = [''r1''], g_AllowedExitNodes = [''e1'']\<rparr>"

definition example_plan :: set_plan where
  "example_plan = \<lparr>sp_addr = ''100.64.0.1'', sp_prev = None,
     sp_target = Some \<lparr>er_StableID = ''e1'', er_Name = ''e1'', er_IP = ''100.64.0.7''\<rparr>\<rparr>"

lemma example_preflight: "set_preflight [example_zone] example_snap ''r1'' ''e1'' = Inr example_plan"
  by code_simp

theorem set_preflight_enforces_zones_witness:
  "set_preflight [example_zone] example_snap ''r1'' ''e1'' = Inr example_plan \<and>
   (\<exists>g \<in> set [example_zone]. ''r1'' \<in> set (g_Consumers g) \<and> ''e1'' \<in> set (g_AllowedExitNodes g))"
  using example_preflight
    set_preflight_enforces_zones [of "[example_zone]" example_snap "''r1''" "''e1''" example_plan
      "\<lparr>er_StableID = ''e1'', er_Name = ''e1'', er_IP = ''100.64.0.7''\<rparr>"]
  by (simp add: example_plan_def example_zone_def)

subsection \<open>Automatic discovery\<close>

text \<open>
  The routers found automatically are nodes of the inventory that are neither the control
  node itself nor carry its tag; in the fallback none of them is an exit node; and the fallback is used
  exactly when no controllable node with an address carries the router tag.
\<close>

lemma autoDiscoverRouters_safe:
  "(\<forall>a \<in> set (fst (autoDiscoverRouters nodes)). a \<noteq> [] \<and>
      (\<exists>n \<in> set nodes. primaryIP n = a \<and> \<not> nv_IsSelf n \<and> tsctlTag \<notin> set (nv_Tags n) \<and>
         (if snd (autoDiscoverRouters nodes) then \<not> nv_ExitNodeOption n else nv_Type n = NodeRouter))) \<and>
   (snd (autoDiscoverRouters nodes) \<longleftrightarrow>
      \<not> (\<exists>n \<in> set nodes. nv_Type n = NodeRouter \<and> \<not> nv_IsSelf n \<and> tsctlTag \<notin> set (nv_Tags n) \<and> primaryIP n \<noteq> [])) \<and>
   sorted (fst (autoDiscoverRouters nodes))"
  by (auto simp: autoDiscoverRouters_def Let_def controllable_def node_hasTag_def filter_empty_conv)

subsection \<open>A set is never reported as done unless it is\<close>

lemma pending_view_node [simp]: "rv_Node (pending_view t rv) = rv_Node rv"
  by (simp add: pending_view_def)

lemma final_view_node [simp]: "rv_Node (final_view cfg t ar a n rv) = rv_Node rv"
  by (simp add: final_view_def Let_def egress_view_def split: option.splits prod.splits)

lemma expire_view_node [simp]: "rv_Node (expire_view rv) = rv_Node rv"
  by (simp add: expire_view_def reverted_view_def)

lemma kept_view_node [simp]: "rv_Node (kept_view rv) = rv_Node rv"
  by (simp add: kept_view_def)

lemma resolved_view_node [simp]: "rv_Node (resolved_view rt now gr rv) = rv_Node rv"
  by (simp add: resolved_view_def)

lemma last_view_withRouter:
  assumes "snd (withRouter cur now addr f)" and "\<And>rv. rv_Node (f rv) = rv_Node rv"
  obtains rv where "rv \<in> set (sn_Routers cur)" "has_ip addr (rv_Node rv)"
    "last_view (fst (withRouter cur now addr f)) addr = f rv"
proof -
  let ?rs = "sn_Routers (fst (withRouter cur now addr f))"
  obtain y where "y \<in> set (sn_Routers cur)" "has_ip addr (rv_Node y)" using assms(1) by (auto simp: withRouter_def)
  then have "\<exists>rv \<in> set (rev ?rs). has_ip addr (rv_Node rv)"
    using assms(2) [of y] by (intro bexI [of _ "f y"]) (auto simp: withRouter_def)
  then obtain x where x: "List.find (\<lambda>rv. has_ip addr (rv_Node rv)) (rev ?rs) = Some x"
    by (metis find_None_iff not_None_eq)
  from find_SomeD [OF x] obtain rv where "rv \<in> set (sn_Routers cur)" "x = (if has_ip addr (rv_Node rv) then f rv else rv)"
    "has_ip addr (rv_Node x)" by (auto simp: withRouter_def)
  with assms(2) that x show thesis by (auto simp: last_view_def split: if_splits)
qed

lemma set_preflight_present:
  assumes "set_preflight gs snap rid tid = Inr plan"
  shows "sp_addr plan \<noteq> [] \<and> findRouterView snap (sp_addr plan) \<noteq> None"
proof -
  obtain rv where rv: "findRouterViewByStableID snap rid = Some rv" "sp_addr plan = primaryIP (rv_Node rv)" "sp_addr plan \<noteq> []"
    using assms by (auto simp: set_preflight_def Let_def split: option.splits if_splits prod.splits)
  then have "rv \<in> set (sn_Routers snap)" "has_ip (sp_addr plan) (rv_Node rv)"
    by (auto simp: findRouterViewByStableID_def dest: find_SomeD intro: primaryIP_has_ip)
  with rv(3) show ?thesis by (auto simp: findRouterView_def find_None_iff)
qed

text \<open>The operation, run without interference, once its pre-flight has passed.\<close>

lemma SetExitNode_run:
  assumes plan: "set_preflight gs (po_snap s) rid tid = Inr plan"
    and ret: "SetExitNode cfg rc gs ts rid tid (s, w) = ((view, err), s', w')"
  obtains ar w1 rv where "set_apply cfg rc plan w = (ar, w1)"
    "view = final_view cfg (sp_target plan) ar (ts_arm ts) (ts_now ts) rv"
    "err = (case ar_err ar of None \<Rightarrow> None
       | Some e \<Rightarrow> if hardFail (Some e) \<or> \<not> rt_Online (ar_rt ar) then Some (routerControlError e) else None)"
    "po_setSeq s' (sp_addr plan) = Suc (po_setSeq s (sp_addr plan))"
    "po_pendingKeep s' (sp_addr plan) = (if ar_err ar \<noteq> None then po_pendingKeep s (sp_addr plan)
       else if autoKeep_of cfg (sp_target plan) then None
       else Some \<lparr>ke_marker = ar_marker ar, ke_revertAt = ts_arm ts + pc_revertWindow cfg,
         ke_seq = po_setSeq s' (sp_addr plan)\<rparr>)"
proof -
  let ?a = "sp_addr plan"
  have pres: "findRouterView (po_snap s) ?a \<noteq> None" using set_preflight_present [OF plan] by simp
  obtain seq pend s1 where st1: "set_step1 ?a (sp_target plan) (ts_step1 ts) s = (seq, pend, s1)" by (metis prod_cases3)
  have ok1: "snd (withRouter (po_snap s) (ts_step1 ts) ?a (pending_view (sp_target plan)))"
    using pres by (simp add: withRouter_ok_iff)
  from st1 ok1 have s1: "seq = Suc (po_setSeq s ?a)" "po_setSeq s1 ?a = seq" "po_pendingKeep s1 = po_pendingKeep s"
    "po_snap s1 = fst (withRouter (po_snap s) (ts_step1 ts) ?a (pending_view (sp_target plan)))" "pend = Some (po_snap s1)"
    by (auto simp: set_step1_def Let_def bump_def split: prod.splits bool.splits)
  obtain ar w1 where ap: "set_apply cfg rc plan w = (ar, w1)" by fastforce
  let ?f = "final_view cfg (sp_target plan) ar (ts_arm ts) (ts_now ts)"
  let ?s2 = "Broadcast (po_snap s1) s1"
  have pres2: "findRouterView (po_snap ?s2) ?a \<noteq> None"
    using pres by (simp add: Broadcast_def s1(4) withRouter_find)
  then have ok3: "snd (withRouter (po_snap ?s2) (ts_step3 ts) ?a ?f)" by (simp add: withRouter_ok_iff)
  obtain out s3 where st3: "set_step3 cfg plan seq ar (ts_arm ts) (ts_now ts) (ts_step3 ts) ?s2 = (out, s3)" by fastforce
  obtain rv where rv: "last_view (fst (withRouter (po_snap ?s2) (ts_step3 ts) ?a ?f)) ?a = ?f rv"
    using last_view_withRouter [OF ok3] by (metis final_view_node)
  have o: "so_ok out" "so_updated out = ?f rv" "so_published out \<noteq> None" "po_setSeq s3 ?a = seq"
    "po_pendingKeep s3 ?a = (if ar_err ar \<noteq> None then po_pendingKeep s ?a
       else if autoKeep_of cfg (sp_target plan) then None
       else Some \<lparr>ke_marker = ar_marker ar, ke_revertAt = ts_arm ts + pc_revertWindow cfg, ke_seq = seq\<rparr>)"
    using st3 ok3 rv s1 by (auto simp: set_step3_def Let_def Broadcast_def split: prod.splits)
  have "((view, err), s', w') = (set_result rid ar out, (case so_published out of None \<Rightarrow> s3 | Some x \<Rightarrow> Broadcast x s3),
      disarm_all rc ?a (so_disarm out) w1)"
    using ret plan st1 s1(5) ap st3 by (simp add: SetExitNode_def)
  with o s1 ap that show thesis
    by (auto simp: set_result_def Broadcast_def hardFail_def split: option.splits if_splits)
qed

lemma set_apply_Apply:
  assumes "set_apply cfg rc plan w = (ar, w1)"
  obtains w0 where "ro_Apply rc (sp_addr plan) (sp_target plan) (sp_prev plan) (autoKeep_of cfg (sp_target plan)) w =
    ((ar_rt ar, ar_marker ar, ar_err ar), w0)"
  using assms by (auto simp: set_apply_def split: prod.splits)

lemma final_view_OK:
  "rv_State (final_view cfg t ar a n rv) = RouterOK \<Longrightarrow>
     ar_err ar = None \<and> autoKeep_of cfg t \<and> rv_CurrentExitNode (final_view cfg t ar a n rv) = rt_Current (ar_rt ar) \<and>
       rv_Desired (final_view cfg t ar a n rv) = None \<and> rv_Reachable (final_view cfg t ar a n rv) \<or>
     hardFail (ar_err ar) \<and> (\<exists>rr. ar_reread ar = Some rr \<and> rv_CurrentExitNode (final_view cfg t ar a n rv) = rt_Current rr)"
  by (auto simp: final_view_def Let_def egress_view_def split: option.splits prod.splits if_splits)

lemma final_view_AwaitingKeep:
  "rv_State (final_view cfg t ar a n rv) = RouterAwaitingKeep \<Longrightarrow>
     ar_err ar = None \<and> \<not> autoKeep_of cfg t \<and> rv_RevertAt (final_view cfg t ar a n rv) = a + pc_revertWindow cfg \<and>
     rv_CurrentExitNode (final_view cfg t ar a n rv) = rt_Current (ar_rt ar)"
  by (auto simp: final_view_def Let_def egress_view_def split: option.splits prod.splits if_splits)

definition on_target :: "RouterView \<Rightarrow> ExitNodeRef option \<Rightarrow> bool" where
  "on_target rv target \<longleftrightarrow>
     (\<exists>arg. exitArg target = Inr arg \<and>
        (case rv_CurrentExitNode rv of None \<Rightarrow> arg = [] | Some c \<Rightarrow> arg \<noteq> [] \<and> er_IP c = arg))"

lemma on_target_confirmed:
  assumes "router_client (ro_Apply rc)" and "set_apply cfg rc plan w = (ar, w1)" and "ar_err ar = None"
    and "rv_CurrentExitNode rv = rt_Current (ar_rt ar)"
  shows "on_target rv (sp_target plan)"
proof -
  obtain w0 where "ro_Apply rc (sp_addr plan) (sp_target plan) (sp_prev plan) (autoKeep_of cfg (sp_target plan)) w =
      ((ar_rt ar, ar_marker ar, None), w0)"
    using set_apply_Apply [OF assms(2)] assms(3) by metis
  from router_client.ok_confirmed [OF assms(1) this] assms(4) show ?thesis
    by (auto simp: on_target_def confirmed_def split: option.splits if_splits)
qed

text \<open>
  C6 (safety, no optimistic success). When a request to change an exit node returns without an error and
  the router's card says ok, the router itself was read back as being on the requested exit node (or on
  none, for a clear), and no keep is outstanding. When the card says awaiting-keep, the router was read
  back on the requested exit node, the operator runs with the explicit gate, the pending entry carries a
  marker, belongs to this very request and has the deadline that is shown. The router client is any one
  that satisfies its interface.
\<close>

theorem SetExitNode_honest:
  assumes client: "router_client (ro_Apply rc)"
    and plan: "set_preflight gs (po_snap s) rid tid = Inr plan"
    and ret: "SetExitNode cfg rc gs ts rid tid (s, w) = ((view, err), s', w')"
  shows "(err = None \<and> rv_State view = RouterOK \<longrightarrow>
      on_target view (sp_target plan) \<and> rv_Reachable view \<and> rv_Desired view = None \<and>
      po_pendingKeep s' (sp_addr plan) = None) \<and>
    (rv_State view = RouterAwaitingKeep \<longrightarrow>
      err = None \<and> on_target view (sp_target plan) \<and> pc_requireKeep cfg \<and> sp_target plan \<noteq> None \<and>
      (\<exists>e. po_pendingKeep s' (sp_addr plan) = Some e \<and> ke_marker e \<noteq> [] \<and> ke_revertAt e = rv_RevertAt view \<and>
         ke_seq e = po_setSeq s' (sp_addr plan)))"
proof -
  obtain ar w1 rv where ap: "set_apply cfg rc plan w = (ar, w1)"
    and view: "view = final_view cfg (sp_target plan) ar (ts_arm ts) (ts_now ts) rv"
    and err: "err = (case ar_err ar of None \<Rightarrow> None
       | Some e \<Rightarrow> if hardFail (Some e) \<or> \<not> rt_Online (ar_rt ar) then Some (routerControlError e) else None)"
    and pk: "po_pendingKeep s' (sp_addr plan) = (if ar_err ar \<noteq> None then po_pendingKeep s (sp_addr plan)
       else if autoKeep_of cfg (sp_target plan) then None
       else Some \<lparr>ke_marker = ar_marker ar, ke_revertAt = ts_arm ts + pc_revertWindow cfg,
         ke_seq = po_setSeq s' (sp_addr plan)\<rparr>)"
    by (rule SetExitNode_run [OF plan ret])
  have marker: "ar_marker ar \<noteq> []" if "ar_err ar = None" "\<not> autoKeep_of cfg (sp_target plan)"
    using set_apply_Apply [OF ap] that router_client.deferred_marker [OF client] by metis
  show ?thesis
  proof (rule conjI; rule impI)
    assume ok: "err = None \<and> rv_State view = RouterOK"
    then have "\<not> hardFail (ar_err ar)" using err by (auto simp: hardFail_def split: option.splits if_splits)
    with ok final_view_OK [of cfg "sp_target plan" ar "ts_arm ts" "ts_now ts" rv]
    have f: "ar_err ar = None" "autoKeep_of cfg (sp_target plan)" "rv_CurrentExitNode view = rt_Current (ar_rt ar)"
        "rv_Desired view = None" "rv_Reachable view" by (auto simp: view)
    show "on_target view (sp_target plan) \<and> rv_Reachable view \<and> rv_Desired view = None \<and>
      po_pendingKeep s' (sp_addr plan) = None"
      using f pk on_target_confirmed [OF client ap f(1,3)] by simp
  next
    assume "rv_State view = RouterAwaitingKeep"
    with final_view_AwaitingKeep [of cfg "sp_target plan" ar "ts_arm ts" "ts_now ts" rv]
    have f: "ar_err ar = None" "\<not> autoKeep_of cfg (sp_target plan)" "rv_RevertAt view = ts_arm ts + pc_revertWindow cfg"
        "rv_CurrentExitNode view = rt_Current (ar_rt ar)" by (auto simp: view)
    have "on_target view (sp_target plan)" by (rule on_target_confirmed [OF client ap f(1,4)])
    then show "err = None \<and> on_target view (sp_target plan) \<and> pc_requireKeep cfg \<and> sp_target plan \<noteq> None \<and>
      (\<exists>e. po_pendingKeep s' (sp_addr plan) = Some e \<and> ke_marker e \<noteq> [] \<and> ke_revertAt e = rv_RevertAt view \<and>
         ke_seq e = po_setSeq s' (sp_addr plan))"
      using err pk f marker by (simp add: autoKeep_of_def)
  qed
qed

subsection \<open>The poller on the simulated router\<close>

definition ssh_ops :: "'w runner \<Rightarrow> (string \<Rightarrow> go_error + Status) \<Rightarrow> bool option \<Rightarrow> string \<Rightarrow> 'w router_ops" where
  "ssh_ops run unm lan marker = \<lparr>ro_Status = status run unm, ro_Apply = ApplyExitNode run unm lan marker,
     ro_Keep = KeepExitNode run, ro_Probe = router_Probe run, ro_Egress = EgressProbe run\<rparr>"

lemma ssh_ops_client: "router_client (ro_Apply (ssh_ops run unm lan (defaultMarker t r)))"
  by (simp add: ssh_ops_def ssh.router_client_axioms)

definition example_cfg :: "bool \<Rightarrow> pconfig" where
  "example_cfg keep = \<lparr>pc_routers = [], pc_egressCheck = False, pc_egressURL = [], pc_requireKeep = keep,
     pc_revertWindow = RevertWindow\<rparr>"

definition example_times :: set_times where
  "example_times = \<lparr>ts_step1 = 10, ts_arm = 11, ts_now = 12, ts_step3 = 13\<rparr>"

definition sim_ops :: "sim router_ops" where
  "sim_ops = ssh_ops (device_run sim_device) sim_status None (defaultMarker 1 2)"

definition sim_start :: sim where
  "sim_start = \<lparr>sim_exit = [], sim_pending = [], sim_marked = []\<rparr>"

lemma example_set_ok:
  "(\<lambda>((view, err), s, d). (rv_State view, err)) (SetExitNode (example_cfg False) sim_ops [example_zone] example_times ''r1'' ''e1''
     (poller_New example_snap, sim_start)) = (RouterOK, None)"
  by code_simp

theorem SetExitNode_honest_witness:
  "on_target (fst (fst (SetExitNode (example_cfg False) sim_ops [example_zone] example_times ''r1'' ''e1''
     (poller_New example_snap, sim_start)))) (sp_target example_plan)"
proof -
  obtain view err s' w' where r: "SetExitNode (example_cfg False) sim_ops [example_zone] example_times ''r1'' ''e1''
     (poller_New example_snap, sim_start) = ((view, err), s', w')" by (metis prod.exhaust)
  have p: "set_preflight [example_zone] (po_snap (poller_New example_snap)) ''r1'' ''e1'' = Inr example_plan"
    using example_preflight by (simp add: poller_New_def)
  have c: "router_client (ro_Apply sim_ops)" unfolding sim_ops_def by (rule ssh_ops_client)
  from SetExitNode_honest [OF c p r] example_set_ok r show ?thesis by simp
qed

text \<open>A router whose file system refuses the keep-marker, and is otherwise the simulated one.\<close>

definition readonly_exec :: "string \<Rightarrow> sim \<Rightarrow> run_result \<times> sim" where
  "readonly_exec cmd d = (if HasPrefix cmd '': > '' then (Ran [] ''Read-only file system'' 1, d) else sim_exec cmd d)"

definition readonly_device :: "sim device_ops" where
  "readonly_device = sim_device\<lparr>dev_exec := readonly_exec\<rparr>"

lemma readonly_exec_cmds:
  "readonly_exec (armCmd m p) d = sim_exec (armCmd m p) d"
  "readonly_exec (applyCmd t b lan) d = sim_exec (applyCmd t b lan) d"
  "readonly_exec statusCmd d = sim_exec statusCmd d"
  "readonly_exec (keepCmd m) d = (Ran [] ''Read-only file system'' 1, d)"
  by (simp_all add: readonly_exec_def armCmd_def applyCmd_def statusCmd_def keepCmd_def HasPrefix_def Let_def
      split: bool.splits option.splits)

lemma readonly_device_behaviour: "device_behaviour readonly_device"
  by (auto simp: device_behaviour_def readonly_device_def sim_device_def readonly_exec_cmds sim_exec_arm sim_exec_apply
      sim_exec_status fire_def)

definition readonly_ops :: "sim router_ops" where
  "readonly_ops = ssh_ops (device_run readonly_device) sim_status None (defaultMarker 1 2)"

text \<open>
  C39 (a gap in the hard-failure branch). A command error does not mean that the change did not take: when
  the failing command is the keep-marker itself, the exit node has been applied. On a router that behaves
  as documented but refuses the marker, the poller publishes the state ok with the requested exit node and
  no deadline, while the armed revert is about to take the router back to its previous selection.
\<close>

theorem keep_failure_shown_as_ok:
  "device_behaviour readonly_device \<and>
   (let r = SetExitNode (example_cfg False) readonly_ops [example_zone] example_times ''r1'' ''e1''
          (poller_New example_snap, sim_start);
        view = fst (fst r); dev = snd (snd r)
    in rv_State view = RouterOK \<and> map_option er_IP (rv_CurrentExitNode view) = Some ''100.64.0.7'' \<and>
       rv_RevertAt view = zero_time \<and> po_snap (fst (snd r)) = last (po_frames (fst (snd r))) \<and>
       dev_exit readonly_device dev = ''100.64.0.7'' \<and> dev_exit readonly_device (dev_wait readonly_device dev) = [])"
proof -
  let ?r = "SetExitNode (example_cfg False) readonly_ops [example_zone] example_times ''r1'' ''e1''
    (poller_New example_snap, sim_start)"
  have "(\<lambda>((view, err), s, d). (rv_State view, map_option er_IP (rv_CurrentExitNode view), rv_RevertAt view,
      po_snap s = last (po_frames s), sim_exit d, sim_exit (dev_wait readonly_device d))) ?r =
      (RouterOK, Some ''100.64.0.7'', zero_time, True, ''100.64.0.7'', [])"
    by code_simp
  then have "rv_State (fst (fst ?r)) = RouterOK" "map_option er_IP (rv_CurrentExitNode (fst (fst ?r))) = Some ''100.64.0.7''"
    "rv_RevertAt (fst (fst ?r)) = zero_time" "po_snap (fst (snd ?r)) = last (po_frames (fst (snd ?r)))"
    "dev_exit readonly_device (snd (snd ?r)) = ''100.64.0.7''"
    "dev_exit readonly_device (dev_wait readonly_device (snd (snd ?r))) = []"
    by (auto simp: readonly_device_def sim_device_def split: prod.splits)
  then show ?thesis using readonly_device_behaviour by (simp add: Let_def)
qed

subsection \<open>Keep\<close>

definition keepable :: "'w router_ops \<Rightarrow> time \<Rightarrow> string \<Rightarrow> pstate \<Rightarrow> 'w \<Rightarrow> string \<Rightarrow> bool" where
  "keepable rc now addr s w rid \<longleftrightarrow>
     (\<exists>e. po_pendingKeep s addr = Some e \<and> now \<le> ke_revertAt e \<and> ke_seq e = po_setSeq s addr \<and>
        fst (ro_Keep rc addr (ke_marker e) w) = None)"

lemma keep_target_Inr_iff:
  "keep_target snap rid = Inr addr \<longleftrightarrow>
     (\<exists>rv. findRouterViewByStableID snap rid = Some rv \<and> addr = primaryIP (rv_Node rv) \<and> addr \<noteq> [])"
  by (auto simp: keep_target_def Let_def split: option.splits)

lemma keep_target_Inl: "keep_target snap rid = Inl c \<Longrightarrow> ctl_status c = 404"
  by (auto simp: keep_target_def Let_def mk_controlError_def split: option.splits if_splits)

lemma keep_commit_ok:
  assumes "keep_target (po_snap s) rid = Inr addr" and "po_setSeq s addr = q"
  obtains x final where "keep_commit rid addr q builtAt s = (Inr (kept_view x), Some final,
    s\<lparr>po_setGen := bump (po_setGen s) addr, po_pendingKeep := (po_pendingKeep s)(addr := None), po_snap := final\<rparr>)"
proof -
  obtain rv where rv: "findRouterViewByStableID (po_snap s) rid = Some rv" "addr = primaryIP (rv_Node rv)" "addr \<noteq> []"
    using assms(1) unfolding keep_target_Inr_iff by blast
  then have "rv \<in> set (sn_Routers (po_snap s))" "has_ip addr (rv_Node rv)"
    by (auto simp: findRouterViewByStableID_def dest: find_SomeD intro: primaryIP_has_ip)
  then have ok: "snd (withRouter (po_snap s) builtAt addr kept_view)" by (auto simp: withRouter_def)
  obtain x where last: "last_view (fst (withRouter (po_snap s) builtAt addr kept_view)) addr = kept_view x"
    using last_view_withRouter [OF ok] by (metis kept_view_node)
  obtain final where f: "withRouter (po_snap s) builtAt addr kept_view = (final, True)"
    using ok by (metis prod.collapse)
  with last assms(2) that show thesis by (simp add: keep_commit_def)
qed

text \<open>
  C25 (functional). \<open>Keep\<close> succeeds exactly when the router is known and has an address, a change is pending on it
  whose window has not passed and which no newer change has superseded, and the router accepts the marker;
  then the card says ok with no deadline and the entry is gone. If the router refuses the marker (502) the
  state is untouched, so that the operator can retry. Any other refusal (404, 409) sends no command.
\<close>

theorem Keep_correct:
  assumes ret: "Keep rc now builtAt rid (s, w) = (r, s', w')"
  shows "case keep_target (po_snap s) rid of
      Inl c \<Rightarrow> r = Inl c \<and> ctl_status c = 404 \<and> s' = s \<and> w' = w
    | Inr addr \<Rightarrow>
        (if keepable rc now addr s w rid
         then (\<exists>view. r = Inr view \<and> rv_State view = RouterOK \<and> rv_RevertAt view = zero_time) \<and>
              po_pendingKeep s' = (po_pendingKeep s)(addr := None)
         else (\<exists>c. r = Inl c \<and> (ctl_status c = 409 \<and> w' = w \<or> ctl_status c = 502 \<and> s' = s)))"
proof (cases "keep_target (po_snap s) rid")
  case (Inl c)
  with ret show ?thesis using keep_target_Inl by (simp add: Keep_def)
next
  case (Inr addr)
  show ?thesis
  proof (cases "keep_validate addr now builtAt s")
    case kv: (Pair k s1)
    show ?thesis
    proof (cases k)
      case (KeepRefused c snap)
      then have "r = Inl c" "w' = w" using ret Inr kv by (auto simp: Keep_def)
      moreover have "ctl_status c = 409" "\<not> keepable rc now addr s w rid"
        using kv KeepRefused
        by (auto simp: keep_validate_def mk_controlError_def keepable_def Let_def split: option.splits if_splits prod.splits bool.splits)
      ultimately show ?thesis using Inr by simp
    next
      case (KeepEntry e)
      then have e: "po_pendingKeep s addr = Some e" "now \<le> ke_revertAt e" "ke_seq e = po_setSeq s addr" "s1 = s"
        using kv by (auto simp: keep_validate_def Let_def split: option.splits if_splits prod.splits bool.splits)
      obtain err w1 where k: "ro_Keep rc addr (ke_marker e) w = (err, w1)" by fastforce
      show ?thesis
      proof (cases err)
        case (Some x)
        then have "r = Inl (routerControlError x)" "s' = s" using ret Inr kv KeepEntry k e by (simp_all add: Keep_def)
        moreover have "\<not> keepable rc now addr s w rid" using e k Some by (simp add: keepable_def)
        ultimately show ?thesis using Inr by (simp add: routerControlError_def)
      next
        case None
        obtain x final where c: "keep_commit rid addr (ke_seq e) builtAt s = (Inr (kept_view x), Some final,
            s\<lparr>po_setGen := bump (po_setGen s) addr, po_pendingKeep := (po_pendingKeep s)(addr := None), po_snap := final\<rparr>)"
          by (rule keep_commit_ok [OF Inr e(3) [symmetric]])
        have "r = Inr (kept_view x)" "po_pendingKeep s' = (po_pendingKeep s)(addr := None)"
          using ret Inr kv KeepEntry k e c None by (auto simp: Keep_def maybe_broadcast_def Broadcast_def)
        moreover have "keepable rc now addr s w rid" using e k None by (simp add: keepable_def)
        ultimately show ?thesis using Inr by (simp add: kept_view_def)
      qed
    qed
  qed
qed

theorem Keep_correct_witness:
  "\<exists>view s' w'. Keep sim_ops 20 21 ''r1'' ((poller_New example_snap)
       \<lparr>po_pendingKeep := [''100.64.0.1'' \<mapsto> \<lparr>ke_marker = ''/tmp/m'', ke_revertAt = 60, ke_seq = 0\<rparr>]\<rparr>, sim_start) =
     (Inr view, s', w') \<and> rv_State view = RouterOK"
proof -
  let ?s = "(poller_New example_snap)\<lparr>po_pendingKeep := [''100.64.0.1'' \<mapsto> \<lparr>ke_marker = ''/tmp/m'', ke_revertAt = 60, ke_seq = 0\<rparr>]\<rparr>"
  obtain r s' w' where ret: "Keep sim_ops 20 21 ''r1'' (?s, sim_start) = (r, s', w')" by (metis prod_cases3)
  have t: "keep_target example_snap ''r1'' = Inr ''100.64.0.1''" by code_simp
  then have t': "keep_target (po_snap ?s) ''r1'' = Inr ''100.64.0.1''" by (simp add: poller_New_def)
  have "keepable sim_ops 20 ''100.64.0.1'' ?s sim_start ''r1''"
    by (simp add: keepable_def poller_New_def sim_ops_def ssh_ops_def KeepExitNode_def run_step_def sim_device_def sim_exec_keep)
  with Keep_correct [OF ret] t' ret show ?thesis by auto
qed

subsection \<open>Polling\<close>

text \<open>
  The state a fresh read leads to: unreachable if the router did not answer; unconfirmed
  while a different selection was asked for and its window is still open (or its start is unknown); ok in
  every other case, and then nothing is desired any more and the card shows what the router reported.
\<close>

lemma reconcileState_correct:
  "let rv' = reconcileState rv now grace
   in (rv_State rv' = RouterUnreachable \<longleftrightarrow> \<not> rv_Reachable rv) \<and>
      (rv_State rv' = RouterUnconfirmed \<longleftrightarrow> rv_Reachable rv \<and> (\<exists>d. rv_Desired rv = Some d \<and>
         \<not> sameExitNode (rv_CurrentExitNode rv) (Some d) \<and> (rv_DesiredSince rv = zero_time \<or> now - rv_DesiredSince rv < grace))) \<and>
      (rv_State rv' = RouterOK \<longrightarrow> rv_Desired rv' = None \<and> rv_DesiredSince rv' = zero_time) \<and>
      rv_State rv' \<in> {RouterOK, RouterUnconfirmed, RouterUnreachable} \<and>
      rv_CurrentExitNode rv' = rv_CurrentExitNode rv \<and> rv_Node rv' = rv_Node rv"
  by (auto simp: reconcileState_def Let_def)

lemma merge_routers_length: "length (fst (merge_routers s genAt now ars pk)) = length ars"
  by (induction s genAt now ars pk rule: merge_routers.induct) (auto split: prod.splits)

lemma merge_router_other: "a \<noteq> addr \<Longrightarrow> snd (merge_router s genAt now addr rv pk) a = pk a"
  by (simp add: merge_router_def split: option.splits)

lemma merge_routers_nth:
  assumes "distinct (map fst ars)" and "i < length ars"
  shows "fst (merge_routers s genAt now ars pk) ! i = fst (merge_router s genAt now (fst (ars ! i)) (snd (ars ! i)) pk)"
  using assms
proof (induction s genAt now ars pk arbitrary: i rule: merge_routers.induct)
  case (1 s genAt now pk)
  then show ?case by simp
next
  case (2 s genAt now addr rv rest pk)
  obtain rv' pk' where m: "merge_router s genAt now addr rv pk = (rv', pk')" by fastforce
  obtain rvs pk'' where r: "merge_routers s genAt now rest pk' = (rvs, pk'')" by fastforce
  show ?case
  proof (cases i)
    case 0
    then show ?thesis by (simp add: m r)
  next
    case (Suc j)
    with "2.prems" have j: "j < length rest" "distinct (map fst rest)" by auto
    have "fst (rest ! j) \<in> fst ` set rest" using j(1) by simp
    with "2.prems"(1) have "fst (rest ! j) \<noteq> addr" by auto
    then have "pk' (fst (rest ! j)) = pk (fst (rest ! j))" using merge_router_other [of "fst (rest ! j)" addr s genAt now rv pk] m by simp
    then have "fst (merge_router s genAt now (fst (rest ! j)) (snd (rest ! j)) pk') =
        fst (merge_router s genAt now (fst (rest ! j)) (snd (rest ! j)) pk)"
      by (simp add: merge_router_def split: option.splits)
    with Suc "2.IH" [OF m [symmetric] j(2,1)] show ?thesis by (simp add: m r)
  qed
qed

lemma refresh_merge_view:
  assumes "distinct (ga_addrs ga)" and "length (ga_routers ga) = length (ga_addrs ga)" and "i < length (ga_addrs ga)"
  shows "sn_Routers (po_snap (refresh_merge gs mergeAt ga s)) ! i =
    fst (merge_router s (ga_genAt ga) mergeAt (ga_addrs ga ! i) (ga_routers ga ! i) (po_pendingKeep s))"
  using assms merge_routers_nth [of "zip (ga_addrs ga) (ga_routers ga)" i s "ga_genAt ga" mergeAt "po_pendingKeep s"]
  by (auto simp: refresh_merge_def Broadcast_def Let_def split: prod.splits)

text \<open>
  The merge of a poll against concurrent changes. Let a poll merge what it gathered. For a router that a
  set or keep touched after the poll had captured its generation, the published view stays what that
  operation published. For an untouched router with a change still awaiting its keep, the poll never shows
  ok: a reachable router stays awaiting-keep with the entry's deadline. Once the deadline has passed, a
  view carried along unread is not kept as confirmed: it becomes unprobed with no exit node.
\<close>

theorem merge_respects_changes:
  assumes "distinct (ga_addrs ga)" and "length (ga_routers ga) = length (ga_addrs ga)" and i: "i < length (ga_addrs ga)"
  shows "let addr = ga_addrs ga ! i; read = ga_routers ga ! i;
             new = sn_Routers (po_snap (refresh_merge gs mergeAt ga s)) ! i
    in (po_setGen s addr \<noteq> ga_genAt ga addr \<longrightarrow>
          (\<forall>cur. findRouterView (po_snap s) addr = Some cur \<longrightarrow> new = cur)) \<and>
       (po_setGen s addr = ga_genAt ga addr \<longrightarrow>
          (\<forall>e. po_pendingKeep s addr = Some e \<longrightarrow>
             (if mergeAt \<le> ke_revertAt e
              then rv_Reachable read \<longrightarrow> rv_State new = RouterAwaitingKeep \<and> rv_RevertAt new = ke_revertAt e
              else rv_State read = RouterAwaitingKeep \<longrightarrow> rv_State new = RouterUnprobed \<and> rv_CurrentExitNode new = None)))"
  using refresh_merge_view [OF assms, of gs mergeAt s]
  by (simp add: Let_def merge_router_def expire_view_def reverted_view_def split: option.splits)

definition example_gathered :: gathered where
  "example_gathered = \<lparr>ga_now = 30, ga_nodes = sn_Nodes example_snap, ga_netmapAt = 30, ga_netmapErr = [],
     ga_addrs = [''100.64.0.1''], ga_fallback = False, ga_genAt = (\<lambda>_. 0), ga_routers = [example_router]\<rparr>"

theorem merge_respects_changes_witness:
  "rv_State (sn_Routers (po_snap (refresh_merge [] 31 example_gathered ((poller_New example_snap)
     \<lparr>po_pendingKeep := [''100.64.0.1'' \<mapsto> \<lparr>ke_marker = ''/tmp/m'', ke_revertAt = 60, ke_seq = 0\<rparr>]\<rparr>))) ! 0) = RouterAwaitingKeep"
  using merge_respects_changes [of example_gathered 0 "[]" 31 "(poller_New example_snap)
     \<lparr>po_pendingKeep := [''100.64.0.1'' \<mapsto> \<lparr>ke_marker = ''/tmp/m'', ke_revertAt = 60, ke_seq = 0\<rparr>]\<rparr>"]
  by (simp add: example_gathered_def Let_def poller_New_def example_router_def)

subsection \<open>The loop\<close>









subsection \<open>Resolved zones\<close>

lemma sort_key_stable_lex:
  fixes f :: "'a \<Rightarrow> 'k :: linorder" and h :: "'a \<Rightarrow> 'l :: linorder"
  assumes "sorted (map h xs)"
  shows "sorted_wrt (\<lambda>a b. f a < f b \<or> f a = f b \<and> h a \<le> h b) (sort_key f xs)"
proof -
  let ?ys = "sort_key f xs"
  have s: "sorted (map f ?ys)" by simp
  have "f (?ys ! i) < f (?ys ! j) \<or> f (?ys ! i) = f (?ys ! j) \<and> h (?ys ! i) \<le> h (?ys ! j)"
    if ij: "i < j" "j < length ?ys" for i j
  proof (cases "f (?ys ! i) = f (?ys ! j)")
    case False
    with s ij show ?thesis by (auto simp: sorted_iff_nth_mono_less order_le_less)
  next
    case True
    let ?P = "\<lambda>x. f x = f (?ys ! j)"
    have "filter ?P ?ys = filter ?P xs"
      using sort_key_stable [of f "f (?ys ! j)" xs] by (simp add: eq_commute)
    then have hs: "sorted (map h (filter ?P ?ys))" using assms by (simp add: sorted_filter)
    have "?ys = take j ?ys @ ?ys ! j # drop (Suc j) ?ys" using ij(2) by (simp add: id_take_nth_drop [symmetric])
    then have fl: "filter ?P ?ys = filter ?P (take j ?ys) @ ?ys ! j # filter ?P (drop (Suc j) ?ys)"
      by (metis (mono_tags, lifting) filter.simps(2) filter_append)
    have "?ys ! i \<in> set (filter ?P (take j ?ys))"
      using ij True by (auto simp: in_set_conv_nth intro!: exI [of _ i])
    with hs fl have "h (?ys ! i) \<le> h (?ys ! j)" by (auto simp: sorted_append)
    with True show ?thesis by simp
  qed
  then show ?thesis by (simp add: sorted_wrt_iff_nth_less)
qed

text \<open>
  The zones of a snapshot are the zones of the store, each exactly once, ordered by name
  and then identifier; each keeps its members in the order given, a member is marked present exactly when
  the inventory has it, and then carries that node's name, address and online state.
\<close>

lemma buildGroupViews_correct:
  "mset (map gv_ID (buildGroupViews gs nodes)) = mset (map g_ID gs) \<and>
   sorted_wrt (\<lambda>a b. gv_Name a < gv_Name b \<or> gv_Name a = gv_Name b \<and> gv_ID a \<le> gv_ID b) (buildGroupViews gs nodes) \<and>
   (\<forall>gv \<in> set (buildGroupViews gs nodes). \<exists>g \<in> set gs. gv_ID gv = g_ID g \<and>
      map gm_StableID (gv_Consumers gv) = g_Consumers g \<and> map gm_StableID (gv_AllowedExitNodes gv) = g_AllowedExitNodes g \<and>
      (\<forall>m \<in> set (gv_Consumers gv) \<union> set (gv_AllowedExitNodes gv).
         (gm_Present m \<longleftrightarrow> gm_StableID m \<in> nv_StableID ` set nodes) \<and>
         (gm_Present m \<longrightarrow> (\<exists>n \<in> set nodes. nv_StableID n = gm_StableID m \<and> gm_Name m = displayName n \<and>
            gm_IP m = primaryIP n \<and> gm_Online m = nv_Online n))))"
proof (intro conjI)
  have "mset (map g_ID (sort_key g_Name (sort_key g_ID gs))) = mset (map g_ID gs)" by simp
  then show "mset (map gv_ID (buildGroupViews gs nodes)) = mset (map g_ID gs)"
    by (simp add: buildGroupViews_def comp_def group_view_def)
  show "sorted_wrt (\<lambda>a b. gv_Name a < gv_Name b \<or> gv_Name a = gv_Name b \<and> gv_ID a \<le> gv_ID b) (buildGroupViews gs nodes)"
    using sort_key_stable_lex [of g_ID "sort_key g_ID gs" g_Name, OF sorted_sort_key]
    by (simp add: buildGroupViews_def sorted_wrt_map group_view_def)
  have m: "(gm_Present (resolveMember nodes i) \<longleftrightarrow> i \<in> nv_StableID ` set nodes) \<and>
      (gm_Present (resolveMember nodes i) \<longrightarrow> (\<exists>n \<in> set nodes. nv_StableID n = i \<and>
         gm_Name (resolveMember nodes i) = displayName n \<and> gm_IP (resolveMember nodes i) = primaryIP n \<and>
         gm_Online (resolveMember nodes i) = nv_Online n))" for i
    by (auto simp: resolveMember_def byID_def find_None_iff split: option.splits dest!: find_SomeD)
  show "\<forall>gv \<in> set (buildGroupViews gs nodes). \<exists>g \<in> set gs. gv_ID gv = g_ID g \<and>
      map gm_StableID (gv_Consumers gv) = g_Consumers g \<and> map gm_StableID (gv_AllowedExitNodes gv) = g_AllowedExitNodes g \<and>
      (\<forall>m \<in> set (gv_Consumers gv) \<union> set (gv_AllowedExitNodes gv).
         (gm_Present m \<longleftrightarrow> gm_StableID m \<in> nv_StableID ` set nodes) \<and>
         (gm_Present m \<longrightarrow> (\<exists>n \<in> set nodes. nv_StableID n = gm_StableID m \<and> gm_Name m = displayName n \<and>
            gm_IP m = primaryIP n \<and> gm_Online m = nv_Online n)))"
  proof
    fix gv assume "gv \<in> set (buildGroupViews gs nodes)"
    then obtain g where g: "g \<in> set gs" "gv = group_view nodes g" by (auto simp: buildGroupViews_def)
    have "(gm_Present x \<longleftrightarrow> gm_StableID x \<in> nv_StableID ` set nodes) \<and>
         (gm_Present x \<longrightarrow> (\<exists>n \<in> set nodes. nv_StableID n = gm_StableID x \<and> gm_Name x = displayName n \<and>
            gm_IP x = primaryIP n \<and> gm_Online x = nv_Online n))"
      if "x \<in> set (gv_Consumers gv) \<union> set (gv_AllowedExitNodes gv)" for x
    proof -
      from that g obtain i where "x = resolveMember nodes i" by (auto simp: group_view_def resolveMembers_def)
      with m [of i] show ?thesis by simp
    qed
    with g show "\<exists>g \<in> set gs. gv_ID gv = g_ID g \<and>
      map gm_StableID (gv_Consumers gv) = g_Consumers g \<and> map gm_StableID (gv_AllowedExitNodes gv) = g_AllowedExitNodes g \<and>
      (\<forall>m \<in> set (gv_Consumers gv) \<union> set (gv_AllowedExitNodes gv).
         (gm_Present m \<longleftrightarrow> gm_StableID m \<in> nv_StableID ` set nodes) \<and>
         (gm_Present m \<longrightarrow> (\<exists>n \<in> set nodes. nv_StableID n = gm_StableID m \<and> gm_Name m = displayName n \<and>
            gm_IP m = primaryIP n \<and> gm_Online m = nv_Online n)))"
      by (intro bexI [of _ g] conjI ballI) (simp_all add: group_view_def resolveMembers_ids)
  qed
qed

end
