(* ===== verification/Poller_Steps.thy ===== *)
theory Poller_Steps
  imports Poller_Safety "HOL-Library.Multiset"
begin

section \<open>Package poller: concurrent operations\<close>

text \<open>
  \<^verbatim>\<open>SetExitNode\<close>, \<^verbatim>\<open>Keep\<close>, \<^verbatim>\<open>Probe\<close>, \<^verbatim>\<open>refreshOnce\<close> and \<^verbatim>\<open>RefreshGroups\<close> of \<^verbatim>\<open>internal/poller/poller.go\<close> run on many goroutines.
  Between two acquisitions of \<^verbatim>\<open>mu\<close> an operation is one of the values of \<open>op\<close>, which carries the local variables it
  has at that point; \<open>advance\<close> runs it to the next one. A step of the system starts an operation or advances one of
  those under way, so all interleavings are covered. The dials of one poll are taken as one step, which concerns the
  world only: nothing is assumed of what they read.
\<close>

subsection \<open>Operations under way\<close>

datatype op =
    SetReady set_plan
  | SetShow set_plan nat Snapshot
  | SetApply set_plan nat
  | SetFinish set_plan nat apply_result time time
  | SetDisarm string "string list" "Snapshot option"
  | KeepCheck string string
  | KeepWrite string string keepEntry
  | KeepFinish string string keepEntry
  | ProbeDial string
  | ProbeCapture string
  | ProbeRead string nat
  | ProbeFinish string nat RouterRuntime
  | PollCapture gathered Snapshot
  | PollDial gathered Snapshot
  | PollMerge gathered
  | ZonesChanged
  | Show Snapshot

definition show_op :: "Snapshot option \<Rightarrow> op list" where
  "show_op snap = (case snap of None \<Rightarrow> [] | Some x \<Rightarrow> [Show x])"

text \<open>
  The next section of an operation: what is left to do (nothing, once it has returned), the shared state and the
  world. \<open>t\<close> and \<open>u\<close> are the instants the section reads, in this order; \<open>gs\<close> are the zones at that moment.
\<close>

fun advance ::
    "pconfig \<Rightarrow> 'w router_ops \<Rightarrow> Group list \<Rightarrow> time \<Rightarrow> time \<Rightarrow> op \<Rightarrow> pstate \<times> 'w \<Rightarrow> op list \<times> pstate \<times> 'w" where
  "advance cfg rc gs t u (SetReady plan) (s, w) =
     (case set_step1 (sp_addr plan) (sp_target plan) t s of
        (q, None, s1) \<Rightarrow> ([], s1, w)
      | (q, Some pending, s1) \<Rightarrow> ([SetShow plan q pending], s1, w))"
| "advance cfg rc gs t u (SetShow plan q pending) (s, w) = ([SetApply plan q], Broadcast pending s, w)"
| "advance cfg rc gs t u (SetApply plan q) (s, w) =
     (case set_apply cfg rc plan w of (ar, w1) \<Rightarrow> ([SetFinish plan q ar t u], s, w1))"
| "advance cfg rc gs t u (SetFinish plan q ar armAt now) (s, w) =
     (case set_step3 cfg plan q ar armAt now t s of
        (out, s1) \<Rightarrow> ([SetDisarm (sp_addr plan) (so_disarm out) (so_published out)], s1, w))"
| "advance cfg rc gs t u (SetDisarm addr [] snap) (s, w) = ([], maybe_broadcast snap s, w)"
| "advance cfg rc gs t u (SetDisarm addr (m # ms) snap) (s, w) = ([SetDisarm addr ms snap], s, snd (ro_Keep rc addr m w))"
| "advance cfg rc gs t u (KeepCheck rid addr) (s, w) =
     (case keep_validate addr t u s of
        (KeepRefused e snap, s1) \<Rightarrow> (show_op snap, s1, w)
      | (KeepEntry entry, s1) \<Rightarrow> ([KeepWrite rid addr entry], s1, w))"
| "advance cfg rc gs t u (KeepWrite rid addr entry) (s, w) =
     (case ro_Keep rc addr (ke_marker entry) w of
        (Some e, w1) \<Rightarrow> ([], s, w1)
      | (None, w1) \<Rightarrow> ([KeepFinish rid addr entry], s, w1))"
| "advance cfg rc gs t u (KeepFinish rid addr entry) (s, w) =
     (case keep_commit rid addr (ke_seq entry) t s of (r, snap, s1) \<Rightarrow> (show_op snap, s1, w))"
| "advance cfg rc gs t u (ProbeDial addr) (s, w) =
     (case ro_Probe rc addr w of (Inl e, w1) \<Rightarrow> ([], s, w1) | (Inr out, w1) \<Rightarrow> ([ProbeCapture addr], s, w1))"
| "advance cfg rc gs t u (ProbeCapture addr) (s, w) =
     ((case resolve_capture addr s of None \<Rightarrow> [] | Some genAt \<Rightarrow> [ProbeRead addr genAt]), s, w)"
| "advance cfg rc gs t u (ProbeRead addr genAt) (s, w) =
     (case ro_Status rc addr w of (Inl e, w1) \<Rightarrow> ([], s, w1) | (Inr rt, w1) \<Rightarrow> ([ProbeFinish addr genAt rt], s, w1))"
| "advance cfg rc gs t u (ProbeFinish addr genAt rt) (s, w) =
     (case resolve_commit cfg addr genAt rt t s of (snap, s1) \<Rightarrow> (show_op snap, s1, w))"
| "advance cfg rc gs t u (PollCapture ga prev) (s, w) = ([PollDial (refresh_capture s ga) prev], s, w)"
| "advance cfg rc gs t u (PollDial ga prev) (s, w) =
     (case refresh_dial cfg rc t prev ga w of (ga1, w1) \<Rightarrow> ([PollMerge ga1], s, w1))"
| "advance cfg rc gs t u (PollMerge ga) (s, w) = ([], refresh_merge gs t ga s, w)"
| "advance cfg rc gs t u ZonesChanged (s, w) = ([], RefreshGroups gs t s, w)"
| "advance cfg rc gs t u (Show snap) (s, w) = ([], Broadcast snap s, w)"

text \<open>
  How an operation starts. A set, a keep and a probe are admitted on the snapshot that they have loaded, which may be any
  earlier one by the time of their first locked section.
\<close>

inductive starts :: "pconfig \<Rightarrow> pstate \<Rightarrow> op \<Rightarrow> bool" for cfg s where
  start_set: "set_preflight gs snap rid tid = Inr plan \<Longrightarrow> starts cfg s (SetReady plan)"
| start_keep: "keep_target snap rid = Inr addr \<Longrightarrow> starts cfg s (KeepCheck rid addr)"
| start_probe: "findRouterViewByStableID snap rid = Some rv \<Longrightarrow> primaryIP (rv_Node rv) = addr \<Longrightarrow> addr \<noteq> [] \<Longrightarrow>
    nv_Online (rv_Node rv) \<Longrightarrow> starts cfg s (ProbeDial addr)"
| start_poll: "starts cfg s (PollCapture (refresh_inventory cfg inven now (po_snap s)) (po_snap s))"
| start_zones: "starts cfg s ZonesChanged"

subsection \<open>The system\<close>

text \<open>
  Two history variables. \<open>tm_armed\<close> are the revert timers, as router and marker, that were armed for a confirmed change whose
  marker was handed back unwritten. A timer leaves the set only when its marker is written without an error, by a keep or by a
  disarm, or when its deadline is seen to have passed. \<open>tm_reported\<close> are the disarms that failed: the poller logs each of them and
  goes on, so that the timer stays armed.

  An attempt that fails hands no marker back, and nothing in the program could cancel the revert it may have armed; such a revert
  is not among these, and \<open>stale_revert_undoes_retry\<close> shows what it may do.
\<close>

record timers =
  tm_armed :: "(string \<times> string) set"
  tm_reported :: "(string \<times> string) set"

definition no_timers :: timers where
  "no_timers = \<lparr>tm_armed = {}, tm_reported = {}\<rparr>"

record 'w conc =
  cn_state :: pstate
  cn_world :: 'w
  cn_ops :: "op list"
  cn_timers :: timers

definition expired :: "pstate \<Rightarrow> time \<Rightarrow> (string \<times> string) set" where
  "expired s t = {(a, m). \<exists>e. po_pendingKeep s a = Some e \<and> ke_marker e = m \<and> t > ke_revertAt e}"

fun fresh_timer :: "op \<Rightarrow> (string \<times> string) set" where
  "fresh_timer (SetFinish plan q ar armAt now) = (if ar_marker ar = [] then {} else {(sp_addr plan, ar_marker ar)})"
| "fresh_timer opr = {}"

text \<open>The timers whose marker a section has written, or whose end it has seen; and the disarms that fail in it.\<close>

fun cleared :: "'w router_ops \<Rightarrow> 'w \<Rightarrow> pstate \<Rightarrow> time \<Rightarrow> op \<Rightarrow> (string \<times> string) set" where
  "cleared rc w s t (SetDisarm addr (m # ms) snap) = (if fst (ro_Keep rc addr m w) = None then {(addr, m)} else {})"
| "cleared rc w s t (KeepWrite rid addr e) = (if fst (ro_Keep rc addr (ke_marker e) w) = None then {(addr, ke_marker e)} else {})"
| "cleared rc w s t (KeepCheck rid addr) = expired s t"
| "cleared rc w s t (PollMerge ga) = expired s t"
| "cleared rc w s t opr = {}"

fun disarm_failed :: "'w router_ops \<Rightarrow> 'w \<Rightarrow> op \<Rightarrow> (string \<times> string) set" where
  "disarm_failed rc w (SetDisarm addr (m # ms) snap) = (if fst (ro_Keep rc addr m w) = None then {} else {(addr, m)})"
| "disarm_failed rc w opr = {}"

definition timers_after :: "'w router_ops \<Rightarrow> 'w \<Rightarrow> pstate \<Rightarrow> time \<Rightarrow> op \<Rightarrow> op list \<Rightarrow> timers \<Rightarrow> timers" where
  "timers_after rc w s t opr os T =
     \<lparr>tm_armed = (tm_armed T - cleared rc w s t opr) \<union> (\<Union>x \<in> set os. fresh_timer x),
      tm_reported = tm_reported T \<union> disarm_failed rc w opr\<rparr>"

inductive conc_step :: "pconfig \<Rightarrow> 'w router_ops \<Rightarrow> 'w conc \<Rightarrow> 'w conc \<Rightarrow> bool" for cfg rc where
  start: "starts cfg (cn_state c) opr \<Longrightarrow> conc_step cfg rc c (c\<lparr>cn_ops := opr # cn_ops c\<rparr>)"
| run: "cn_ops c = xs @ opr # ys \<Longrightarrow> advance cfg rc gs t u opr (cn_state c, cn_world c) = (os, s', w') \<Longrightarrow>
    conc_step cfg rc c \<lparr>cn_state = s', cn_world = w', cn_ops = os @ xs @ ys,
      cn_timers = timers_after rc (cn_world c) (cn_state c) t opr os (cn_timers c)\<rparr>"

inductive conc_reachable :: "pconfig \<Rightarrow> 'w router_ops \<Rightarrow> 'w conc \<Rightarrow> bool" for cfg rc where
  init: "conc_reachable cfg rc \<lparr>cn_state = poller_New snap, cn_world = w, cn_ops = [], cn_timers = no_timers\<rparr>"
| step: "conc_reachable cfg rc c \<Longrightarrow> conc_step cfg rc c c' \<Longrightarrow> conc_reachable cfg rc c'"

inductive_cases starts_cases: "starts cfg s opr"

subsection \<open>Every armed revert is tracked\<close>

fun op_seq :: "op \<Rightarrow> (string \<times> nat) option" where
  "op_seq (SetShow plan q snap) = Some (sp_addr plan, q)"
| "op_seq (SetApply plan q) = Some (sp_addr plan, q)"
| "op_seq (SetFinish plan q ar armAt now) = Some (sp_addr plan, q)"
| "op_seq opr = None"

definition seqs :: "op list \<Rightarrow> (string \<times> nat) list" where
  "seqs os = concat (map (\<lambda>x. case op_seq x of None \<Rightarrow> [] | Some k \<Rightarrow> [k]) os)"

lemma seqs_simps [simp]:
  "seqs [] = []" "seqs (x # os) = (case op_seq x of None \<Rightarrow> seqs os | Some k \<Rightarrow> k # seqs os)" "seqs (os @ os') = seqs os @ seqs os'"
  by (simp_all add: seqs_def split: option.split)

fun op_holds :: "op \<Rightarrow> string \<Rightarrow> string \<Rightarrow> bool" where
  "op_holds (SetFinish plan q ar armAt now) a m \<longleftrightarrow> sp_addr plan = a \<and> ar_marker ar = m"
| "op_holds (SetDisarm addr ms snap) a m \<longleftrightarrow> addr = a \<and> m \<in> set ms"
| "op_holds opr a m \<longleftrightarrow> False"

definition held :: "op list \<Rightarrow> string \<Rightarrow> string \<Rightarrow> bool" where
  "held os a m \<longleftrightarrow> (\<exists>x \<in> set os. op_holds x a m)"

lemma held_simps [simp]:
  "\<not> held [] a m" "held (x # os) a m \<longleftrightarrow> op_holds x a m \<or> held os a m" "held (os @ os') a m \<longleftrightarrow> held os a m \<or> held os' a m"
  by (auto simp: held_def)

definition gated :: "pstate \<Rightarrow> string \<Rightarrow> string \<Rightarrow> bool" where
  "gated s a m \<longleftrightarrow> (\<exists>e. po_pendingKeep s a = Some e \<and> ke_marker e = m)"

text \<open>
  What is known of a \<open>Keep\<close> that has been admitted: no set that it could be mistaken for is under way, and unless a newer
  one has started, the gate is still its entry, or gone. Once the marker is written its timer is no longer armed, or
  it has been armed anew and is tracked by the set that did it.
\<close>

definition keep_ok :: "pstate \<Rightarrow> op list \<Rightarrow> (string \<times> string) set \<Rightarrow> bool \<Rightarrow> string \<Rightarrow> keepEntry \<Rightarrow> bool" where
  "keep_ok s os T done a e \<longleftrightarrow> ke_seq e \<le> po_setSeq s a \<and> (a, ke_seq e) \<notin> set (seqs os) \<and>
     (po_setSeq s a = ke_seq e \<longrightarrow> po_pendingKeep s a \<in> {None, Some e} \<and>
        (done \<longrightarrow> (a, ke_marker e) \<in> T \<longrightarrow> held os a (ke_marker e)))"

fun op_ok :: "pconfig \<Rightarrow> pstate \<Rightarrow> op list \<Rightarrow> (string \<times> string) set \<Rightarrow> op \<Rightarrow> bool" where
  "op_ok cfg s os T (SetFinish plan q ar armAt now) \<longleftrightarrow>
     (ar_marker ar \<noteq> [] \<longrightarrow> ar_err ar = None \<and> \<not> autoKeep_of cfg (sp_target plan))"
| "op_ok cfg s os T (KeepWrite rid a e) \<longleftrightarrow> keep_ok s os T False a e"
| "op_ok cfg s os T (KeepFinish rid a e) \<longleftrightarrow> keep_ok s os T True a e"
| "op_ok cfg s os T opr \<longleftrightarrow> True"

lemma op_ok_keeps:
  assumes "op_ok cfg s os T x" and "\<And>b a e. keep_ok s os T b a e \<Longrightarrow> keep_ok s' os' T' b a e"
  shows "op_ok cfg s' os' T' x"
  using assms(1) by (cases x) (simp_all only: op_ok.simps assms(2) simp_thms)

definition steps_inv :: "pconfig \<Rightarrow> pstate \<Rightarrow> op list \<Rightarrow> (string \<times> string) set \<Rightarrow> bool" where
  "steps_inv cfg s os T \<longleftrightarrow>
     distinct (seqs os) \<and> (\<forall>(a, q) \<in> set (seqs os). q \<le> po_setSeq s a) \<and>
     (\<forall>a e. po_pendingKeep s a = Some e \<longrightarrow> ke_seq e \<le> po_setSeq s a \<and> (a, ke_seq e) \<notin> set (seqs os)) \<and>
     (\<forall>x \<in> set os. op_ok cfg s os T x) \<and>
     (\<forall>(a, m) \<in> T. m \<noteq> [] \<and> (gated s a m \<or> held os a m))"

lemma steps_inv_perm:
  assumes "mset os = mset os'"
  shows "steps_inv cfg s os T \<longleftrightarrow> steps_inv cfg s os' T"
proof -
  have set: "set os = set os'" using assms by (metis set_mset_mset)
  have "mset (seqs l) = (\<Sum>x \<in># mset l. mset (case op_seq x of None \<Rightarrow> [] | Some k \<Rightarrow> [k]))" for l
    by (induction l) (auto split: option.split)
  then have m: "mset (seqs os) = mset (seqs os')" using assms by simp
  then have seqs: "set (seqs os) = set (seqs os')" "distinct (seqs os) = distinct (seqs os')"
    by (metis set_mset_mset, metis mset_eq_imp_distinct_iff)
  have held: "held os = held os'" using set by (simp add: held_def fun_eq_iff)
  have "keep_ok s os T = keep_ok s os' T" using seqs held by (simp add: keep_ok_def fun_eq_iff)
  then have "op_ok cfg s os T x = op_ok cfg s os' T x" for x by (cases x) simp_all
  then show ?thesis unfolding steps_inv_def set seqs held by simp
qed

text \<open>
  A section that leaves sequence numbers, gates and timers alone, and replaces an operation by ones of no consequence.
\<close>

definition plain_op :: "op \<Rightarrow> bool" where
  "plain_op x \<longleftrightarrow> op_seq x = None \<and> (\<forall>a m. \<not> op_holds x a m) \<and> (\<forall>cfg s os T. op_ok cfg s os T x)"

lemma plain_ops [simp]:
  "plain_op (SetReady plan)" "plain_op (KeepCheck rid addr)" "plain_op (ProbeDial addr)" "plain_op (ProbeCapture addr)" "plain_op (ProbeRead addr g)"
  "plain_op (ProbeFinish addr g rt)" "plain_op (PollCapture ga prev)" "plain_op (PollDial ga prev)" "plain_op (PollMerge ga)"
  "plain_op ZonesChanged" "plain_op (Show snap)"
  by (simp_all add: plain_op_def)

lemma plain_seqs: "\<forall>x \<in> set os. plain_op x \<Longrightarrow> seqs os = []"
  by (induction os) (auto simp: plain_op_def)

lemma plain_held: "\<forall>x \<in> set os. plain_op x \<Longrightarrow> \<not> held os a m"
  by (induction os) (auto simp: plain_op_def)

lemma keep_ok_mono:
  assumes "keep_ok s os T b a e" "set (seqs os') \<subseteq> set (seqs os)" "po_setSeq s' = po_setSeq s"
    and "po_pendingKeep s' a \<in> {None, po_pendingKeep s a}" "T' \<subseteq> T" "\<And>m. (a, m) \<in> T' \<Longrightarrow> held os a m \<Longrightarrow> held os' a m"
  shows "keep_ok s' os' T' b a e"
  using assms unfolding keep_ok_def by auto

lemma steps_inv_weaken:
  assumes inv: "steps_inv cfg s (x # R) T"
    and seqs: "seqs os = [] \<or> seqs os = seqs [x]" and setSeq: "po_setSeq s' = po_setSeq s"
    and pk: "\<And>a. po_pendingKeep s' a \<in> {None, po_pendingKeep s a}" and T: "T' \<subseteq> T"
    and ok: "\<forall>y \<in> set os. op_ok cfg s' (os @ R) T' y"
    and holds: "\<And>a m. (a, m) \<in> T' \<Longrightarrow> op_holds x a m \<Longrightarrow> held os a m"
    and gates: "\<And>a m. (a, m) \<in> T' \<Longrightarrow> gated s a m \<Longrightarrow> \<not> held (x # R) a m \<Longrightarrow> gated s' a m \<or> held os a m"
  shows "steps_inv cfg s' (os @ R) T'"
proof -
  have sub: "set (seqs (os @ R)) \<subseteq> set (seqs (x # R))" and dist: "distinct (seqs (x # R)) \<Longrightarrow> distinct (seqs (os @ R))"
    using seqs by (auto split: option.splits)
  have h: "held (os @ R) a m" if "(a, m) \<in> T'" "held (x # R) a m" for a m using that holds by auto
  have okR: "op_ok cfg s' (os @ R) T' y" if "y \<in> set R" for y
  proof (rule op_ok_keeps)
    show "op_ok cfg s (x # R) T y" using inv that by (simp add: steps_inv_def)
    show "keep_ok s' (os @ R) T' b a e" if "keep_ok s (x # R) T b a e" for b a e
      using keep_ok_mono [OF that sub setSeq pk T] h by blast
  qed
  have gate: "ke_seq e \<le> po_setSeq s' a \<and> (a, ke_seq e) \<notin> set (seqs (os @ R))" if "po_pendingKeep s' a = Some e" for a e
  proof -
    have "po_pendingKeep s a = Some e" using pk [of a] that by simp
    with inv sub setSeq show ?thesis unfolding steps_inv_def by (metis subsetD)
  qed
  have timer: "m \<noteq> [] \<and> (gated s' a m \<or> held (os @ R) a m)" if "(a, m) \<in> T'" for a m
    using inv that T h [OF that] gates [OF that] unfolding steps_inv_def held_simps(3) by blast
  show ?thesis unfolding steps_inv_def
  proof (intro conjI)
    show "distinct (seqs (os @ R))" using inv dist unfolding steps_inv_def by blast
    show "\<forall>(a, q) \<in> set (seqs (os @ R)). q \<le> po_setSeq s' a" using inv sub setSeq unfolding steps_inv_def by auto
    show "\<forall>a e. po_pendingKeep s' a = Some e \<longrightarrow> ke_seq e \<le> po_setSeq s' a \<and> (a, ke_seq e) \<notin> set (seqs (os @ R))"
      using gate by blast
    show "\<forall>y \<in> set (os @ R). op_ok cfg s' (os @ R) T' y" using ok okR unfolding set_append by blast
    show "\<forall>(a, m) \<in> T'. m \<noteq> [] \<and> (gated s' a m \<or> held (os @ R) a m)" using timer by blast
  qed
qed

subsection \<open>What the sections do to sequence numbers and gates\<close>

lemma Broadcast_same [simp]:
  "po_setSeq (Broadcast x s) = po_setSeq s" "po_pendingKeep (Broadcast x s) = po_pendingKeep s"
  by (simp_all add: Broadcast_def)

lemma maybe_broadcast_same [simp]:
  "po_setSeq (maybe_broadcast x s) = po_setSeq s" "po_pendingKeep (maybe_broadcast x s) = po_pendingKeep s"
  by (simp_all add: maybe_broadcast_def split: option.split)

lemma set_step1_effect:
  assumes "set_step1 addr target t s = (q, snap, s1)"
  shows "q = Suc (po_setSeq s addr)" "po_setSeq s1 = (po_setSeq s)(addr := q)" "po_pendingKeep s1 = po_pendingKeep s"
  using assms by (auto simp: set_step1_def Let_def bump_def split: prod.splits bool.splits)

lemma keep_validate_entry:
  "keep_validate addr t u s = (KeepEntry e, s1) \<Longrightarrow> s1 = s \<and> po_pendingKeep s addr = Some e \<and> ke_seq e = po_setSeq s addr"
  by (auto simp: keep_validate_def Let_def split: option.splits if_splits prod.splits bool.splits)

lemma keep_validate_refused:
  assumes "keep_validate addr t u s = (KeepRefused c snap, s1)"
  shows "po_setSeq s1 = po_setSeq s" "po_pendingKeep s1 = po_pendingKeep s \<or>
    (\<exists>e. po_pendingKeep s addr = Some e \<and> t > ke_revertAt e) \<and> po_pendingKeep s1 = (po_pendingKeep s)(addr := None)"
  using assms by (auto simp: keep_validate_def Let_def split: option.splits if_splits prod.splits bool.splits)

lemma keep_commit_effect:
  assumes "keep_commit rid addr q t s = (r, snap, s1)"
  shows "po_setSeq s1 = po_setSeq s"
    "po_pendingKeep s1 = (if po_setSeq s addr = q then (po_pendingKeep s)(addr := None) else po_pendingKeep s)"
  using assms by (auto simp: keep_commit_def Let_def split: if_splits prod.splits bool.splits)

lemma resolve_commit_effect:
  assumes "resolve_commit cfg addr g rt t s = (snap, s1)"
  shows "po_setSeq s1 = po_setSeq s" "po_pendingKeep s1 = po_pendingKeep s"
  using assms by (auto simp: resolve_commit_def split: if_splits prod.splits bool.splits)

lemma merge_routers_gates:
  "snd (merge_routers s genAt t ars pk) a = pk a \<or>
     snd (merge_routers s genAt t ars pk) a = None \<and> (\<exists>e. pk a = Some e \<and> t > ke_revertAt e)"
proof (induction s genAt t ars pk rule: merge_routers.induct)
  case (1 s genAt t pk)
  then show ?case by simp
next
  case (2 s genAt t addr rv rest pk)
  obtain rv' pk' where m: "merge_router s genAt t addr rv pk = (rv', pk')" by fastforce
  have "pk' a = pk a \<or> pk' a = None \<and> (\<exists>e. pk a = Some e \<and> t > ke_revertAt e)"
    using m by (auto simp: merge_router_def split: option.splits if_splits)
  with "2.IH" [OF m [symmetric]] m show ?case by (auto split: prod.splits)
qed

lemma refresh_merge_effect:
  "po_setSeq (refresh_merge gs t ga s) = po_setSeq s"
  "po_pendingKeep (refresh_merge gs t ga s) a = po_pendingKeep s a \<or>
     po_pendingKeep (refresh_merge gs t ga s) a = None \<and> (\<exists>e. po_pendingKeep s a = Some e \<and> t > ke_revertAt e)"
  using merge_routers_gates [of s "ga_genAt ga" t "zip (ga_addrs ga) (ga_routers ga)" "po_pendingKeep s" a]
  by (auto simp: refresh_merge_def Let_def split: prod.splits)

lemma RefreshGroups_effect:
  "po_setSeq (RefreshGroups gs t s) = po_setSeq s" "po_pendingKeep (RefreshGroups gs t s) = po_pendingKeep s"
  by (simp_all add: RefreshGroups_def Let_def)

subsection \<open>Every section keeps the invariant\<close>

lemma steps_invD:
  assumes "steps_inv cfg s (x # R) T"
  shows "op_ok cfg s (x # R) T x" "\<And>a m. (a, m) \<in> T \<Longrightarrow> m \<noteq> []"
    "\<And>a e. po_pendingKeep s a = Some e \<Longrightarrow> ke_seq e \<le> po_setSeq s a \<and> (a, ke_seq e) \<notin> set (seqs (x # R))"
  using assms by (auto simp: steps_inv_def)

lemma step_SetReady:
  assumes inv: "steps_inv cfg s (x # R) T" and x: "x = SetReady plan"
    and s1: "po_setSeq s' = (po_setSeq s)(addr := Suc (po_setSeq s addr))" "po_pendingKeep s' = po_pendingKeep s"
    and os: "os = [] \<or> (\<exists>pl snap. os = [SetShow pl (Suc (po_setSeq s addr)) snap] \<and> sp_addr pl = addr)"
  shows "steps_inv cfg s' (os @ R) T"
proof -
  have xR: "seqs (x # R) = seqs R" "held (x # R) = held R" using x by (simp_all add: fun_eq_iff)
  have new: "(addr, Suc (po_setSeq s addr)) \<notin> set (seqs R)" using inv xR(1) by (auto simp: steps_inv_def)
  have seqs: "set (seqs (os @ R)) \<subseteq> insert (addr, Suc (po_setSeq s addr)) (set (seqs R))" "distinct (seqs (os @ R))"
    using os new inv xR(1) by (auto simp: steps_inv_def)
  have heldR: "held (os @ R) = held R" using os by (auto simp: fun_eq_iff)
  have keep: "keep_ok s' (os @ R) T b a e" if "keep_ok s (x # R) T b a e" for b a e
    using that seqs(1) unfolding keep_ok_def s1 xR heldR by (cases "a = addr") auto
  have okR: "op_ok cfg s' (os @ R) T y" if "y \<in> set R" for y
    using inv that keep by (auto simp: steps_inv_def intro: op_ok_keeps)
  show ?thesis unfolding steps_inv_def
  proof (intro conjI)
    show "distinct (seqs (os @ R))" by (fact seqs(2))
    show "\<forall>(a, q) \<in> set (seqs (os @ R)). q \<le> po_setSeq s' a"
      using inv seqs(1) unfolding steps_inv_def xR s1 by fastforce
    show "\<forall>a e. po_pendingKeep s' a = Some e \<longrightarrow> ke_seq e \<le> po_setSeq s' a \<and> (a, ke_seq e) \<notin> set (seqs (os @ R))"
      using inv seqs(1) unfolding steps_inv_def xR s1 by fastforce
    show "\<forall>y \<in> set (os @ R). op_ok cfg s' (os @ R) T y" using os okR by auto
    show "\<forall>(a, m) \<in> T. m \<noteq> [] \<and> (gated s' a m \<or> held (os @ R) a m)"
      using inv unfolding steps_inv_def xR heldR gated_def s1 by (elim conjE) assumption
  qed
qed

lemma step_SetApply:
  assumes inv: "steps_inv cfg s (SetApply plan q # R) T"
    and ar: "ar_marker ar \<noteq> [] \<Longrightarrow> ar_err ar = None \<and> \<not> autoKeep_of cfg (sp_target plan)"
  shows "steps_inv cfg s (SetFinish plan q ar t u # R) (T \<union> fresh_timer (SetFinish plan q ar t u))"
proof -
  let ?x = "SetFinish plan q ar t u" and ?y = "SetApply plan q"
  have seqs: "seqs (?x # R) = seqs (?y # R)" by simp
  have keep: "keep_ok s (?x # R) (T \<union> fresh_timer ?x) b a e" if "keep_ok s (?y # R) T b a e" for b a e
    using that unfolding keep_ok_def seqs by (auto split: if_splits)
  have okR: "op_ok cfg s (?x # R) (T \<union> fresh_timer ?x) y" if "y \<in> set R" for y
    using inv that keep by (auto simp: steps_inv_def intro: op_ok_keeps simp del: fresh_timer.simps)
  show ?thesis using inv ar okR unfolding steps_inv_def by (auto simp: gated_def split: if_splits)
qed

text \<open>A set that is published as awaiting its keep: its own gate replaces the prior one.\<close>

lemma step_SetFinish_gate:
  assumes inv: "steps_inv cfg s (SetFinish plan q ar armAt now # R) T" and latest: "po_setSeq s (sp_addr plan) = q"
    and s1: "po_setSeq s' = po_setSeq s"
      "po_pendingKeep s' = (po_pendingKeep s)(sp_addr plan \<mapsto> \<lparr>ke_marker = ar_marker ar, ke_revertAt = r, ke_seq = q\<rparr>)"
    and disarm: "\<And>p. po_pendingKeep s (sp_addr plan) = Some p \<Longrightarrow> ke_marker p \<noteq> [] \<Longrightarrow> ke_marker p \<noteq> ar_marker ar \<Longrightarrow>
      ke_marker p \<in> set ms"
  shows "steps_inv cfg s' (SetDisarm (sp_addr plan) ms snap # R) T"
proof -
  let ?x = "SetFinish plan q ar armAt now" and ?y = "SetDisarm (sp_addr plan) ms snap" and ?a = "sp_addr plan"
  have seqs: "seqs (?x # R) = (?a, q) # seqs R" "seqs (?y # R) = seqs R" by simp_all
  have keep: "keep_ok s' (?y # R) T b a e" if k: "keep_ok s (?x # R) T b a e" for b a e
  proof (cases "a = ?a")
    case True
    with k latest show ?thesis unfolding keep_ok_def seqs s1 by auto
  next
    case False
    with k show ?thesis unfolding keep_ok_def seqs s1 by auto
  qed
  have okR: "op_ok cfg s' (?y # R) T y" if "y \<in> set R" for y
    using inv that keep by (auto simp: steps_inv_def intro: op_ok_keeps)
  have timer: "m \<noteq> [] \<and> (gated s' a m \<or> held (?y # R) a m)" if "(a, m) \<in> T" for a m
  proof -
    have "m \<noteq> []" "gated s a m \<or> held (?x # R) a m" using inv that by (auto simp: steps_inv_def)
    with disarm s1(2) show ?thesis by (cases "a = ?a") (auto simp: gated_def)
  qed
  show ?thesis unfolding steps_inv_def
  proof (intro conjI)
    show "distinct (seqs (?y # R))" using inv by (simp add: steps_inv_def)
    show "\<forall>(a, q) \<in> set (seqs (?y # R)). q \<le> po_setSeq s' a" using inv s1(1) by (simp add: steps_inv_def)
    show "\<forall>a e. po_pendingKeep s' a = Some e \<longrightarrow> ke_seq e \<le> po_setSeq s' a \<and> (a, ke_seq e) \<notin> set (seqs (?y # R))"
      using inv latest unfolding steps_inv_def seqs s1 by auto
    show "\<forall>y \<in> set (?y # R). op_ok cfg s' (?y # R) T y" using okR by simp
    show "\<forall>(a, m) \<in> T. m \<noteq> [] \<and> (gated s' a m \<or> held (?y # R) a m)" using timer by blast
  qed
qed

lemma set_step3_cases:
  assumes "set_step3 cfg plan q ar armAt now t s = (out, s1)"
  obtains (dropped) "po_setSeq s1 = po_setSeq s" "po_pendingKeep s1 = po_pendingKeep s" "so_disarm out = (if ar_marker ar \<noteq> [] then [ar_marker ar] else [])"
  | (failed) "po_setSeq s1 = po_setSeq s" "po_pendingKeep s1 = po_pendingKeep s" "ar_err ar \<noteq> None" "so_disarm out = []"
  | (kept) "po_setSeq s1 = po_setSeq s" "po_pendingKeep s1 = (po_pendingKeep s)(sp_addr plan := None)" "ar_err ar = None"
      "autoKeep_of cfg (sp_target plan)"
      "\<And>p. po_pendingKeep s (sp_addr plan) = Some p \<Longrightarrow> ke_marker p \<noteq> [] \<Longrightarrow> ke_marker p \<in> set (so_disarm out)"
  | (awaiting) "po_setSeq s1 = po_setSeq s" "po_setSeq s (sp_addr plan) = q"
      "po_pendingKeep s1 = (po_pendingKeep s)(sp_addr plan \<mapsto>
         \<lparr>ke_marker = ar_marker ar, ke_revertAt = armAt + pc_revertWindow cfg, ke_seq = q\<rparr>)"
      "\<And>p. po_pendingKeep s (sp_addr plan) = Some p \<Longrightarrow> ke_marker p \<noteq> [] \<Longrightarrow> ke_marker p \<noteq> ar_marker ar \<Longrightarrow>
         ke_marker p \<in> set (so_disarm out)"
proof -
  obtain final there where w: "withRouter (po_snap s) t (sp_addr plan) (final_view cfg (sp_target plan) ar armAt now) = (final, there)"
    by fastforce
  show thesis
  proof (cases "there \<and> po_setSeq s (sp_addr plan) = q")
    case False
    with assms w dropped show thesis by (auto simp: set_step3_def Let_def)
  next
    case True
    note r = assms [unfolded set_step3_def Let_def]
    show thesis
    proof (cases "ar_err ar = None")
      case False
      with True r w failed show thesis by auto
    next
      case ok: True
      show thesis
      proof (cases "autoKeep_of cfg (sp_target plan)")
        case auto: True
        show thesis by (rule kept) (use True ok auto r w in auto)
      next
        case gate: False
        show thesis by (rule awaiting) (use True ok gate r w in auto)
      qed
    qed
  qed
qed

lemma step_SetFinish:
  assumes inv: "steps_inv cfg s (SetFinish plan q ar armAt now # R) T"
    and ret: "set_step3 cfg plan q ar armAt now t s = (out, s1)"
  shows "steps_inv cfg s1 (SetDisarm (sp_addr plan) (so_disarm out) snap # R) T"
proof -
  let ?x = "SetFinish plan q ar armAt now" and ?y = "SetDisarm (sp_addr plan) (so_disarm out) snap"
  note D = steps_invD [OF inv]
  have weaken: "steps_inv cfg s1 ([?y] @ R) T"
    if "po_setSeq s1 = po_setSeq s" "\<And>a. po_pendingKeep s1 a \<in> {None, po_pendingKeep s a}"
      "\<And>a m. (a, m) \<in> T \<Longrightarrow> op_holds ?x a m \<Longrightarrow> held [?y] a m"
      "\<And>a m. (a, m) \<in> T \<Longrightarrow> gated s a m \<Longrightarrow> gated s1 a m \<or> held [?y] a m"
    using that by (intro steps_inv_weaken [OF inv]) auto
  from ret show ?thesis
  proof (cases rule: set_step3_cases)
    case dropped
    have "steps_inv cfg s1 ([?y] @ R) T" using dropped D(2) by (intro weaken) (auto simp: gated_def)
    then show ?thesis by simp
  next
    case failed
    have "ar_marker ar = []" using D(1) failed(3) by auto
    then have "steps_inv cfg s1 ([?y] @ R) T" using failed D(2) by (intro weaken) (auto simp: gated_def)
    then show ?thesis by simp
  next
    case kept
    have "ar_marker ar = []" using D(1) kept(4) by auto
    then have "steps_inv cfg s1 ([?y] @ R) T"
      using kept(1,2,5) D(2) by (intro weaken) (auto simp: gated_def split: if_splits)
    then show ?thesis by simp
  next
    case awaiting
    show ?thesis using step_SetFinish_gate [OF inv awaiting(2,1,3)] awaiting(4) by blast
  qed
qed

lemma step_KeepCheck:
  assumes inv: "steps_inv cfg s (KeepCheck rid addr # R) T"
    and ret: "keep_validate addr t u s = (c, s1)"
  shows "steps_inv cfg s1 ((case c of KeepRefused e snap \<Rightarrow> show_op snap | KeepEntry e \<Rightarrow> [KeepWrite rid addr e]) @ R) (T - expired s t)"
proof (cases c)
  case (KeepRefused e snap)
  note v = keep_validate_refused [OF ret [unfolded KeepRefused]]
  have "steps_inv cfg s1 (show_op snap @ R) (T - expired s t)"
    by (rule steps_inv_weaken [OF inv])
      (use v in \<open>auto simp: show_op_def gated_def expired_def split: option.splits\<close>)
  then show ?thesis by (simp add: KeepRefused)
next
  case (KeepEntry e)
  note v = keep_validate_entry [OF ret [unfolded KeepEntry]]
  have "keep_ok s1 ([KeepWrite rid addr e] @ R) (T - expired s t) False addr e"
    using v steps_invD(3) [OF inv, of addr e] by (auto simp: keep_ok_def)
  then have "steps_inv cfg s1 ([KeepWrite rid addr e] @ R) (T - expired s t)"
    by (intro steps_inv_weaken [OF inv]) (use v in auto)
  then show ?thesis by (simp add: KeepEntry)
qed

lemma step_KeepWrite:
  assumes inv: "steps_inv cfg s (KeepWrite rid addr e # R) T"
  shows "steps_inv cfg s (KeepFinish rid addr e # R) (T - {(addr, ke_marker e)})"
proof -
  have "keep_ok s ([KeepFinish rid addr e] @ R) (T - {(addr, ke_marker e)}) True addr e"
    using steps_invD(1) [OF inv] by (auto simp: keep_ok_def)
  then have "steps_inv cfg s ([KeepFinish rid addr e] @ R) (T - {(addr, ke_marker e)})"
    by (intro steps_inv_weaken [OF inv]) auto
  then show ?thesis by simp
qed

lemma step_KeepFinish:
  assumes inv: "steps_inv cfg s (KeepFinish rid addr e # R) T"
    and ret: "keep_commit rid addr (ke_seq e) t s = (r, snap, s1)"
  shows "steps_inv cfg s1 (show_op snap @ R) T"
proof -
  note c = keep_commit_effect [OF ret]
  have k: "po_pendingKeep s addr \<in> {None, Some e}" "(addr, ke_marker e) \<in> T \<longrightarrow> held (KeepFinish rid addr e # R) addr (ke_marker e)"
    if "po_setSeq s addr = ke_seq e"
    using steps_invD(1) [OF inv] that by (auto simp: keep_ok_def)
  show ?thesis
  proof (rule steps_inv_weaken [OF inv])
    show "gated s1 a m \<or> held (show_op snap) a m" if "(a, m) \<in> T" "gated s a m" "\<not> held (KeepFinish rid addr e # R) a m" for a m
      using that c(2) k by (auto simp: gated_def split: if_splits)
  qed (use c in \<open>auto simp: show_op_def split: option.splits\<close>)
qed

lemma step_PollMerge:
  assumes inv: "steps_inv cfg s (PollMerge ga # R) T"
  shows "steps_inv cfg (refresh_merge gs t ga s) ([] @ R) (T - expired s t)"
proof (rule steps_inv_weaken [OF inv])
  note m = refresh_merge_effect(2) [of gs t ga s]
  show "po_pendingKeep (refresh_merge gs t ga s) a \<in> {None, po_pendingKeep s a}" for a using m [of a] by auto
  show "gated (refresh_merge gs t ga s) a m \<or> held [] a m" if "(a, m) \<in> T - expired s t" "gated s a m" for a m
    using that refresh_merge_effect(2) [of gs t ga s a] by (auto simp: gated_def expired_def)
qed (auto simp: refresh_merge_effect(1))

text \<open>A section that touches neither sequence numbers nor gates and goes on to no set or keep.\<close>

lemma step_plain:
  assumes inv: "steps_inv cfg s (x # R) T" and x: "plain_op x" and os: "\<forall>y \<in> set os. plain_op y"
    and s1: "po_setSeq s1 = po_setSeq s" "po_pendingKeep s1 = po_pendingKeep s"
  shows "steps_inv cfg s1 (os @ R) T"
  by (rule steps_inv_weaken [OF inv])
    (use x s1 os plain_seqs [OF os] in \<open>auto simp: plain_op_def gated_def\<close>)

text \<open>
  What is left of the timers that are tracked, as the proof needs it: a disarm that fails takes its timer out of them.
\<close>

definition tracked_after :: "'w router_ops \<Rightarrow> 'w \<Rightarrow> pstate \<Rightarrow> time \<Rightarrow> op \<Rightarrow> op list \<Rightarrow> (string \<times> string) set \<Rightarrow> (string \<times> string) set" where
  "tracked_after rc w s t opr os T =
     (T - (cleared rc w s t opr \<union> disarm_failed rc w opr)) \<union> (\<Union>x \<in> set os. fresh_timer x)"

lemma tracked_after_timers:
  "tm_armed (timers_after rc w s t x os T) - tm_reported (timers_after rc w s t x os T) \<subseteq>
     tracked_after rc w s t x os (tm_armed T - tm_reported T)"
  by (auto simp: timers_after_def tracked_after_def)

lemma steps_inv_antimono:
  assumes "steps_inv cfg s os T" and "T' \<subseteq> T"
  shows "steps_inv cfg s os T'"
proof -
  have "keep_ok s os T' b a e" if "keep_ok s os T b a e" for b a e
    using that assms(2) unfolding keep_ok_def by blast
  then have "op_ok cfg s os T' x" if "op_ok cfg s os T x" for x using op_ok_keeps [OF that] by blast
  with assms show ?thesis unfolding steps_inv_def by blast
qed

lemma advance_tracked:
  assumes client: "marker_client (ro_Apply rc)" and inv: "steps_inv cfg s (x # R) T"
    and adv: "advance cfg rc gs t u x (s, w) = (os, s', w')"
  shows "steps_inv cfg s' (os @ R) (tracked_after rc w s t x os T)"
proof (cases x)
  case (SetReady plan)
  obtain q snap s1 where st: "set_step1 (sp_addr plan) (sp_target plan) t s = (q, snap, s1)" by (metis prod_cases3)
  note e = set_step1_effect [OF st]
  have "os = [] \<or> (\<exists>pl sn. os = [SetShow pl q sn] \<and> sp_addr pl = sp_addr plan)" "s' = s1" "tracked_after rc w s t x os T = T"
    using adv st SetReady by (auto simp: tracked_after_def split: option.splits)
  with step_SetReady [OF inv SetReady] e show ?thesis by metis
next
  case (SetShow plan q pending)
  have "steps_inv cfg (Broadcast pending s) ([SetApply plan q] @ R) T"
    by (rule steps_inv_weaken [OF inv]) (auto simp: SetShow gated_def)
  with adv SetShow show ?thesis by (auto simp: tracked_after_def)
next
  case (SetApply plan q)
  obtain ar w1 where ap: "set_apply cfg rc plan w = (ar, w1)" by fastforce
  obtain w0 where "ro_Apply rc (sp_addr plan) (sp_target plan) (sp_prev plan) (autoKeep_of cfg (sp_target plan)) w =
      ((ar_rt ar, ar_marker ar, ar_err ar), w0)" using set_apply_Apply [OF ap] .
  from marker_client.marker_deferred [OF client this]
  have "steps_inv cfg s (SetFinish plan q ar t u # R) (T \<union> fresh_timer (SetFinish plan q ar t u))"
    using step_SetApply [OF inv [unfolded SetApply]] by blast
  with adv ap SetApply show ?thesis by (auto simp: tracked_after_def simp del: fresh_timer.simps)
next
  case (SetFinish plan q ar armAt now)
  obtain out s1 where st: "set_step3 cfg plan q ar armAt now t s = (out, s1)" by fastforce
  with step_SetFinish [OF inv [unfolded SetFinish] st] adv SetFinish show ?thesis by (auto simp: tracked_after_def)
next
  case (SetDisarm addr ms snap)
  show ?thesis
  proof (cases ms)
    case Nil
    have "steps_inv cfg (maybe_broadcast snap s) ([] @ R) T"
      by (rule steps_inv_weaken [OF inv]) (auto simp: SetDisarm Nil gated_def)
    with adv SetDisarm Nil show ?thesis by (auto simp: tracked_after_def)
  next
    case (Cons m rest)
    have "steps_inv cfg s ([SetDisarm addr rest snap] @ R) (T - {(addr, m)})"
      by (rule steps_inv_weaken [OF inv]) (auto simp: SetDisarm Cons gated_def)
    with adv SetDisarm Cons show ?thesis by (auto simp: tracked_after_def)
  qed
next
  case (KeepCheck rid addr)
  obtain c s1 where v: "keep_validate addr t u s = (c, s1)" by fastforce
  with adv KeepCheck have "os = (case c of KeepRefused e snap \<Rightarrow> show_op snap | KeepEntry e \<Rightarrow> [KeepWrite rid addr e])" "s' = s1"
    by (auto split: keep_check.splits)
  moreover have "fresh_timer y = {}" if "y \<in> set (case c of KeepRefused e snap \<Rightarrow> show_op snap | KeepEntry e \<Rightarrow> [KeepWrite rid addr e])" for y
    using that by (auto simp: show_op_def split: keep_check.splits option.splits)
  ultimately show ?thesis using step_KeepCheck [OF inv [unfolded KeepCheck] v] KeepCheck by (simp add: tracked_after_def)
next
  case (KeepWrite rid addr e)
  obtain r w1 where k: "ro_Keep rc addr (ke_marker e) w = (r, w1)" by fastforce
  show ?thesis
  proof (cases r)
    case None
    with k adv KeepWrite step_KeepWrite [OF inv [unfolded KeepWrite]] show ?thesis by (auto simp: tracked_after_def)
  next
    case (Some err)
    have "steps_inv cfg s ([] @ R) T" by (rule steps_inv_weaken [OF inv]) (auto simp: KeepWrite)
    with k adv KeepWrite Some show ?thesis by (auto simp: tracked_after_def)
  qed
next
  case (KeepFinish rid addr e)
  obtain r snap s1 where c: "keep_commit rid addr (ke_seq e) t s = (r, snap, s1)" by (metis prod_cases3)
  with step_KeepFinish [OF inv [unfolded KeepFinish] c] adv KeepFinish show ?thesis
    by (auto simp: tracked_after_def show_op_def split: option.splits)
next
  case (PollMerge ga)
  with step_PollMerge [OF inv [unfolded PollMerge], of gs t] adv show ?thesis by (auto simp: tracked_after_def)
next
  case (ProbeDial addr)
  have "steps_inv cfg s (os @ R) T"
    by (rule step_plain [OF inv]) (use adv ProbeDial in \<open>auto split: prod.splits sum.splits\<close>)
  with adv ProbeDial show ?thesis by (auto simp: tracked_after_def split: prod.splits sum.splits)
next
  case (ProbeCapture addr)
  have "steps_inv cfg s (os @ R) T"
    by (rule step_plain [OF inv]) (use adv ProbeCapture in \<open>auto split: option.splits\<close>)
  with adv ProbeCapture show ?thesis by (auto simp: tracked_after_def split: option.splits)
next
  case (ProbeRead addr g)
  have "steps_inv cfg s (os @ R) T"
    by (rule step_plain [OF inv]) (use adv ProbeRead in \<open>auto split: prod.splits sum.splits\<close>)
  with adv ProbeRead show ?thesis by (auto simp: tracked_after_def split: prod.splits sum.splits)
next
  case (ProbeFinish addr g rt)
  obtain snap s1 where c: "resolve_commit cfg addr g rt t s = (snap, s1)" by fastforce
  have "steps_inv cfg s1 (os @ R) T"
    by (rule step_plain [OF inv])
      (use adv c ProbeFinish resolve_commit_effect [OF c] in \<open>auto simp: show_op_def split: option.splits\<close>)
  with adv c ProbeFinish show ?thesis by (auto simp: tracked_after_def show_op_def split: option.splits)
next
  case (PollCapture ga prev)
  have "steps_inv cfg s (os @ R) T" by (rule step_plain [OF inv]) (use adv PollCapture in auto)
  with adv PollCapture show ?thesis by (auto simp: tracked_after_def)
next
  case (PollDial ga prev)
  have "steps_inv cfg s (os @ R) T" by (rule step_plain [OF inv]) (use adv PollDial in \<open>auto split: prod.splits\<close>)
  with adv PollDial show ?thesis by (auto simp: tracked_after_def split: prod.splits)
next
  case ZonesChanged
  have "steps_inv cfg s' (os @ R) T" by (rule step_plain [OF inv]) (use adv ZonesChanged RefreshGroups_effect in auto)
  with adv ZonesChanged show ?thesis by (auto simp: tracked_after_def)
next
  case (Show snap)
  have "steps_inv cfg s' (os @ R) T" by (rule step_plain [OF inv]) (use adv Show in auto)
  with adv Show show ?thesis by (auto simp: tracked_after_def)
qed

lemma advance_inv:
  assumes "marker_client (ro_Apply rc)" and "steps_inv cfg s (x # R) (tm_armed T - tm_reported T)"
    and "advance cfg rc gs t u x (s, w) = (os, s', w')"
  shows "steps_inv cfg s' (os @ R) (tm_armed (timers_after rc w s t x os T) - tm_reported (timers_after rc w s t x os T))"
  using steps_inv_antimono [OF advance_tracked [OF assms] tracked_after_timers] .

text \<open>A marker that is handed back is not empty.\<close>

definition marked :: "timers \<Rightarrow> bool" where
  "marked T \<longleftrightarrow> (\<forall>(a, m) \<in> tm_armed T. m \<noteq> [])"

lemma marked_after: "marked T \<Longrightarrow> marked (timers_after rc w s t x os T)"
proof -
  have "m \<noteq> []" if "(a, m) \<in> fresh_timer x" for a m x using that by (cases x) (auto split: if_splits)
  then show "marked T \<Longrightarrow> marked (timers_after rc w s t x os T)" by (auto simp: marked_def timers_after_def)
qed

lemma marked_none [simp]: "marked no_timers"
  by (simp add: marked_def no_timers_def)

lemma starts_plain: "starts cfg s x \<Longrightarrow> plain_op x"
  by (auto elim: starts_cases)

lemma steps_inv_start:
  assumes "steps_inv cfg s R T" and "plain_op x"
  shows "steps_inv cfg s (x # R) T"
proof -
  have s: "seqs (x # R) = seqs R" "held (x # R) = held R" using assms(2) by (auto simp: plain_op_def fun_eq_iff)
  then have "keep_ok s (x # R) T = keep_ok s R T" by (simp add: keep_ok_def fun_eq_iff)
  then have "op_ok cfg s (x # R) T y" if "op_ok cfg s R T y" for y by (intro op_ok_keeps [OF that]) simp
  with assms s show ?thesis by (auto simp: steps_inv_def plain_op_def)
qed

lemma conc_reachable_inv:
  assumes "marker_client (ro_Apply rc)" and "conc_reachable cfg rc c"
  shows "steps_inv cfg (cn_state c) (cn_ops c) (tm_armed (cn_timers c) - tm_reported (cn_timers c)) \<and> marked (cn_timers c)"
  using assms(2)
proof (induction rule: conc_reachable.induct)
  case (init snap w)
  then show ?case by (simp add: steps_inv_def poller_New_def no_timers_def marked_def)
next
  case (step c c')
  from step(2) show ?case
  proof (cases rule: conc_step.cases)
    case (start opr)
    then show ?thesis using steps_inv_start [OF _ starts_plain] step.IH by simp
  next
    case (run xs opr ys gs t u os s' w')
    have "mset (xs @ opr # ys) = mset (opr # xs @ ys)" by simp
    with step.IH run(2) have "steps_inv cfg (cn_state c) (opr # xs @ ys) (tm_armed (cn_timers c) - tm_reported (cn_timers c))"
      using steps_inv_perm by metis
    from advance_inv [OF assms(1) this run(3)] run(1) step.IH show ?thesis by (simp add: marked_after)
  qed
qed

text \<open>Where an armed timer is: the gate of its router, held by an operation, or a disarm that failed and was logged.\<close>

lemma steps_inv_timers:
  assumes "steps_inv cfg s os (tm_armed T - tm_reported T)" and "marked T" and "(a, m) \<in> tm_armed T"
  shows "m \<noteq> [] \<and>
    ((\<exists>e. po_pendingKeep s a = Some e \<and> ke_marker e = m \<and> ke_seq e \<le> po_setSeq s a) \<or> (\<exists>x \<in> set os. op_holds x a m) \<or>
     (a, m) \<in> tm_reported T) \<and>
    (os = [] \<longrightarrow> (\<forall>m'. (a, m') \<in> tm_armed T - tm_reported T \<and> (a, m) \<notin> tm_reported T \<longrightarrow> m' = m))"
proof -
  have t: "gated s a k \<or> held os a k" if "(a, k) \<in> tm_armed T - tm_reported T" for k
    using assms(1) that unfolding steps_inv_def by blast
  have "ke_seq e \<le> po_setSeq s a" if "po_pendingKeep s a = Some e" for e
    using assms(1) that unfolding steps_inv_def by blast
  with t [of m] assms(3) have "(\<exists>e. po_pendingKeep s a = Some e \<and> ke_marker e = m \<and> ke_seq e \<le> po_setSeq s a) \<or>
     (\<exists>x \<in> set os. op_holds x a m) \<or> (a, m) \<in> tm_reported T" unfolding gated_def held_def by blast
  moreover have "m' = m" if "os = []" "(a, m') \<in> tm_armed T - tm_reported T" "(a, m) \<notin> tm_reported T" for m'
    using t [of m] t [OF that(2)] that(1,3) assms(3) by (auto simp: gated_def)
  moreover have "m \<noteq> []" using assms(2,3) by (auto simp: marked_def)
  ultimately show ?thesis by blast
qed

text \<open>
  The invariant over all interleavings. Whatever sets, keeps, probes, polls and zone changes run at the same time on
  whichever routers: a revert timer that is armed for a confirmed change whose marker is not yet written is never lost.
  Either it is the gate of its router, with a sequence number that was really handed out, so that \<open>Keep\<close>, a later set or
  the expiry of its window will deal with it; or the very operation that armed or replaced it is still under way and
  holds the marker; or the poller has tried to disarm it, failed, and logged the failure. In particular, when nothing is under
  way each router has at most one such timer besides those, its gate.
\<close>

theorem timers_tracked:
  assumes "marker_client (ro_Apply rc)" and "conc_reachable cfg rc c" and "(a, m) \<in> tm_armed (cn_timers c)"
  shows "m \<noteq> [] \<and>
    ((\<exists>e. po_pendingKeep (cn_state c) a = Some e \<and> ke_marker e = m \<and> ke_seq e \<le> po_setSeq (cn_state c) a) \<or>
     (\<exists>x \<in> set (cn_ops c). op_holds x a m) \<or> (a, m) \<in> tm_reported (cn_timers c)) \<and>
    (cn_ops c = [] \<longrightarrow> (\<forall>m'. (a, m') \<in> tm_armed (cn_timers c) - tm_reported (cn_timers c) \<and> (a, m) \<notin> tm_reported (cn_timers c) \<longrightarrow> m' = m))"
  using steps_inv_timers assms(3) conc_reachable_inv [OF assms(1,2)] by blast

subsection \<open>Schedules\<close>

text \<open>An executable schedule: which of the operations under way goes next, and when.\<close>

fun run_at ::
    "pconfig \<Rightarrow> 'w router_ops \<Rightarrow> Group list \<Rightarrow> nat \<times> time \<times> time \<Rightarrow> op list \<times> pstate \<times> 'w \<Rightarrow> op list \<times> pstate \<times> 'w" where
  "run_at cfg rc gs (i, t, u) (os, s, w) =
     (if i < length os then
        (case advance cfg rc gs t u (os ! i) (s, w) of (os', s', w') \<Rightarrow> (os' @ take i os @ drop (Suc i) os, s', w'))
      else (os, s, w))"

definition reaches :: "pconfig \<Rightarrow> 'w router_ops \<Rightarrow> op list \<times> pstate \<times> 'w \<Rightarrow> bool" where
  "reaches cfg rc x \<longleftrightarrow>
     (\<exists>T. conc_reachable cfg rc \<lparr>cn_state = fst (snd x), cn_world = snd (snd x), cn_ops = fst x, cn_timers = T\<rparr>)"

lemma reaches_init: "reaches cfg rc ([], poller_New snap, w)"
  unfolding reaches_def by (auto intro: conc_reachable.init)

lemma reaches_start:
  assumes "reaches cfg rc (os, s, w)" and "starts cfg s x"
  shows "reaches cfg rc (x # os, s, w)"
proof -
  obtain T where "conc_reachable cfg rc \<lparr>cn_state = s, cn_world = w, cn_ops = os, cn_timers = T\<rparr>"
    using assms(1) by (auto simp: reaches_def)
  from conc_reachable.step [OF this conc_step.start] assms(2) show ?thesis unfolding reaches_def by fastforce
qed

lemma reaches_run_at: "reaches cfg rc x \<Longrightarrow> reaches cfg rc (run_at cfg rc gs k x)"
proof (cases x; cases k)
  fix os s w i t u assume x: "x = (os, s, w)" and k: "k = (i, t, u)" and r: "reaches cfg rc x"
  then obtain T where c: "conc_reachable cfg rc \<lparr>cn_state = s, cn_world = w, cn_ops = os, cn_timers = T\<rparr>"
    by (auto simp: reaches_def)
  show ?thesis
  proof (cases "i < length os")
    case True
    obtain os' s' w' where a: "advance cfg rc gs t u (os ! i) (s, w) = (os', s', w')" by (metis prod_cases3)
    have "conc_reachable cfg rc \<lparr>cn_state = s', cn_world = w', cn_ops = os' @ take i os @ drop (Suc i) os,
        cn_timers = timers_after rc w s t (os ! i) os' T\<rparr>"
      using conc_reachable.step [OF c conc_step.run [of _ "take i os" "os ! i" "drop (Suc i) os"]] a id_take_nth_drop [OF True]
      by simp
    with a show ?thesis by (auto simp: x k True reaches_def)
  next
    case False
    with r show ?thesis by (simp add: x k)
  qed
qed

lemma reaches_schedule: "reaches cfg rc x \<Longrightarrow> reaches cfg rc (fold (run_at cfg rc gs) ks x)"
  by (induction ks arbitrary: x) (simp_all add: reaches_run_at del: run_at.simps)

text \<open>Run alone, the sections of a set compose to the operation.\<close>

lemma set_step3_one_disarm: "set_step3 cfg plan q ar armAt now t s = (out, s1) \<Longrightarrow> length (so_disarm out) \<le> 1"
  by (auto simp: set_step3_def Let_def split: prod.splits if_splits option.splits)

lemma SetExitNode_sections:
  assumes plan: "set_preflight gs (po_snap s) rid tid = Inr plan"
    and ret: "SetExitNode cfg rc gs ts rid tid (s, w) = (r, s', w')"
  shows "fold (run_at cfg rc gs) [(0, ts_step1 ts, 0), (0, 0, 0), (0, ts_arm ts, ts_now ts), (0, ts_step3 ts, 0), (0, 0, 0), (0, 0, 0)]
    ([SetReady plan], s, w) = ([], s', w')"
proof -
  obtain q snap s1 where st1: "set_step1 (sp_addr plan) (sp_target plan) (ts_step1 ts) s = (q, snap, s1)" by (metis prod_cases3)
  show ?thesis
  proof (cases snap)
    case None
    with plan ret st1 show ?thesis by (simp add: SetExitNode_def)
  next
    case (Some pending)
    obtain ar w1 where ap: "set_apply cfg rc plan w = (ar, w1)" by fastforce
    obtain out s3 where st3: "set_step3 cfg plan q ar (ts_arm ts) (ts_now ts) (ts_step3 ts) (Broadcast pending s1) = (out, s3)"
      by fastforce
    have "s' = maybe_broadcast (so_published out) s3" "w' = disarm_all rc (sp_addr plan) (so_disarm out) w1"
      using plan ret st1 Some ap st3 by (auto simp: SetExitNode_def maybe_broadcast_def Let_def)
    moreover have "so_disarm out = [] \<or> (\<exists>m. so_disarm out = [m])"
      using set_step3_one_disarm [OF st3] by (cases "so_disarm out") auto
    ultimately show ?thesis using plan st1 Some ap st3 by auto
  qed
qed

lemma sim_marker_client: "marker_client (ro_Apply sim_ops)"
proof -
  have "router_client (ro_Apply sim_ops)" unfolding sim_ops_def by (rule ssh_ops_client)
  then show ?thesis by (rule router_client.axioms(1))
qed

text \<open>A set under the explicit gate, up to the point where the router has confirmed it.\<close>

lemma example_under_way:
  "(case fold (run_at (example_cfg True) sim_ops []) [(0, 10, 0), (0, 0, 0)] ([SetReady example_plan], poller_New example_snap, sim_start) of
     ([SetApply plan q], s, w) \<Rightarrow> sp_addr plan = ''100.64.0.1'' \<and> ar_marker (fst (set_apply (example_cfg True) sim_ops plan w)) \<noteq> []
   | _ \<Rightarrow> False)"
  by code_simp

theorem timers_tracked_witness:
  "\<exists>c m. conc_reachable (example_cfg True) sim_ops c \<and> (''100.64.0.1'', m) \<in> tm_armed (cn_timers c) \<and> m \<noteq> [] \<and>
     (\<exists>x \<in> set (cn_ops c). op_holds x ''100.64.0.1'' m)"
proof -
  let ?cfg = "example_cfg True"
  have "set_preflight [example_zone] (po_snap (poller_New example_snap)) ''r1'' ''e1'' = Inr example_plan"
    using example_preflight by (simp add: poller_New_def)
  then have "reaches ?cfg sim_ops ([SetReady example_plan], poller_New example_snap, sim_start)"
    by (intro reaches_start [OF reaches_init]) (rule starts.start_set)
  from reaches_schedule [OF this, of "[]" "[(0, 10, 0), (0, 0, 0)]"] example_under_way
  obtain plan q s w where r: "reaches ?cfg sim_ops ([SetApply plan q], s, w)" and p: "sp_addr plan = ''100.64.0.1''"
    "ar_marker (fst (set_apply ?cfg sim_ops plan w)) \<noteq> []"
    by (auto split: prod.splits list.splits op.splits)
  obtain T where c: "conc_reachable ?cfg sim_ops \<lparr>cn_state = s, cn_world = w, cn_ops = [SetApply plan q], cn_timers = T\<rparr>"
    using r by (auto simp: reaches_def)
  obtain ar w' where ar: "set_apply ?cfg sim_ops plan w = (ar, w')" by fastforce
  let ?c = "\<lparr>cn_state = s, cn_world = w', cn_ops = [SetFinish plan q ar 11 12], cn_timers = \<lparr>tm_armed = insert (sp_addr plan, ar_marker ar) (tm_armed T), tm_reported = tm_reported T\<rparr>\<rparr>"
  have "conc_reachable ?cfg sim_ops ?c"
    using conc_reachable.step [OF c conc_step.run [of _ "[]" "SetApply plan q" "[]" ?cfg sim_ops "[]" 11 12]] ar p
    by (simp add: timers_after_def)
  moreover have t: "(''100.64.0.1'', ar_marker ar) \<in> tm_armed (cn_timers ?c)" using p by simp
  ultimately show ?thesis using timers_tracked [OF sim_marker_client _ t] p ar
    by (intro exI [of _ ?c] exI [of _ "ar_marker ar"]) auto
qed

subsection \<open>A poll respects the changes it overlaps with\<close>






lemma broadcast_gen [simp]:
  "po_setGen (Broadcast x s) = po_setGen s" "po_setGen (maybe_broadcast y s) = po_setGen s"
  by (simp_all add: Broadcast_def maybe_broadcast_def split: option.split)
















subsection \<open>A poll can hide a change under way\<close>

definition hides :: "op list \<times> pstate \<times> 'w \<Rightarrow> bool" where
  "hides x \<longleftrightarrow>
     (case x of
        ([SetApply plan q], s, w) \<Rightarrow>
          q = po_setSeq s (sp_addr plan) \<and> sp_target plan \<noteq> None \<and> last (po_frames s) = po_snap s \<and>
          (case findRouterView (po_snap s) (sp_addr plan) of
             Some rv \<Rightarrow> rv_State rv = RouterOK \<and> rv_Desired rv = None \<and> rv_CurrentExitNode rv = None
           | None \<Rightarrow> False)
      | _ \<Rightarrow> False)"

definition late_capture :: "(nat \<times> time \<times> time) list" where
  "late_capture = [(0, 10, 0), (0, 0, 0), (1, 0, 0), (0, 11, 0), (0, 12, 0)]"

text \<open>
  C37 (a gap in the guard of the poll). The poll loads the snapshot that it carries the intent forward from before it
  captures the generations. A set that starts in between is in the captured generation but not in that snapshot:
  while its command is still on the way to the router, the poll publishes, and broadcasts, the old selection as ok and
  nothing as desired.
\<close>

theorem poll_hides_pending:
  "\<exists>x. reaches (example_cfg False) sim_ops x \<and> hides x"
proof -
  let ?cfg = "example_cfg False" and ?s = "poller_New example_snap"
  let ?poll = "PollCapture (refresh_inventory ?cfg (Inr (sn_Nodes example_snap)) 5 (po_snap ?s)) (po_snap ?s)"
  have "set_preflight [example_zone] (po_snap ?s) ''r1'' ''e1'' = Inr example_plan"
    using example_preflight by (simp add: poller_New_def)
  then have "reaches ?cfg sim_ops ([SetReady example_plan, ?poll], ?s, sim_start)"
    by (intro reaches_start [OF reaches_start [OF reaches_init]] starts.start_poll) (rule starts.start_set)
  then have "reaches ?cfg sim_ops (fold (run_at ?cfg sim_ops []) late_capture ([SetReady example_plan, ?poll], ?s, sim_start))"
    by (rule reaches_schedule)
  moreover have "hides (fold (run_at ?cfg sim_ops []) late_capture ([SetReady example_plan, ?poll], ?s, sim_start))"
    by code_simp
  ultimately show ?thesis by blast
qed

end
