(* ===== verification/Demo.thy ===== *)
theory Demo
  imports Poller_Steps Group_Store Api
begin

section \<open>Package demo: the offline preview\<close>

text \<open>
  \<^verbatim>\<open>internal/demo/demo.go\<close>: a scripted world that plays the netmap and the router client for \<^verbatim>\<open>tsctl demo\<close>, and an
  in-memory zone store. Every method of \<^verbatim>\<open>World\<close> runs under its mutex and is one function on the world. The instants, the
  random draws, the marker's numbers and whether the context was cancelled while the method slept are arguments. The byte
  counters are unbounded (64 bits in the code).
\<close>

subsection \<open>Fixtures\<close>

definition demo_Owner :: string where "demo_Owner = ''demo-owner@example.com''"
definition r1IP :: string where "r1IP = ''100.64.0.10''"
definition r2IP :: string where "r2IP = ''100.64.0.11''"
definition r3IP :: string where "r3IP = ''100.64.0.12''"
definition r4IP :: string where "r4IP = ''100.64.0.13''"
definition tokyoIP :: string where "tokyoIP = ''100.64.0.20''"
definition frankfurtIP :: string where "frankfurtIP = ''100.64.0.21''"
definition londonIP :: string where "londonIP = ''100.64.0.22''"
definition comboIP :: string where "comboIP = ''100.64.0.23''"
definition flakyIP :: string where "flakyIP = ''100.64.0.24''"
definition brokenIP :: string where "brokenIP = ''100.64.0.25''"
definition aliceIP :: string where "aliceIP = ''100.64.0.30''"
definition bobIP :: string where "bobIP = ''100.64.0.31''"
definition kioskIP :: string where "kioskIP = ''100.64.0.32''"
definition flipID :: string where "flipID = ''n-bob-iphone''"

record demoNode =
  dn_stableID :: string
  dn_name :: string
  dn_hostname :: string
  dn_ips :: "string list"
  dn_os :: string
  dn_online :: bool
  dn_lastSeen :: time
  dn_exitOpt :: bool
  dn_tags :: "string list"
  dn_typ :: NodeType

record routerRuntime =
  dr_currentExitIP :: string
  dr_rx :: int
  dr_tx :: int
  dr_lastHandshake :: time

record World =
  wd_nodes :: "demoNode list"
  wd_routers :: "string \<rightharpoonup> routerRuntime"

definition fixture :: "string \<Rightarrow> string \<Rightarrow> string \<Rightarrow> string \<Rightarrow> bool \<Rightarrow> time \<Rightarrow> bool \<Rightarrow> string list \<Rightarrow> NodeType \<Rightarrow> demoNode" where
  "fixture i host ip os online seen exitOpt tags typ = \<lparr>dn_stableID = i, dn_name = host @ ''.tail-demo.ts.net'', dn_hostname = host,
     dn_ips = [ip], dn_os = os, dn_online = online, dn_lastSeen = seen, dn_exitOpt = exitOpt, dn_tags = tags, dn_typ = typ\<rparr>"

definition warehouse :: string where
  "warehouse = ''warehouse-router-with-an-intentionally-very-long-hostname-for-truncation''"

definition demo_nodes :: "time \<Rightarrow> demoNode list" where
  "demo_nodes now =
     (let minute = 60 * second; router = [''tag:router'']
      in [fixture ''n-home-router'' ''home-router'' r1IP ''linux'' True zero_time False router NodeRouter,
          fixture ''n-office-router'' ''office-router'' r2IP ''linux'' True zero_time False router NodeRouter,
          fixture ''n-cabin-router'' ''cabin-router'' r3IP ''linux'' False (now - 37 * minute) False router NodeRouter,
          fixture ''n-warehouse-router'' warehouse r4IP ''linux'' True zero_time False router NodeRouter,
          fixture ''n-exit-tokyo'' ''exit-tokyo'' tokyoIP ''linux'' True zero_time True [] NodeExitNode,
          fixture ''n-exit-frankfurt'' ''exit-frankfurt'' frankfurtIP ''linux'' True zero_time True [] NodeExitNode,
          fixture ''n-exit-london'' ''exit-london'' londonIP ''linux'' False (now - 12 * minute) True [] NodeExitNode,
          fixture ''n-exit-combo'' ''edge-combo'' comboIP ''linux'' True zero_time True router NodeRouter,
          fixture ''n-exit-flaky'' ''exit-flaky'' flakyIP ''linux'' True zero_time True [] NodeExitNode,
          fixture ''n-exit-broken'' ''exit-broken'' brokenIP ''linux'' True zero_time True [] NodeExitNode,
          fixture ''n-alice-mbp'' ''alices-macbook-pro'' aliceIP ''macOS'' True zero_time False [] NodeGeneric,
          fixture flipID ''bobs-iphone'' bobIP ''iOS'' False (now - 3 * minute) False [] NodeGeneric,
          fixture ''n-kiosk'' ''front-lobby-conference-room-A-information-kiosk-display'' kioskIP ''linux'' True zero_time False []
            NodeGeneric])"

definition demo_New :: "time \<Rightarrow> World" where
  "demo_New now = \<lparr>wd_nodes = demo_nodes now,
     wd_routers =
       [r1IP \<mapsto> \<lparr>dr_currentExitIP = [], dr_rx = 0, dr_tx = 0, dr_lastHandshake = zero_time\<rparr>,
        r2IP \<mapsto> \<lparr>dr_currentExitIP = tokyoIP, dr_rx = 18400000, dr_tx = 4200000, dr_lastHandshake = now - 9 * second\<rparr>,
        r3IP \<mapsto> \<lparr>dr_currentExitIP = [], dr_rx = 0, dr_tx = 0, dr_lastHandshake = zero_time\<rparr>,
        r4IP \<mapsto> \<lparr>dr_currentExitIP = londonIP, dr_rx = 940000, dr_tx = 210000, dr_lastHandshake = now - 11 * (60 * second)\<rparr>]\<rparr>"

definition RouterIPs :: "string list" where
  "RouterIPs = [r1IP, r2IP, r3IP, r4IP]"

definition demo_AllowedHosts :: "string list" where
  "demo_AllowedHosts = [''127.0.0.1:8089'', ''localhost:8089'', ''127.0.0.1'', ''localhost'']"

subsection \<open>The netmap\<close>

definition node_view :: "demoNode \<Rightarrow> NodeView" where
  "node_view n = \<lparr>nv_StableID = dn_stableID n, nv_Name = dn_name n, nv_Hostname = dn_hostname n, nv_TailscaleIPs = dn_ips n,
     nv_OS = dn_os n, nv_Online = dn_online n, nv_LastSeen = dn_lastSeen n, nv_ExitNodeOption = dn_exitOpt n,
     nv_Tags = dn_tags n, nv_Type = dn_typ n, nv_IsSelf = False\<rparr>"

definition demo_Inventory :: "World \<Rightarrow> go_error + NodeView list" where
  "demo_Inventory w = Inr (map node_view (wd_nodes w))"

definition demo_WhoIs :: "string \<Rightarrow> go_error + string \<times> bool" where
  "demo_WhoIs remoteAddr = Inr (demo_Owner, False)"

subsection \<open>The router client\<close>

definition findByIPLocked :: "World \<Rightarrow> string \<Rightarrow> demoNode option" where
  "findByIPLocked w ip = List.find (\<lambda>n. ip \<in> set (dn_ips n)) (wd_nodes w)"

definition primaryIPv4 :: "string list \<Rightarrow> string" where
  "primaryIPv4 ips =
     (case List.find (\<lambda>ip. Contains ip ''.'') ips of
        Some ip \<Rightarrow> ip
      | None \<Rightarrow> (case ips of [] \<Rightarrow> [] | ip # _ \<Rightarrow> ip))"

definition node_ref :: "demoNode \<Rightarrow> ExitNodeRef" where
  "node_ref n = \<lparr>er_StableID = dn_stableID n, er_Name = dn_name n, er_IP = primaryIPv4 (dn_ips n)\<rparr>"

definition refByIPLocked :: "World \<Rightarrow> string \<Rightarrow> ExitNodeRef option" where
  "refByIPLocked w ip =
     (if ip = [] then None
      else case findByIPLocked w ip of
          None \<Rightarrow> Some \<lparr>er_StableID = [], er_Name = [], er_IP = ip\<rparr>
        | Some n \<Rightarrow> Some (node_ref n))"

definition exitOptionsLocked :: "World \<Rightarrow> ExitNodeRef list" where
  "exitOptionsLocked w = map node_ref (filter dn_exitOpt (wd_nodes w))"

definition runtime_from :: "World \<Rightarrow> routerRuntime \<Rightarrow> RouterRuntime" where
  "runtime_from w rs = \<lparr>rt_Current = refByIPLocked w (dr_currentExitIP rs), rt_Options = exitOptionsLocked w,
     rt_Stats = \<lparr>rs_RxBytes = dr_rx rs, rs_TxBytes = dr_tx rs, rs_LastHandshake = dr_lastHandshake rs\<rparr>, rt_Online = True\<rparr>"

text \<open>\<^verbatim>\<open>runtimeLocked\<close>; \<open>None\<close> is the panic of an address that is no router's.\<close>

definition runtimeLocked :: "World \<Rightarrow> string \<Rightarrow> RouterRuntime option" where
  "runtimeLocked w addr = map_option (runtime_from w) (wd_routers w addr)"

definition no_router :: "string \<Rightarrow> go_error" where
  "no_router addr = ErrorString (''demo: no router configured at '' @ addr)"

definition router_offline :: "string \<Rightarrow> go_error" where
  "router_offline addr = ErrorString (''dial '' @ addr @ '':22: connect: host is down (demo: router offline)'')"

definition demo_Status :: "World \<Rightarrow> string \<Rightarrow> (go_error + RouterRuntime) option" where
  "demo_Status w addr =
     (case findByIPLocked w addr of
        None \<Rightarrow> Some (Inl (no_router addr))
      | Some rn \<Rightarrow> if \<not> dn_online rn then Some (Inl (router_offline addr)) else map_option Inr (runtimeLocked w addr))"

definition demo_Probe :: "go_error option \<Rightarrow> World \<Rightarrow> string \<Rightarrow> go_error + string" where
  "demo_Probe canceled w addr =
     (case canceled of Some e \<Rightarrow> Inl e | None \<Rightarrow>
     (case findByIPLocked w addr of
        None \<Rightarrow> Inl (no_router addr)
      | Some rn \<Rightarrow>
          if \<not> dn_online rn then Inl (router_offline addr)
          else Inr (''Linux '' @ dn_hostname rn @ '' 5.15.0'' @ [CHR 0x0A] @ ''123456.78 98765.43'' @ [CHR 0x0A] @ ''0.08 0.12 0.09'' @
            [CHR 0x0A] @ ''MemTotal: 131072 kB'' @ [CHR 0x0A] @ ''MemAvailable: 65536 kB'')))"

definition demo_EgressProbe :: "World \<Rightarrow> string \<Rightarrow> go_error + bool \<times> string" where
  "demo_EgressProbe w addr =
     (case findByIPLocked w addr of
        None \<Rightarrow> Inl (no_router addr)
      | Some rn \<Rightarrow>
          if addr = r4IP then Inr (False, ''uclient-fetch: download timed out (no route to host)'')
          else Inr (True, ''HTTP/1.1 204 No Content''))"

definition currentArg :: "routerRuntime \<Rightarrow> string" where
  "currentArg rs = (if dr_currentExitIP rs = [] then ''(none)'' else dr_currentExitIP rs)"

definition demo_marker :: "time \<Rightarrow> nat \<Rightarrow> string" where
  "demo_marker unixNano r = ''/tmp/tsctl-keep-demo-'' @ show_int unixNano @ ''-'' @ show_hex r"

definition put_router :: "World \<Rightarrow> string \<Rightarrow> routerRuntime \<Rightarrow> World" where
  "put_router w addr rs = w\<lparr>wd_routers := (wd_routers w)(addr \<mapsto> rs)\<rparr>"

definition demo_ApplyExitNode ::
    "go_error option \<Rightarrow> time \<Rightarrow> time \<Rightarrow> nat \<Rightarrow> string \<Rightarrow> ExitNodeRef option \<Rightarrow> ExitNodeRef option \<Rightarrow> bool \<Rightarrow> World \<Rightarrow>
     (RouterRuntime \<times> string \<times> go_error option) \<times> World" where
  "demo_ApplyExitNode canceled now unixNano rnd addr target prev autoKeep w =
     (case canceled of Some e \<Rightarrow> ((zero_RouterRuntime, [], Some e), w) | None \<Rightarrow>
     (case (findByIPLocked w addr, wd_routers w addr) of
        (Some rn, Some rs) \<Rightarrow>
          if \<not> dn_online rn then ((zero_RouterRuntime, [], Some (router_offline addr)), w)
          else (let ip = (case target of None \<Rightarrow> [] | Some t \<Rightarrow> er_IP t)
                in if ip = [] then
                     (let rs' = rs\<lparr>dr_currentExitIP := [], dr_rx := 0, dr_tx := 0, dr_lastHandshake := zero_time\<rparr>;
                          w' = put_router w addr rs'
                      in ((runtime_from w' rs', [], None), w'))
                   else if ip = flakyIP then
                     ((runtime_from w rs, [], Some (ErrorString (''router '' @ addr @ '': exit-node not confirmed (revert will fire): want '' @
                        ip @ '', got '' @ currentArg rs))), w)
                   else if ip = brokenIP then
                     ((runtime_from w rs, [], Some (CommandErr \<lparr>ce_Addr = addr, ce_Cmd = ''apply exit-node'',
                        ce_StderrText = ''permission denied'', ce_Exit = 1\<rparr>)), w)
                   else
                     (let rs' = rs\<lparr>dr_currentExitIP := ip, dr_rx := 96000, dr_tx := 24000, dr_lastHandshake := now\<rparr>;
                          w' = put_router w addr rs'
                      in ((runtime_from w' rs', if \<not> autoKeep then demo_marker unixNano rnd else [], None), w')))
      | _ \<Rightarrow> ((zero_RouterRuntime, [], Some (no_router addr)), w)))"

definition demo_KeepExitNode :: "string \<Rightarrow> string \<Rightarrow> World \<Rightarrow> go_error option" where
  "demo_KeepExitNode addr marker w =
     (case findByIPLocked w addr of
        None \<Rightarrow> Some (no_router addr)
      | Some rn \<Rightarrow> if \<not> dn_online rn then Some (router_offline addr) else None)"

subsection \<open>Time passes\<close>

definition climbs :: "World \<Rightarrow> routerRuntime \<Rightarrow> bool" where
  "climbs w rs \<longleftrightarrow> dr_currentExitIP rs \<noteq> [] \<and>
     (case findByIPLocked w (dr_currentExitIP rs) of None \<Rightarrow> False | Some ex \<Rightarrow> dn_online ex)"

definition flip_node :: "time \<Rightarrow> demoNode \<Rightarrow> demoNode" where
  "flip_node now n =
     (let n' = n\<lparr>dn_online := \<not> dn_online n\<rparr> in if \<not> dn_online n' then n'\<lparr>dn_lastSeen := now\<rparr> else n')"

text \<open>\<open>draw\<close> is what the random source adds to the counters of a router, below 180000 and 40000.\<close>

definition tick :: "time \<Rightarrow> (string \<Rightarrow> nat \<times> nat) \<Rightarrow> World \<Rightarrow> World" where
  "tick now draw w =
     w\<lparr>wd_routers := (\<lambda>a. map_option (\<lambda>rs. if climbs w rs then
            rs\<lparr>dr_rx := dr_rx rs + 40000 + int (fst (draw a)), dr_tx := dr_tx rs + 8000 + int (snd (draw a)),
               dr_lastHandshake := now\<rparr> else rs) (wd_routers w a)),
       wd_nodes := (case index_of (\<lambda>n. dn_stableID n = flipID) (wd_nodes w) of
            None \<Rightarrow> wd_nodes w
          | Some i \<Rightarrow> (wd_nodes w)[i := flip_node now (wd_nodes w ! i)])\<rparr>"

subsection \<open>The zones of the preview\<close>

definition demo_NewGroups :: "Group list" where
  "demo_NewGroups =
     [\<lparr>g_ID = ''zone-work'', g_Name = ''Work'', g_Consumers = [''n-office-router'', ''n-warehouse-router''],
       g_AllowedExitNodes = [''n-exit-tokyo'', ''n-exit-frankfurt'']\<rparr>,
      \<lparr>g_ID = ''zone-lab'', g_Name = ''Lab'', g_Consumers = [''n-home-router''],
       g_AllowedExitNodes = [''n-exit-tokyo'', ''n-exit-frankfurt'', ''n-exit-flaky'', ''n-exit-broken'']\<rparr>]"

definition demo_indexOfLocked :: "Group list \<Rightarrow> string \<Rightarrow> nat option" where
  "demo_indexOfLocked gs gid = index_of (\<lambda>g. g_ID g = gid) gs"

definition demo_Get :: "Group list \<Rightarrow> string \<Rightarrow> Group option" where
  "demo_Get gs gid = map_option ((!) gs) (demo_indexOfLocked gs gid)"

definition demo_Create :: "random_source \<Rightarrow> Group \<Rightarrow> Group list \<Rightarrow> ((store_error + Group) \<times> Group list) option" where
  "demo_Create rnd g gs =
     (case Normalize g of
        Inl e \<Rightarrow> Some (Inl e, gs)
      | Inr norm \<Rightarrow>
          (case freshIDLocked (map g_ID gs) rnd 0 of
             None \<Rightarrow> None
           | Some (Inl e) \<Rightarrow> Some (Inl e, gs)
           | Some (Inr gid) \<Rightarrow> Some (Inr (norm\<lparr>g_ID := gid\<rparr>), gs @ [norm\<lparr>g_ID := gid\<rparr>])))"

definition demo_Update :: "string \<Rightarrow> Group \<Rightarrow> Group list \<Rightarrow> (store_error + Group) \<times> Group list" where
  "demo_Update gid g gs =
     (case Normalize g of
        Inl e \<Rightarrow> (Inl e, gs)
      | Inr norm \<Rightarrow>
          (case demo_indexOfLocked gs gid of
             None \<Rightarrow> (Inl (NotFoundErr gid), gs)
           | Some idx \<Rightarrow> (Inr (norm\<lparr>g_ID := gid\<rparr>), gs[idx := norm\<lparr>g_ID := gid\<rparr>])))"

definition demo_Delete :: "string \<Rightarrow> Group list \<Rightarrow> store_error option \<times> Group list" where
  "demo_Delete gid gs =
     (case demo_indexOfLocked gs gid of
        None \<Rightarrow> (Some (NotFoundErr gid), gs)
      | Some idx \<Rightarrow> (None, remove_at idx gs))"

subsection \<open>Wiring\<close>

text \<open>\<^verbatim>\<open>runDemo\<close> of \<^verbatim>\<open>cmd/tsctl/main.go\<close>: the configuration of the poller and of the API.\<close>

definition demo_pconfig :: "string \<Rightarrow> pconfig" where
  "demo_pconfig url = ConfigureKeep True (ConfigureEgress True url
     \<lparr>pc_routers = RouterIPs, pc_egressCheck = False, pc_egressURL = [], pc_requireKeep = False, pc_revertWindow = RevertWindow\<rparr>)"

definition demo_api_config :: "string \<Rightarrow> api_config" where
  "demo_api_config ui_password =
     (let cfg = \<lparr>ac_Owner = demo_Owner, ac_UIPassword = [], ac_AllowedHosts = demo_AllowedHosts\<rparr>
      in if ui_password \<noteq> [] then cfg\<lparr>ac_Owner := [], ac_UIPassword := ui_password\<rparr> else cfg)"

subsection \<open>The preview keeps the contract of the router client\<close>

text \<open>
  The part of the world that never changes, and what follows from it: routers are known nodes and every node has one
  dotted address.
\<close>

definition node_key :: "demoNode \<Rightarrow> string \<times> string \<times> string list \<times> bool" where
  "node_key n = (dn_stableID n, dn_name n, dn_ips n, dn_exitOpt n)"

definition world_ok :: "World \<Rightarrow> bool" where
  "world_ok w \<longleftrightarrow> map node_key (wd_nodes w) = map node_key (demo_nodes 0) \<and> dom (wd_routers w) = set RouterIPs"

lemma map_node_key_demo_nodes: "map node_key (demo_nodes now) = map node_key (demo_nodes 0)"
  by (simp add: demo_nodes_def node_key_def fixture_def Let_def)

lemma world_ok_New: "world_ok (demo_New now)"
  using map_node_key_demo_nodes by (auto simp: world_ok_def demo_New_def RouterIPs_def)

lemma node_key_flip [simp]: "node_key (flip_node now n) = node_key n"
  by (simp add: node_key_def flip_node_def Let_def)

lemma map_node_key_flip: "map node_key (xs[i := flip_node now (xs ! i)]) = map node_key xs"
  by (cases "i < length xs") (auto intro: nth_equalityI simp: nth_list_update)

lemma world_ok_tick:
  assumes "world_ok w"
  shows "world_ok (tick now draw w)"
proof -
  have "map node_key (wd_nodes (tick now draw w)) = map node_key (wd_nodes w)"
    by (simp add: tick_def map_node_key_flip split: option.split)
  moreover have "dom (wd_routers (tick now draw w)) = dom (wd_routers w)" by (auto simp: tick_def dom_def)
  ultimately show ?thesis using assms by (simp add: world_ok_def)
qed

definition target_ip :: "ExitNodeRef option \<Rightarrow> string" where
  "target_ip target = (case target of None \<Rightarrow> [] | Some t \<Rightarrow> er_IP t)"

lemma demo_Apply_cases:
  assumes "demo_ApplyExitNode canceled now n r addr target prev auto w = ((rt, m, err), w')"
  obtains (failed) e where "err = Some e" "m = []" "w' = w"
  | (applied) rn rs where "err = None" "findByIPLocked w addr = Some rn" "dn_online rn" "wd_routers w addr \<noteq> None"
      "dr_currentExitIP rs = target_ip target" "w' = put_router w addr rs" "rt = runtime_from w' rs"
      "m = (if target_ip target = [] \<or> auto then [] else demo_marker n r)"
proof -
  note r = assms [unfolded demo_ApplyExitNode_def target_ip_def [symmetric]]
  show thesis
  proof (cases "err = None")
    case False
    then obtain e where "err = Some e" by blast
    then show thesis by (rule failed) (use False r in \<open>auto simp: Let_def split: option.splits if_splits\<close>)
  next
    case True
    with r obtain rn rs0 where f: "canceled = None" "findByIPLocked w addr = Some rn" "wd_routers w addr = Some rs0" "dn_online rn"
      by (auto simp: Let_def split: option.splits if_splits)
    show thesis
    proof (cases "target_ip target = []")
      case clear: True
      show thesis
        by (rule applied [of rn "rs0\<lparr>dr_currentExitIP := [], dr_rx := 0, dr_tx := 0, dr_lastHandshake := zero_time\<rparr>"])
          (use True f clear r in \<open>auto simp: Let_def\<close>)
    next
      case select: False
      show thesis
        by (rule applied [of rn "rs0\<lparr>dr_currentExitIP := target_ip target, dr_rx := 96000, dr_tx := 24000, dr_lastHandshake := now\<rparr>"])
          (use True f select r in \<open>auto simp: Let_def split: if_splits\<close>)
    qed
  qed
qed

lemma world_ok_Apply:
  assumes "world_ok w" and "demo_ApplyExitNode canceled now n r addr target prev auto w = ((rt, m, err), w')"
  shows "world_ok w'"
  using assms(2)
proof (cases rule: demo_Apply_cases)
  case failed
  with assms(1) show ?thesis by simp
next
  case (applied rn rs)
  with assms(1) show ?thesis by (auto simp: world_ok_def put_router_def)
qed

lemma world_ok_ips:
  assumes "world_ok w" and "n \<in> set (wd_nodes w)"
  shows "\<exists>ip. dn_ips n = [ip] \<and> Contains ip ''.''"
proof -
  have "node_key n \<in> set (map node_key (demo_nodes 0))" using assms by (metis world_ok_def list.set_map imageI)
  moreover have "list_all (\<lambda>k. \<exists>ip. fst (snd (snd k)) = [ip] \<and> Contains ip ''.'') (map node_key (demo_nodes 0))"
  proof -
    have "list_all (\<lambda>ip. Contains ip ''.'')
        [r1IP, r2IP, r3IP, r4IP, tokyoIP, frankfurtIP, londonIP, comboIP, flakyIP, brokenIP, aliceIP, bobIP, kioskIP]" by code_simp
    then show ?thesis by (simp add: demo_nodes_def fixture_def node_key_def Let_def)
  qed
  ultimately show ?thesis by (auto simp: node_key_def list_all_iff)
qed

lemma refByIP_ip:
  assumes "world_ok w"
  shows "map_option er_IP (refByIPLocked w ip) = (if ip = [] then None else Some ip)"
proof (cases "findByIPLocked w ip")
  case None
  then show ?thesis by (simp add: refByIPLocked_def)
next
  case (Some n)
  then have "n \<in> set (wd_nodes w)" "ip \<in> set (dn_ips n)" by (auto simp: findByIPLocked_def dest: find_SomeD)
  with world_ok_ips [OF assms] Some show ?thesis by (fastforce simp: refByIPLocked_def node_ref_def primaryIPv4_def)
qed

text \<open>A router is always found, so that none of the preview's reads panics on it.\<close>

lemma world_ok_router:
  assumes "world_ok w" and "addr \<in> set RouterIPs"
  shows "findByIPLocked w addr \<noteq> None" "wd_routers w addr \<noteq> None" "demo_Status w addr \<noteq> None"
proof -
  have "addr \<in> set (concat (map (\<lambda>k. fst (snd (snd k))) (map node_key (wd_nodes w))))"
  proof -
    have "list_all (\<lambda>a. a \<in> set (concat (map (\<lambda>k. fst (snd (snd k))) (map node_key (demo_nodes 0))))) RouterIPs" by code_simp
    then show ?thesis using assms by (simp add: world_ok_def list_all_iff)
  qed
  then show "findByIPLocked w addr \<noteq> None" by (auto simp: findByIPLocked_def find_None_iff node_key_def)
  show r: "wd_routers w addr \<noteq> None" using assms by (auto simp: world_ok_def)
  then show "demo_Status w addr \<noteq> None" by (auto simp: demo_Status_def runtimeLocked_def split: option.splits)
qed

interpretation preview: marker_client "demo_ApplyExitNode canceled now n r" for canceled now n r
  by unfold_locales (auto elim!: demo_Apply_cases simp: demo_marker_def target_ip_def)

text \<open>The interface of the poller, for the routers of the preview; a panic elsewhere is shown as an error.\<close>

definition demo_ops :: "time \<Rightarrow> time \<Rightarrow> nat \<Rightarrow> World router_ops" where
  "demo_ops now n r = \<lparr>
     ro_Status = (\<lambda>addr w. (case demo_Status w addr of Some x \<Rightarrow> x | None \<Rightarrow> Inl (ErrorString ''nil pointer dereference''), w)),
     ro_Apply = demo_ApplyExitNode None now n r,
     ro_Keep = (\<lambda>addr m w. (demo_KeepExitNode addr m w, w)),
     ro_Probe = (\<lambda>addr w. (demo_Probe None w addr, w)),
     ro_Egress = (\<lambda>addr url w. (demo_EgressProbe w addr, w))\<rparr>"

lemma demo_ops_client: "marker_client (ro_Apply (demo_ops now n r))"
  by (simp add: demo_ops_def preview.marker_client_axioms)

text \<open>The never-lost-timer invariant therefore holds of the poller on the preview as well.\<close>

lemmas demo_timers = conc_reachable_inv [OF demo_ops_client]

text \<open>
  The preview behaves towards the poller as the real client does. A change
  that is reported without an error has been made: a fresh read gives the very runtime that was reported, and it is
  on the requested exit node, or on none for a clear. After an error nothing has changed. A marker comes
  with a selection whose keep is deferred, and only then. No other router is affected, and the world stays well-formed.
\<close>

theorem demo_apply_honest:
  assumes "world_ok w" and "demo_ApplyExitNode canceled now n r addr target prev auto w = ((rt, m, err), w')"
  shows "world_ok w' \<and>
    (case err of
       Some e \<Rightarrow> w' = w \<and> m = []
     | None \<Rightarrow> demo_Status w' addr = Some (Inr rt) \<and>
         map_option er_IP (rt_Current rt) = (if target_ip target = [] then None else Some (target_ip target)) \<and>
         (m \<noteq> [] \<longleftrightarrow> target_ip target \<noteq> [] \<and> \<not> auto)) \<and>
    (\<forall>a. a \<noteq> addr \<longrightarrow> demo_Status w' a = demo_Status w a)"
proof -
  note ok = world_ok_Apply [OF assms]
  from assms(2) show ?thesis
  proof (cases rule: demo_Apply_cases)
    case failed
    with ok show ?thesis by simp
  next
    case (applied rn rs)
    have find: "findByIPLocked w' a = findByIPLocked w a" for a
      using applied(6) by (simp add: findByIPLocked_def put_router_def)
    have rt: "runtime_from w' = runtime_from w" using applied(6)
      by (simp add: runtime_from_def refByIPLocked_def findByIPLocked_def exitOptionsLocked_def put_router_def fun_eq_iff)
    have "wd_routers w' addr = Some rs" using applied(6) by (simp add: put_router_def)
    then have "demo_Status w' addr = Some (Inr rt)"
      unfolding demo_Status_def runtimeLocked_def find applied(7) using applied(2,3) by simp
    moreover have "demo_Status w' a = demo_Status w a" if "a \<noteq> addr" for a
    proof -
      have r: "wd_routers w' a = wd_routers w a" using that applied(6) by (simp add: put_router_def)
      show ?thesis unfolding demo_Status_def runtimeLocked_def find rt r by (rule refl)
    qed
    moreover have "map_option er_IP (rt_Current rt) = (if target_ip target = [] then None else Some (target_ip target))"
      using refByIP_ip [OF ok] applied(5,7) by (simp add: runtime_from_def)
    moreover have "m \<noteq> [] \<longleftrightarrow> target_ip target \<noteq> [] \<and> \<not> auto" using applied(8) by (auto simp: demo_marker_def)
    ultimately show ?thesis using ok applied(1) by simp
  qed
qed

theorem demo_apply_honest_witness:
  "\<exists>rt m w'. demo_ApplyExitNode None 5 6 7 r1IP (Some \<lparr>er_StableID = ''n-exit-tokyo'', er_Name = [], er_IP = tokyoIP\<rparr>) None False
       (demo_New 0) = ((rt, m, None), w') \<and> demo_Status w' r1IP = Some (Inr rt) \<and> map_option er_IP (rt_Current rt) = Some tokyoIP \<and>
     m \<noteq> []"
proof -
  let ?t = "Some \<lparr>er_StableID = ''n-exit-tokyo'', er_Name = [], er_IP = tokyoIP\<rparr>"
  obtain rt m err w' where r: "demo_ApplyExitNode None 5 6 7 r1IP ?t None False (demo_New 0) = ((rt, m, err), w')"
    by (metis prod.exhaust)
  have "snd (snd (fst (demo_ApplyExitNode None 5 6 7 r1IP ?t None False (demo_New 0)))) = None" by code_simp
  then have "err = None" using r by simp
  moreover have "target_ip ?t = tokyoIP" "tokyoIP \<noteq> []" by (simp_all add: target_ip_def tokyoIP_def)
  ultimately show ?thesis using demo_apply_honest [OF world_ok_New r] r by auto
qed

subsection \<open>The zones of the preview and those of the store\<close>

text \<open>
  Whatever the real store does with success, on whatever disk, the preview does to its slice: the same group
  with the same identifier at the same position.
\<close>

lemma demo_groups_follow:
  assumes "fresh_tmp io (gs_path s) fs"
  shows "groups_Create uf io rnd g s fs = Some (Inr g', s', fs') \<Longrightarrow> demo_Create rnd g (gs_items s) = Some (Inr g', gs_items s')"
    "groups_Update uf io gid g s fs = (Inr g', s', fs') \<Longrightarrow> demo_Update gid g (gs_items s) = (Inr g', gs_items s')"
    "groups_Delete io gid s fs = (None, s', fs') \<Longrightarrow> demo_Delete gid (gs_items s) = (None, gs_items s')"
    "groups_Get s gid = demo_Get (gs_items s) gid"
  using assms
  by (auto elim!: groups_Create_ok groups_Update_ok groups_Delete_ok
      simp: demo_Create_def demo_Update_def demo_Delete_def demo_indexOfLocked_def demo_Get_def groups_Get_def groups_indexOfLocked_def)

text \<open>The converse fails: the preview accepts a name that the store refuses, although it is meant to behave like it.\<close>

lemma demo_accepts_duplicate:
  "demo_Create (\<lambda>_. Inr [1]) \<lparr>g_ID = [], g_Name = ''work'', g_Consumers = [], g_AllowedExitNodes = []\<rparr> demo_NewGroups =
     Some (Inr \<lparr>g_ID = ''01'', g_Name = ''work'', g_Consumers = [], g_AllowedExitNodes = []\<rparr>,
       demo_NewGroups @ [\<lparr>g_ID = ''01'', g_Name = ''work'', g_Consumers = [], g_AllowedExitNodes = []\<rparr>])"
  "groups_Create ascii_fold (io_ok ''t'') (\<lambda>_. Inr [1]) \<lparr>g_ID = [], g_Name = ''work'', g_Consumers = [], g_AllowedExitNodes = []\<rparr>
     \<lparr>gs_path = ''g'', gs_items = demo_NewGroups\<rparr> Map.empty =
     Some (Inl (ValidationErr (NameTaken ''work'')), \<lparr>gs_path = ''g'', gs_items = demo_NewGroups\<rparr>, Map.empty)"
proof -
  let ?g = "\<lparr>g_ID = [], g_Name = ''work'', g_Consumers = [], g_AllowedExitNodes = []\<rparr>"
  have n: "Normalize ?g = Inr ?g" by code_simp
  have t: "nameTakenLocked ascii_fold \<lparr>gs_path = ''g'', gs_items = demo_NewGroups\<rparr> ''work'' []" by code_simp
  have f: "freshIDLocked (map g_ID demo_NewGroups) (\<lambda>_. Inr [1]) 0 = Some (Inr ''01'')" by code_simp
  show "demo_Create (\<lambda>_. Inr [1]) ?g demo_NewGroups = 
     Some (Inr \<lparr>g_ID = ''01'', g_Name = ''work'', g_Consumers = [], g_AllowedExitNodes = []\<rparr>,
       demo_NewGroups @ [\<lparr>g_ID = ''01'', g_Name = ''work'', g_Consumers = [], g_AllowedExitNodes = []\<rparr>])"
    using f by (simp add: demo_Create_def n)
  show "groups_Create ascii_fold (io_ok ''t'') (\<lambda>_. Inr [1]) ?g \<lparr>gs_path = ''g'', gs_items = demo_NewGroups\<rparr> Map.empty =
     Some (Inl (ValidationErr (NameTaken ''work'')), \<lparr>gs_path = ''g'', gs_items = demo_NewGroups\<rparr>, Map.empty)"
    using t by (simp add: groups_Create_def n)
qed

end
