(* ===== verification/Tsctl_Commands.thy ===== *)
theory Tsctl_Commands
  imports Tsctl_Main Demo
begin

section \<open>cmd/tsctl: the process\<close>

text \<open>
  The outermost layer of \<^verbatim>\<open>cmd/tsctl\<close>: what \<^verbatim>\<open>main\<close> prints and the status it exits with (\<^verbatim>\<open>main.go\<close>), the tailnet node it
  configures, the messages to the service manager and the watchdog that sends them (\<^verbatim>\<open>sdnotify.go\<close>), and the offline preview
  that \<^verbatim>\<open>runDemo\<close> wires up. The outcome of every system call is an argument: \<open>None\<close> where it succeeds. The order of the lines that
  different goroutines write to the log is not specified by the program; they are listed in the order of its text.
\<close>

subsection \<open>Errors by identity\<close>

text \<open>
  \<^verbatim>\<open>errors.Is\<close> for a sentinel of the standard library, which walks the chain of wrapped errors. A sentinel is told by its text:
  the text of each of them belongs to that error alone.
\<close>

fun errors_Is :: "string \<Rightarrow> go_error \<Rightarrow> bool" where
  "errors_Is target (ErrorString m) \<longleftrightarrow> m = target"
| "errors_Is target (CommandErr e) \<longleftrightarrow> False"
| "errors_Is target (Wrapped m e) \<longleftrightarrow> errors_Is target e"

definition ErrHelp :: string where "ErrHelp = ''flag: help requested''"
definition Canceled :: string where "Canceled = ''context canceled''"
definition ErrServerClosed :: string where "ErrServerClosed = ''http: Server closed''"

text \<open>What a goroutine logs when the function it runs returns: nothing if it ended as it was told to.\<close>

definition goroutine_log :: "string \<Rightarrow> string \<Rightarrow> go_error option \<Rightarrow> string list" where
  "goroutine_log what expected result =
     (case result of None \<Rightarrow> [] | Some e \<Rightarrow> if errors_Is expected e then [] else [what @ '': '' @ Error e])"

subsection \<open>The service manager\<close>

text \<open>The socket of the service manager: which addresses can be dialled, and whether a datagram is taken.\<close>

record notify_net =
  nn_dial :: "string \<Rightarrow> go_error option"
  nn_write :: "string \<Rightarrow> go_error option"

text \<open>The error returned, and the datagram the manager got (its address and its text).\<close>

definition sdNotify :: "environ \<Rightarrow> notify_net \<Rightarrow> string \<Rightarrow> go_error option \<times> (string \<times> string) list" where
  "sdNotify E net state =
     (case notify_socket E of
        None \<Rightarrow> (None, [])
      | Some socket \<Rightarrow>
          (case nn_dial net socket of
             Some e \<Rightarrow> (Some e, [])
           | None \<Rightarrow> (case nn_write net state of Some e \<Rightarrow> (Some e, []) | None \<Rightarrow> (None, [(socket, state)]))))"

text \<open>
  \<^verbatim>\<open>startWatchdog\<close>: nothing, after a line in the log if the interval is bad; or a goroutine, which panics at once if the
  interval has wrapped around to a negative one, and otherwise sends at every tick until its context is done. The
  error of \<^verbatim>\<open>strconv.ParseInt\<close> quotes its input.
\<close>

definition ParseInt_error :: "string \<Rightarrow> go_error" where
  "ParseInt_error s =
     (let body = (if HasPrefix s ''-'' \<or> HasPrefix s ''+'' then drop 1 s else s)
      in ErrorString (''strconv.ParseInt: parsing '' @ Quote s @ '': '' @
           (if body = [] \<or> digits_val 0 body = None then ''invalid syntax'' else ''value out of range'')))"

datatype watchdog = Idle "string list" | Panics | Ticks "64 word"

definition startWatchdog :: "environ \<Rightarrow> watchdog" where
  "startWatchdog E =
     (let s = Getenv E ''WATCHDOG_USEC'';
          bad = (\<lambda>why. ''watchdog: bad WATCHDOG_USEC '' @ Quote s @ '': '' @ why)
      in if s = [] then Idle []
         else case Atoi s of
             None \<Rightarrow> Idle [bad (Error (ParseInt_error s))]
           | Some usec \<Rightarrow>
               if usec \<le> 0 then Idle [bad ''<nil>'']
               else (let interval = word_of_int (sint (word_of_int (usec * 1000) :: 64 word) sdiv 2)
                     in if sint interval \<le> 0 then Panics else Ticks interval))"

text \<open>What its select finds, in order: the context done, or a tick, at which the socket is as given.\<close>

datatype wd_event = WdDone | WdTick notify_net

fun watchdog_loop :: "environ \<Rightarrow> wd_event list \<Rightarrow> (string \<times> string) list \<times> string list" where
  "watchdog_loop E [] = ([], [])"
| "watchdog_loop E (WdDone # evs) = ([], [])"
| "watchdog_loop E (WdTick net # evs) =
     (case sdNotify E net ''WATCHDOG=1'' of (err, sent) \<Rightarrow>
      case watchdog_loop E evs of (sent', logs) \<Rightarrow>
        (sent @ sent', (case err of Some e \<Rightarrow> [''watchdog ping: '' @ Error e] | None \<Rightarrow> []) @ logs))"

text \<open>Only a signed 64-bit overflow makes the goroutine panic; the interval is the one computed above in every other case.\<close>

lemma startWatchdog_Ticks:
  assumes "startWatchdog E = Ticks i"
  obtains usec where "Atoi (Getenv E ''WATCHDOG_USEC'') = Some usec" "0 < usec" "watchdog_interval E = Some i" "0 < sint i"
  using assms by (auto simp: startWatchdog_def watchdog_interval_def Let_def split: if_splits option.splits)

lemma startWatchdog_ok:
  assumes "Atoi (Getenv E ''WATCHDOG_USEC'') = Some usec" "0 < usec" "usec * 1000 < 2 ^ 63" "Getenv E ''WATCHDOG_USEC'' \<noteq> []"
  shows "\<exists>i. startWatchdog E = Ticks i \<and> watchdog_interval E = Some i"
  using watchdog_positive [OF assms] assms by (auto simp: startWatchdog_def watchdog_interval_def Let_def)

lemma startWatchdog_panics:
  assumes "Atoi (Getenv E ''WATCHDOG_USEC'') = Some 9223372036854776" "Getenv E ''WATCHDOG_USEC'' \<noteq> []"
  shows "startWatchdog E = Panics"
  using assms by (simp add: startWatchdog_def signed_divide_int_def sgn_if abs_if)

text \<open>
  Every tick before the context is done is answered: with a datagram or with a line in the log, and a failure does not stop the
  pings that follow. Outside systemd nothing is sent and nothing logged.
\<close>

fun ticks :: "wd_event list \<Rightarrow> nat" where
  "ticks (WdTick net # evs) = Suc (ticks evs)"
| "ticks _ = 0"

lemma sdNotify_one:
  assumes "sdNotify E net state = (err, sent)" "notify_socket E = Some socket"
  shows "err = None \<and> sent = [(socket, state)] \<or> err \<noteq> None \<and> sent = []"
  using assms by (auto simp: sdNotify_def split: option.splits) metis+

lemma watchdog_loop_answers:
  assumes "notify_socket E = Some socket" "watchdog_loop E evs = (sent, logs)"
  shows "length sent + length logs = ticks evs \<and> set sent \<subseteq> {(socket, ''WATCHDOG=1'')}"
  using assms(2)
proof (induction evs arbitrary: sent logs)
  case (Cons ev evs)
  then show ?case
  proof (cases ev)
    case (WdTick net)
    obtain err sent1 sent' logs' where c: "sdNotify E net ''WATCHDOG=1'' = (err, sent1)" "watchdog_loop E evs = (sent', logs')"
      by fastforce
    show ?thesis using Cons.prems Cons.IH [OF c(2)] sdNotify_one [OF c(1) assms(1)] WdTick c by auto
  qed simp
qed simp

lemma watchdog_loop_silent: "notify_socket E = None \<Longrightarrow> watchdog_loop E evs = ([], [])"
proof (induction evs)
  case (Cons ev evs)
  then show ?case by (cases ev) (simp_all add: sdNotify_def)
qed simp

subsection \<open>The tailnet node\<close>

text \<open>\<^verbatim>\<open>tsnet.Server\<close> as the program configures it. Its two loggers are functions from a line to the lines that are logged.\<close>

record tsnet_Server =
  ts_Dir :: string
  ts_Hostname :: string
  ts_AdvertiseTags :: "string list"
  ts_Ephemeral :: bool
  ts_AuthKey :: string
  ts_UserLogf :: "string \<Rightarrow> string list"
  ts_Logf :: "string \<Rightarrow> string list"

definition filteredLogf :: "bool \<Rightarrow> string \<Rightarrow> string list" where
  "filteredLogf debug = (if debug then (\<lambda>line. [line]) else (\<lambda>line. []))"

definition newTSNet :: "Config \<Rightarrow> tsnet_Server" where
  "newTSNet cfg = \<lparr>ts_Dir = cf_StateDir cfg, ts_Hostname = cf_Hostname cfg, ts_AdvertiseTags = [''tag:tsctl''], ts_Ephemeral = False,
     ts_AuthKey = cf_AuthKey cfg, ts_UserLogf = (\<lambda>line. [line]), ts_Logf = filteredLogf (cf_Debug cfg)\<rparr>"

subsection \<open>main\<close>

definition demoListen :: string where
  "demoListen = ''127.0.0.1:8089''"

definition printUsage :: "string \<Rightarrow> string" where
  "printUsage version =
     concat (map (\<lambda>line. line @ [CHR 0x0A])
       [''tsctl '' @ version @ '' -- Tailscale exit-node manager'',
        '''',
        ''Usage:'',
        ''  tsctl [serve] [flags]      Run the server (default); see '' @ [CHR 0x22] @ ''tsctl serve -h'' @ [CHR 0x22] @ '' for flags'',
        ''  tsctl spike <router-ip>    Prove the SSH-over-tailnet path to a router'',
        ''  tsctl demo                 Offline UI preview on '' @ demoListen @ '' (no tsnet, no tailnet)'',
        ''  tsctl version              Print version and exit'',
        ''  tsctl help                 Print this help'',
        '''',
        ''Config is flags + env (TSCTL_*, TS_AUTHKEY). See the README.''])"

text \<open>What \<^verbatim>\<open>main\<close> itself writes, and the status the process exits with. The log is a part of the standard error stream.\<close>

record outcome =
  oc_stdout :: string
  oc_stderr :: string
  oc_log :: "string list"
  oc_code :: nat

definition fatal :: "string \<Rightarrow> outcome" where
  "fatal line = \<lparr>oc_stdout = [], oc_stderr = [], oc_log = [line], oc_code = 1\<rparr>"

definition quiet :: outcome where
  "quiet = \<lparr>oc_stdout = [], oc_stderr = [], oc_log = [], oc_code = 0\<rparr>"

text \<open>\<^verbatim>\<open>main\<close> for a build (its version, system and architecture) and the three commands, each given by the error it returns.\<close>

definition tsctl_main ::
    "string \<times> string \<times> string \<Rightarrow> (string list \<Rightarrow> go_error option) \<Rightarrow> (string \<Rightarrow> go_error option) \<Rightarrow> go_error option \<Rightarrow> string list \<Rightarrow> outcome" where
  "tsctl_main build run_serve run_spike run_demo args =
     (case build of (version, goos, goarch) \<Rightarrow>
      case main_dispatch args of
        CmdHelp \<Rightarrow> quiet\<lparr>oc_stdout := printUsage version\<rparr>
      | CmdVersion \<Rightarrow> quiet\<lparr>oc_stdout := ''tsctl '' @ version @ '' ('' @ goos @ ''/'' @ goarch @ '')'' @ [CHR 0x0A]\<rparr>
      | CmdServe rest \<Rightarrow>
          (case run_serve rest of
             None \<Rightarrow> quiet
           | Some e \<Rightarrow> if errors_Is ErrHelp e then quiet else fatal (Error e))
      | CmdSpikeUsage \<Rightarrow> fatal ''usage: tsctl spike <router-100.x-ipv4>''
      | CmdSpike addr \<Rightarrow> (case run_spike addr of None \<Rightarrow> quiet | Some e \<Rightarrow> fatal (''spike: '' @ Error e))
      | CmdDemo \<Rightarrow> (case run_demo of None \<Rightarrow> quiet | Some e \<Rightarrow> fatal (''demo: '' @ Error e))
      | CmdUnknown cmd \<Rightarrow>
          quiet\<lparr>oc_stderr := ''tsctl: unknown command '' @ Quote cmd @ [CHR 0x0A, CHR 0x0A] @ printUsage version, oc_code := 2\<rparr>)"

text \<open>
  The serve command from its arguments to its end: the configuration, the start, and the shutdown after the signal, with
  what fails in it. \<open>None\<close> is a panic (no random secret).
\<close>

definition serve_command ::
    "parse_duration \<Rightarrow> (nat \<Rightarrow> nat) \<Rightarrow> environ \<Rightarrow> (string \<Rightarrow> text_file) \<Rightarrow> 'w API \<Rightarrow> 'w \<Rightarrow> start_env \<Rightarrow> (stop_step \<Rightarrow> go_error option) \<Rightarrow>
     string list \<Rightarrow> go_error option option" where
  "serve_command pd lower E rd base w se fails args =
     (case runServe base w se (loadConfig pd lower E rd args) of
        None \<Rightarrow> None
      | Some (Inl e) \<Rightarrow> Some (Some e)
      | Some (Inr sv) \<Rightarrow> (case shutdown (sv_config sv) fails of (steps, logs, result) \<Rightarrow> Some result))"

subsection \<open>The preview\<close>

text \<open>
  \<^verbatim>\<open>runDemo\<close>: the poller and the API over a new world and its zones, on the loopback address. What it meets outside is
  the random secret, whether the address is free, and how each of its goroutines and its server end.
\<close>

record demo_env =
  de_now :: time
  de_secret :: "string + string"
  de_listen :: "go_error option"
  de_hub :: "go_error option"
  de_poller :: "go_error option"
  de_serve :: "go_error option"
  de_shutdown :: "go_error option"

record preview =
  pw_world :: World
  pw_groups :: "Group list"
  pw_poller :: pstate
  pw_api :: "World API"

definition demo_wiring :: "World API \<Rightarrow> environ \<Rightarrow> demo_env \<Rightarrow> preview option" where
  "demo_wiring base E de =
     map_option (\<lambda>a. \<lparr>pw_world = demo_New (de_now de), pw_groups = demo_NewGroups, pw_poller = poller_New (store_New (de_now de)), pw_api = a\<rparr>)
       (api_New (base\<lparr>a_cfg := demo_pconfig defaultEgressURL\<rparr>) (demo_api_config (Getenv E ''TSCTL_UI_PASSWORD'')) (de_secret de))"

definition demo_log :: "environ \<Rightarrow> demo_env \<Rightarrow> string list" where
  "demo_log E de =
     (if Getenv E ''TSCTL_UI_PASSWORD'' \<noteq> [] then [''demo: password mode -- sign in with TSCTL_UI_PASSWORD''] else []) @
     (if de_listen de \<noteq> None then []
      else [''demo UI (offline, no tsnet) on http://'' @ demoListen @ ''/ -- Ctrl-C to stop'', ''shutdown signal received; draining''] @
        goroutine_log ''sse hub stopped'' Canceled (de_hub de) @ goroutine_log ''poller stopped'' Canceled (de_poller de) @
        goroutine_log ''demo http server'' ErrServerClosed (de_serve de) @
        (case de_shutdown de of Some e \<Rightarrow> [''demo http shutdown: '' @ Error e] | None \<Rightarrow> []) @ [''clean shutdown''])"

text \<open>The preview it serves (\<open>None\<close>: a panic), its log from start to end, and the error it returns.\<close>

definition runDemo :: "World API \<Rightarrow> environ \<Rightarrow> demo_env \<Rightarrow> (preview \<times> string list \<times> go_error option) option" where
  "runDemo base E de =
     map_option (\<lambda>pw. (pw, demo_log E de, map_option (Wrapped ''demo listen'') (de_listen de))) (demo_wiring base E de)"

text \<open>\<^verbatim>\<open>(*World).Run\<close>: the world at each select of its loop, which finds the context done or a tick (its time and its draws).\<close>

fun demo_Run :: "(time \<times> (string \<Rightarrow> nat \<times> nat)) option list \<Rightarrow> World \<Rightarrow> World" where
  "demo_Run [] w = w"
| "demo_Run (None # evs) w = w"
| "demo_Run (Some (now, draw) # evs) w = demo_Run evs (tick now draw w)"

subsection \<open>Lemmas\<close>

lemma main_code:
  "oc_code (tsctl_main build run_serve run_spike run_demo args) =
     (case main_dispatch args of
        CmdHelp \<Rightarrow> 0 | CmdVersion \<Rightarrow> 0
      | CmdServe rest \<Rightarrow> (if run_serve rest = None \<or> errors_Is ErrHelp (the (run_serve rest)) then 0 else 1)
      | CmdSpikeUsage \<Rightarrow> 1
      | CmdSpike addr \<Rightarrow> (if run_spike addr = None then 0 else 1)
      | CmdDemo \<Rightarrow> (if run_demo = None then 0 else 1)
      | CmdUnknown cmd \<Rightarrow> 2)"
  by (simp add: tsctl_main_def quiet_def fatal_def split: prod.split command.split option.split)

text \<open>No failure is silent: an exit status other than zero comes with a line on the standard error stream.\<close>

lemma main_not_silent:
  "oc_code (tsctl_main build run_serve run_spike run_demo args) \<noteq> 0 \<Longrightarrow>
   oc_log (tsctl_main build run_serve run_spike run_demo args) \<noteq> [] \<or> oc_stderr (tsctl_main build run_serve run_spike run_demo args) \<noteq> []"
  by (auto simp: tsctl_main_def quiet_def fatal_def split: prod.splits command.splits option.splits if_splits)

text \<open>A server that starts ends with the status of closing its node, whatever else fails on the way down.\<close>

lemma serve_command_started:
  assumes "runServe base w se (loadConfig pd lower E rd args) = Some (Inr sv)"
  shows "serve_command pd lower E rd base w se fails args = Some (map_option (Wrapped ''tsnet close'') (fails CloseNode))"
  using assms by (auto simp: serve_command_def shutdown_def Let_def split: option.splits)

text \<open>A help flag ends the serve command cleanly, before anything is opened, provided the environment has valid defaults.\<close>

lemma loadConfig_help:
  assumes "envDur pd E ''TSCTL_SSH_TIMEOUT'' (15 * second) = Inr a" "envDur pd E ''TSCTL_POLL_INTERVAL'' (30 * second) = Inr b"
    "envBool E ''TSCTL_EGRESS_CHECK'' True = Inr c" "envBool E ''TSCTL_REQUIRE_KEEP'' False = Inr d"
    "s \<in> {''-h'', ''-help'', ''--help''}"
  shows "loadConfig pd lower E rd (s # args) = Inl (ErrorString ErrHelp)"
  using assms by (auto simp: loadConfig_def ErrHelp_def flag_defaults_def flag_name_def split_flag_def HasPrefix_def IndexByte_def)

lemma serve_help:
  assumes "loadConfig pd lower E rd args = Inl (ErrorString ErrHelp)"
  shows "serve_command pd lower E rd base w se fails args = Some (Some (Wrapped ''config'' (ErrorString ErrHelp)))"
    "errors_Is ErrHelp (Wrapped ''config'' (ErrorString ErrHelp))"
  using assms by (simp_all add: serve_command_def runServe_def)

lemma goroutine_log_expected: "goroutine_log what expected (Some (ErrorString expected)) = []"
  by (simp add: goroutine_log_def)

lemma demo_Run_world_ok: "world_ok w \<Longrightarrow> world_ok (demo_Run evs w)"
  by (induction evs w rule: demo_Run.induct) (simp_all add: world_ok_tick)

text \<open>The preview needs no login, or exactly the password it was given; its hosts are the loopback ones in either case.\<close>

lemma demo_wiring_auth:
  assumes "demo_wiring base E de = Some pw"
  shows "a_owner (pw_api pw) = (if Getenv E ''TSCTL_UI_PASSWORD'' = [] then demo_Owner else [])"
    "a_uiPassword (pw_api pw) = Getenv E ''TSCTL_UI_PASSWORD''"
  using assms by (auto simp: demo_wiring_def api_New_def demo_api_config_def Let_def split: sum.splits)

end
