(* ===== verification/Poller_Gaps.thy ===== *)
theory Poller_Gaps
  imports Poller_Steps
begin

section \<open>Package poller: what a failed change leaves behind\<close>

text \<open>
  Two consequences of the code as it is, on a router that behaves as documented. After a change that failed, the gate of an
  earlier change stays up but can no longer be kept; and the revert armed by a failed attempt outlives a later
  successful one. Both concern \<^verbatim>\<open>SetExitNode\<close> and \<^verbatim>\<open>Keep\<close> of \<^verbatim>\<open>internal/poller/poller.go\<close> run one after the other.
\<close>

subsection \<open>A gate that cannot be kept\<close>

text \<open>
  C38 (a gate nobody can keep). A change awaits its keep and a second change on the same router fails. The entry of the
  first is left in place, so polls go on showing awaiting-keep with its deadline; but it carries an old sequence
  number, so that every \<open>Keep\<close> within the window is refused as superseded, with no command sent, and the router will
  fall back.
\<close>

theorem failed_set_blocks_keep:
  assumes plan: "set_preflight gs (po_snap s) rid tid = Inr plan"
    and ret: "SetExitNode cfg rc gs ts rid tid (s, w) = (r, s', w')"
    and failed: "ar_err (fst (set_apply cfg rc plan w)) \<noteq> None"
    and gate: "po_pendingKeep s (sp_addr plan) = Some e" "ke_seq e \<le> po_setSeq s (sp_addr plan)"
    and again: "keep_target (po_snap s') rid' = Inr (sp_addr plan)" "now \<le> ke_revertAt e"
  shows "po_pendingKeep s' (sp_addr plan) = Some e \<and>
    Keep rc' now builtAt rid' (s', w'') = (Inl (mk_controlError 409 ''a newer exit-node change superseded this one''), s', w'') \<and>
    (\<forall>rv. rv_Reachable rv \<longrightarrow>
       fst (merge_router s' (po_setGen s') now (sp_addr plan) rv (po_pendingKeep s')) =
         rv\<lparr>rv_State := RouterAwaitingKeep, rv_RevertAt := ke_revertAt e\<rparr>)"
proof -
  obtain view err where r: "r = (view, err)" by fastforce
  have "po_setSeq s' (sp_addr plan) = Suc (po_setSeq s (sp_addr plan)) \<and> po_pendingKeep s' (sp_addr plan) = Some e"
    using SetExitNode_run [OF plan ret [unfolded r]] failed gate(1) by (metis fst_conv)
  with gate(2) have s': "po_pendingKeep s' (sp_addr plan) = Some e" "ke_seq e \<noteq> po_setSeq s' (sp_addr plan)" by simp_all
  with again have "keep_validate (sp_addr plan) now builtAt s' =
      (KeepRefused (mk_controlError 409 ''a newer exit-node change superseded this one'') None, s')"
    by (simp add: keep_validate_def)
  with again s' show ?thesis by (simp add: Keep_def maybe_broadcast_def merge_router_def)
qed

definition gated_poller :: pstate where
  "gated_poller = (poller_New example_snap)\<lparr>po_setSeq := (\<lambda>_. 1),
     po_pendingKeep := [''100.64.0.1'' \<mapsto> \<lparr>ke_marker = ''/tmp/m'', ke_revertAt = 60, ke_seq = 1\<rparr>]\<rparr>"

definition dead_ops :: "sim router_ops" where
  "dead_ops = ssh_ops (\<lambda>addr cmd d. (RunFailed (ErrorString ''connection lost''), d)) sim_status None (defaultMarker 1 2)"

lemma gated_target:
  "(case SetExitNode (example_cfg True) dead_ops [example_zone] example_times ''r1'' ''e1'' (gated_poller, sim_start) of
      (r, s', w') \<Rightarrow> keep_target (po_snap s') ''r1'' = Inr ''100.64.0.1'')"
  by code_simp

theorem failed_set_blocks_keep_witness:
  "case SetExitNode (example_cfg True) dead_ops [example_zone] example_times ''r1'' ''e1'' (gated_poller, sim_start) of
     (r, s', w') \<Rightarrow> po_pendingKeep s' ''100.64.0.1'' \<noteq> None \<and>
       (\<exists>c. Keep sim_ops 20 21 ''r1'' (s', w') = (Inl c, s', w') \<and> ctl_status c = 409)"
proof -
  obtain r s' w' where ret: "SetExitNode (example_cfg True) dead_ops [example_zone] example_times ''r1'' ''e1'' (gated_poller, sim_start) =
      (r, s', w')" by (metis prod_cases3)
  have plan: "set_preflight [example_zone] (po_snap gated_poller) ''r1'' ''e1'' = Inr example_plan"
    using example_preflight by (simp add: gated_poller_def poller_New_def)
  have failed: "ar_err (fst (set_apply (example_cfg True) dead_ops example_plan sim_start)) \<noteq> None" by code_simp
  have a: "sp_addr example_plan = ''100.64.0.1''" by (simp add: example_plan_def)
  have t: "keep_target (po_snap s') ''r1'' = Inr (sp_addr example_plan)" using gated_target ret a by simp
  from failed_set_blocks_keep [OF plan ret failed _ _ t, of "\<lparr>ke_marker = ''/tmp/m'', ke_revertAt = 60, ke_seq = 1\<rparr>" 20 sim_ops 21 w']
  show ?thesis using ret a by (simp add: gated_poller_def mk_controlError_def)
qed

subsection \<open>A revert that outlives the change it belongs to\<close>

text \<open>A router on which the connection is lost while the confirming read runs, and which is otherwise the simulated one.\<close>

definition lossy_exec :: "string \<Rightarrow> sim \<Rightarrow> run_result \<times> sim" where
  "lossy_exec cmd d = (if cmd = statusCmd then (RunFailed (ErrorString ''connection lost''), d) else sim_exec cmd d)"

definition lossy_device :: "sim device_ops" where
  "lossy_device = sim_device\<lparr>dev_exec := lossy_exec\<rparr>"

lemma lossy_exec_cmds:
  "lossy_exec (armCmd m p) d = sim_exec (armCmd m p) d"
  "lossy_exec (applyCmd t b lan) d = sim_exec (applyCmd t b lan) d"
  "lossy_exec statusCmd d = (RunFailed (ErrorString ''connection lost''), d)"
  "lossy_exec (keepCmd m) d = sim_exec (keepCmd m) d"
  by (simp_all add: lossy_exec_def armCmd_def applyCmd_def statusCmd_def keepCmd_def Let_def split: bool.splits option.splits)

lemma lossy_device_behaviour: "device_behaviour lossy_device"
  by (auto simp: device_behaviour_def lossy_device_def sim_device_def lossy_exec_cmds sim_exec_arm sim_exec_apply
      sim_exec_keep fire_def fun_eq_iff)

definition lossy_ops :: "sim router_ops" where
  "lossy_ops = ssh_ops (device_run lossy_device) sim_status None (defaultMarker 1 2)"

definition retry_ops :: "sim router_ops" where
  "retry_ops = ssh_ops (device_run sim_device) sim_status None (defaultMarker 20 3)"

definition retry_times :: set_times where
  "retry_times = \<lparr>ts_step1 = 20, ts_arm = 21, ts_now = 22, ts_step3 = 23\<rparr>"

text \<open>
  C36 (a revert that outlives its change). A change whose confirming read is lost is reported as failed; the operator
  repeats it, and the second attempt succeeds: no error, the card says ok on the requested exit node, the marker is written.
  But that is the marker of the second attempt. The revert armed by the first one knows nothing of it, and when its window
  ends it takes the router back to the old selection. Nothing in the code can cancel it: a failed attempt hands no marker
  back.
\<close>

theorem stale_revert_undoes_retry:
  "device_behaviour lossy_device \<and> device_behaviour sim_device \<and>
   (let r1 = SetExitNode (example_cfg False) lossy_ops [example_zone] example_times ''r1'' ''e1''
          (poller_New example_snap, sim_start);
        r2 = SetExitNode (example_cfg False) retry_ops [example_zone] retry_times ''r1'' ''e1'' (snd r1);
        view = fst (fst r2); dev = snd (snd r2)
    in snd (fst r1) \<noteq> None \<and> snd (fst r2) = None \<and> rv_State view = RouterOK \<and>
       map_option er_IP (rv_CurrentExitNode view) = Some ''100.64.0.7'' \<and> rv_Desired view = None \<and>
       dev_exit sim_device dev = ''100.64.0.7'' \<and> dev_exit sim_device (dev_wait sim_device dev) = [])"
proof -
  let ?r1 = "SetExitNode (example_cfg False) lossy_ops [example_zone] example_times ''r1'' ''e1'' (poller_New example_snap, sim_start)"
  let ?r2 = "SetExitNode (example_cfg False) retry_ops [example_zone] retry_times ''r1'' ''e1'' (snd ?r1)"
  have "(\<lambda>((view, err), s, d). (snd (fst ?r1) = None, err = None, rv_State view, map_option er_IP (rv_CurrentExitNode view),
      rv_Desired view, sim_exit d, sim_exit (dev_wait sim_device d))) ?r2 =
      (False, True, RouterOK, Some ''100.64.0.7'', None, ''100.64.0.7'', [])"
    by code_simp
  then have "snd (fst ?r1) \<noteq> None" "snd (fst ?r2) = None" "rv_State (fst (fst ?r2)) = RouterOK"
    "map_option er_IP (rv_CurrentExitNode (fst (fst ?r2))) = Some ''100.64.0.7''" "rv_Desired (fst (fst ?r2)) = None"
    "dev_exit sim_device (snd (snd ?r2)) = ''100.64.0.7''" "dev_exit sim_device (dev_wait sim_device (snd (snd ?r2))) = []"
    by (auto simp: sim_device_def split: prod.splits)
  then show ?thesis using lossy_device_behaviour sim_device_behaviour by (simp add: Let_def)
qed

end
