(* ===== verification/Go_Slices.thy ===== *)
theory Go_Slices
  imports Prelude
begin

section \<open>Slices: a length over a shared backing array\<close>

text \<open>
  A Go slice is a header that points into an array; two headers may share one array, and \<^verbatim>\<open>append\<close> writes in
  place while the capacity lasts. The memory for one element type is the list of its arrays, an array's
  position is its address, and nothing is ever freed. Every header of the modelled code that is kept
  starts at the first element, so that its capacity is the length of its array. The runtime chooses the
  spare capacity of an array it grows: \<open>grow n\<close> cells beyond the \<open>n\<close> it needs, of the zero value \<open>z\<close>.
\<close>

datatype slice = NilSlice | Slice nat nat

type_synonym 'a arrays = "'a list list"

fun slice_len :: "slice \<Rightarrow> nat" where
  "slice_len NilSlice = 0"
| "slice_len (Slice a n) = n"

fun cells :: "'a arrays \<Rightarrow> slice \<Rightarrow> 'a list" where
  "cells M NilSlice = []"
| "cells M (Slice a n) = take n (M ! a)"

fun slice_at :: "slice \<Rightarrow> nat set" where
  "slice_at NilSlice = {}"
| "slice_at (Slice a n) = {a}"

fun valid_slice :: "'a arrays \<Rightarrow> slice \<Rightarrow> bool" where
  "valid_slice M NilSlice \<longleftrightarrow> True"
| "valid_slice M (Slice a n) \<longleftrightarrow> a < length M \<and> n \<le> length (M ! a)"

text \<open>\<^verbatim>\<open>make([]T, 0, c)\<close>, \<^verbatim>\<open>append(s, xs...)\<close>, \<^verbatim>\<open>s[i] = x\<close> for an index in bounds, and \<^verbatim>\<open>s[:n]\<close>.\<close>

definition make_slice :: "'a \<Rightarrow> nat \<Rightarrow> 'a arrays \<Rightarrow> slice \<times> 'a arrays" where
  "make_slice z c M = (Slice (length M) 0, M @ [replicate c z])"

definition fresh_slice :: "(nat \<Rightarrow> nat) \<Rightarrow> 'a \<Rightarrow> 'a list \<Rightarrow> 'a arrays \<Rightarrow> slice \<times> 'a arrays" where
  "fresh_slice grow z ys M = (Slice (length M) (length ys), M @ [ys @ replicate (grow (length ys)) z])"

fun append_slice :: "(nat \<Rightarrow> nat) \<Rightarrow> 'a \<Rightarrow> 'a list \<Rightarrow> slice \<Rightarrow> 'a arrays \<Rightarrow> slice \<times> 'a arrays" where
  "append_slice grow z xs NilSlice M = (if xs = [] then (NilSlice, M) else fresh_slice grow z xs M)"
| "append_slice grow z xs (Slice a n) M =
     (if n + length xs \<le> length (M ! a)
      then (Slice a (n + length xs), M[a := take n (M ! a) @ xs @ drop (n + length xs) (M ! a)])
      else fresh_slice grow z (take n (M ! a) @ xs) M)"

fun set_elem :: "slice \<Rightarrow> nat \<Rightarrow> 'a \<Rightarrow> 'a arrays \<Rightarrow> 'a arrays" where
  "set_elem NilSlice i x M = M"
| "set_elem (Slice a n) i x M = M[a := (M ! a)[i := x]]"

fun shorten :: "nat \<Rightarrow> slice \<Rightarrow> slice" where
  "shorten k NilSlice = NilSlice"
| "shorten k (Slice a n) = Slice a k"

subsection \<open>What is visible through a header\<close>

text \<open>
  \<open>M'\<close> is later than \<open>M\<close> and agrees with it outside the arrays in \<open>W\<close>: arrays were allocated, and at most
  those in \<open>W\<close> were written. Reads through a header whose array is not in \<open>W\<close> are unaffected.
\<close>

definition written :: "nat set \<Rightarrow> 'a arrays \<Rightarrow> 'a arrays \<Rightarrow> bool" where
  "written W M M' \<longleftrightarrow> length M \<le> length M' \<and> (\<forall>a < length M. a \<notin> W \<longrightarrow> M' ! a = M ! a) \<and>
     (\<forall>a < length M. length (M' ! a) = length (M ! a))"

lemma written_refl [simp]: "written W M M"
  by (simp add: written_def)

lemma written_trans: "written W M M' \<Longrightarrow> written W' M' M'' \<Longrightarrow> (\<And>a. a \<in> W' \<Longrightarrow> a < length M \<Longrightarrow> a \<in> W) \<Longrightarrow> written W M M''"
  by (fastforce simp: written_def)

lemma written_mono: "written W M M' \<Longrightarrow> W \<subseteq> W' \<Longrightarrow> written W' M M'"
  by (auto simp: written_def)

lemma written_append [simp]: "written W M (M @ N)"
  by (simp add: written_def nth_append)

lemma written_update: "a \<in> W \<Longrightarrow> written W M (M[a := (M ! a)[i := x]])"
  by (cases "a < length M") (auto simp: written_def nth_list_update list_update_beyond)

lemma written_cells: "written W M M' \<Longrightarrow> valid_slice M s \<Longrightarrow> slice_at s \<inter> W = {} \<Longrightarrow> cells M' s = cells M s"
  by (cases s) (auto simp: written_def)

lemma written_valid: "written W M M' \<Longrightarrow> valid_slice M s \<Longrightarrow> valid_slice M' s"
  by (cases s) (auto simp: written_def)

lemma valid_slice_len: "valid_slice M s \<Longrightarrow> length (cells M s) = slice_len s"
  by (cases s) simp_all

lemma valid_slice_at: "valid_slice M s \<Longrightarrow> a \<in> slice_at s \<Longrightarrow> a < length M"
  by (cases s) auto

text \<open>An append shows the old elements followed by the new ones, wherever it put them.\<close>

lemma append_slice_props:
  assumes "append_slice grow z xs s M = (s', M')" and "valid_slice M s"
  shows "cells M' s' = cells M s @ xs" "valid_slice M' s'" "written (slice_at s) M M'"
    "slice_at s' \<subseteq> slice_at s \<union> {length M ..}"
proof -
  show "cells M' s' = cells M s @ xs"
    using assms by (cases s) (auto simp: fresh_slice_def split: if_splits)
  show "valid_slice M' s'"
    using assms by (cases s) (auto simp: fresh_slice_def split: if_splits)
  show "written (slice_at s) M M'"
    using assms by (cases s) (auto simp: fresh_slice_def written_def nth_list_update nth_append split: if_splits)
  show "slice_at s' \<subseteq> slice_at s \<union> {length M ..}"
    using assms by (cases s) (auto simp: fresh_slice_def split: if_splits)
qed

lemma make_slice_props:
  assumes "make_slice z c M = (s', M')"
  shows "cells M' s' = []" "valid_slice M' s'" "written {} M M'" "slice_at s' \<subseteq> {length M ..}"
  by (insert assms) (auto simp: make_slice_def written_def nth_append)

lemma set_elem_props:
  assumes "valid_slice M s" and "i < slice_len s"
  shows "cells (set_elem s i x M) s = (cells M s)[i := x]" "written (slice_at s) M (set_elem s i x M)"
  by (insert assms, cases s; auto simp: written_def nth_list_update take_update_swap)+

lemma set_elem_twice: "set_elem s i y (set_elem s i x M) = set_elem s i y M"
proof (cases s)
  case (Slice a n)
  then show ?thesis by (cases "a < length M") (simp_all add: list_update_beyond)
qed simp

lemma shorten_props:
  assumes "valid_slice M s" and "k \<le> slice_len s"
  shows "cells M (shorten k s) = take k (cells M s)" "valid_slice M (shorten k s)" "slice_at (shorten k s) = slice_at s"
  by (insert assms, cases s; simp add: min_def)+

end
