(* ===== verification/Group_Memory.thy ===== *)
theory Group_Memory
  imports Group_Store Go_Slices
begin

section \<open>The zone store on shared memory\<close>

text \<open>
  \<^verbatim>\<open>internal/groups/groups.go\<close> again, now with its slices as headers over shared arrays: the slice of groups
  the store keeps, the member lists inside each group, the values it hands out and those it is given. The
  operations below follow the statements of the source in their order, allocations and in-place writes
  included; the mutex makes each of them one step. The slice of records that \<^verbatim>\<open>persistLocked\<close> builds and
  drops is a plain list here; its elements' member lists are not. For each operation a \<open>_sim\<close> lemma shows that it
  computes what \<open>Group_Store\<close> says, and that it stays within its rights: it allocates, and writes no array but that
  of the store's own slice.
\<close>

subsection \<open>Groups in memory\<close>

record hgroup =
  hg_ID :: string
  hg_Name :: string
  hg_Consumers :: slice
  hg_AllowedExitNodes :: slice

record memory =
  m_strs :: "string arrays"
  m_groups :: "hgroup arrays"

record heap_store =
  hs_path :: string
  hs_items :: slice

definition zero_hgroup :: hgroup where
  "zero_hgroup = \<lparr>hg_ID = [], hg_Name = [], hg_Consumers = NilSlice, hg_AllowedExitNodes = NilSlice\<rparr>"

text \<open>The values behind the headers.\<close>

definition the_group :: "string arrays \<Rightarrow> hgroup \<Rightarrow> Group" where
  "the_group S g = \<lparr>g_ID = hg_ID g, g_Name = hg_Name g, g_Consumers = cells S (hg_Consumers g),
     g_AllowedExitNodes = cells S (hg_AllowedExitNodes g)\<rparr>"

definition the_items :: "memory \<Rightarrow> heap_store \<Rightarrow> hgroup list" where
  "the_items m s = cells (m_groups m) (hs_items s)"

definition the_store :: "memory \<Rightarrow> heap_store \<Rightarrow> GroupsStore" where
  "the_store m s = \<lparr>gs_path = hs_path s, gs_items = map (the_group (m_strs m)) (the_items m s)\<rparr>"

subsection \<open>Copies\<close>

definition heap_cloneGroup :: "(nat \<Rightarrow> nat) \<Rightarrow> hgroup \<Rightarrow> string arrays \<Rightarrow> hgroup \<times> string arrays" where
  "heap_cloneGroup grow g S =
     (let (c, S1) = append_slice grow [] (cells S (hg_Consumers g)) NilSlice S;
          (a, S2) = append_slice grow [] (cells S1 (hg_AllowedExitNodes g)) NilSlice S1
      in (\<lparr>hg_ID = hg_ID g, hg_Name = hg_Name g, hg_Consumers = c, hg_AllowedExitNodes = a\<rparr>, S2))"

fun heap_clone_loop :: "(nat \<Rightarrow> nat) \<Rightarrow> hgroup list \<Rightarrow> slice \<Rightarrow> memory \<Rightarrow> slice \<times> memory" where
  "heap_clone_loop grow [] out m = (out, m)"
| "heap_clone_loop grow (g # gs) out m =
     (let (g', S) = heap_cloneGroup grow g (m_strs m);
          (out', G) = append_slice grow zero_hgroup [g'] out (m_groups m)
      in heap_clone_loop grow gs out' (m\<lparr>m_strs := S, m_groups := G\<rparr>))"

definition heap_cloneGroups :: "(nat \<Rightarrow> nat) \<Rightarrow> hgroup list \<Rightarrow> memory \<Rightarrow> slice \<times> memory" where
  "heap_cloneGroups grow gs m =
     (let (out, G) = make_slice zero_hgroup (length gs) (m_groups m)
      in heap_clone_loop grow gs out (m\<lparr>m_groups := G\<rparr>))"

fun heap_toPersisted :: "(nat \<Rightarrow> nat) \<Rightarrow> hgroup list \<Rightarrow> string arrays \<Rightarrow> hgroup list \<times> string arrays" where
  "heap_toPersisted grow [] S = ([], S)"
| "heap_toPersisted grow (g # gs) S =
     (let (p, S1) = heap_cloneGroup grow g S; (ps, S2) = heap_toPersisted grow gs S1 in (p # ps, S2))"

subsection \<open>Normalization\<close>

fun heap_normalizeLoop ::
    "(nat \<Rightarrow> nat) \<Rightarrow> string \<Rightarrow> string list \<Rightarrow> string set \<Rightarrow> slice \<Rightarrow> string arrays \<Rightarrow>
     (store_error + slice) \<times> string arrays" where
  "heap_normalizeLoop grow field [] seen out S = (Inr out, S)"
| "heap_normalizeLoop grow field (raw # ids) seen out S =
     (let ident = TrimSpace raw
      in if ident = [] then (Inl (ValidationErr (EmptyMember field)), S)
         else if ident \<in> seen then heap_normalizeLoop grow field ids seen out S
         else (let (out', S') = append_slice grow [] [ident] out S
               in heap_normalizeLoop grow field ids (insert ident seen) out' S'))"

definition heap_normalizeMembers ::
    "(nat \<Rightarrow> nat) \<Rightarrow> slice \<Rightarrow> string \<Rightarrow> string arrays \<Rightarrow> (store_error + slice) \<times> string arrays" where
  "heap_normalizeMembers grow ids field S =
     (let xs = cells S ids; (out, S') = make_slice [] (slice_len ids) S
      in heap_normalizeLoop grow field xs {} out S')"

definition heap_Normalize ::
    "(nat \<Rightarrow> nat) \<Rightarrow> hgroup \<Rightarrow> string arrays \<Rightarrow> (store_error + hgroup) \<times> string arrays" where
  "heap_Normalize grow g S =
     (let name = TrimSpace (hg_Name g)
      in if name = [] then (Inl (ValidationErr EmptyName), S)
         else case heap_normalizeMembers grow (hg_Consumers g) ''consumers'' S of
             (Inl e, S1) \<Rightarrow> (Inl e, S1)
           | (Inr c, S1) \<Rightarrow>
               (case heap_normalizeMembers grow (hg_AllowedExitNodes g) ''allowedExitNodes'' S1 of
                  (Inl e, S2) \<Rightarrow> (Inl e, S2)
                | (Inr a, S2) \<Rightarrow>
                    (Inr \<lparr>hg_ID = hg_ID g, hg_Name = name, hg_Consumers = c, hg_AllowedExitNodes = a\<rparr>, S2)))"

subsection \<open>The store's operations\<close>

definition heap_indexOfLocked :: "memory \<Rightarrow> heap_store \<Rightarrow> string \<Rightarrow> nat option" where
  "heap_indexOfLocked m s gid = index_of (\<lambda>g. hg_ID g = gid) (the_items m s)"

definition heap_nameTakenLocked :: "(nat \<Rightarrow> nat) \<Rightarrow> memory \<Rightarrow> heap_store \<Rightarrow> string \<Rightarrow> string \<Rightarrow> bool" where
  "heap_nameTakenLocked uf m s name excludeID \<longleftrightarrow>
     (\<exists>g \<in> set (the_items m s). hg_ID g \<noteq> excludeID \<and> EqualFold uf (hg_Name g) name)"

definition heap_persistLocked ::
    "(nat \<Rightarrow> nat) \<Rightarrow> io \<Rightarrow> heap_store \<Rightarrow> memory \<Rightarrow> files \<Rightarrow> (string option \<times> files list) \<times> memory" where
  "heap_persistLocked grow io s m fs =
     (let (pgs, S) = heap_toPersisted grow (the_items m s) (m_strs m)
      in (atomic_save io (hs_path s) (groups_enc (map (the_group S) pgs)) fs, m\<lparr>m_strs := S\<rparr>))"

definition heap_List :: "(nat \<Rightarrow> nat) \<Rightarrow> heap_store \<Rightarrow> memory \<Rightarrow> slice \<times> memory" where
  "heap_List grow s m = heap_cloneGroups grow (the_items m s) m"

definition heap_Get :: "(nat \<Rightarrow> nat) \<Rightarrow> string \<Rightarrow> heap_store \<Rightarrow> memory \<Rightarrow> hgroup option \<times> memory" where
  "heap_Get grow gid s m =
     (case heap_indexOfLocked m s gid of
        Some i \<Rightarrow> (let (g, S) = heap_cloneGroup grow (the_items m s ! i) (m_strs m) in (Some g, m\<lparr>m_strs := S\<rparr>))
      | None \<Rightarrow> (None, m))"

definition heap_Create ::
    "(nat \<Rightarrow> nat) \<Rightarrow> (nat \<Rightarrow> nat) \<Rightarrow> io \<Rightarrow> random_source \<Rightarrow> hgroup \<Rightarrow> heap_store \<Rightarrow> memory \<Rightarrow> files \<Rightarrow>
     ((store_error + hgroup) \<times> heap_store \<times> memory \<times> files) option" where
  "heap_Create uf grow io rnd g s m fs =
     (case heap_Normalize grow g (m_strs m) of
        (Inl e, S) \<Rightarrow> Some (Inl e, s, m\<lparr>m_strs := S\<rparr>, fs)
      | (Inr norm, S) \<Rightarrow>
          (let m0 = m\<lparr>m_strs := S\<rparr>
           in if heap_nameTakenLocked uf m0 s (hg_Name norm) [] then
                Some (Inl (ValidationErr (NameTaken (hg_Name norm))), s, m0, fs)
              else (case freshIDLocked (map hg_ID (the_items m0 s)) rnd 0 of
                  None \<Rightarrow> None
                | Some (Inl e) \<Rightarrow> Some (Inl e, s, m0, fs)
                | Some (Inr gid) \<Rightarrow>
                    (let norm' = norm\<lparr>hg_ID := gid\<rparr>;
                         (items, G) = append_slice grow zero_hgroup [norm'] (hs_items s) (m_groups m0);
                         s' = s\<lparr>hs_items := items\<rparr>;
                         (p, m1) = heap_persistLocked grow io s' (m0\<lparr>m_groups := G\<rparr>) fs
                     in case fst p of
                          Some e \<Rightarrow>
                            Some (Inl (PlainErr e), s'\<lparr>hs_items := shorten (slice_len items - 1) items\<rparr>, m1, save_final p)
                        | None \<Rightarrow>
                            (let (r, S') = heap_cloneGroup grow norm' (m_strs m1)
                             in Some (Inr r, s', m1\<lparr>m_strs := S'\<rparr>, save_final p))))))"

definition heap_Update ::
    "(nat \<Rightarrow> nat) \<Rightarrow> (nat \<Rightarrow> nat) \<Rightarrow> io \<Rightarrow> string \<Rightarrow> hgroup \<Rightarrow> heap_store \<Rightarrow> memory \<Rightarrow> files \<Rightarrow>
     (store_error + hgroup) \<times> heap_store \<times> memory \<times> files" where
  "heap_Update uf grow io gid g s m fs =
     (case heap_Normalize grow g (m_strs m) of
        (Inl e, S) \<Rightarrow> (Inl e, s, m\<lparr>m_strs := S\<rparr>, fs)
      | (Inr norm, S) \<Rightarrow>
          (let m0 = m\<lparr>m_strs := S\<rparr>
           in case heap_indexOfLocked m0 s gid of
                None \<Rightarrow> (Inl (NotFoundErr gid), s, m0, fs)
              | Some idx \<Rightarrow>
                  if heap_nameTakenLocked uf m0 s (hg_Name norm) gid then
                    (Inl (ValidationErr (NameTaken (hg_Name norm))), s, m0, fs)
                  else
                    (let norm' = norm\<lparr>hg_ID := gid\<rparr>;
                         old = the_items m0 s ! idx;
                         (p, m1) = heap_persistLocked grow io s
                           (m0\<lparr>m_groups := set_elem (hs_items s) idx norm' (m_groups m0)\<rparr>) fs
                     in case fst p of
                          Some e \<Rightarrow>
                            (Inl (PlainErr e), s, m1\<lparr>m_groups := set_elem (hs_items s) idx old (m_groups m1)\<rparr>, save_final p)
                        | None \<Rightarrow>
                            (let (r, S') = heap_cloneGroup grow norm' (m_strs m1)
                             in (Inr r, s, m1\<lparr>m_strs := S'\<rparr>, save_final p)))))"

definition heap_Delete ::
    "(nat \<Rightarrow> nat) \<Rightarrow> io \<Rightarrow> string \<Rightarrow> heap_store \<Rightarrow> memory \<Rightarrow> files \<Rightarrow>
     store_error option \<times> heap_store \<times> memory \<times> files" where
  "heap_Delete grow io gid s m fs =
     (case heap_indexOfLocked m s gid of
        None \<Rightarrow> (Some (NotFoundErr gid), s, m, fs)
      | Some idx \<Rightarrow>
          (let old = hs_items s;
               (next0, G0) = make_slice zero_hgroup (slice_len old - 1) (m_groups m);
               (next1, G1) = append_slice grow zero_hgroup (take idx (cells G0 old)) next0 G0;
               (next2, G2) = append_slice grow zero_hgroup (drop (Suc idx) (cells G1 old)) next1 G1;
               s' = s\<lparr>hs_items := next2\<rparr>;
               (p, m1) = heap_persistLocked grow io s' (m\<lparr>m_groups := G2\<rparr>) fs
           in case fst p of
                Some e \<Rightarrow> (Some (PlainErr e), s'\<lparr>hs_items := old\<rparr>, m1, save_final p)
              | None \<Rightarrow> (None, s', m1, save_final p)))"

text \<open>
  Loading. The JSON decoder allocates the member lists of each record; \<^verbatim>\<open>fromPersisted\<close> copies them, field by
  field like \<^verbatim>\<open>cloneGroup\<close>, into a slice of the exact capacity. A new process has an empty memory.
\<close>

fun heap_decoded :: "(nat \<Rightarrow> nat) \<Rightarrow> Group list \<Rightarrow> string arrays \<Rightarrow> hgroup list \<times> string arrays" where
  "heap_decoded grow [] S = ([], S)"
| "heap_decoded grow (p # ps) S =
     (let (c, S1) = append_slice grow [] (g_Consumers p) NilSlice S;
          (a, S2) = append_slice grow [] (g_AllowedExitNodes p) NilSlice S1;
          (gs, S3) = heap_decoded grow ps S2
      in (\<lparr>hg_ID = g_ID p, hg_Name = g_Name p, hg_Consumers = c, hg_AllowedExitNodes = a\<rparr> # gs, S3))"

definition heap_New ::
    "(nat \<Rightarrow> nat) \<Rightarrow> (nat \<Rightarrow> nat) \<Rightarrow> string option \<Rightarrow> files \<Rightarrow> string \<Rightarrow> store_error + heap_store \<times> memory" where
  "heap_New uf grow fault fs path =
     (case ReadFile fault fs path of
        NotExist \<Rightarrow> Inr (\<lparr>hs_path = path, hs_items = NilSlice\<rparr>, \<lparr>m_strs = [], m_groups = []\<rparr>)
      | ReadError e \<Rightarrow> Inl (PlainErr (''groups: reading: '' @ e))
      | ReadOK None \<Rightarrow> Inl (PlainErr ''groups: corrupt groups file'')
      | ReadOK (Some doc) \<Rightarrow>
          (case groups_dec uf doc of
             None \<Rightarrow> Inl (PlainErr ''groups: corrupt groups file'')
           | Some ps \<Rightarrow>
               (let (gs, S) = heap_decoded grow ps [];
                    (items, m) = heap_cloneGroups grow gs \<lparr>m_strs = S, m_groups = []\<rparr>
                in Inr (\<lparr>hs_path = path, hs_items = items\<rparr>, m))))"

subsection \<open>Well-formed groups and what they can reach\<close>

definition valid_hgroup :: "string arrays \<Rightarrow> hgroup \<Rightarrow> bool" where
  "valid_hgroup S g \<longleftrightarrow> valid_slice S (hg_Consumers g) \<and> valid_slice S (hg_AllowedExitNodes g)"

definition hgroup_at :: "hgroup \<Rightarrow> nat set" where
  "hgroup_at g = slice_at (hg_Consumers g) \<union> slice_at (hg_AllowedExitNodes g)"

lemma valid_zero [simp]: "valid_hgroup S zero_hgroup" "hgroup_at zero_hgroup = {}"
  by (simp_all add: valid_hgroup_def hgroup_at_def zero_hgroup_def)

lemma valid_hgroup_at: "valid_hgroup S g \<Longrightarrow> hgroup_at g \<subseteq> {..< length S}"
  by (auto simp: valid_hgroup_def hgroup_at_def dest: valid_slice_at)

lemma hgroup_ID [simp]:
  "valid_hgroup S (g\<lparr>hg_ID := x\<rparr>) = valid_hgroup S g" "hgroup_at (g\<lparr>hg_ID := x\<rparr>) = hgroup_at g"
  "the_group S (g\<lparr>hg_ID := x\<rparr>) = (the_group S g)\<lparr>g_ID := x\<rparr>"
  by (simp_all add: valid_hgroup_def hgroup_at_def the_group_def)

lemma the_group_fields [simp]: "g_ID (the_group S g) = hg_ID g" "g_Name (the_group S g) = hg_Name g"
  by (simp_all add: the_group_def)

text \<open>Writes to arrays a group does not reach, and allocations, leave its value alone.\<close>

lemma written_group:
  assumes "written W S S'" and "valid_hgroup S g" and "hgroup_at g \<inter> W = {}"
  shows "valid_hgroup S' g" "the_group S' g = the_group S g"
  using assms by (auto simp: valid_hgroup_def hgroup_at_def the_group_def Int_Un_distrib2
      dest: written_valid written_cells)

lemmas allocated_group = written_group [where W = "{}", simplified]

lemma allocated_trans: "written {} S S' \<Longrightarrow> written {} S' S'' \<Longrightarrow> written {} S S''"
  by (erule written_trans) auto

lemma written_length: "written W S S' \<Longrightarrow> length S \<le> length S'"
  by (simp add: written_def)

text \<open>Copying a member list: a new array, or nil for an empty list.\<close>

lemma append_nil_props:
  assumes "append_slice grow z xs NilSlice S = (s', S')"
  shows "cells S' s' = xs" "valid_slice S' s'" "written {} S S'" "slice_at s' \<subseteq> {length S ..}"
  using append_slice_props [OF assms] by simp_all

lemma heap_cloneGroup_props:
  assumes "heap_cloneGroup grow g S = (g', S')" and "valid_hgroup S g"
  shows "the_group S' g' = the_group S g" "valid_hgroup S' g'" "written {} S S'" "hgroup_at g' \<subseteq> {length S ..}"
proof -
  obtain c S1 where c: "append_slice grow [] (cells S (hg_Consumers g)) NilSlice S = (c, S1)" by fastforce
  obtain a S2 where a: "append_slice grow [] (cells S1 (hg_AllowedExitNodes g)) NilSlice S1 = (a, S2)" by fastforce
  have r: "g' = \<lparr>hg_ID = hg_ID g, hg_Name = hg_Name g, hg_Consumers = c, hg_AllowedExitNodes = a\<rparr>" "S' = S2"
    using assms(1) c a by (auto simp: heap_cloneGroup_def)
  note pc = append_nil_props [OF c] and pa = append_nil_props [OF a]
  show "written {} S S'" unfolding r(2) using pc(3) pa(3) by (rule allocated_trans)
  show "the_group S' g' = the_group S g"
    using assms(2) pc pa written_cells [OF pa(3) pc(2)] written_cells [OF pc(3)]
    by (simp add: r the_group_def valid_hgroup_def)
  show "valid_hgroup S' g'" using pc(2) pa(2) written_valid [OF pa(3)] by (simp add: r valid_hgroup_def)
  show "hgroup_at g' \<subseteq> {length S ..}"
    using pc(4) pa(4) written_length [OF pc(3)] by (auto simp: r hgroup_at_def)
qed

text \<open>All cells of the array behind a header, those beyond its length included.\<close>

fun backing :: "'a arrays \<Rightarrow> slice \<Rightarrow> 'a set" where
  "backing M NilSlice = {}"
| "backing M (Slice a n) = set (M ! a)"

lemma cells_backing: "set (cells M s) \<subseteq> backing M s"
  by (cases s) (auto dest: in_set_takeD)

lemma append_slice_backing:
  assumes "append_slice grow z xs s M = (s', M')" and "valid_slice M s"
  shows "backing M' s' \<subseteq> backing M s \<union> set xs \<union> {z}"
  using assms
  by (cases s) (auto simp: fresh_slice_def nth_append split: if_splits dest: in_set_takeD in_set_dropD)

lemma heap_clone_loop_props:
  assumes "heap_clone_loop grow gs out m = (out', m')" and "valid_slice (m_groups m) out"
    and "\<forall>g \<in> set gs. valid_hgroup (m_strs m) g"
    and "\<forall>g \<in> backing (m_groups m) out. valid_hgroup (m_strs m) g \<and> hgroup_at g \<subseteq> {k ..}" and "k \<le> length (m_strs m)"
  shows "written {} (m_strs m) (m_strs m') \<and> written (slice_at out) (m_groups m) (m_groups m') \<and>
    valid_slice (m_groups m') out' \<and> slice_at out' \<subseteq> slice_at out \<union> {length (m_groups m) ..} \<and>
    (\<forall>g \<in> backing (m_groups m') out'. valid_hgroup (m_strs m') g \<and> hgroup_at g \<subseteq> {k ..}) \<and>
    map (the_group (m_strs m')) (cells (m_groups m') out') =
      map (the_group (m_strs m)) (cells (m_groups m) out @ gs)"
  using assms
proof (induction gs arbitrary: out m)
  case Nil
  then show ?case by simp
next
  case (Cons g gs)
  obtain g' S where c: "heap_cloneGroup grow g (m_strs m) = (g', S)" by fastforce
  obtain o1 G where a: "append_slice grow zero_hgroup [g'] out (m_groups m) = (o1, G)" by fastforce
  let ?m = "m\<lparr>m_strs := S, m_groups := G\<rparr>"
  have loop: "heap_clone_loop grow gs o1 ?m = (out', m')" using Cons.prems(1) c a by simp
  have vg: "valid_hgroup (m_strs m) g" using Cons.prems(3) by simp
  note pc = heap_cloneGroup_props [OF c vg] and pa = append_slice_props [OF a Cons.prems(2)]
  have len: "k \<le> length S" using Cons.prems(5) written_length [OF pc(3)] by simp
  have "\<forall>g \<in> set gs. valid_hgroup S g" using Cons.prems(3) pc(3) by (auto intro: allocated_group)
  moreover have cellsok: "\<forall>g \<in> backing G o1. valid_hgroup S g \<and> hgroup_at g \<subseteq> {k ..}"
    using append_slice_backing [OF a Cons.prems(2)] Cons.prems(4,5) pc(2,3,4)
    by (fastforce intro: allocated_group)
  ultimately have ih: "written {} S (m_strs m') \<and> written (slice_at o1) G (m_groups m') \<and>
    valid_slice (m_groups m') out' \<and> slice_at out' \<subseteq> slice_at o1 \<union> {length G ..} \<and>
    (\<forall>g \<in> backing (m_groups m') out'. valid_hgroup (m_strs m') g \<and> hgroup_at g \<subseteq> {k ..}) \<and>
    map (the_group (m_strs m')) (cells (m_groups m') out') = map (the_group S) (cells G o1 @ gs)"
    using Cons.IH [OF loop] pa(2) len by simp
  have vals: "the_group S x = the_group (m_strs m) x" if "x \<in> set (cells (m_groups m) out) \<union> set gs" for x
    using that Cons.prems(3,4) cells_backing [of "m_groups m" out] by (auto intro!: allocated_group [OF pc(3)])
  have "map (the_group S) (cells G o1 @ gs) = map (the_group (m_strs m)) (cells (m_groups m) out @ g # gs)"
    using vals pc(1) by (simp add: pa(1))
  moreover have "written (slice_at out) (m_groups m) (m_groups m')"
    by (rule written_trans [OF pa(3), of "slice_at o1"]) (use ih pa(4) in auto)
  moreover have "slice_at out' \<subseteq> slice_at out \<union> {length (m_groups m) ..}"
    using ih pa(4) written_length [OF pa(3)] by fastforce
  moreover have "written {} (m_strs m) (m_strs m')" using pc(3) ih by (blast intro: allocated_trans)
  ultimately show ?case using ih by simp
qed

lemma heap_cloneGroups_props:
  assumes "heap_cloneGroups grow gs m = (out, m')" and "\<forall>g \<in> set gs. valid_hgroup (m_strs m) g"
  shows "written {} (m_strs m) (m_strs m')" "written {} (m_groups m) (m_groups m')"
    "valid_slice (m_groups m') out" "slice_at out \<subseteq> {length (m_groups m) ..}"
    "\<forall>g \<in> backing (m_groups m') out. valid_hgroup (m_strs m') g \<and> hgroup_at g \<subseteq> {length (m_strs m) ..}"
    "map (the_group (m_strs m')) (cells (m_groups m') out) = map (the_group (m_strs m)) gs"
proof -
  obtain o0 G where o0: "make_slice zero_hgroup (length gs) (m_groups m) = (o0, G)" by fastforce
  let ?m = "m\<lparr>m_groups := G\<rparr>"
  have loop: "heap_clone_loop grow gs o0 ?m = (out, m')" using assms(1) o0 by (simp add: heap_cloneGroups_def)
  note p = make_slice_props [OF o0]
  have "backing G o0 \<subseteq> {zero_hgroup}" using o0 by (auto simp: make_slice_def)
  then have "\<forall>g \<in> backing (m_groups ?m) o0. valid_hgroup (m_strs ?m) g \<and> hgroup_at g \<subseteq> {length (m_strs m) ..}" by auto
  note l = heap_clone_loop_props [OF loop _ _ this, simplified, OF p(2) assms(2)]
  show "written {} (m_strs m) (m_strs m')" "valid_slice (m_groups m') out"
    "\<forall>g \<in> backing (m_groups m') out. valid_hgroup (m_strs m') g \<and> hgroup_at g \<subseteq> {length (m_strs m) ..}"
    using l by simp_all
  show "map (the_group (m_strs m')) (cells (m_groups m') out) = map (the_group (m_strs m)) gs" using l p(1) by simp
  show "written {} (m_groups m) (m_groups m')"
    by (rule written_trans [OF p(3), of "slice_at o0"]) (use l p(4) in auto)
  show "slice_at out \<subseteq> {length (m_groups m) ..}" using l p(4) written_length [OF p(3)] by fastforce
qed

lemma heap_toPersisted_props:
  assumes "heap_toPersisted grow gs S = (ps, S')" and "\<forall>g \<in> set gs. valid_hgroup S g"
  shows "written {} S S' \<and> map (the_group S') ps = map (the_group S) gs"
  using assms
proof (induction gs arbitrary: S ps)
  case Nil
  then show ?case by simp
next
  case (Cons g gs)
  obtain p S1 where c: "heap_cloneGroup grow g S = (p, S1)" by fastforce
  obtain qs where r: "heap_toPersisted grow gs S1 = (qs, S')" "ps = p # qs"
    using Cons.prems(1) c by (auto split: prod.splits)
  have "valid_hgroup S g" using Cons.prems(2) by simp
  note pc = heap_cloneGroup_props [OF c this]
  have "\<forall>g \<in> set gs. valid_hgroup S1 g" using Cons.prems(2) pc(3) by (auto intro: allocated_group)
  with Cons.IH r(1) have ih: "written {} S1 S'" "map (the_group S') qs = map (the_group S1) gs" by blast+
  have "map (the_group S1) gs = map (the_group S) gs"
    using Cons.prems(2) by (auto intro!: allocated_group [OF pc(3)])
  then show ?case
    using ih pc r(2) allocated_group(2) [OF ih(1) pc(2)] by (auto intro: allocated_trans)
qed

lemma heap_normalizeLoop_props:
  assumes "heap_normalizeLoop grow field ids seen out S = (r, S')" and "valid_slice S out"
  shows "written (slice_at out) S S' \<and>
    (case normalizeMembersLoop field ids seen (cells S out) of
       Inl e \<Rightarrow> r = Inl e
     | Inr xs \<Rightarrow> \<exists>s. r = Inr s \<and> cells S' s = xs \<and> valid_slice S' s \<and> slice_at s \<subseteq> slice_at out \<union> {length S ..})"
  using assms
proof (induction ids arbitrary: seen out S)
  case Nil
  then show ?case by auto
next
  case (Cons raw ids)
  consider "TrimSpace raw = []" | "TrimSpace raw \<noteq> []" "TrimSpace raw \<in> seen"
    | "TrimSpace raw \<noteq> []" "TrimSpace raw \<notin> seen" by blast
  then show ?case
  proof cases
    case 3
    obtain o1 S1 where a: "append_slice grow [] [TrimSpace raw] out S = (o1, S1)" by fastforce
    note pa = append_slice_props [OF a Cons.prems(2)]
    have "heap_normalizeLoop grow field ids (insert (TrimSpace raw) seen) o1 S1 = (r, S')"
      using Cons.prems(1) 3 a by (simp add: Let_def)
    from Cons.IH [OF this pa(2)]
    have ih: "written (slice_at o1) S1 S' \<and>
      (case normalizeMembersLoop field ids (insert (TrimSpace raw) seen) (cells S out @ [TrimSpace raw]) of
         Inl e \<Rightarrow> r = Inl e
       | Inr xs \<Rightarrow> \<exists>s. r = Inr s \<and> cells S' s = xs \<and> valid_slice S' s \<and> slice_at s \<subseteq> slice_at o1 \<union> {length S1 ..})"
      by (simp add: pa(1))
    have "written (slice_at out) S S'"
      by (rule written_trans [OF pa(3), of "slice_at o1"]) (use ih pa(4) in auto)
    moreover have "slice_at s \<subseteq> slice_at out \<union> {length S ..}" if "slice_at s \<subseteq> slice_at o1 \<union> {length S1 ..}" for s
      using that pa(4) written_length [OF pa(3)] by fastforce
    ultimately show ?thesis using ih 3 by (auto simp: Let_def split: sum.splits)
  qed (use Cons in \<open>auto simp: Let_def\<close>)
qed

lemma heap_normalizeMembers_props:
  assumes "heap_normalizeMembers grow ids field S = (r, S')"
  shows "written {} S S' \<and>
    (case normalizeMembers (cells S ids) field of
       Inl e \<Rightarrow> r = Inl e
     | Inr xs \<Rightarrow> \<exists>s. r = Inr s \<and> cells S' s = xs \<and> valid_slice S' s \<and> slice_at s \<subseteq> {length S ..})"
proof -
  obtain o0 S0 where o0: "make_slice [] (slice_len ids) S = (o0, S0)" by fastforce
  note p = make_slice_props [OF o0]
  have "heap_normalizeLoop grow field (cells S ids) {} o0 S0 = (r, S')"
    using assms o0 by (simp add: heap_normalizeMembers_def)
  note l = heap_normalizeLoop_props [OF this p(2)]
  have "written {} S S'" by (rule written_trans [OF p(3), of "slice_at o0"]) (use l p(4) in auto)
  moreover have "slice_at s \<subseteq> {length S ..}" if "slice_at s \<subseteq> slice_at o0 \<union> {length S0 ..}" for s
    using that p(4) written_length [OF p(3)] by fastforce
  ultimately show ?thesis using l p(1) by (fastforce simp: normalizeMembers_def split: sum.splits)
qed

lemma heap_Normalize_props:
  assumes "heap_Normalize grow g S = (r, S')" and "valid_hgroup S g"
  shows "written {} S S'"
    "case Normalize (the_group S g) of
       Inl e \<Rightarrow> r = Inl e
     | Inr n \<Rightarrow> \<exists>g'. r = Inr g' \<and> the_group S' g' = n \<and> valid_hgroup S' g' \<and> hgroup_at g' \<subseteq> {length S ..}"
proof -
  obtain rc S1 where c: "heap_normalizeMembers grow (hg_Consumers g) ''consumers'' S = (rc, S1)" by fastforce
  obtain ra S2 where a: "heap_normalizeMembers grow (hg_AllowedExitNodes g) ''allowedExitNodes'' S1 = (ra, S2)" by fastforce
  note pc = heap_normalizeMembers_props [OF c] and pa = heap_normalizeMembers_props [OF a]
  have r: "(r, S') =
    (if TrimSpace (hg_Name g) = [] then (Inl (ValidationErr EmptyName), S)
     else case rc of Inl e \<Rightarrow> (Inl e, S1)
     | Inr c \<Rightarrow> (case ra of Inl e \<Rightarrow> (Inl e, S2)
        | Inr a \<Rightarrow> (Inr \<lparr>hg_ID = hg_ID g, hg_Name = TrimSpace (hg_Name g), hg_Consumers = c, hg_AllowedExitNodes = a\<rparr>, S2)))"
    using assms(1) c a by (auto simp: heap_Normalize_def Let_def split: sum.splits if_splits)
  have al: "cells S1 (hg_AllowedExitNodes g) = cells S (hg_AllowedExitNodes g)"
    using pc assms(2) by (auto simp: valid_hgroup_def intro: written_cells)
  have w: "written {} S S1" "written {} S1 S2" using pc pa by simp_all
  note w2 = allocated_trans [OF this]
  show "written {} S S'" using r w w2 by (auto split: if_splits sum.splits)
  show "case Normalize (the_group S g) of
       Inl e \<Rightarrow> r = Inl e
     | Inr n \<Rightarrow> \<exists>g'. r = Inr g' \<and> the_group S' g' = n \<and> valid_hgroup S' g' \<and> hgroup_at g' \<subseteq> {length S ..}"
  proof (cases "TrimSpace (hg_Name g) = []")
    case True
    then show ?thesis using r by (simp add: Normalize_def the_group_def)
  next
    case name: False
    show ?thesis
    proof (cases "normalizeMembers (cells S (hg_Consumers g)) ''consumers''")
      case (Inl e)
      then show ?thesis using r pc name by (simp add: Normalize_def the_group_def)
    next
      case (Inr xs)
      then obtain s where s: "rc = Inr s" "cells S1 s = xs" "valid_slice S1 s" "slice_at s \<subseteq> {length S ..}"
        using pc by auto
      have s2: "cells S2 s = xs" "valid_slice S2 s" using s w(2) by (auto simp: written_cells intro: written_valid)
      show ?thesis
      proof (cases "normalizeMembers (cells S (hg_AllowedExitNodes g)) ''allowedExitNodes''")
        case (Inl e)
        then show ?thesis using r pa s name Inr by (simp add: al Normalize_def the_group_def)
      next
        case (Inr ys)
        then obtain t where t: "ra = Inr t" "cells S2 t = ys" "valid_slice S2 t" "slice_at t \<subseteq> {length S1 ..}"
          using pa by (auto simp: al)
        have "slice_at t \<subseteq> {length S ..}" using t(4) written_length [OF w(1)] by fastforce
        then show ?thesis
          using r s s2 t name Inr \<open>normalizeMembers (cells S (hg_Consumers g)) ''consumers'' = Inr xs\<close>
          by (simp add: Normalize_def the_group_def valid_hgroup_def hgroup_at_def)
      qed
    qed
  qed
qed

subsection \<open>Every operation computes what the value model says\<close>

text \<open>
  A store is well-formed when its slice is, and the groups in it are. An operation takes it from \<open>(m, s)\<close> to
  \<open>(m', s')\<close>, within its rights, when it allocates, writes no array but that of the store's own slice, and what
  the store reaches afterwards it reached before or has allocated.
\<close>

definition store_wf :: "memory \<Rightarrow> heap_store \<Rightarrow> bool" where
  "store_wf m s \<longleftrightarrow> valid_slice (m_groups m) (hs_items s) \<and> (\<forall>g \<in> set (the_items m s). valid_hgroup (m_strs m) g)"

definition strs_at :: "memory \<Rightarrow> heap_store \<Rightarrow> nat set" where
  "strs_at m s = (\<Union>g \<in> set (the_items m s). hgroup_at g)"

definition within_rights :: "memory \<Rightarrow> heap_store \<Rightarrow> memory \<Rightarrow> heap_store \<Rightarrow> bool" where
  "within_rights m s m' s' \<longleftrightarrow> store_wf m' s' \<and>
     written {} (m_strs m) (m_strs m') \<and> written (slice_at (hs_items s)) (m_groups m) (m_groups m') \<and>
     slice_at (hs_items s') \<subseteq> slice_at (hs_items s) \<union> {length (m_groups m) ..} \<and>
     strs_at m' s' \<subseteq> strs_at m s \<union> {length (m_strs m) ..}"

lemma store_wf_allocated:
  assumes "store_wf m s" and "written {} (m_strs m) S"
  shows "the_items (m\<lparr>m_strs := S\<rparr>) s = the_items m s" "the_store (m\<lparr>m_strs := S\<rparr>) s = the_store m s"
    "within_rights m s (m\<lparr>m_strs := S\<rparr>) s"
  using assms allocated_group [OF assms(2)]
  by (auto simp: the_items_def the_store_def store_wf_def within_rights_def strs_at_def)

lemma within_rights_trans:
  assumes "within_rights m s m1 s1" and "within_rights m1 s1 m2 s2"
  shows "within_rights m s m2 s2"
proof -
  note d = assms [unfolded within_rights_def]
  have "written (slice_at (hs_items s)) (m_groups m) (m_groups m2)"
    by (rule written_trans [of _ _ "m_groups m1" "slice_at (hs_items s1)"]) (use d in auto)
  moreover have "written {} (m_strs m) (m_strs m2)" using d by (blast intro: allocated_trans)
  moreover have "slice_at (hs_items s2) \<subseteq> slice_at (hs_items s) \<union> {length (m_groups m) ..}"
    using d by (fastforce simp: written_def)
  moreover have "strs_at m2 s2 \<subseteq> strs_at m s \<union> {length (m_strs m) ..}"
    using d by (fastforce simp: written_def)
  ultimately show ?thesis using d by (simp add: within_rights_def)
qed

lemma index_of_map: "index_of P (map f xs) = index_of (P \<circ> f) xs"
  by (induction xs) simp_all

lemma heap_indexOfLocked_eq [simp]: "heap_indexOfLocked m s gid = groups_indexOfLocked (the_store m s) gid"
  by (simp add: heap_indexOfLocked_def groups_indexOfLocked_def the_store_def index_of_map comp_def)

lemma heap_nameTakenLocked_eq [simp]:
  "heap_nameTakenLocked uf m s name x = nameTakenLocked uf (the_store m s) name x"
  by (simp add: heap_nameTakenLocked_def nameTakenLocked_def the_store_def)

lemma the_store_IDs [simp]: "map g_ID (gs_items (the_store m s)) = map hg_ID (the_items m s)"
  by (simp add: the_store_def)

lemma heap_persistLocked_props:
  assumes "heap_persistLocked grow io s m fs = (p, m')" and "store_wf m s"
  shows "p = groups_persistLocked io (the_store m s) fs" "\<exists>S. m' = m\<lparr>m_strs := S\<rparr> \<and> written {} (m_strs m) S"
proof -
  obtain pgs S where t: "heap_toPersisted grow (the_items m s) (m_strs m) = (pgs, S)" by fastforce
  with assms heap_toPersisted_props [OF t]
  show "p = groups_persistLocked io (the_store m s) fs" "\<exists>S. m' = m\<lparr>m_strs := S\<rparr> \<and> written {} (m_strs m) S"
    by (auto simp: heap_persistLocked_def groups_persistLocked_def the_store_def store_wf_def)
qed

text \<open>A slot of the store's slice filled by \<^verbatim>\<open>append\<close>, and given back by reslicing.\<close>

lemma items_append:
  assumes wf: "store_wf m s" and S: "written {} (m_strs m) S"
    and a: "append_slice grow zero_hgroup [n] (hs_items s) (m_groups m) = (items, G)"
    and n: "valid_hgroup S n" "hgroup_at n \<subseteq> {length (m_strs m) ..}"
  defines "m1 \<equiv> m\<lparr>m_strs := S, m_groups := G\<rparr>" and "s1 \<equiv> s\<lparr>hs_items := items\<rparr>"
  shows "the_store m1 s1 = (the_store m s)\<lparr>gs_items := gs_items (the_store m s) @ [the_group S n]\<rparr>"
    "within_rights m s m1 s1"
    "within_rights m s m1 (s1\<lparr>hs_items := shorten (slice_len items - 1) items\<rparr>)"
    "the_store m1 (s1\<lparr>hs_items := shorten (slice_len items - 1) items\<rparr>) = the_store m s"
proof -
  have v: "valid_slice (m_groups m) (hs_items s)" using wf by (simp add: store_wf_def)
  note p = append_slice_props [OF a v]
  have len: "slice_len items = Suc (length (the_items m s))"
    using valid_slice_len [OF p(2)] by (simp add: p(1) the_items_def)
  have it: "the_items m1 s1 = the_items m s @ [n]" using p(1) by (simp add: the_items_def m1_def s1_def)
  have vals: "map (the_group S) (the_items m s) = map (the_group (m_strs m)) (the_items m s)"
    using wf by (auto simp: store_wf_def intro!: allocated_group [OF S])
  have ok: "\<forall>g \<in> set (the_items m s). valid_hgroup S g" using wf by (auto simp: store_wf_def intro: allocated_group [OF S])
  show "the_store m1 s1 = (the_store m s)\<lparr>gs_items := gs_items (the_store m s) @ [the_group S n]\<rparr>"
    using vals by (simp add: the_store_def it) (simp add: m1_def s1_def)
  show "within_rights m s m1 s1"
    using ok n p(2-4) S by (auto simp: within_rights_def store_wf_def strs_at_def it) (auto simp: m1_def s1_def)
  note sh = shorten_props [OF p(2), of "slice_len items - 1", simplified]
  have it': "the_items m1 (s1\<lparr>hs_items := shorten (slice_len items - 1) items\<rparr>) = the_items m s"
    using sh(1) p(1) len by (simp add: m1_def s1_def the_items_def)
  show "the_store m1 (s1\<lparr>hs_items := shorten (slice_len items - 1) items\<rparr>) = the_store m s"
    using vals unfolding the_store_def it' by (simp add: m1_def s1_def)
  show "within_rights m s m1 (s1\<lparr>hs_items := shorten (slice_len items - 1) items\<rparr>)"
    using ok p(3,4) sh(2,3) S unfolding within_rights_def store_wf_def strs_at_def it' by (simp add: m1_def s1_def)
qed

text \<open>A slot written in place.\<close>

lemma items_set:
  assumes wf: "store_wf m s" and S: "written {} (m_strs m) S" and i: "i < length (the_items m s)"
    and n: "valid_hgroup S n" "hgroup_at n \<subseteq> strs_at m s \<union> {length (m_strs m) ..}"
  defines "m1 \<equiv> m\<lparr>m_strs := S, m_groups := set_elem (hs_items s) i n (m_groups m)\<rparr>"
  shows "the_items m1 s = (the_items m s)[i := n]"
    "the_store m1 s = (the_store m s)\<lparr>gs_items := (gs_items (the_store m s))[i := the_group S n]\<rparr>"
    "within_rights m s m1 s"
proof -
  have v: "valid_slice (m_groups m) (hs_items s)" using wf by (simp add: store_wf_def)
  then have il: "i < slice_len (hs_items s)" using i valid_slice_len [OF v] by (simp add: the_items_def)
  note p = set_elem_props [OF v il]
  show it: "the_items m1 s = (the_items m s)[i := n]" using p(1) by (simp add: the_items_def m1_def)
  have vals: "map (the_group S) (the_items m s) = map (the_group (m_strs m)) (the_items m s)"
    using wf by (auto simp: store_wf_def intro!: allocated_group [OF S])
  show "the_store m1 s = (the_store m s)\<lparr>gs_items := (gs_items (the_store m s))[i := the_group S n]\<rparr>"
    unfolding the_store_def it map_update by (simp add: vals m1_def del: map_eq_conv)
  have ok: "\<forall>g \<in> set (the_items m1 s). valid_hgroup S g"
    using wf n(1) set_update_subset_insert [of "the_items m s" i n]
    by (auto simp: store_wf_def it intro: allocated_group [OF S])
  moreover have "strs_at m1 s \<subseteq> strs_at m s \<union> {length (m_strs m) ..}"
    using set_update_subset_insert [of "the_items m s" i n] n(2) by (fastforce simp: strs_at_def it)
  ultimately show "within_rights m s m1 s"
    using p(2) S written_valid [OF p(2) v] by (auto simp: within_rights_def store_wf_def) (auto simp: m1_def)
qed

text \<open>After the change: the save and, when it succeeds, the copy of the result that is returned.\<close>

definition handed_out :: "memory \<Rightarrow> memory \<Rightarrow> heap_store \<Rightarrow> nat set \<Rightarrow> bool" where
  "handed_out m m' s' A \<longleftrightarrow> A \<subseteq> {length (m_strs m) ..< length (m_strs m')} \<and> strs_at m' s' \<inter> A = {}"

definition fresh_result :: "memory \<Rightarrow> memory \<Rightarrow> heap_store \<Rightarrow> store_error + hgroup \<Rightarrow> bool" where
  "fresh_result m m' s' r \<longleftrightarrow>
     (case r of Inl e \<Rightarrow> True | Inr g \<Rightarrow> valid_hgroup (m_strs m') g \<and> handed_out m m' s' (hgroup_at g))"

lemma store_wf_strs: "store_wf m s \<Longrightarrow> strs_at m s \<subseteq> {..< length (m_strs m)}"
  using valid_hgroup_at by (fastforce simp: store_wf_def strs_at_def)

lemma handed_out_copy:
  assumes w: "within_rights m s m1 s1" and S: "written {} (m_strs m1) S" and A: "A \<subseteq> {length (m_strs m1) ..< length S}"
  shows "handed_out m (m1\<lparr>m_strs := S\<rparr>) s1 A"
proof -
  have wf: "store_wf m1 s1" and len: "length (m_strs m) \<le> length (m_strs m1)"
    using w by (simp_all add: within_rights_def written_def)
  have "strs_at (m1\<lparr>m_strs := S\<rparr>) s1 = strs_at m1 s1" by (simp add: strs_at_def the_items_def)
  with store_wf_strs [OF wf] A len show ?thesis by (fastforce simp: handed_out_def)
qed

lemma copy_result:
  assumes w: "within_rights m s m1 s1" and c: "heap_cloneGroup grow n (m_strs m1) = (r, S)" and n: "valid_hgroup (m_strs m1) n"
  shows "the_group S r = the_group (m_strs m1) n" "the_store (m1\<lparr>m_strs := S\<rparr>) s1 = the_store m1 s1"
    "within_rights m s (m1\<lparr>m_strs := S\<rparr>) s1" "fresh_result m (m1\<lparr>m_strs := S\<rparr>) s1 (Inr r)"
proof -
  note p = heap_cloneGroup_props [OF c n]
  have wf: "store_wf m1 s1" using w by (simp add: within_rights_def)
  show "the_group S r = the_group (m_strs m1) n" by (rule p(1))
  show "the_store (m1\<lparr>m_strs := S\<rparr>) s1 = the_store m1 s1" by (rule store_wf_allocated [OF wf p(3)])
  show "within_rights m s (m1\<lparr>m_strs := S\<rparr>) s1" by (rule within_rights_trans [OF w store_wf_allocated(3) [OF wf p(3)]])
  show "fresh_result m (m1\<lparr>m_strs := S\<rparr>) s1 (Inr r)"
    using p(2,4) valid_hgroup_at [OF p(2)] by (fastforce simp: fresh_result_def intro: handed_out_copy [OF w p(3)])
qed

lemma heap_Create_sim:
  assumes wf: "store_wf m s" and g: "valid_hgroup (m_strs m) g"
  shows "case heap_Create uf grow io rnd g s m fs of
      None \<Rightarrow> groups_Create uf io rnd (the_group (m_strs m) g) (the_store m s) fs = None
    | Some (r, s', m', fs') \<Rightarrow>
        groups_Create uf io rnd (the_group (m_strs m) g) (the_store m s) fs =
          Some (map_sum id (the_group (m_strs m')) r, the_store m' s', fs') \<and>
        within_rights m s m' s' \<and> fresh_result m m' s' r"
proof -
  obtain nr S where nrm: "heap_Normalize grow g (m_strs m) = (nr, S)" by fastforce
  note pn = heap_Normalize_props [OF nrm g]
  let ?m0 = "m\<lparr>m_strs := S\<rparr>"
  note al = store_wf_allocated [OF wf pn(1)]
  show ?thesis
  proof (cases "Normalize (the_group (m_strs m) g)")
    case (Inl e)
    with pn nrm al show ?thesis by (simp add: heap_Create_def groups_Create_def fresh_result_def)
  next
    case (Inr n)
    with pn(2) obtain n' where n: "nr = Inr n'" "the_group S n' = n" "valid_hgroup S n'" "hgroup_at n' \<subseteq> {length (m_strs m) ..}"
      by auto
    have nm: "hg_Name n' = g_Name n" using n(2) by (auto simp: the_group_def)
    show ?thesis
    proof (cases "nameTakenLocked uf (the_store m s) (g_Name n) [] \<or> (\<nexists>gid. freshIDLocked (map hg_ID (the_items m s)) rnd 0 = Some (Inr gid))")
      case True
      with Inr n(1) nm nrm al show ?thesis
        by (auto simp: heap_Create_def groups_Create_def fresh_result_def Let_def split: option.splits sum.splits)
    next
      case False
      then obtain gid where free: "\<not> nameTakenLocked uf (the_store m s) (g_Name n) []"
        and gid: "freshIDLocked (map hg_ID (the_items m s)) rnd 0 = Some (Inr gid)" by auto
      let ?n = "n'\<lparr>hg_ID := gid\<rparr>"
      obtain items G where a: "append_slice grow zero_hgroup [?n] (hs_items s) (m_groups m) = (items, G)" by fastforce
      let ?s1 = "s\<lparr>hs_items := items\<rparr>" and ?m1 = "m\<lparr>m_strs := S, m_groups := G\<rparr>"
      obtain p m2 where per: "heap_persistLocked grow io ?s1 ?m1 fs = (p, m2)" by fastforce
      have nv: "valid_hgroup S ?n" "hgroup_at ?n \<subseteq> {length (m_strs m) ..}" using n by simp_all
      note ia = items_append [OF wf pn(1) a nv]
      have wf1: "store_wf ?m1 ?s1" using ia(2) by (simp add: within_rights_def)
      obtain S2 where m2: "m2 = ?m1\<lparr>m_strs := S2\<rparr>" and S2: "written {} S S2" using heap_persistLocked_props(2) [OF per wf1] by auto
      note p = heap_persistLocked_props(1) [OF per wf1]
      note al1 = store_wf_allocated [OF wf1, of S2, simplified, OF S2]
      show ?thesis
      proof (cases "fst p")
        case (Some e)
        let ?s2 = "s\<lparr>hs_items := shorten (slice_len items - 1) items\<rparr>"
        have wf2: "store_wf ?m1 ?s2" using ia(3) by (simp add: within_rights_def)
        note al2 = store_wf_allocated [OF wf2, of S2, simplified, OF S2]
        have "within_rights m s m2 ?s2" unfolding m2 using within_rights_trans [OF ia(3) [simplified] al2(3)] by simp
        then show ?thesis
          using Some Inr n free gid nm nrm al a per p ia(1,4) al2
          by (simp add: heap_Create_def groups_Create_def fresh_result_def Let_def m2)
      next
        case None
        obtain r S3 where c: "heap_cloneGroup grow ?n S2 = (r, S3)" by fastforce
        have wr: "within_rights m s m2 ?s1" unfolding m2 using within_rights_trans [OF ia(2) al1(3)] by simp
        have v: "valid_hgroup (m_strs m2) ?n" using allocated_group(1) [OF S2 nv(1)] by (simp add: m2)
        have val: "the_group S2 ?n = the_group S ?n" using allocated_group(2) [OF S2 nv(1)] by simp
        note cr = copy_result [OF wr, of grow ?n r S3, OF _ v, simplified m2, simplified, OF c]
        show ?thesis
          using None Inr n free gid nm nrm al a per p ia(1) al1 c cr val
          by (simp add: heap_Create_def groups_Create_def Let_def m2)
      qed
    qed
  qed
qed

lemma heap_Update_sim:
  assumes wf: "store_wf m s" and g: "valid_hgroup (m_strs m) g"
    and res: "heap_Update uf grow io gid g s m fs = (r, s', m', fs')"
  shows "groups_Update uf io gid (the_group (m_strs m) g) (the_store m s) fs =
      (map_sum id (the_group (m_strs m')) r, the_store m' s', fs')"
    "within_rights m s m' s' \<and> fresh_result m m' s' r"
proof -
  obtain nr S where nrm: "heap_Normalize grow g (m_strs m) = (nr, S)" by fastforce
  note pn = heap_Normalize_props [OF nrm g]
  note al = store_wf_allocated [OF wf pn(1)]
  have "groups_Update uf io gid (the_group (m_strs m) g) (the_store m s) fs =
      (map_sum id (the_group (m_strs m')) r, the_store m' s', fs') \<and>
    within_rights m s m' s' \<and> fresh_result m m' s' r"
  proof (cases "Normalize (the_group (m_strs m) g)")
    case (Inl e)
    with pn nrm al res show ?thesis by (auto simp: heap_Update_def groups_Update_def fresh_result_def)
  next
    case (Inr n)
    with pn(2) obtain n' where n: "nr = Inr n'" "the_group S n' = n" "valid_hgroup S n'" "hgroup_at n' \<subseteq> {length (m_strs m) ..}"
      by auto
    have nm: "hg_Name n' = g_Name n" using n(2) by (auto simp: the_group_def)
    show ?thesis
    proof (cases "groups_indexOfLocked (the_store m s) gid = None \<or> nameTakenLocked uf (the_store m s) (g_Name n) gid")
      case True
      with Inr n(1) nm nrm al res show ?thesis
        by (auto simp: heap_Update_def groups_Update_def fresh_result_def Let_def split: option.splits if_splits)
    next
      case False
      then obtain idx where idx: "groups_indexOfLocked (the_store m s) gid = Some idx"
        and free: "\<not> nameTakenLocked uf (the_store m s) (g_Name n) gid" by auto
      have il: "idx < length (the_items m s)"
        using groups_indexOfLocked_SomeD [OF idx] by (simp add: the_store_def)
      let ?n = "n'\<lparr>hg_ID := gid\<rparr>" and ?old = "the_items m s ! idx"
      let ?m1 = "m\<lparr>m_strs := S, m_groups := set_elem (hs_items s) idx ?n (m_groups m)\<rparr>"
      obtain p m2 where per: "heap_persistLocked grow io s ?m1 fs = (p, m2)" by fastforce
      have nv: "valid_hgroup S ?n" "hgroup_at ?n \<subseteq> strs_at m s \<union> {length (m_strs m) ..}" using n by auto
      note si = items_set [OF wf pn(1) il nv]
      have wf1: "store_wf ?m1 s" using si(3) by (simp add: within_rights_def)
      obtain S2 where m2: "m2 = ?m1\<lparr>m_strs := S2\<rparr>" and S2: "written {} S S2" using heap_persistLocked_props(2) [OF per wf1] by auto
      note p = heap_persistLocked_props(1) [OF per wf1]
      note al1 = store_wf_allocated [OF wf1, of S2, simplified, OF S2]
      have S02: "written {} (m_strs m) S2" using pn(1) S2 by (rule allocated_trans)
      have wr: "within_rights m s m2 s" unfolding m2 using within_rights_trans [OF si(3) al1(3)] by simp
      show ?thesis
      proof (cases "fst p")
        case (Some e)
        let ?m3 = "m2\<lparr>m_groups := set_elem (hs_items s) idx ?old (m_groups m2)\<rparr>"
        have r: "r = Inl (PlainErr e)" "s' = s" "m' = ?m3" "fs' = save_final p"
          using res Some Inr n(1) nm nrm al idx free per by (auto simp: heap_Update_def Let_def)
        have "?old \<in> set (the_items m s)" using il by simp
        then have ov: "valid_hgroup S2 ?old" "hgroup_at ?old \<subseteq> strs_at m s \<union> {length (m_strs m) ..}"
          using wf by (auto simp: store_wf_def strs_at_def intro: allocated_group [OF S02])
        have m3: "?m3 = m\<lparr>m_strs := S2, m_groups := set_elem (hs_items s) idx ?old (m_groups m)\<rparr>"
          by (simp add: m2 set_elem_twice)
        have old: "the_group S2 ?old = gs_items (the_store m s) ! idx"
          using \<open>?old \<in> _\<close> wf il by (auto simp: the_store_def store_wf_def intro!: allocated_group [OF S02])
        note restored = items_set [OF wf S02 il ov, folded m3]
        show ?thesis
          using r Some Inr n(2) idx free p si(2) restored old
          by (simp add: groups_Update_def Let_def fresh_result_def)
      next
        case None
        obtain r' S3 where c: "heap_cloneGroup grow ?n S2 = (r', S3)" by fastforce
        have r: "r = Inr r'" "s' = s" "m' = m2\<lparr>m_strs := S3\<rparr>" "fs' = save_final p"
          using res None Inr n(1) nm nrm al idx free per c by (auto simp: heap_Update_def Let_def m2)
        have v: "valid_hgroup (m_strs m2) ?n" using allocated_group(1) [OF S2 nv(1)] by (simp add: m2)
        have val: "the_group S2 ?n = the_group S ?n" using allocated_group(2) [OF S2 nv(1)] by simp
        note cr = copy_result [OF wr, of grow ?n r' S3, OF _ v, simplified m2, simplified, OF c]
        show ?thesis
          using r None Inr n(2) idx free p si(2) al1 cr val
          by (simp add: groups_Update_def Let_def m2)
      qed
    qed
  qed
  then show "groups_Update uf io gid (the_group (m_strs m) g) (the_store m s) fs =
      (map_sum id (the_group (m_strs m')) r, the_store m' s', fs')"
    "within_rights m s m' s' \<and> fresh_result m m' s' r" by blast+
qed

lemma heap_Delete_sim:
  assumes wf: "store_wf m s" and res: "heap_Delete grow io gid s m fs = (r, s', m', fs')"
  shows "groups_Delete io gid (the_store m s) fs = (r, the_store m' s', fs')" "within_rights m s m' s'"
proof -
  have v: "valid_slice (m_groups m) (hs_items s)" using wf by (simp add: store_wf_def)
  have "groups_Delete io gid (the_store m s) fs = (r, the_store m' s', fs') \<and> within_rights m s m' s'"
  proof (cases "groups_indexOfLocked (the_store m s) gid")
    case None
    with res wf show ?thesis by (auto simp: heap_Delete_def groups_Delete_def within_rights_def)
  next
    case (Some idx)
    obtain n0 G0 where d0: "make_slice zero_hgroup (slice_len (hs_items s) - 1) (m_groups m) = (n0, G0)" by fastforce
    note p0 = make_slice_props [OF d0]
    obtain n1 G1 where d1: "append_slice grow zero_hgroup (take idx (cells G0 (hs_items s))) n0 G0 = (n1, G1)" by fastforce
    note p1 = append_slice_props [OF d1 p0(2)]
    obtain n2 G2 where d2: "append_slice grow zero_hgroup (drop (Suc idx) (cells G1 (hs_items s))) n1 G1 = (n2, G2)" by fastforce
    note p2 = append_slice_props [OF d2 p1(2)]
    have len: "length (m_groups m) \<le> length G0" "length G0 \<le> length G1" using p0(3) p1(3) by (simp_all add: written_def)
    have w1: "written {} (m_groups m) G1" by (rule written_trans [OF p0(3) p1(3)]) (use p0(4) in auto)
    have w2: "written {} (m_groups m) G2" by (rule written_trans [OF w1 p2(3)]) (use p0(4) p1(4) len in fastforce)
    have at2: "slice_at n2 \<subseteq> {length (m_groups m) ..}" using p0(4) p1(4) p2(4) len by fastforce
    have "cells G0 (hs_items s) = the_items m s" "cells G1 (hs_items s) = the_items m s"
      using written_cells [OF p0(3) v] written_cells [OF w1 v] by (simp_all add: the_items_def)
    then have c2: "cells G2 n2 = remove_at idx (the_items m s)" using p0(1) p1(1) p2(1) by (simp add: remove_at_def)
    let ?s1 = "s\<lparr>hs_items := n2\<rparr>" and ?m1 = "m\<lparr>m_groups := G2\<rparr>"
    have it: "the_items ?m1 ?s1 = remove_at idx (the_items m s)" by (simp add: the_items_def c2)
    have wr1: "within_rights m s ?m1 ?s1"
      using wf p2(2) at2 written_mono [OF w2] set_remove_at_subset [of idx "the_items m s"]
      unfolding within_rights_def store_wf_def strs_at_def it by auto
    have ito: "the_items ?m1 s = the_items m s" using written_cells [OF w2 v] by (simp add: the_items_def)
    have wro: "within_rights m s ?m1 s"
      using wf written_valid [OF w2 v] written_mono [OF w2]
      unfolding within_rights_def store_wf_def strs_at_def ito by auto
    have st: "the_store ?m1 ?s1 = (the_store m s)\<lparr>gs_items := remove_at idx (gs_items (the_store m s))\<rparr>"
      by (simp add: the_store_def it map_remove_at)
    obtain p m2 where per: "heap_persistLocked grow io ?s1 ?m1 fs = (p, m2)" by fastforce
    have wf1: "store_wf ?m1 ?s1" "store_wf ?m1 s" using wr1 wro by (simp_all add: within_rights_def)
    obtain S2 where m2: "m2 = ?m1\<lparr>m_strs := S2\<rparr>" and S2: "written {} (m_strs ?m1) S2"
      using heap_persistLocked_props(2) [OF per wf1(1)] by auto
    note p = heap_persistLocked_props(1) [OF per wf1(1)]
    note al1 = store_wf_allocated [OF wf1(1) S2, folded m2] and al2 = store_wf_allocated [OF wf1(2) S2, folded m2]
    have sto: "the_store ?m1 s = the_store m s" by (simp add: the_store_def ito)
    have "within_rights m s m2 ?s1" "within_rights m s m2 s"
      using within_rights_trans [OF wr1 al1(3)] within_rights_trans [OF wro al2(3)] by simp_all
    then show ?thesis
      using res Some d0 d1 d2 per p st sto al1(2) al2(2)
      by (auto simp: heap_Delete_def groups_Delete_def Let_def split: option.splits)
  qed
  then show "groups_Delete io gid (the_store m s) fs = (r, the_store m' s', fs')" "within_rights m s m' s'" by blast+
qed

lemma heap_Get_sim:
  assumes wf: "store_wf m s" and res: "heap_Get grow gid s m = (r, m')"
  shows "groups_Get (the_store m s) gid = map_option (the_group (m_strs m')) r" "the_store m' s = the_store m s"
    "within_rights m s m' s" "m_groups m' = m_groups m" "\<And>g. r = Some g \<Longrightarrow> valid_hgroup (m_strs m') g \<and> handed_out m m' s (hgroup_at g)"
proof -
  have "groups_Get (the_store m s) gid = map_option (the_group (m_strs m')) r \<and> the_store m' s = the_store m s \<and>
    within_rights m s m' s \<and> m_groups m' = m_groups m \<and> (\<forall>g. r = Some g \<longrightarrow> valid_hgroup (m_strs m') g \<and> handed_out m m' s (hgroup_at g))"
  proof (cases "groups_indexOfLocked (the_store m s) gid")
    case None
    with res wf show ?thesis by (auto simp: heap_Get_def groups_Get_def within_rights_def)
  next
    case (Some i)
    have i: "i < length (the_items m s)" using groups_indexOfLocked_SomeD [OF Some] by (simp add: the_store_def)
    then have v: "valid_hgroup (m_strs m) (the_items m s ! i)" using wf by (simp add: store_wf_def)
    obtain g S where c: "heap_cloneGroup grow (the_items m s ! i) (m_strs m) = (g, S)" by fastforce
    note p = heap_cloneGroup_props [OF c v]
    note al = store_wf_allocated [OF wf p(3)]
    have "within_rights m s m s" using wf by (simp add: within_rights_def)
    then have "handed_out m (m\<lparr>m_strs := S\<rparr>) s (hgroup_at g)"
      by (rule handed_out_copy [OF _ p(3)]) (use p(4) valid_hgroup_at [OF p(2)] in fastforce)
    then show ?thesis using res Some c p al i by (auto simp: heap_Get_def groups_Get_def the_store_def)
  qed
  then show "groups_Get (the_store m s) gid = map_option (the_group (m_strs m')) r" "the_store m' s = the_store m s"
    "within_rights m s m' s" "m_groups m' = m_groups m" "\<And>g. r = Some g \<Longrightarrow> valid_hgroup (m_strs m') g \<and> handed_out m m' s (hgroup_at g)"
    by blast+
qed

lemma heap_List_sim:
  assumes wf: "store_wf m s" and res: "heap_List grow s m = (out, m')"
  shows "map (the_group (m_strs m')) (cells (m_groups m') out) = groups_List (the_store m s)" "the_store m' s = the_store m s"
    "within_rights m s m' s" "valid_slice (m_groups m') out" "slice_at out \<subseteq> {length (m_groups m) ..}"
    "\<forall>g \<in> backing (m_groups m') out. valid_hgroup (m_strs m') g"
    "handed_out m m' s (\<Union>g \<in> backing (m_groups m') out. hgroup_at g)"
proof -
  have c: "heap_cloneGroups grow (the_items m s) m = (out, m')" using res by (simp add: heap_List_def)
  have v: "\<forall>g \<in> set (the_items m s). valid_hgroup (m_strs m) g" "valid_slice (m_groups m) (hs_items s)"
    using wf by (simp_all add: store_wf_def)
  note p = heap_cloneGroups_props [OF c v(1)]
  have it: "the_items m' s = the_items m s" using written_cells [OF p(2) v(2)] by (simp add: the_items_def)
  show "map (the_group (m_strs m')) (cells (m_groups m') out) = groups_List (the_store m s)"
    using p(6) by (simp add: groups_List_def the_store_def)
  show "the_store m' s = the_store m s" using v(1) by (auto simp: the_store_def it intro!: allocated_group [OF p(1)])
  show "within_rights m s m' s"
    using v p(1) written_mono [OF p(2)] written_valid [OF p(2)]
    by (auto simp: within_rights_def store_wf_def strs_at_def it intro: allocated_group [OF p(1)])
  show "valid_slice (m_groups m') out" "slice_at out \<subseteq> {length (m_groups m) ..}"
    "\<forall>g \<in> backing (m_groups m') out. valid_hgroup (m_strs m') g" using p(3-5) by simp_all
  have "strs_at m' s = strs_at m s" by (simp add: strs_at_def it)
  then show "handed_out m m' s (\<Union>g \<in> backing (m_groups m') out. hgroup_at g)"
    using p(5) valid_hgroup_at store_wf_strs [OF wf] by (fastforce simp: handed_out_def)
qed

lemma heap_decoded_props:
  assumes "heap_decoded grow ps S = (gs, S')"
  shows "written {} S S' \<and> (\<forall>g \<in> set gs. valid_hgroup S' g) \<and> map (the_group S') gs = ps"
  using assms
proof (induction ps arbitrary: S gs)
  case Nil
  then show ?case by simp
next
  case (Cons p ps)
  obtain c S1 where c: "append_slice grow [] (g_Consumers p) NilSlice S = (c, S1)" by fastforce
  obtain a S2 where a: "append_slice grow [] (g_AllowedExitNodes p) NilSlice S1 = (a, S2)" by fastforce
  obtain hs where r: "heap_decoded grow ps S2 = (hs, S')"
      "gs = \<lparr>hg_ID = g_ID p, hg_Name = g_Name p, hg_Consumers = c, hg_AllowedExitNodes = a\<rparr> # hs"
    using Cons.prems c a by (auto simp: Let_def split: prod.splits simp del: append_slice.simps)
  note ih = Cons.IH [OF r(1)] and pc = append_nil_props [OF c] and pa = append_nil_props [OF a]
  have w: "written {} S1 S'" using pa(3) ih by (blast intro: allocated_trans)
  show ?case
    using ih pc pa w written_cells [OF w pc(2)] written_valid [OF w pc(2)] written_cells [OF _ pa(2), of "{}" S']
      written_valid [OF _ pa(2), of "{}" S'] allocated_trans [OF pc(3) w]
    by (simp add: r(2) the_group_def valid_hgroup_def)
qed

lemma heap_New_sim:
  assumes "heap_New uf grow fault fs path = Inr (s, m)"
  shows "groups_New uf fault fs path = Inr (the_store m s)" "store_wf m s"
proof -
  have "groups_New uf fault fs path = Inr (the_store m s) \<and> store_wf m s"
  proof (cases "\<exists>doc ps. ReadFile fault fs path = ReadOK (Some doc) \<and> groups_dec uf doc = Some ps")
    case False
    with assms show ?thesis
      by (auto simp: heap_New_def groups_New_def groups_load_def the_store_def the_items_def store_wf_def
          split: read_result.splits option.splits)
  next
    case True
    then obtain doc ps where rd: "ReadFile fault fs path = ReadOK (Some doc)" "groups_dec uf doc = Some ps" by auto
    obtain gs S where d: "heap_decoded grow ps [] = (gs, S)" by fastforce
    obtain items m1 where c: "heap_cloneGroups grow gs \<lparr>m_strs = S, m_groups = []\<rparr> = (items, m1)" by fastforce
    note pd = heap_decoded_props [OF d]
    then have "\<forall>g \<in> set gs. valid_hgroup (m_strs \<lparr>m_strs = S, m_groups = []\<rparr>) g" by simp
    note p = heap_cloneGroups_props [OF c this]
    have r: "s = \<lparr>hs_path = path, hs_items = items\<rparr>" "m = m1" using assms rd d c by (simp_all add: heap_New_def)
    show ?thesis
      using rd p pd cells_backing [of "m_groups m1" items]
      by (auto simp: r groups_New_def groups_load_def the_store_def the_items_def store_wf_def)
  qed
  then show "groups_New uf fault fs path = Inr (the_store m s)" "store_wf m s" by blast+
qed

end
