(* ===== verification/Group_Aliasing.thy ===== *)
theory Group_Aliasing
  imports Group_Memory
begin

section \<open>The zone store hands out independent copies\<close>

text \<open>
  The type \<^verbatim>\<open>Store\<close> of \<^verbatim>\<open>internal/groups/groups.go\<close> documents that its accessors return independent copies and that its
  slice is never aliased out; this theory proves it. Every caller may write, at any time, every cell of every array
  it can reach: those it allocated and those behind the values a call returned. The store's contents change
  through its own operations only, and these never change a value a caller holds. The invariant is that no array is
  reached by both sides.
\<close>

subsection \<open>Callers that write what they hold\<close>

text \<open>
  The world is the memory, the store, the disk, and what the callers can reach: the addresses of the arrays of
  strings and of groups they allocated or received. A caller holds a group when it can reach the
  group's member lists. \<open>caller_step\<close> is anything a caller does without calling the store: it allocates, or
  writes any cell of an array it reaches (an \<^verbatim>\<open>append\<close> within the capacity is such a write).
  \<open>store_call\<close> is a call of the store; what it returns is reachable from then on. The groups passed in come from
  decoded JSON, so that their strings are valid UTF-8.
\<close>

record world =
  w_mem :: memory
  w_store :: heap_store
  w_files :: files
  w_strs :: "nat set"
  w_groups :: "nat set"

definition holds_group :: "world \<Rightarrow> hgroup \<Rightarrow> bool" where
  "holds_group w g \<longleftrightarrow> valid_hgroup (m_strs (w_mem w)) g \<and> hgroup_at g \<subseteq> w_strs w"

inductive caller_step :: "world \<Rightarrow> world \<Rightarrow> bool" where
  new_strings: "caller_step w (w\<lparr>w_mem := (w_mem w)\<lparr>m_strs := m_strs (w_mem w) @ [xs]\<rparr>,
    w_strs := insert (length (m_strs (w_mem w))) (w_strs w)\<rparr>)"
| new_groups: "\<forall>g \<in> set gs. holds_group w g \<Longrightarrow>
    caller_step w (w\<lparr>w_mem := (w_mem w)\<lparr>m_groups := m_groups (w_mem w) @ [gs]\<rparr>,
      w_groups := insert (length (m_groups (w_mem w))) (w_groups w)\<rparr>)"
| write_string: "a \<in> w_strs w \<Longrightarrow> i < length (m_strs (w_mem w) ! a) \<Longrightarrow>
    caller_step w (w\<lparr>w_mem := (w_mem w)\<lparr>m_strs := (m_strs (w_mem w))[a := (m_strs (w_mem w) ! a)[i := x]]\<rparr>\<rparr>)"
| write_group: "a \<in> w_groups w \<Longrightarrow> i < length (m_groups (w_mem w) ! a) \<Longrightarrow> holds_group w g \<Longrightarrow>
    caller_step w (w\<lparr>w_mem := (w_mem w)\<lparr>m_groups := (m_groups (w_mem w))[a := (m_groups (w_mem w) ! a)[i := g]]\<rparr>\<rparr>)"

definition result_at :: "store_error + hgroup \<Rightarrow> nat set" where
  "result_at r = (case r of Inl e \<Rightarrow> {} | Inr g \<Rightarrow> hgroup_at g)"

inductive store_call :: "(nat \<Rightarrow> nat) \<Rightarrow> (nat \<Rightarrow> nat) \<Rightarrow> world \<Rightarrow> world \<Rightarrow> bool" for uf grow where
  call_List: "heap_List grow (w_store w) (w_mem w) = (out, m) \<Longrightarrow>
    store_call uf grow w (w\<lparr>w_mem := m, w_strs := w_strs w \<union> (\<Union>g \<in> backing (m_groups m) out. hgroup_at g),
      w_groups := w_groups w \<union> slice_at out\<rparr>)"
| call_Get: "heap_Get grow gid (w_store w) (w_mem w) = (r, m) \<Longrightarrow>
    store_call uf grow w (w\<lparr>w_mem := m, w_strs := w_strs w \<union> (\<Union>g \<in> set_option r. hgroup_at g)\<rparr>)"
| call_Create: "holds_group w g \<Longrightarrow> op_input_ok (OpCreate io rnd (the_group (m_strs (w_mem w)) g)) \<Longrightarrow>
    fresh_tmp io (hs_path (w_store w)) (w_files w) \<Longrightarrow>
    heap_Create uf grow io rnd g (w_store w) (w_mem w) (w_files w) = Some (r, s, m, fs) \<Longrightarrow>
    store_call uf grow w (w\<lparr>w_mem := m, w_store := s, w_files := fs, w_strs := w_strs w \<union> result_at r\<rparr>)"
| call_Update: "holds_group w g \<Longrightarrow> op_input_ok (OpUpdate io gid (the_group (m_strs (w_mem w)) g)) \<Longrightarrow>
    fresh_tmp io (hs_path (w_store w)) (w_files w) \<Longrightarrow>
    heap_Update uf grow io gid g (w_store w) (w_mem w) (w_files w) = (r, s, m, fs) \<Longrightarrow>
    store_call uf grow w (w\<lparr>w_mem := m, w_store := s, w_files := fs, w_strs := w_strs w \<union> result_at r\<rparr>)"
| call_Delete: "fresh_tmp io (hs_path (w_store w)) (w_files w) \<Longrightarrow>
    heap_Delete grow io gid (w_store w) (w_mem w) (w_files w) = (e, s, m, fs) \<Longrightarrow>
    store_call uf grow w (w\<lparr>w_mem := m, w_store := s, w_files := fs\<rparr>)"

text \<open>A process is started on what any earlier ones left on the disk, its callers reaching nothing yet.\<close>

inductive zone_world :: "(nat \<Rightarrow> nat) \<Rightarrow> (nat \<Rightarrow> nat) \<Rightarrow> string \<Rightarrow> world \<Rightarrow> bool" for uf grow path where
  boot: "groups_reachable uf path s0 fs \<Longrightarrow> heap_New uf grow None fs path = Inr (s, m) \<Longrightarrow>
    zone_world uf grow path \<lparr>w_mem = m, w_store = s, w_files = fs, w_strs = {}, w_groups = {}\<rparr>"
| caller: "zone_world uf grow path w \<Longrightarrow> caller_step w w' \<Longrightarrow> zone_world uf grow path w'"
| call: "zone_world uf grow path w \<Longrightarrow> store_call uf grow w w' \<Longrightarrow> zone_world uf grow path w'"

abbreviation world_store :: "world \<Rightarrow> GroupsStore" where
  "world_store w \<equiv> the_store (w_mem w) (w_store w)"

text \<open>
  The separation invariant: the store is well-formed, what the callers reach is closed under reading, and no array
  is reached by both sides.
\<close>

definition separated :: "world \<Rightarrow> bool" where
  "separated w \<longleftrightarrow> store_wf (w_mem w) (w_store w) \<and>
     w_strs w \<subseteq> {..< length (m_strs (w_mem w))} \<and>
     (\<forall>a \<in> w_groups w. a < length (m_groups (w_mem w)) \<and> (\<forall>g \<in> set (m_groups (w_mem w) ! a). holds_group w g)) \<and>
     slice_at (hs_items (w_store w)) \<inter> w_groups w = {} \<and> strs_at (w_mem w) (w_store w) \<inter> w_strs w = {}"

lemma separatedD:
  assumes "separated w"
  shows "store_wf (w_mem w) (w_store w)" "w_strs w \<subseteq> {..< length (m_strs (w_mem w))}"
    "\<And>a. a \<in> w_groups w \<Longrightarrow> a < length (m_groups (w_mem w))"
    "\<And>a g. a \<in> w_groups w \<Longrightarrow> g \<in> set (m_groups (w_mem w) ! a) \<Longrightarrow> holds_group w g"
    "slice_at (hs_items (w_store w)) \<inter> w_groups w = {}" "strs_at (w_mem w) (w_store w) \<inter> w_strs w = {}"
  using assms by (auto simp: separated_def)

text \<open>What is written on one side is not visible on the other.\<close>

lemma store_unseen:
  assumes wf: "store_wf m s" and G: "written WG (m_groups m) (m_groups m')" "slice_at (hs_items s) \<inter> WG = {}"
    and S: "written WS (m_strs m) (m_strs m')" "strs_at m s \<inter> WS = {}"
  shows "the_items m' s = the_items m s" "the_store m' s = the_store m s" "store_wf m' s" "strs_at m' s = strs_at m s"
proof -
  have v: "valid_slice (m_groups m) (hs_items s)" using wf by (simp add: store_wf_def)
  show it: "the_items m' s = the_items m s" using written_cells [OF G(1) v G(2)] by (simp add: the_items_def)
  have g: "valid_hgroup (m_strs m') g \<and> the_group (m_strs m') g = the_group (m_strs m) g" if "g \<in> set (the_items m s)" for g
  proof -
    have "valid_hgroup (m_strs m) g" "hgroup_at g \<inter> WS = {}" using that wf S(2) by (auto simp: store_wf_def strs_at_def)
    from written_group [OF S(1) this] show ?thesis by simp
  qed
  then show "the_store m' s = the_store m s" by (simp add: the_store_def it)
  show "store_wf m' s" using g written_valid [OF G(1) v] by (simp add: store_wf_def it)
  show "strs_at m' s = strs_at m s" by (simp add: strs_at_def it)
qed

lemma caller_step_written:
  assumes "caller_step w w'"
  shows "w_store w' = w_store w" "w_files w' = w_files w"
    "written (w_strs w) (m_strs (w_mem w)) (m_strs (w_mem w'))" "written (w_groups w) (m_groups (w_mem w)) (m_groups (w_mem w'))"
    "w_strs w' \<subseteq> w_strs w \<union> {length (m_strs (w_mem w)) ..}" "w_groups w' \<subseteq> w_groups w \<union> {length (m_groups (w_mem w)) ..}"
    "w_strs w \<subseteq> w_strs w'"
  by (insert assms) (erule caller_step.cases; auto simp: written_update)+

lemma caller_step_store: "separated w \<Longrightarrow> caller_step w w' \<Longrightarrow> world_store w' = world_store w"
  using store_unseen(2) [OF separatedD(1) caller_step_written(4) separatedD(5) caller_step_written(3) separatedD(6)]
  by (simp add: caller_step_written(1))

lemma holds_group_later:
  assumes "holds_group w g" and "written W (m_strs (w_mem w)) (m_strs (w_mem w'))" and "w_strs w \<subseteq> w_strs w'"
  shows "holds_group w' g"
  using assms by (auto simp: holds_group_def valid_hgroup_def intro: written_valid)

lemma caller_step_separated:
  assumes sep: "separated w" and step: "caller_step w w'"
  shows "separated w'"
proof -
  note d = separatedD [OF sep] and cw = caller_step_written [OF step]
  note un = store_unseen [OF d(1) cw(4) d(5) cw(3) d(6)]
  note st = store_wf_strs [OF d(1)]
  have it: "slice_at (hs_items (w_store w)) \<subseteq> {..< length (m_groups (w_mem w))}"
    using d(1) by (auto simp: store_wf_def dest: valid_slice_at)
  have "w_strs w' \<subseteq> {..< length (m_strs (w_mem w'))}" using step d(2) by cases auto
  moreover have "a < length (m_groups (w_mem w')) \<and> (\<forall>g \<in> set (m_groups (w_mem w') ! a). holds_group w' g)"
    if a: "a \<in> w_groups w'" for a
  proof -
    have "a < length (m_groups (w_mem w')) \<and> (\<forall>g \<in> set (m_groups (w_mem w') ! a). holds_group w g)"
      using step a d(3,4)
      by cases (auto simp: nth_append nth_list_update dest!: set_update_subset_insert [THEN subsetD] split: if_splits)
    then show ?thesis using holds_group_later [OF _ cw(3,7)] by blast
  qed
  moreover have "slice_at (hs_items (w_store w')) \<inter> w_groups w' = {}" using d(5) it cw(6) by (fastforce simp: cw(1))
  moreover have "strs_at (w_mem w') (w_store w') \<inter> w_strs w' = {}" using d(6) st cw(5) by (fastforce simp: cw(1) un(4))
  ultimately show ?thesis using un(3) by (simp add: separated_def cw(1))
qed

text \<open>A call within its rights keeps the sides apart, provided it hands out new arrays only.\<close>

lemma call_separated:
  fixes fs :: files
  assumes sep: "separated w" and wr: "within_rights (w_mem w) (w_store w) m s"
    and S: "handed_out (w_mem w) m s NS"
    and G: "NG \<subseteq> {length (m_groups (w_mem w)) ..} \<inter> {..< length (m_groups m)}" "slice_at (hs_items s) \<inter> NG = {}"
    and N: "\<And>a g. a \<in> NG \<Longrightarrow> g \<in> set (m_groups m ! a) \<Longrightarrow> valid_hgroup (m_strs m) g \<and> hgroup_at g \<subseteq> NS"
  defines "w' \<equiv> w\<lparr>w_mem := m, w_store := s, w_files := fs, w_strs := w_strs w \<union> NS, w_groups := w_groups w \<union> NG\<rparr>"
  shows "separated w' \<and> (\<forall>a \<in> w_strs w. m_strs m ! a = m_strs (w_mem w) ! a) \<and>
    (\<forall>a \<in> w_groups w. m_groups m ! a = m_groups (w_mem w) ! a)"
proof -
  note d = separatedD [OF sep] and r = wr [unfolded within_rights_def]
  have ws: "written {} (m_strs (w_mem w)) (m_strs m)" and wg: "written (slice_at (hs_items (w_store w))) (m_groups (w_mem w)) (m_groups m)"
    using r by simp_all
  have kept_s: "m_strs m ! a = m_strs (w_mem w) ! a" if "a \<in> w_strs w" for a using that ws d(2) by (auto simp: written_def)
  have kept_g: "m_groups m ! a = m_groups (w_mem w) ! a" if "a \<in> w_groups w" for a
    using that wg d(3,5) by (auto simp: written_def)
  have "holds_group w' g" if "holds_group w g" for g
    by (rule holds_group_later [OF that, of "{}"]) (use ws in \<open>auto simp: w'_def\<close>)
  then have "a < length (m_groups m) \<and> (\<forall>g \<in> set (m_groups m ! a). holds_group w' g)" if "a \<in> w_groups w \<union> NG" for a
    using that d(3,4) kept_g wg G(1) N by (fastforce simp: holds_group_def w'_def written_def)
  moreover have "w_strs w \<union> NS \<subseteq> {..< length (m_strs m)}" using d(2) ws S by (fastforce simp: written_def handed_out_def)
  moreover have "slice_at (hs_items s) \<inter> (w_groups w \<union> NG) = {}" using r d(3,5) G(2) by fastforce
  moreover have "strs_at m s \<inter> (w_strs w \<union> NS) = {}" using r d(2,6) S by (fastforce simp: handed_out_def)
  ultimately have "separated w'" using r by (simp add: separated_def w'_def)
  then show ?thesis using kept_s kept_g by blast
qed

lemma store_call_props:
  assumes sep: "separated w" and call: "store_call uf grow w w'"
    and reach: "groups_reachable uf path (world_store w) (w_files w)"
  shows "separated w' \<and> (\<forall>a \<in> w_strs w. m_strs (w_mem w') ! a = m_strs (w_mem w) ! a) \<and>
    (\<forall>a \<in> w_groups w. m_groups (w_mem w') ! a = m_groups (w_mem w) ! a) \<and>
    groups_reachable uf path (world_store w') (w_files w')"
  using call
proof cases
  case (call_List out m)
  note p = heap_List_sim [OF separatedD(1) [OF sep] call_List(2)]
  have at: "slice_at out \<subseteq> {length (m_groups (w_mem w)) ..} \<inter> {..< length (m_groups m)}"
    using p(4,5) by (auto dest: valid_slice_at)
  moreover have "slice_at (hs_items (w_store w)) \<inter> slice_at out = {}"
    using at separatedD(1) [OF sep] by (fastforce simp: store_wf_def dest: valid_slice_at)
  moreover have "valid_hgroup (m_strs m) g \<and> hgroup_at g \<subseteq> (\<Union>g \<in> backing (m_groups m) out. hgroup_at g)"
    if "a \<in> slice_at out" "g \<in> set (m_groups m ! a)" for a g
    using that p(6) by (cases out) auto
  ultimately show ?thesis
    using call_separated [OF sep p(3,7), where NG = "slice_at out" and fs = "w_files w"] reach p(2) by (simp add: call_List(1))
next
  case (call_Get gid r m)
  note p = heap_Get_sim [OF separatedD(1) [OF sep] call_Get(2)]
  have "handed_out (w_mem w) m (w_store w) (\<Union>g \<in> set_option r. hgroup_at g)"
    using p(5) by (cases r) (auto simp: handed_out_def)
  then show ?thesis
    using call_separated [OF sep p(3), where NG = "{}" and fs = "w_files w"] reach p(2) by (simp add: call_Get(1))
next
  case (call_Create g io rnd r s m fs)
  have "valid_hgroup (m_strs (w_mem w)) g" using call_Create(2) by (simp add: holds_group_def)
  from heap_Create_sim [OF separatedD(1) [OF sep] this, where uf = uf and grow = grow and io = io and rnd = rnd and fs = "w_files w"]
  have p: "groups_Create uf io rnd (the_group (m_strs (w_mem w)) g) (world_store w) (w_files w) =
      Some (map_sum id (the_group (m_strs m)) r, the_store m s, fs)"
    "within_rights (w_mem w) (w_store w) m s" "fresh_result (w_mem w) m s r"
    by (simp_all add: call_Create(5))
  have "hs_path (w_store w) = path" using groups_reachable_ok [OF reach] by (simp add: groups_ok_def the_store_def)
  then have "groups_reachable uf path (the_store m s) fs"
    using p(1) call_Create(3,4)
    by (intro groups_life.mutate [OF reach, of "OpCreate io rnd (the_group (m_strs (w_mem w)) g)"]) auto
  moreover have "handed_out (w_mem w) m s (result_at r)"
    using p(3) by (cases r) (auto simp: fresh_result_def handed_out_def result_at_def)
  ultimately show ?thesis using call_separated [OF sep p(2), where NG = "{}" and fs = fs] by (simp add: call_Create(1))
next
  case (call_Update g io gid r s m fs)
  have v: "valid_hgroup (m_strs (w_mem w)) g" using call_Update(2) by (simp add: holds_group_def)
  note p = heap_Update_sim [OF separatedD(1) [OF sep] v call_Update(5)]
  have "hs_path (w_store w) = path" using groups_reachable_ok [OF reach] by (simp add: groups_ok_def the_store_def)
  then have "groups_reachable uf path (the_store m s) fs"
    using p(1) call_Update(3,4)
    by (intro groups_life.mutate [OF reach, of "OpUpdate io gid (the_group (m_strs (w_mem w)) g)"]) auto
  moreover have "handed_out (w_mem w) m s (result_at r)"
    using p(2) by (cases r) (auto simp: fresh_result_def handed_out_def result_at_def)
  ultimately show ?thesis using call_separated [OF sep conjunct1 [OF p(2)], where NG = "{}" and fs = fs] by (simp add: call_Update(1))
next
  case (call_Delete io gid e s m fs)
  note p = heap_Delete_sim [OF separatedD(1) [OF sep] call_Delete(3)]
  have "hs_path (w_store w) = path" using groups_reachable_ok [OF reach] by (simp add: groups_ok_def the_store_def)
  then have "groups_reachable uf path (the_store m s) fs"
    using p(1) call_Delete(2) by (intro groups_life.mutate [OF reach, of "OpDelete io gid"]) auto
  then show ?thesis
    using call_separated [OF sep p(2), where NS = "{}" and NG = "{}" and fs = fs] by (simp add: call_Delete(1) handed_out_def)
qed

lemma zone_world_inv:
  "zone_world uf grow path w \<Longrightarrow> separated w \<and> groups_reachable uf path (world_store w) (w_files w)"
proof (induction rule: zone_world.induct)
  case (boot s0 fs s m)
  from groups_reachable_ok [OF boot(1)] have "groups_New uf None fs path = Inr s0"
    using groups_New_on_disk [of uf fs path "gs_items s0"] by (simp add: groups_ok_def store_ok_def)
  then have "the_store m s = s0" using heap_New_sim(1) [OF boot(2)] by simp
  then show ?case using boot(1) heap_New_sim(2) [OF boot(2)] by (simp add: separated_def)
next
  case (caller w w')
  then show ?case
    using caller_step_separated [of w w'] caller_step_store [of w w'] caller_step_written(2) [of w w'] by simp
next
  case (call w w')
  then show ?case using store_call_props [of w uf grow w' path] by blast
qed

text \<open>
  C21 (safety, independent copies). Whatever the callers of the zone store do with the memory they can reach, at any
  point between any calls: the store's contents are those of a history of the operations alone, so that
  every invariant of such histories holds of it; what a caller writes leaves them unchanged, be it into a group it
  passed in or into one it got back; and a call, in turn, changes no string and no group a caller holds.
\<close>

theorem zones_are_copies:
  assumes "zone_world uf grow path w"
  shows "groups_reachable uf path (world_store w) (w_files w) \<and>
    (\<forall>w'. caller_step w w' \<longrightarrow> world_store w' = world_store w) \<and>
    (\<forall>w'. store_call uf grow w w' \<longrightarrow>
       (\<forall>a \<in> w_strs w. m_strs (w_mem w') ! a = m_strs (w_mem w) ! a) \<and>
       (\<forall>a \<in> w_groups w. m_groups (w_mem w') ! a = m_groups (w_mem w) ! a))"
  using zone_world_inv [OF assms] caller_step_store [of w] store_call_props [of w uf grow _ path] by blast

text \<open>
  In every such world the operations on shared memory, with their in-place appends and rollbacks,
  return the values the operations on values return, and leave the store they leave.
\<close>

theorem zone_calls_refine:
  assumes "zone_world uf grow path w" and "holds_group w g"
  defines "m \<equiv> w_mem w" and "s \<equiv> w_store w" and "fs \<equiv> w_files w"
  shows "map_option (\<lambda>(r, s', m', fs'). (map_sum id (the_group (m_strs m')) r, the_store m' s', fs'))
      (heap_Create uf grow io rnd g s m fs) =
    groups_Create uf io rnd (the_group (m_strs m) g) (the_store m s) fs \<and>
    (case heap_Update uf grow io gid g s m fs of (r, s', m', fs') \<Rightarrow>
      (map_sum id (the_group (m_strs m')) r, the_store m' s', fs')) =
    groups_Update uf io gid (the_group (m_strs m) g) (the_store m s) fs \<and>
    (case heap_Delete grow io gid s m fs of (r, s', m', fs') \<Rightarrow> (r, the_store m' s', fs')) =
    groups_Delete io gid (the_store m s) fs \<and>
    (case heap_Get grow gid s m of (r, m') \<Rightarrow> map_option (the_group (m_strs m')) r) = groups_Get (the_store m s) gid \<and>
    (case heap_List grow s m of (out, m') \<Rightarrow> map (the_group (m_strs m')) (cells (m_groups m') out)) = groups_List (the_store m s)"
proof -
  have wf: "store_wf m s" and v: "valid_hgroup (m_strs m) g"
    using zone_world_inv [OF assms(1)] assms(2) by (simp_all add: m_def s_def separated_def holds_group_def)
  show ?thesis
    using heap_Create_sim [OF wf v, where uf = uf and grow = grow and io = io and rnd = rnd and fs = fs] heap_Update_sim(1) [OF wf v, where uf = uf and grow = grow and io = io and gid = gid and fs = fs]
      heap_Delete_sim(1) [OF wf, where grow = grow and io = io and gid = gid and fs = fs] heap_Get_sim(1) [OF wf, of grow gid] heap_List_sim(1) [OF wf, of grow]
    by (intro conjI) (auto split: option.splits prod.splits)
qed

text \<open>An example: a zone is created from lists the caller keeps, and the caller overwrites the result.\<close>

definition mu_group :: hgroup where
  "mu_group = \<lparr>hg_ID = [], hg_Name = '' Home'', hg_Consumers = Slice 0 2, hg_AllowedExitNodes = Slice 1 1\<rparr>"

definition mu_memory :: memory where
  "mu_memory = \<lparr>m_strs = [[''r1'', '' r1''], [''e1'']], m_groups = []\<rparr>"

definition mu_store :: heap_store where
  "mu_store = \<lparr>hs_path = ''g'', hs_items = NilSlice\<rparr>"

definition mu_world :: world where
  "mu_world = \<lparr>w_mem = mu_memory, w_store = mu_store, w_files = Map.empty, w_strs = {0, 1}, w_groups = {}\<rparr>"

definition mu_random :: random_source where
  "mu_random = (\<lambda>_. Inr [1, 2, 3, 4, 5, 6, 7, 8])"

definition mu_created :: hgroup where
  "mu_created = \<lparr>hg_ID = ''0102030405060708'', hg_Name = ''Home'', hg_Consumers = Slice 6 1, hg_AllowedExitNodes = Slice 7 1\<rparr>"

definition mu_after :: memory where
  "mu_after = \<lparr>m_strs = [[''r1'', '' r1''], [''e1''], [''r1'', []], [''e1''], [''r1''], [''e1''], [''r1''], [''e1'']],
     m_groups = [[mu_created\<lparr>hg_Consumers := Slice 2 1, hg_AllowedExitNodes := Slice 3 1\<rparr>]]\<rparr>"

lemma mu_create: "\<exists>fs. heap_Create ascii_fold (\<lambda>_. 0) (io_ok ''t'') mu_random mu_group mu_store mu_memory Map.empty =
    Some (Inr mu_created, mu_store\<lparr>hs_items := Slice 0 1\<rparr>, mu_after, fs)"
proof -
  have "map_option (\<lambda>(r, s, m, fs). (r, s, m))
      (heap_Create ascii_fold (\<lambda>_. 0) (io_ok ''t'') mu_random mu_group mu_store mu_memory Map.empty) =
    Some (Inr mu_created, mu_store\<lparr>hs_items := Slice 0 1\<rparr>, mu_after)"
    by code_simp
  then show ?thesis by auto
qed

lemma mu_input: "op_input_ok (OpCreate io mu_random (the_group (m_strs mu_memory) mu_group))"
  by (auto simp: mu_random_def mu_group_def mu_memory_def the_group_def eight_bytes_def utf8_group_def intro!: utf8_ascii)

lemma mu_reach: "zone_world ascii_fold (\<lambda>_. 0) ''g'' mu_world"
proof -
  let ?w0 = "\<lparr>w_mem = \<lparr>m_strs = [], m_groups = []\<rparr>, w_store = mu_store, w_files = Map.empty, w_strs = {}, w_groups = {}\<rparr>"
  have "groups_reachable ascii_fold ''g'' \<lparr>gs_path = ''g'', gs_items = []\<rparr> Map.empty"
    by (rule groups_reachable_start) (simp_all add: groups_New_def groups_load_def ReadFile_def)
  then have "zone_world ascii_fold (\<lambda>_. 0) ''g'' ?w0"
    by (rule zone_world.boot) (simp add: heap_New_def ReadFile_def mu_store_def)
  from zone_world.caller [OF zone_world.caller [OF this caller_step.new_strings [of _ "[''r1'', '' r1'']"]]
      caller_step.new_strings [of _ "[''e1'']"]]
  show ?thesis by (simp add: mu_world_def mu_memory_def insert_commute)
qed

lemma mu_holds: "holds_group mu_world mu_group"
  by (simp add: holds_group_def mu_world_def mu_group_def mu_memory_def valid_hgroup_def hgroup_at_def)

theorem zones_are_copies_witness:
  "\<exists>w. m_strs (w_mem w) ! 6 = [''evil''] \<and> groups_reachable ascii_fold ''g'' (world_store w) (w_files w) \<and>
     map g_Consumers (gs_items (world_store w)) = [[''r1'']]"
proof -
  obtain fs where c: "heap_Create ascii_fold (\<lambda>_. 0) (io_ok ''t'') mu_random mu_group mu_store mu_memory Map.empty =
      Some (Inr mu_created, mu_store\<lparr>hs_items := Slice 0 1\<rparr>, mu_after, fs)" using mu_create by blast
  let ?w1 = "\<lparr>w_mem = mu_after, w_store = mu_store\<lparr>hs_items := Slice 0 1\<rparr>, w_files = fs, w_strs = {0, 1, 6, 7}, w_groups = {}\<rparr>"
  let ?w2 = "?w1\<lparr>w_mem := mu_after\<lparr>m_strs := (m_strs mu_after)[6 := (m_strs mu_after ! 6)[0 := ''evil'']]\<rparr>\<rparr>"
  have at: "{0, 1, 6, 7} = w_strs mu_world \<union> result_at (Inr mu_created)"
    by (auto simp: mu_world_def result_at_def hgroup_at_def mu_created_def)
  have "store_call ascii_fold (\<lambda>_. 0) mu_world ?w1"
    using store_call.call_Create [OF mu_holds, of "io_ok ''t''" mu_random ascii_fold "\<lambda>_. 0"] mu_input c
    unfolding at by (simp add: mu_world_def fresh_tmp_def io_ok_def mu_store_def)
  then have r1: "zone_world ascii_fold (\<lambda>_. 0) ''g'' ?w1" using mu_reach by (rule zone_world.call [rotated])
  have step: "caller_step ?w1 ?w2"
    using caller_step.write_string [of 6 ?w1 0 "''evil''"] by (simp add: mu_after_def)
  have "world_store ?w2 = world_store ?w1" using zones_are_copies [OF r1] step by blast
  moreover have "map g_Consumers (gs_items (world_store ?w1)) = [[''r1'']]"
    by (simp add: the_store_def the_items_def mu_after_def mu_store_def the_group_def mu_created_def)
  moreover have "groups_reachable ascii_fold ''g'' (world_store ?w2) (w_files ?w2)"
    using zones_are_copies [OF zone_world.caller [OF r1 step]] by blast
  moreover have "m_strs (w_mem ?w2) ! 6 = [''evil'']" by (simp add: mu_after_def)
  ultimately show ?thesis by (intro exI [of _ ?w2]) simp
qed

end
