(* ===== verification/Preview_Memory.thy ===== *)
theory Preview_Memory
  imports Demo Group_Aliasing
begin

section \<open>internal/demo: the zones of the preview on shared memory\<close>

text \<open>
  The in-memory zones of the preview, \<^verbatim>\<open>Groups\<close> of \<^verbatim>\<open>internal/demo/demo.go\<close>, on shared memory. Its \<^verbatim>\<open>Delete\<close> differs from the
  real store's: it moves the groups behind the deleted one to the left within the array it has. The copies, the
  normalization and the slice are those of \<open>Group_Memory\<close>; there is no file, so that the path of the record is unused.
\<close>

subsection \<open>Operations\<close>

definition preview_NewGroups :: "(nat \<Rightarrow> nat) \<Rightarrow> heap_store \<times> memory" where
  "preview_NewGroups grow =
     (let (gs, S) = heap_decoded grow demo_NewGroups []
      in (\<lparr>hs_path = [], hs_items = Slice 0 (length gs)\<rparr>, \<lparr>m_strs = S, m_groups = [gs]\<rparr>))"

definition preview_List :: "(nat \<Rightarrow> nat) \<Rightarrow> heap_store \<Rightarrow> memory \<Rightarrow> slice \<times> memory" where
  "preview_List grow s m = heap_cloneGroups grow (the_items m s) m"

definition preview_indexOfLocked :: "memory \<Rightarrow> heap_store \<Rightarrow> string \<Rightarrow> nat option" where
  "preview_indexOfLocked m s gid = index_of (\<lambda>g. hg_ID g = gid) (the_items m s)"

definition preview_Get :: "(nat \<Rightarrow> nat) \<Rightarrow> string \<Rightarrow> heap_store \<Rightarrow> memory \<Rightarrow> hgroup option \<times> memory" where
  "preview_Get grow gid s m =
     (case preview_indexOfLocked m s gid of
        Some i \<Rightarrow> (let (g, S) = heap_cloneGroup grow (the_items m s ! i) (m_strs m) in (Some g, m\<lparr>m_strs := S\<rparr>))
      | None \<Rightarrow> (None, m))"

definition preview_Create ::
    "(nat \<Rightarrow> nat) \<Rightarrow> random_source \<Rightarrow> hgroup \<Rightarrow> heap_store \<Rightarrow> memory \<Rightarrow>
     ((store_error + hgroup) \<times> heap_store \<times> memory) option" where
  "preview_Create grow rnd g s m =
     (case heap_Normalize grow g (m_strs m) of
        (Inl e, S) \<Rightarrow> Some (Inl e, s, m\<lparr>m_strs := S\<rparr>)
      | (Inr norm, S) \<Rightarrow>
          (case freshIDLocked (map hg_ID (the_items m s)) rnd 0 of
             None \<Rightarrow> None
           | Some (Inl e) \<Rightarrow> Some (Inl e, s, m\<lparr>m_strs := S\<rparr>)
           | Some (Inr gid) \<Rightarrow>
               (let norm' = norm\<lparr>hg_ID := gid\<rparr>;
                    (items, G) = append_slice grow zero_hgroup [norm'] (hs_items s) (m_groups m);
                    (r, S') = heap_cloneGroup grow norm' S
                in Some (Inr r, s\<lparr>hs_items := items\<rparr>, m\<lparr>m_groups := G, m_strs := S'\<rparr>))))"

definition preview_Update ::
    "(nat \<Rightarrow> nat) \<Rightarrow> string \<Rightarrow> hgroup \<Rightarrow> heap_store \<Rightarrow> memory \<Rightarrow> (store_error + hgroup) \<times> heap_store \<times> memory" where
  "preview_Update grow gid g s m =
     (case heap_Normalize grow g (m_strs m) of
        (Inl e, S) \<Rightarrow> (Inl e, s, m\<lparr>m_strs := S\<rparr>)
      | (Inr norm, S) \<Rightarrow>
          (case preview_indexOfLocked m s gid of
             None \<Rightarrow> (Inl (NotFoundErr gid), s, m\<lparr>m_strs := S\<rparr>)
           | Some idx \<Rightarrow>
               (let norm' = norm\<lparr>hg_ID := gid\<rparr>; G = set_elem (hs_items s) idx norm' (m_groups m);
                    (r, S') = heap_cloneGroup grow norm' S
                in (Inr r, s, m\<lparr>m_groups := G, m_strs := S'\<rparr>))))"

definition preview_Delete ::
    "(nat \<Rightarrow> nat) \<Rightarrow> string \<Rightarrow> heap_store \<Rightarrow> memory \<Rightarrow> store_error option \<times> heap_store \<times> memory" where
  "preview_Delete grow gid s m =
     (case preview_indexOfLocked m s gid of
        None \<Rightarrow> (Some (NotFoundErr gid), s, m)
      | Some idx \<Rightarrow>
          (let (items, G) = append_slice grow zero_hgroup (drop (Suc idx) (the_items m s)) (shorten idx (hs_items s)) (m_groups m)
           in (None, s\<lparr>hs_items := items\<rparr>, m\<lparr>m_groups := G\<rparr>)))"

subsection \<open>They compute what the value model says, within their rights\<close>

abbreviation preview_zones :: "memory \<Rightarrow> heap_store \<Rightarrow> Group list" where
  "preview_zones m s \<equiv> gs_items (the_store m s)"

lemma preview_zones_def: "preview_zones m s = map (the_group (m_strs m)) (the_items m s)"
  by (simp add: the_store_def)

lemma preview_indexOfLocked_eq [simp]: "preview_indexOfLocked m s gid = demo_indexOfLocked (preview_zones m s) gid"
  by (simp add: preview_indexOfLocked_def demo_indexOfLocked_def preview_zones_def index_of_map comp_def)

lemma demo_index_bound: "demo_indexOfLocked (preview_zones m s) gid = Some i \<Longrightarrow> i < length (the_items m s)"
  by (auto simp: demo_indexOfLocked_def preview_zones_def dest: index_of_SomeD)

lemma preview_Create_sim:
  assumes wf: "store_wf m s" and g: "valid_hgroup (m_strs m) g"
  shows "case preview_Create grow rnd g s m of
      None \<Rightarrow> demo_Create rnd (the_group (m_strs m) g) (preview_zones m s) = None
    | Some (r, s', m') \<Rightarrow>
        demo_Create rnd (the_group (m_strs m) g) (preview_zones m s) = Some (map_sum id (the_group (m_strs m')) r, preview_zones m' s') \<and>
        within_rights m s m' s' \<and> fresh_result m m' s' r"
proof -
  obtain nr S where nrm: "heap_Normalize grow g (m_strs m) = (nr, S)" by fastforce
  note pn = heap_Normalize_props [OF nrm g]
  note al = store_wf_allocated [OF wf pn(1)]
  have z: "preview_zones (m\<lparr>m_strs := S\<rparr>) s = preview_zones m s" by (simp add: al(2))
  show ?thesis
  proof (cases "Normalize (the_group (m_strs m) g)")
    case (Inl e)
    with pn nrm al show ?thesis by (simp add: preview_Create_def demo_Create_def fresh_result_def)
  next
    case (Inr n)
    with pn(2) obtain n' where n: "nr = Inr n'" "the_group S n' = n" "valid_hgroup S n'" "hgroup_at n' \<subseteq> {length (m_strs m) ..}"
      by auto
    show ?thesis
    proof (cases "\<exists>gid. freshIDLocked (map hg_ID (the_items m s)) rnd 0 = Some (Inr gid)")
      case False
      with Inr n(1) nrm al show ?thesis
        by (auto simp: preview_Create_def demo_Create_def fresh_result_def split: option.splits sum.splits)
    next
      case True
      then obtain gid where gid: "freshIDLocked (map hg_ID (the_items m s)) rnd 0 = Some (Inr gid)" by blast
      let ?n = "n'\<lparr>hg_ID := gid\<rparr>"
      obtain items G where a: "append_slice grow zero_hgroup [?n] (hs_items s) (m_groups m) = (items, G)" by fastforce
      let ?s1 = "s\<lparr>hs_items := items\<rparr>" and ?m1 = "m\<lparr>m_strs := S, m_groups := G\<rparr>"
      have nv: "valid_hgroup S ?n" "hgroup_at ?n \<subseteq> {length (m_strs m) ..}" using n by simp_all
      note ia = items_append [OF wf pn(1) a nv]
      obtain r S2 where c: "heap_cloneGroup grow ?n S = (r, S2)" by fastforce
      have v: "valid_hgroup (m_strs ?m1) ?n" using nv(1) by simp
      note cr = copy_result [OF ia(2), of grow ?n r S2, OF _ v, simplified, OF c]
      show ?thesis using Inr n gid nrm a c ia(1) cr by (simp add: preview_Create_def demo_Create_def Let_def)
    qed
  qed
qed

lemma preview_Update_sim:
  assumes wf: "store_wf m s" and g: "valid_hgroup (m_strs m) g" and res: "preview_Update grow gid g s m = (r, s', m')"
  shows "demo_Update gid (the_group (m_strs m) g) (preview_zones m s) = (map_sum id (the_group (m_strs m')) r, preview_zones m' s') \<and>
    within_rights m s m' s' \<and> fresh_result m m' s' r"
proof -
  obtain nr S where nrm: "heap_Normalize grow g (m_strs m) = (nr, S)" by fastforce
  note pn = heap_Normalize_props [OF nrm g]
  note al = store_wf_allocated [OF wf pn(1)]
  show ?thesis
  proof (cases "Normalize (the_group (m_strs m) g)")
    case (Inl e)
    with pn nrm al res show ?thesis by (auto simp: preview_Update_def demo_Update_def fresh_result_def)
  next
    case (Inr n)
    with pn(2) obtain n' where n: "nr = Inr n'" "the_group S n' = n" "valid_hgroup S n'" "hgroup_at n' \<subseteq> {length (m_strs m) ..}"
      by auto
    show ?thesis
    proof (cases "demo_indexOfLocked (preview_zones m s) gid")
      case None
      with Inr n(1) nrm al res show ?thesis by (auto simp: preview_Update_def demo_Update_def fresh_result_def)
    next
      case (Some idx)
      let ?n = "n'\<lparr>hg_ID := gid\<rparr>"
      let ?m1 = "m\<lparr>m_strs := S, m_groups := set_elem (hs_items s) idx ?n (m_groups m)\<rparr>"
      have nv: "valid_hgroup S ?n" "hgroup_at ?n \<subseteq> strs_at m s \<union> {length (m_strs m) ..}" using n by auto
      note si = items_set [OF wf pn(1) demo_index_bound [OF Some] nv]
      obtain r' S2 where c: "heap_cloneGroup grow ?n S = (r', S2)" by fastforce
      have v: "valid_hgroup (m_strs ?m1) ?n" using nv(1) by simp
      note cr = copy_result [OF si(3), of grow ?n r' S2, OF _ v, simplified, OF c]
      have r: "r = Inr r'" "s' = s" "m' = ?m1\<lparr>m_strs := S2\<rparr>"
        using res Inr n(1) nrm Some c by (auto simp: preview_Update_def Let_def)
      show ?thesis using r Inr n(2) Some si(2) cr by (simp add: demo_Update_def)
    qed
  qed
qed

lemma preview_Delete_sim:
  assumes wf: "store_wf m s" and res: "preview_Delete grow gid s m = (r, s', m')"
  shows "demo_Delete gid (preview_zones m s) = (r, preview_zones m' s') \<and> within_rights m s m' s'"
proof (cases "demo_indexOfLocked (preview_zones m s) gid")
  case None
  with res wf show ?thesis by (auto simp: preview_Delete_def demo_Delete_def within_rights_def)
next
  case (Some idx)
  have v: "valid_slice (m_groups m) (hs_items s)" using wf by (simp add: store_wf_def)
  have i: "idx < length (the_items m s)" by (rule demo_index_bound [OF Some])
  then have k: "idx \<le> slice_len (hs_items s)" using valid_slice_len [OF v] by (simp add: the_items_def)
  note sh = shorten_props [OF v k]
  obtain items G where a: "append_slice grow zero_hgroup (drop (Suc idx) (the_items m s)) (shorten idx (hs_items s)) (m_groups m) = (items, G)"
    by fastforce
  note p = append_slice_props [OF a sh(2), unfolded sh(1,3)]
  have r: "r = None" "s' = s\<lparr>hs_items := items\<rparr>" "m' = m\<lparr>m_groups := G\<rparr>"
    using res Some a by (simp_all add: preview_Delete_def)
  have it: "the_items m' s' = remove_at idx (the_items m s)" using p(1) by (simp add: r the_items_def remove_at_def)
  have "preview_zones m' s' = remove_at idx (preview_zones m s)"
    unfolding preview_zones_def it map_remove_at by (simp add: r)
  moreover have "within_rights m s m' s'"
    using wf p(2-4) set_remove_at_subset [of idx "the_items m s"]
    unfolding within_rights_def store_wf_def strs_at_def it by (auto simp: r)
  ultimately show ?thesis using Some r by (simp add: demo_Delete_def)
qed

lemma preview_Get_sim:
  assumes wf: "store_wf m s" and res: "preview_Get grow gid s m = (r, m')"
  shows "demo_Get (preview_zones m s) gid = map_option (the_group (m_strs m')) r \<and> the_store m' s = the_store m s \<and>
    within_rights m s m' s \<and> handed_out m m' s (\<Union>g \<in> set_option r. hgroup_at g)"
proof -
  have same: "preview_Get grow gid s m = heap_Get grow gid s m"
    by (simp add: preview_Get_def heap_Get_def preview_indexOfLocked_def heap_indexOfLocked_def
        del: preview_indexOfLocked_eq heap_indexOfLocked_eq)
  note p = heap_Get_sim [OF wf res [unfolded same]]
  have "demo_Get (preview_zones m s) gid = groups_Get (the_store m s) gid"
    by (simp add: demo_Get_def groups_Get_def demo_indexOfLocked_def groups_indexOfLocked_def)
  moreover have "handed_out m m' s (\<Union>g \<in> set_option r. hgroup_at g)" using p(5) by (cases r) (auto simp: handed_out_def)
  ultimately show ?thesis using p by simp
qed

subsection \<open>Callers that write what they hold\<close>

text \<open>The zones of the preview under a history of operations, and the same with callers that share its memory.\<close>

inductive demo_history :: "Group list \<Rightarrow> bool" where
  start: "demo_history demo_NewGroups"
| create: "demo_history gs \<Longrightarrow> demo_Create rnd g gs = Some (r, gs') \<Longrightarrow> demo_history gs'"
| update: "demo_history gs \<Longrightarrow> demo_Update gid g gs = (r, gs') \<Longrightarrow> demo_history gs'"
| delete: "demo_history gs \<Longrightarrow> demo_Delete gid gs = (r, gs') \<Longrightarrow> demo_history gs'"

inductive preview_call :: "(nat \<Rightarrow> nat) \<Rightarrow> world \<Rightarrow> world \<Rightarrow> bool" for grow where
  call_List: "preview_List grow (w_store w) (w_mem w) = (out, m) \<Longrightarrow>
    preview_call grow w (w\<lparr>w_mem := m, w_strs := w_strs w \<union> (\<Union>g \<in> backing (m_groups m) out. hgroup_at g),
      w_groups := w_groups w \<union> slice_at out\<rparr>)"
| call_Get: "preview_Get grow gid (w_store w) (w_mem w) = (r, m) \<Longrightarrow>
    preview_call grow w (w\<lparr>w_mem := m, w_strs := w_strs w \<union> (\<Union>g \<in> set_option r. hgroup_at g)\<rparr>)"
| call_Create: "holds_group w g \<Longrightarrow> preview_Create grow rnd g (w_store w) (w_mem w) = Some (r, s, m) \<Longrightarrow>
    preview_call grow w (w\<lparr>w_mem := m, w_store := s, w_strs := w_strs w \<union> result_at r\<rparr>)"
| call_Update: "holds_group w g \<Longrightarrow> preview_Update grow gid g (w_store w) (w_mem w) = (r, s, m) \<Longrightarrow>
    preview_call grow w (w\<lparr>w_mem := m, w_store := s, w_strs := w_strs w \<union> result_at r\<rparr>)"
| call_Delete: "preview_Delete grow gid (w_store w) (w_mem w) = (e, s, m) \<Longrightarrow>
    preview_call grow w (w\<lparr>w_mem := m, w_store := s\<rparr>)"

inductive preview_world :: "(nat \<Rightarrow> nat) \<Rightarrow> world \<Rightarrow> bool" for grow where
  boot: "preview_NewGroups grow = (s, m) \<Longrightarrow>
    preview_world grow \<lparr>w_mem = m, w_store = s, w_files = Map.empty, w_strs = {}, w_groups = {}\<rparr>"
| caller: "preview_world grow w \<Longrightarrow> caller_step w w' \<Longrightarrow> preview_world grow w'"
| call: "preview_world grow w \<Longrightarrow> preview_call grow w w' \<Longrightarrow> preview_world grow w'"

abbreviation world_zones :: "world \<Rightarrow> Group list" where
  "world_zones w \<equiv> preview_zones (w_mem w) (w_store w)"

lemma fresh_result_handed: "fresh_result m m' s' r \<Longrightarrow> handed_out m m' s' (result_at r)"
  by (cases r) (auto simp: fresh_result_def handed_out_def result_at_def)

lemma preview_call_props:
  assumes sep: "separated w" and call: "preview_call grow w w'" and hist: "demo_history (world_zones w)"
  shows "separated w' \<and> (\<forall>a \<in> w_strs w. m_strs (w_mem w') ! a = m_strs (w_mem w) ! a) \<and>
    (\<forall>a \<in> w_groups w. m_groups (w_mem w') ! a = m_groups (w_mem w) ! a) \<and> demo_history (world_zones w')"
  using call
proof cases
  case (call_List out m)
  note wf = separatedD(1) [OF sep]
  have "heap_List grow (w_store w) (w_mem w) = (out, m)" using call_List(2) by (simp add: preview_List_def heap_List_def)
  note p = heap_List_sim [OF wf this]
  have at: "slice_at out \<subseteq> {length (m_groups (w_mem w)) ..} \<inter> {..< length (m_groups m)}"
    using p(4,5) by (auto dest: valid_slice_at)
  moreover have "slice_at (hs_items (w_store w)) \<inter> slice_at out = {}"
    using at wf by (fastforce simp: store_wf_def dest: valid_slice_at)
  moreover have "valid_hgroup (m_strs m) g \<and> hgroup_at g \<subseteq> (\<Union>g \<in> backing (m_groups m) out. hgroup_at g)"
    if "a \<in> slice_at out" "g \<in> set (m_groups m ! a)" for a g
    using that p(6) by (cases out) auto
  ultimately show ?thesis
    using call_separated [OF sep p(3,7), where NG = "slice_at out" and fs = "w_files w"] hist p(2) by (simp add: call_List(1))
next
  case (call_Get gid r m)
  from preview_Get_sim [OF separatedD(1) [OF sep] call_Get(2)]
  have p: "the_store m (w_store w) = the_store (w_mem w) (w_store w)" "within_rights (w_mem w) (w_store w) m (w_store w)"
    "handed_out (w_mem w) m (w_store w) (\<Union>g \<in> set_option r. hgroup_at g)" by simp_all
  show ?thesis using call_separated [OF sep p(2,3), where NG = "{}" and fs = "w_files w"] hist p(1) by (simp add: call_Get(1))
next
  case (call_Create g rnd r s m)
  have "valid_hgroup (m_strs (w_mem w)) g" using call_Create(2) by (simp add: holds_group_def)
  from preview_Create_sim [OF separatedD(1) [OF sep] this, where grow = grow and rnd = rnd]
  have p: "demo_Create rnd (the_group (m_strs (w_mem w)) g) (world_zones w) = Some (map_sum id (the_group (m_strs m)) r, preview_zones m s)"
    "within_rights (w_mem w) (w_store w) m s" "fresh_result (w_mem w) m s r" by (simp_all add: call_Create(3))
  show ?thesis
    using call_separated [OF sep p(2) fresh_result_handed [OF p(3)], where NG = "{}" and fs = "w_files w"]
      demo_history.create [OF hist p(1)] by (simp add: call_Create(1))
next
  case (call_Update g gid r s m)
  have "valid_hgroup (m_strs (w_mem w)) g" using call_Update(2) by (simp add: holds_group_def)
  from preview_Update_sim [OF separatedD(1) [OF sep] this call_Update(3)]
  have p: "demo_Update gid (the_group (m_strs (w_mem w)) g) (world_zones w) = (map_sum id (the_group (m_strs m)) r, preview_zones m s)"
    "within_rights (w_mem w) (w_store w) m s" "fresh_result (w_mem w) m s r" by simp_all
  show ?thesis
    using call_separated [OF sep p(2) fresh_result_handed [OF p(3)], where NG = "{}" and fs = "w_files w"]
      demo_history.update [OF hist p(1)] by (simp add: call_Update(1))
next
  case (call_Delete gid e s m)
  from preview_Delete_sim [OF separatedD(1) [OF sep] call_Delete(2)]
  have p: "demo_Delete gid (world_zones w) = (e, preview_zones m s)" "within_rights (w_mem w) (w_store w) m s" by simp_all
  show ?thesis
    using call_separated [OF sep p(2), where NS = "{}" and NG = "{}" and fs = "w_files w"]
      demo_history.delete [OF hist p(1)] by (simp add: call_Delete(1) handed_out_def)
qed

lemma preview_NewGroups_wf:
  assumes "preview_NewGroups grow = (s, m)"
  shows "store_wf m s" "preview_zones m s = demo_NewGroups"
proof -
  obtain gs S where d: "heap_decoded grow demo_NewGroups [] = (gs, S)" by fastforce
  note p = heap_decoded_props [OF d]
  have r: "s = \<lparr>hs_path = [], hs_items = Slice 0 (length gs)\<rparr>" "m = \<lparr>m_strs = S, m_groups = [gs]\<rparr>"
    using assms d by (simp_all add: preview_NewGroups_def)
  show "store_wf m s" using p by (simp add: r store_wf_def the_items_def)
  show "preview_zones m s = demo_NewGroups" using p by (simp add: r the_store_def the_items_def)
qed

text \<open>
  The zones of the preview, too, are shared with nobody: they are those of a history of its operations alone, no write
  of a caller changes them, and no call, the \<^verbatim>\<open>Delete\<close> that moves groups within their array included, changes what a
  caller holds.
\<close>

theorem preview_zones_are_copies:
  assumes "preview_world grow w"
  shows "demo_history (world_zones w) \<and> (\<forall>w'. caller_step w w' \<longrightarrow> world_zones w' = world_zones w) \<and>
    (\<forall>w'. preview_call grow w w' \<longrightarrow>
       (\<forall>a \<in> w_strs w. m_strs (w_mem w') ! a = m_strs (w_mem w) ! a) \<and>
       (\<forall>a \<in> w_groups w. m_groups (w_mem w') ! a = m_groups (w_mem w) ! a))"
proof -
  have inv: "separated w \<and> demo_history (world_zones w)"
    using assms
  proof (induction rule: preview_world.induct)
    case (boot s m)
    then show ?case using preview_NewGroups_wf [OF boot] demo_history.start by (simp add: separated_def)
  next
    case (caller w w')
    then show ?case using caller_step_separated [of w w'] caller_step_store [of w w'] by simp
  next
    case (call w w')
    then show ?case using preview_call_props [of w grow w'] by blast
  qed
  then show ?thesis using caller_step_store [of w] preview_call_props [of w grow] by (metis (no_types, lifting))
qed


end
