(* ===== verification/Addr_Locks.thy ===== *)
theory Addr_Locks
  imports Router_Client
begin

section \<open>The per-router locks\<close>

text \<open>
  \<^verbatim>\<open>router.Client\<close> and \<^verbatim>\<open>demo.World\<close> serialize the commands to one router with a table of mutexes, one per address, created on
  first use under a mutex of its own (\<^verbatim>\<open>lockAddr\<close>). This theory models the table at the level of its statements and any number of
  goroutines that call it, run commands on their router while they hold its mutex, and return.
  It shows that the calls on one router exclude each other, that every interleaving has the effect of
  calling the methods one after another in an order that respects real time, and that no call waits for ever.

  A call is what it does before it takes the lock, and then a sequence of commands, each depending on the results before (\<open>cmds\<close>).
  The contract of the table is the locale \<open>lock_table\<close>, interpreted on both tables.
\<close>

subsection \<open>The commands of a call\<close>

datatype 'o cmds = Ret 'o | Cmd string "run_result \<Rightarrow> 'o cmds"

text \<open>The commands run without a break on one router, given as a function from a command and a state to a result and a state.\<close>

primrec exec_cmds :: "(string \<Rightarrow> 'd \<Rightarrow> run_result \<times> 'd) \<Rightarrow> 'o cmds \<Rightarrow> 'd \<Rightarrow> 'o \<times> 'd" where
  "exec_cmds run (Ret x) = (\<lambda>d. (x, d))"
| "exec_cmds run (Cmd c k) = (\<lambda>d. case run c d of (r, d') \<Rightarrow> exec_cmds run (k r) d')"

text \<open>What is left of a call is smaller after each command.\<close>

definition later_cmds :: "('o cmds \<times> 'o cmds) set" where
  "later_cmds = {(q, p). \<exists>c k r. p = Cmd c k \<and> q = k r}"

lemma wf_later_cmds: "wf (later_cmds :: ('o cmds \<times> 'o cmds) set)"
proof (rule wfUNIVI)
  fix P :: "'o cmds \<Rightarrow> bool" and p
  assume step: "\<forall>p. (\<forall>q. (q, p) \<in> later_cmds \<longrightarrow> P q) \<longrightarrow> P p"
  show "P p"
  proof (induction p)
    case (Ret x)
    show ?case using step by (auto simp: later_cmds_def)
  next
    case (Cmd c k)
    then have "P (k r)" for r by blast
    then have "\<forall>q. (q, Cmd c k) \<in> later_cmds \<longrightarrow> P q" by (auto simp: later_cmds_def)
    with step show ?case by blast
  qed
qed

subsection \<open>Goroutines and mutexes\<close>

text \<open>
  Where a goroutine is: before \<^verbatim>\<open>muLocks.Lock()\<close>, at the table, before \<^verbatim>\<open>muLocks.Unlock()\<close> and \<^verbatim>\<open>m.Lock()\<close> with the mutex it has found, in
  its commands, and returned.
\<close>

datatype pc = AtTable | InTable | Leaving nat | Waiting nat | Holding nat | Returned

record 'o goroutine =
  gr_op :: "'o + string \<times> 'o cmds"
  gr_pc :: pc
  gr_rest :: "'o cmds"
  gr_before :: "nat set"

text \<open>
  \<open>lk_mu\<close> and \<open>lk_held\<close> say which goroutine holds \<^verbatim>\<open>muLocks\<close> and each mutex; mutexes are numbered in the order in which they are
  allocated. \<open>lk_order\<close> and \<open>gr_before\<close> are history variables: the goroutines in the order of their return, and those that had
  returned when a call was made.
\<close>

record ('t, 'o, 'd) locked =
  lk_table :: 't
  lk_next :: nat
  lk_mu :: "nat option"
  lk_held :: "nat \<Rightarrow> nat option"
  lk_calls :: "'o goroutine list"
  lk_routers :: "string \<Rightarrow> 'd"
  lk_order :: "nat list"

definition gr_addr :: "'o goroutine \<Rightarrow> string" where
  "gr_addr g = (case gr_op g of Inl _ \<Rightarrow> [] | Inr (addr, _) \<Rightarrow> addr)"

text \<open>A call that fails its validation returns before it takes the lock.\<close>

definition call :: "'o + string \<times> 'o cmds \<Rightarrow> ('t, 'o, 'd) locked \<Rightarrow> ('t, 'o, 'd) locked" where
  "call opr S =
     (let g = \<lparr>gr_op = opr, gr_pc = AtTable, gr_rest = (case opr of Inl x \<Rightarrow> Ret x | Inr (_, p) \<Rightarrow> p), gr_before = set (lk_order S)\<rparr>
      in case opr of
           Inl _ \<Rightarrow> S\<lparr>lk_calls := lk_calls S @ [g\<lparr>gr_pc := Returned\<rparr>], lk_order := lk_order S @ [length (lk_calls S)]\<rparr>
         | Inr _ \<Rightarrow> S\<lparr>lk_calls := lk_calls S @ [g]\<rparr>)"

definition set_pc :: "nat \<Rightarrow> pc \<Rightarrow> ('t, 'o, 'd) locked \<Rightarrow> ('t, 'o, 'd) locked" where
  "set_pc i l S = S\<lparr>lk_calls := (lk_calls S)[i := (lk_calls S ! i)\<lparr>gr_pc := l\<rparr>]\<rparr>"

text \<open>
  One statement of goroutine \<open>i\<close>. \<open>entry\<close> is the body of \<^verbatim>\<open>lockAddr\<close> between \<^verbatim>\<open>muLocks.Lock()\<close> and \<^verbatim>\<open>muLocks.Unlock()\<close>: given the table, an address
  and the next fresh mutex it yields the mutex, the new table and the next fresh mutex.
\<close>

type_synonym 't entry = "'t \<Rightarrow> string \<Rightarrow> nat \<Rightarrow> nat \<times> 't \<times> nat"

inductive lock_step ::
    "'t entry \<Rightarrow> (string \<Rightarrow> string \<Rightarrow> 'd \<Rightarrow> run_result \<times> 'd) \<Rightarrow> ('t, 'o, 'd) locked \<Rightarrow> ('t, 'o, 'd) locked \<Rightarrow> bool" for entry dev where
  mu_Lock: "i < length (lk_calls S) \<Longrightarrow> gr_pc (lk_calls S ! i) = AtTable \<Longrightarrow> lk_mu S = None \<Longrightarrow>
    lock_step entry dev S ((set_pc i InTable S)\<lparr>lk_mu := Some i\<rparr>)"
| look: "i < length (lk_calls S) \<Longrightarrow> gr_pc (lk_calls S ! i) = InTable \<Longrightarrow>
    entry (lk_table S) (gr_addr (lk_calls S ! i)) (lk_next S) = (m, t', n') \<Longrightarrow>
    lock_step entry dev S ((set_pc i (Leaving m) S)\<lparr>lk_table := t', lk_next := n'\<rparr>)"
| mu_Unlock: "i < length (lk_calls S) \<Longrightarrow> gr_pc (lk_calls S ! i) = Leaving m \<Longrightarrow>
    lock_step entry dev S ((set_pc i (Waiting m) S)\<lparr>lk_mu := None\<rparr>)"
| m_Lock: "i < length (lk_calls S) \<Longrightarrow> gr_pc (lk_calls S ! i) = Waiting m \<Longrightarrow> lk_held S m = None \<Longrightarrow>
    lock_step entry dev S ((set_pc i (Holding m) S)\<lparr>lk_held := (lk_held S)(m := Some i)\<rparr>)"
| command: "i < length (lk_calls S) \<Longrightarrow> gr_pc (lk_calls S ! i) = Holding m \<Longrightarrow> gr_rest (lk_calls S ! i) = Cmd c k \<Longrightarrow>
    gr_addr (lk_calls S ! i) = addr \<Longrightarrow> dev addr c (lk_routers S addr) = (r, d) \<Longrightarrow>
    lock_step entry dev S (S\<lparr>lk_calls := (lk_calls S)[i := (lk_calls S ! i)\<lparr>gr_rest := k r\<rparr>], lk_routers := (lk_routers S)(addr := d)\<rparr>)"
| m_Unlock: "i < length (lk_calls S) \<Longrightarrow> gr_pc (lk_calls S ! i) = Holding m \<Longrightarrow> gr_rest (lk_calls S ! i) = Ret x \<Longrightarrow>
    lock_step entry dev S ((set_pc i Returned S)\<lparr>lk_held := (lk_held S)(m := None), lk_order := lk_order S @ [i]\<rparr>)"

inductive lock_reach ::
    "'t entry \<Rightarrow> (string \<Rightarrow> string \<Rightarrow> 'd \<Rightarrow> run_result \<times> 'd) \<Rightarrow> 't \<Rightarrow> (string \<Rightarrow> 'd) \<Rightarrow> ('t, 'o, 'd) locked \<Rightarrow> bool" for entry dev t0 w where
  init: "lock_reach entry dev t0 w
    \<lparr>lk_table = t0, lk_next = 0, lk_mu = None, lk_held = (\<lambda>_. None), lk_calls = [], lk_routers = w, lk_order = []\<rparr>"
| call: "lock_reach entry dev t0 w S \<Longrightarrow> lock_reach entry dev t0 w (call opr S)"
| step: "lock_reach entry dev t0 w S \<Longrightarrow> lock_step entry dev S S' \<Longrightarrow> lock_reach entry dev t0 w S'"

subsection \<open>One after another\<close>

definition run_op :: "(string \<Rightarrow> string \<Rightarrow> 'd \<Rightarrow> run_result \<times> 'd) \<Rightarrow> 'o + string \<times> 'o cmds \<Rightarrow> (string \<Rightarrow> 'd) \<Rightarrow> 'o \<times> (string \<Rightarrow> 'd)" where
  "run_op dev opr w =
     (case opr of
        Inl x \<Rightarrow> (x, w)
      | Inr (addr, p) \<Rightarrow> (case exec_cmds (dev addr) p (w addr) of (x, d) \<Rightarrow> (x, w(addr := d))))"

definition serial :: "(string \<Rightarrow> string \<Rightarrow> 'd \<Rightarrow> run_result \<times> 'd) \<Rightarrow> ('o + string \<times> 'o cmds) list \<Rightarrow> (string \<Rightarrow> 'd) \<Rightarrow> string \<Rightarrow> 'd" where
  "serial dev oprs w = fold (\<lambda>opr w. snd (run_op dev opr w)) oprs w"

lemma serial_snoc: "serial dev (oprs @ [opr]) w = snd (run_op dev opr (serial dev oprs w))"
  by (simp add: serial_def)

lemma run_op_other: "gr_op g = Inr (addr, p) \<Longrightarrow> b \<noteq> gr_addr g \<Longrightarrow> snd (run_op dev (gr_op g) w) b = w b"
  by (auto simp: run_op_def gr_addr_def split: prod.split)

text \<open>Every element of a list, together with the elements before it.\<close>

definition in_order :: "(nat list \<Rightarrow> nat \<Rightarrow> bool) \<Rightarrow> nat list \<Rightarrow> bool" where
  "in_order P xs \<longleftrightarrow> (\<forall>ys i zs. xs = ys @ i # zs \<longrightarrow> P ys i)"

lemma in_order_Nil [simp]: "in_order P []"
  by (simp add: in_order_def)

lemma in_order_snoc [simp]: "in_order P (xs @ [x]) \<longleftrightarrow> in_order P xs \<and> P xs x"
proof
  assume *: "in_order P (xs @ [x])"
  have "P ys i" if "xs = ys @ i # zs" for ys i zs
    using * that unfolding in_order_def by (metis append_Cons append_assoc)
  then show "in_order P xs \<and> P xs x" using * by (auto simp: in_order_def)
next
  assume *: "in_order P xs \<and> P xs x"
  show "in_order P (xs @ [x])" unfolding in_order_def
  proof (intro allI impI)
    fix ys i zs
    assume "xs @ [x] = ys @ i # zs"
    then show "P ys i" using * by (cases zs rule: rev_cases) (auto simp: in_order_def)
  qed
qed

lemma in_order_mono: "in_order P xs \<Longrightarrow> (\<And>ys i. i \<in> set xs \<Longrightarrow> set ys \<subseteq> set xs \<Longrightarrow> P ys i \<Longrightarrow> Q ys i) \<Longrightarrow> in_order Q xs"
  unfolding in_order_def by (metis Un_upper1 in_set_conv_decomp set_append)

subsection \<open>Invariants\<close>

text \<open>Who is where: at most one goroutine at the table, and the holder of a mutex is the one inside its commands.\<close>

definition holders_inv :: "('t, 'o, 'd) locked \<Rightarrow> bool" where
  "holders_inv S \<longleftrightarrow>
     (\<forall>i. lk_mu S = Some i \<longleftrightarrow> i < length (lk_calls S) \<and> (gr_pc (lk_calls S ! i) = InTable \<or> (\<exists>m. gr_pc (lk_calls S ! i) = Leaving m))) \<and>
     (\<forall>i m. lk_held S m = Some i \<longleftrightarrow> i < length (lk_calls S) \<and> gr_pc (lk_calls S ! i) = Holding m)"

text \<open>The history: who has returned, and in which order.\<close>

definition order_inv :: "('t, 'o, 'd) locked \<Rightarrow> bool" where
  "order_inv S \<longleftrightarrow>
     distinct (lk_order S) \<and> set (lk_order S) = {i. i < length (lk_calls S) \<and> gr_pc (lk_calls S ! i) = Returned} \<and>
     (\<forall>i < length (lk_calls S). gr_before (lk_calls S ! i) \<subseteq> set (lk_order S)) \<and>
     in_order (\<lambda>ys i. gr_before (lk_calls S ! i) \<subseteq> set ys) (lk_order S)"

text \<open>
  The effect: the routers are what the calls that have returned make of them one after another, except for a router on
  which a call is under way, which is as far as that call's commands have brought it.
\<close>

definition after :: "(string \<Rightarrow> string \<Rightarrow> 'd \<Rightarrow> run_result \<times> 'd) \<Rightarrow> (string \<Rightarrow> 'd) \<Rightarrow> ('t, 'o, 'd) locked \<Rightarrow> nat list \<Rightarrow> string \<Rightarrow> 'd" where
  "after dev w S is = serial dev (map (\<lambda>i. gr_op (lk_calls S ! i)) is) w"

definition holding :: "'o goroutine \<Rightarrow> bool" where
  "holding g \<longleftrightarrow> (\<exists>m. gr_pc g = Holding m)"

definition call_ok ::
    "(string \<Rightarrow> string \<Rightarrow> 'd \<Rightarrow> run_result \<times> 'd) \<Rightarrow> (string \<Rightarrow> 'd) \<Rightarrow> (string \<Rightarrow> 'd) \<Rightarrow> 'o goroutine \<Rightarrow> bool" where
  "call_ok dev start now g \<longleftrightarrow> gr_pc g \<noteq> Returned \<longrightarrow>
     (\<exists>p. gr_op g = Inr (gr_addr g, p) \<and>
        (if holding g then exec_cmds (dev (gr_addr g)) (gr_rest g) (now (gr_addr g)) = exec_cmds (dev (gr_addr g)) p (start (gr_addr g))
         else gr_rest g = p))"

definition effect_inv :: "(string \<Rightarrow> string \<Rightarrow> 'd \<Rightarrow> run_result \<times> 'd) \<Rightarrow> (string \<Rightarrow> 'd) \<Rightarrow> ('t, 'o, 'd) locked \<Rightarrow> bool" where
  "effect_inv dev w S \<longleftrightarrow>
     (\<forall>g \<in> set (lk_calls S). call_ok dev (after dev w S (lk_order S)) (lk_routers S) g) \<and>
     in_order (\<lambda>ys i. gr_rest (lk_calls S ! i) = Ret (fst (run_op dev (gr_op (lk_calls S ! i)) (after dev w S ys)))) (lk_order S) \<and>
     (\<forall>a. (\<forall>g \<in> set (lk_calls S). holding g \<longrightarrow> gr_addr g \<noteq> a) \<longrightarrow> lk_routers S a = after dev w S (lk_order S) a)"

subsection \<open>Every statement brings a call nearer to its return\<close>

fun pc_rank :: "pc \<Rightarrow> nat" where
  "pc_rank AtTable = 5"
| "pc_rank InTable = 4"
| "pc_rank (Leaving m) = 3"
| "pc_rank (Waiting m) = 2"
| "pc_rank (Holding m) = 1"
| "pc_rank Returned = 0"

definition nearer :: "('o goroutine \<times> 'o goroutine) set" where
  "nearer = inv_image (less_than <*lex*> later_cmds) (\<lambda>g. (pc_rank (gr_pc g), gr_rest g))"

lemma wf_nearer: "wf nearer"
  unfolding nearer_def by (intro wf_inv_image wf_lex_prod wf_less_than wf_later_cmds)

lemma listrel1_update:
  assumes "i < length xs" and "(y, xs ! i) \<in> r"
  shows "(xs[i := y], xs) \<in> listrel1 r"
proof -
  have "xs[i := y] = take i xs @ y # drop (Suc i) xs" by (rule upd_conv_take_nth_drop [OF assms(1)])
  moreover have "xs = take i xs @ xs ! i # drop (Suc i) xs" by (rule id_take_nth_drop [OF assms(1)])
  ultimately show ?thesis using listrel1I [OF assms(2)] by metis
qed

lemma lock_step_nearer: "lock_step entry dev S S' \<Longrightarrow> (lk_calls S', lk_calls S) \<in> listrel1 nearer"
  by (induction rule: lock_step.induct) (auto simp: set_pc_def nearer_def later_cmds_def intro!: listrel1_update)

lemma lock_step_wf: "wfP (\<lambda>S' S. lock_step entry dev S S')"
proof -
  have "wf (inv_image (listrel1 nearer) lk_calls)" using wf_nearer by (intro wf_inv_image) (simp add: wf_listrel1_iff)
  then show ?thesis unfolding wfp_def by (rule wf_subset) (auto dest: lock_step_nearer)
qed

subsection \<open>The contract of the table\<close>

locale lock_table =
  fixes entry :: "'t entry" and mutex_of :: "'t \<Rightarrow> string \<Rightarrow> nat option"
  assumes entry_table: "entry t a n = (m, t', n') \<Longrightarrow> mutex_of t' = (mutex_of t)(a \<mapsto> m)"
    and entry_known: "entry t a n = (m, t', n') \<Longrightarrow> mutex_of t a = Some m0 \<Longrightarrow> m = m0 \<and> n' = n"
    and entry_new: "entry t a n = (m, t', n') \<Longrightarrow> mutex_of t a = None \<Longrightarrow> m = n \<and> n' = Suc n"
begin

text \<open>Every address has at most one mutex for ever, and no two addresses share one.\<close>

definition table_inv :: "('t, 'o, 'd) locked \<Rightarrow> bool" where
  "table_inv S \<longleftrightarrow>
     (\<forall>a m. mutex_of (lk_table S) a = Some m \<longrightarrow> m < lk_next S) \<and>
     (\<forall>a b m. mutex_of (lk_table S) a = Some m \<longrightarrow> mutex_of (lk_table S) b = Some m \<longrightarrow> a = b) \<and>
     (\<forall>g \<in> set (lk_calls S). \<forall>m. gr_pc g \<in> {Leaving m, Waiting m, Holding m} \<longrightarrow> mutex_of (lk_table S) (gr_addr g) = Some m)"

lemma table_inv_call: "table_inv S \<Longrightarrow> table_inv (call opr S)"
  by (auto simp: table_inv_def call_def split: sum.split)

lemma gr_addr_update [simp]:
  "gr_addr (g\<lparr>gr_pc := l\<rparr>) = gr_addr g" "gr_addr (g\<lparr>gr_rest := p\<rparr>) = gr_addr g"
  by (simp_all add: gr_addr_def)

lemma table_inv_step:
  assumes "lock_step entry dev S S'" and inv: "table_inv S"
  shows "table_inv S'"
  using assms(1)
proof cases
  case (look i m t' n')
  let ?a = "gr_addr (lk_calls S ! i)"
  have t: "mutex_of t' = (mutex_of (lk_table S))(?a \<mapsto> m)" by (rule entry_table [OF look(4)])
  have calls: "\<forall>g \<in> set (lk_calls S'). \<forall>k. gr_pc g \<in> {Leaving k, Waiting k, Holding k} \<longrightarrow>
      (gr_addr g = ?a \<and> k = m) \<or> mutex_of (lk_table S) (gr_addr g) = Some k"
    using inv by (auto simp: look(1) table_inv_def set_pc_def dest!: in_set_update_cases)
  show ?thesis
  proof (cases "mutex_of (lk_table S) ?a")
    case None
    from entry_new [OF look(4) None] have m: "m = lk_next S" "n' = Suc m" by simp_all
    have "mutex_of (lk_table S) a \<noteq> Some m" for a using inv m by (auto simp: table_inv_def)
    with calls inv m None show ?thesis
      unfolding table_inv_def look(1) by (auto simp: t less_Suc_eq)
  next
    case (Some m0)
    from entry_known [OF look(4) Some] have "m = m0" "n' = lk_next S" by simp_all
    with Some have "mutex_of t' = mutex_of (lk_table S)" by (auto simp: t fun_eq_iff)
    moreover have "\<forall>g \<in> set (lk_calls S'). \<forall>k. gr_pc g \<in> {Leaving k, Waiting k, Holding k} \<longrightarrow> mutex_of (lk_table S) (gr_addr g) = Some k"
      using calls Some \<open>m = m0\<close> by metis
    ultimately show ?thesis using inv \<open>n' = lk_next S\<close> unfolding table_inv_def look(1) by simp
  qed
qed (use inv in \<open>auto simp: table_inv_def set_pc_def dest!: in_set_update_cases\<close>)

lemma holders_inv_call: "holders_inv S \<Longrightarrow> holders_inv (call opr S)"
  by (auto simp: holders_inv_def call_def nth_append less_Suc_eq split: sum.split)

lemma holders_inv_step:
  assumes "lock_step entry dev S S'" and inv: "holders_inv S"
  shows "holders_inv S'"
  using assms(1)
proof cases
  case (mu_Lock i)
  with inv show ?thesis unfolding holders_inv_def by (auto simp: set_pc_def nth_list_update)
next
  case (look i m t' n')
  with inv show ?thesis unfolding holders_inv_def by (auto simp: set_pc_def nth_list_update)
next
  case (mu_Unlock i m)
  with inv have "lk_mu S = Some i" unfolding holders_inv_def by blast
  have "\<not> (j < length (lk_calls S') \<and> (gr_pc (lk_calls S' ! j) = InTable \<or> (\<exists>m. gr_pc (lk_calls S' ! j) = Leaving m)))" for j
  proof (cases "j = i")
    case True
    with mu_Unlock(2) show ?thesis by (simp add: mu_Unlock(1) set_pc_def)
  next
    case False
    with \<open>lk_mu S = Some i\<close> have "lk_mu S \<noteq> Some j" by simp
    with inv have "\<not> (j < length (lk_calls S) \<and> (gr_pc (lk_calls S ! j) = InTable \<or> (\<exists>m. gr_pc (lk_calls S ! j) = Leaving m)))"
      unfolding holders_inv_def by blast
    with False show ?thesis by (simp add: mu_Unlock(1) set_pc_def)
  qed
  moreover have "lk_held S' k = Some j \<longleftrightarrow> j < length (lk_calls S') \<and> gr_pc (lk_calls S' ! j) = Holding k" for j k
    using inv mu_Unlock(2,3) unfolding holders_inv_def mu_Unlock(1) set_pc_def by (cases "j = i") simp_all
  ultimately show ?thesis unfolding holders_inv_def by (simp add: mu_Unlock(1))
next
  case (m_Lock i m)
  with inv have "\<not> (j < length (lk_calls S) \<and> gr_pc (lk_calls S ! j) = Holding m)" for j
    unfolding holders_inv_def by (metis option.discI)
  with m_Lock inv show ?thesis unfolding holders_inv_def by (auto simp: set_pc_def nth_list_update)
next
  case (command i m c k addr r d)
  with inv show ?thesis unfolding holders_inv_def by (auto simp: nth_list_update)
next
  case (m_Unlock i m x)
  with inv have "\<not> (j < length (lk_calls S) \<and> gr_pc (lk_calls S ! j) = Holding m)" if "j \<noteq> i" for j
    using that unfolding holders_inv_def by (metis option.inject)
  with m_Unlock inv show ?thesis unfolding holders_inv_def by (auto simp: set_pc_def nth_list_update)
qed

lemma order_inv_parts:
  assumes "order_inv S"
  shows "i \<in> set (lk_order S) \<longleftrightarrow> i < length (lk_calls S) \<and> gr_pc (lk_calls S ! i) = Returned"
    "distinct (lk_order S)" "length (lk_calls S) \<notin> set (lk_order S)"
    "i < length (lk_calls S) \<Longrightarrow> gr_before (lk_calls S ! i) \<subseteq> set (lk_order S)"
  using assms by (auto simp: order_inv_def)

lemma order_inv_call:
  assumes inv: "order_inv S"
  shows "order_inv (call opr S)"
proof -
  note parts = order_inv_parts [OF inv]
  have old: "in_order (\<lambda>ys i. gr_before ((lk_calls S @ [g]) ! i) \<subseteq> set ys) (lk_order S)" for g
    using inv parts(1) by (auto simp: order_inv_def nth_append elim!: in_order_mono)
  have before: "set (lk_order S) = {i. i < length (lk_calls S) \<and> gr_pc (lk_calls S ! i) = Returned}" using parts(1) by blast
  show ?thesis
  proof (cases opr)
    case (Inl x)
    let ?S = "call opr S"
    have "lk_order ?S = lk_order S @ [length (lk_calls S)]" by (simp add: call_def Inl)
    moreover obtain g where "lk_calls ?S = lk_calls S @ [g]" "gr_pc g = Returned" "gr_before g = set (lk_order S)"
      by (simp add: call_def Inl)
    ultimately show ?thesis
      unfolding order_inv_def using parts(2-4) old before by (auto simp: nth_append less_Suc_eq)
  next
    case (Inr x)
    let ?S = "call opr S"
    have "lk_order ?S = lk_order S" by (simp add: call_def Inr split: prod.split)
    moreover obtain g where "lk_calls ?S = lk_calls S @ [g]" "gr_pc g = AtTable" "gr_before g = set (lk_order S)"
      by (simp add: call_def Inr split: prod.split)
    ultimately show ?thesis
      unfolding order_inv_def using parts(2-4) old before by (auto simp: nth_append less_Suc_eq)
  qed
qed

lemma order_inv_same:
  assumes inv: "order_inv S" and "lk_order S' = lk_order S" and len: "length (lk_calls S') = length (lk_calls S)"
    and before: "\<And>i. i < length (lk_calls S) \<Longrightarrow> gr_before (lk_calls S' ! i) = gr_before (lk_calls S ! i)"
    and pc: "\<And>i. i < length (lk_calls S) \<Longrightarrow> gr_pc (lk_calls S' ! i) = Returned \<longleftrightarrow> gr_pc (lk_calls S ! i) = Returned"
  shows "order_inv S'"
proof -
  note parts = order_inv_parts [OF inv]
  have "in_order (\<lambda>ys i. gr_before (lk_calls S' ! i) \<subseteq> set ys) (lk_order S)"
  proof (rule in_order_mono)
    show "in_order (\<lambda>ys i. gr_before (lk_calls S ! i) \<subseteq> set ys) (lk_order S)" using inv by (simp add: order_inv_def)
  next
    fix ys i
    assume "i \<in> set (lk_order S)" and *: "gr_before (lk_calls S ! i) \<subseteq> set ys"
    then have "i < length (lk_calls S)" using parts(1) by blast
    from before [OF this] * show "gr_before (lk_calls S' ! i) \<subseteq> set ys" by simp
  qed
  moreover have "set (lk_order S) = {i. i < length (lk_calls S') \<and> gr_pc (lk_calls S' ! i) = Returned}"
    unfolding len by (rule set_eqI) (auto simp: parts(1) pc)
  moreover have "gr_before (lk_calls S' ! i) \<subseteq> set (lk_order S)" if "i < length (lk_calls S')" for i
    using parts(4) [of i] before [of i] that unfolding len by blast
  ultimately show ?thesis using parts(2) unfolding order_inv_def assms(2) by blast
qed

lemma set_pc_nth: "i < length (lk_calls S) \<Longrightarrow> lk_calls (set_pc i l S) ! j = (if j = i then (lk_calls S ! i)\<lparr>gr_pc := l\<rparr> else lk_calls S ! j)"
  by (simp add: set_pc_def)

lemma set_pc_parts [simp]:
  "length (lk_calls (set_pc i l S)) = length (lk_calls S)" "lk_order (set_pc i l S) = lk_order S" "lk_routers (set_pc i l S) = lk_routers S"
  "lk_held (set_pc i l S) = lk_held S" "lk_mu (set_pc i l S) = lk_mu S" "lk_table (set_pc i l S) = lk_table S"
  by (simp_all add: set_pc_def)

lemma order_inv_step:
  assumes "lock_step entry dev S S'" and inv: "order_inv S"
  shows "order_inv S'"
  using assms(1)
proof cases
  case (m_Unlock i m x)
  note parts = order_inv_parts [OF inv]
  have i: "i \<notin> set (lk_order S)" using parts(1) m_Unlock(3) by simp
  have before: "gr_before (lk_calls S' ! j) = gr_before (lk_calls S ! j)" for j
    by (simp add: m_Unlock(1) set_pc_nth [OF m_Unlock(2)])
  have "set (lk_order S') = {j. j < length (lk_calls S') \<and> gr_pc (lk_calls S' ! j) = Returned}"
    using parts(1) m_Unlock(2) by (auto simp: m_Unlock(1) set_pc_nth [OF m_Unlock(2)])
  moreover have "in_order (\<lambda>ys i. gr_before (lk_calls S' ! i) \<subseteq> set ys) (lk_order S')"
    unfolding before using inv parts(4) [OF m_Unlock(2)] by (simp add: m_Unlock(1) order_inv_def)
  moreover have "gr_before (lk_calls S' ! j) \<subseteq> set (lk_order S')" if "j < length (lk_calls S')" for j
    using parts(4) that unfolding before by (auto simp: m_Unlock(1))
  moreover have "distinct (lk_order S')" using parts(2) i by (simp add: m_Unlock(1))
  ultimately show ?thesis unfolding order_inv_def by blast
qed (use inv in \<open>auto intro!: order_inv_same [OF inv] simp: set_pc_nth nth_list_update split: if_splits\<close>)

lemma exclusive:
  assumes "table_inv S" "holders_inv S" and "i < length (lk_calls S)" "j < length (lk_calls S)"
    and "gr_pc (lk_calls S ! i) = Holding m" "gr_pc (lk_calls S ! j) = Holding n" "gr_addr (lk_calls S ! i) = gr_addr (lk_calls S ! j)"
  shows "i = j"
proof -
  have "mutex_of (lk_table S) (gr_addr (lk_calls S ! i)) = Some m" "mutex_of (lk_table S) (gr_addr (lk_calls S ! j)) = Some n"
    using assms(1,3-6) nth_mem unfolding table_inv_def by blast+
  with assms(7) have "m = n" by simp
  moreover have "lk_held S m = Some i" "lk_held S n = Some j" using assms(2-6) unfolding holders_inv_def by blast+
  ultimately show "i = j" by simp
qed

lemma same_mutex:
  assumes "table_inv S" and "g \<in> set (lk_calls S)" "h \<in> set (lk_calls S)" and "gr_pc g = Holding m" "gr_pc h = Waiting m"
  shows "gr_addr g = gr_addr h"
  using assms unfolding table_inv_def by (metis insertCI)

lemma after_cong: "(\<And>i. i \<in> set is \<Longrightarrow> gr_op (lk_calls S' ! i) = gr_op (lk_calls S ! i)) \<Longrightarrow> after dev w S' is = after dev w S is"
  by (simp add: after_def cong: map_cong)

lemma holding_pc [simp]: "holding (g\<lparr>gr_pc := l\<rparr>) \<longleftrightarrow> (\<exists>m. l = Holding m)" "holding (g\<lparr>gr_rest := p\<rparr>) \<longleftrightarrow> holding g"
  by (simp_all add: holding_def)

lemma update_others:
  assumes "g \<in> set (xs[i := y])"
  shows "g = y \<or> (\<exists>j < length xs. j \<noteq> i \<and> g = xs ! j)"
  using assms unfolding in_set_conv_nth by (metis length_list_update nth_list_update_eq nth_list_update_neq)

lemma update_mem: "j < length xs \<Longrightarrow> j \<noteq> i \<Longrightarrow> xs ! j \<in> set (xs[i := y])" "i < length xs \<Longrightarrow> y \<in> set (xs[i := y])"
  by (auto simp: in_set_conv_nth nth_list_update intro: exI [of _ j])

lemma free_before:
  assumes "holding (xs ! i) \<Longrightarrow> gr_addr (xs ! i) \<noteq> b" and "\<forall>g \<in> set (xs[i := y]). holding g \<longrightarrow> gr_addr g \<noteq> b"
  shows "\<forall>g \<in> set xs. holding g \<longrightarrow> gr_addr g \<noteq> b"
proof
  fix g
  assume "g \<in> set xs"
  then obtain j where j: "j < length xs" "g = xs ! j" unfolding in_set_conv_nth by blast
  show "holding g \<longrightarrow> gr_addr g \<noteq> b"
  proof (cases "j = i")
    case True
    then show ?thesis using assms(1) j(2) by blast
  next
    case False
    then show ?thesis using assms(2) update_mem(1) [OF j(1) False] j(2) by blast
  qed
qed

text \<open>A statement that does not touch the routers and neither takes nor releases a mutex.\<close>

lemma effect_inv_pc:
  assumes inv: "effect_inv dev w S" and i: "i < length (lk_calls S)" "gr_pc (lk_calls S ! i) \<noteq> Returned" "\<not> holding (lk_calls S ! i)"
    and l: "l \<noteq> Returned" "\<And>m. l \<noteq> Holding m"
    and S': "lk_calls S' = lk_calls (set_pc i l S)" "lk_order S' = lk_order S" "lk_routers S' = lk_routers S"
  shows "effect_inv dev w S'"
proof -
  let ?g = "lk_calls S ! i"
  have same: "gr_op (lk_calls S' ! j) = gr_op (lk_calls S ! j)" "gr_rest (lk_calls S' ! j) = gr_rest (lk_calls S ! j)" for j
    unfolding S'(1) by (simp_all add: set_pc_nth [OF i(1)])
  have a: "after dev w S' is = after dev w S is" for "is" by (rule after_cong) (rule same)
  have calls: "set (lk_calls S') \<subseteq> insert (?g\<lparr>gr_pc := l\<rparr>) (set (lk_calls S))"
    unfolding S'(1) set_pc_def by (auto dest: in_set_update_cases)
  have ok: "call_ok dev (after dev w S (lk_order S)) (lk_routers S) ?g" using inv i(1) unfolding effect_inv_def by simp
  have "call_ok dev (after dev w S (lk_order S)) (lk_routers S) (?g\<lparr>gr_pc := l\<rparr>)"
    using ok i(2,3) l unfolding call_ok_def by (simp add: gr_addr_def)
  moreover have "\<forall>g \<in> set (lk_calls S). holding g \<longrightarrow> gr_addr g \<noteq> b"
    if "\<forall>g \<in> set (lk_calls S'). holding g \<longrightarrow> gr_addr g \<noteq> b" for b
    by (rule free_before [where i = i]) (use that i(3) in \<open>simp_all add: S'(1) set_pc_def\<close>)
  ultimately show ?thesis
    using inv calls unfolding effect_inv_def same S'(2,3) a by blast
qed

lemma effect_inv_call:
  assumes inv: "effect_inv dev w S" and order: "order_inv S"
  shows "effect_inv dev w (call opr S)"
proof -
  let ?S = "call opr S"
  let ?g = "\<lparr>gr_op = opr, gr_pc = (case opr of Inl _ \<Rightarrow> Returned | Inr _ \<Rightarrow> AtTable),
    gr_rest = (case opr of Inl x \<Rightarrow> Ret x | Inr (_, p) \<Rightarrow> p), gr_before = set (lk_order S)\<rparr>"
  have calls: "lk_calls ?S = lk_calls S @ [?g]" and routers: "lk_routers ?S = lk_routers S"
    and ord: "lk_order ?S = lk_order S @ (case opr of Inl _ \<Rightarrow> [length (lk_calls S)] | Inr _ \<Rightarrow> [])"
    by (cases opr; simp add: call_def)+
  have old: "lk_calls ?S ! i = lk_calls S ! i" if "i \<in> set (lk_order S)" for i
    using that order_inv_parts(1) [OF order] by (simp add: calls nth_append)
  have a: "after dev w ?S is = after dev w S is" if "set is \<subseteq> set (lk_order S)" for "is"
    using that old by (intro after_cong) auto
  have a2: "after dev w ?S (lk_order ?S) = after dev w S (lk_order S)"
  proof (cases opr)
    case (Inl x)
    have o: "lk_order ?S = lk_order S @ [length (lk_calls S)]" using ord Inl by simp
    have "after dev w ?S (lk_order ?S) = snd (run_op dev opr (after dev w ?S (lk_order S)))"
      by (simp add: o after_def serial_snoc calls)
    then show ?thesis using a [of "lk_order S"] by (simp add: run_op_def Inl)
  qed (use a [of "lk_order S"] ord in simp)
  have "call_ok dev (after dev w S (lk_order S)) (lk_routers S) ?g"
    by (cases opr) (auto simp: call_ok_def holding_def gr_addr_def split: prod.split)
  moreover have "in_order (\<lambda>ys i. gr_rest (lk_calls ?S ! i) = Ret (fst (run_op dev (gr_op (lk_calls ?S ! i)) (after dev w ?S ys)))) (lk_order S)"
    using inv old a by (auto simp: effect_inv_def elim!: in_order_mono)
  then have "in_order (\<lambda>ys i. gr_rest (lk_calls ?S ! i) = Ret (fst (run_op dev (gr_op (lk_calls ?S ! i)) (after dev w ?S ys)))) (lk_order ?S)"
  proof (cases opr)
    case (Inl x)
    have "lk_order ?S = lk_order S @ [length (lk_calls S)]" using ord Inl by simp
    moreover have "gr_rest (lk_calls ?S ! length (lk_calls S)) = Ret x" "gr_op (lk_calls ?S ! length (lk_calls S)) = Inl x"
      unfolding calls by (simp_all add: Inl)
    ultimately show ?thesis using \<open>in_order _ (lk_order S)\<close> by (simp add: run_op_def)
  qed (use ord in simp)
  moreover have "\<not> holding ?g" by (cases opr) (simp_all add: holding_def)
  ultimately show ?thesis using inv unfolding effect_inv_def a2 routers by (auto simp: calls)
qed

lemma effect_inv_m_Lock:
  assumes inv: "effect_inv dev w S" and tab: "table_inv S" and hold: "holders_inv S"
    and i: "i < length (lk_calls S)" "gr_pc (lk_calls S ! i) = Waiting m" "lk_held S m = None"
    and S': "lk_calls S' = lk_calls (set_pc i (Holding m) S)" "lk_order S' = lk_order S" "lk_routers S' = lk_routers S"
  shows "effect_inv dev w S'"
proof -
  let ?g = "lk_calls S ! i"
  have same: "gr_op (lk_calls S' ! j) = gr_op (lk_calls S ! j)" "gr_rest (lk_calls S' ! j) = gr_rest (lk_calls S ! j)" for j
    unfolding S'(1) by (simp_all add: set_pc_nth [OF i(1)])
  have a: "after dev w S' is = after dev w S is" for "is" by (rule after_cong) (rule same)
  have free: "gr_addr g \<noteq> gr_addr ?g" if g: "g \<in> set (lk_calls S)" "holding g" for g
  proof
    assume "gr_addr g = gr_addr ?g"
    moreover obtain n where n: "gr_pc g = Holding n" using g(2) by (auto simp: holding_def)
    ultimately have "n = m" using tab i(1,2) g(1) unfolding table_inv_def by (metis insertCI nth_mem option.inject)
    moreover obtain j where "j < length (lk_calls S)" "g = lk_calls S ! j" using g(1) by (auto simp: in_set_conv_nth)
    ultimately have "lk_held S m = Some j" using hold n unfolding holders_inv_def by blast
    with i(3) show False by simp
  qed
  have now: "lk_routers S (gr_addr ?g) = after dev w S (lk_order S) (gr_addr ?g)"
    using inv free unfolding effect_inv_def by blast
  have "call_ok dev (after dev w S (lk_order S)) (lk_routers S) ?g" using inv i(1) unfolding effect_inv_def by simp
  then have "call_ok dev (after dev w S (lk_order S)) (lk_routers S) (?g\<lparr>gr_pc := Holding m\<rparr>)"
    using i(2) now by (auto simp: call_ok_def holding_def)
  moreover have "set (lk_calls S') \<subseteq> insert (?g\<lparr>gr_pc := Holding m\<rparr>) (set (lk_calls S))"
    unfolding S'(1) set_pc_def by (auto dest: in_set_update_cases)
  moreover have "\<forall>g \<in> set (lk_calls S). holding g \<longrightarrow> gr_addr g \<noteq> b"
    if "\<forall>g \<in> set (lk_calls S'). holding g \<longrightarrow> gr_addr g \<noteq> b" for b
    by (rule free_before [where i = i]) (use that i(2) in \<open>simp_all add: S'(1) set_pc_def holding_def\<close>)
  ultimately show ?thesis
    using inv unfolding effect_inv_def same S'(2,3) a by blast
qed

lemma effect_inv_command:
  assumes inv: "effect_inv dev w S" and tab: "table_inv S" and hold: "holders_inv S"
    and i: "i < length (lk_calls S)" "gr_pc (lk_calls S ! i) = Holding m" "gr_rest (lk_calls S ! i) = Cmd c k"
    and d: "dev (gr_addr (lk_calls S ! i)) c (lk_routers S (gr_addr (lk_calls S ! i))) = (r, d)"
    and order: "order_inv S"
    and S': "lk_calls S' = (lk_calls S)[i := (lk_calls S ! i)\<lparr>gr_rest := k r\<rparr>]" "lk_order S' = lk_order S"
      "lk_routers S' = (lk_routers S)(gr_addr (lk_calls S ! i) := d)"
  shows "effect_inv dev w S'"
proof -
  let ?g = "lk_calls S ! i"
  let ?start = "after dev w S (lk_order S)"
  have same: "gr_op (lk_calls S' ! j) = gr_op (lk_calls S ! j)" for j
    unfolding S'(1) using i(1) by (simp add: nth_list_update)
  have rest: "gr_rest (lk_calls S' ! j) = gr_rest (lk_calls S ! j)" if "j \<in> set (lk_order S)" for j
  proof -
    have "gr_pc (lk_calls S ! j) = Returned" using that order_inv_parts(1) [OF order] by blast
    then have "j \<noteq> i" using i(2) by auto
    then show ?thesis unfolding S'(1) by simp
  qed
  have a: "after dev w S' is = after dev w S is" for "is" by (rule after_cong) (rule same)
  have ok: "call_ok dev ?start (lk_routers S) g" if "g \<in> set (lk_calls S)" for g
    using inv that unfolding effect_inv_def by blast
  have mine: "call_ok dev ?start (lk_routers S') (?g\<lparr>gr_rest := k r\<rparr>)"
  proof -
    have h: "holding ?g" using i(2) by (simp add: holding_def)
    obtain p where p: "gr_op ?g = Inr (gr_addr ?g, p)"
      "exec_cmds (dev (gr_addr ?g)) (Cmd c k) (lk_routers S (gr_addr ?g)) = exec_cmds (dev (gr_addr ?g)) p (?start (gr_addr ?g))"
      using ok [of ?g] i h by (auto simp: call_ok_def)
    have "exec_cmds (dev (gr_addr ?g)) (k r) d = exec_cmds (dev (gr_addr ?g)) p (?start (gr_addr ?g))"
      using p(2) d by simp
    with p(1) h show ?thesis by (simp add: call_ok_def S'(3))
  qed
  have other: "call_ok dev ?start (lk_routers S') (lk_calls S ! j)" if j: "j < length (lk_calls S)" "j \<noteq> i" for j
  proof -
    have "holding (lk_calls S ! j) \<Longrightarrow> gr_addr (lk_calls S ! j) \<noteq> gr_addr ?g"
      using exclusive [OF tab hold j(1) i(1) _ i(2)] j(2) by (auto simp: holding_def)
    moreover have "call_ok dev ?start (lk_routers S) (lk_calls S ! j)" using ok j(1) by simp
    ultimately show ?thesis unfolding call_ok_def S'(3) by (cases "holding (lk_calls S ! j)") simp_all
  qed
  have "call_ok dev ?start (lk_routers S') g" if "g \<in> set (lk_calls S')" for g
    using update_others [OF that [unfolded S'(1)]] mine other by blast
  moreover have "in_order (\<lambda>ys i. gr_rest (lk_calls S' ! i) = Ret (fst (run_op dev (gr_op (lk_calls S ! i)) (after dev w S ys)))) (lk_order S)"
  proof (rule in_order_mono)
    show "in_order (\<lambda>ys i. gr_rest (lk_calls S ! i) = Ret (fst (run_op dev (gr_op (lk_calls S ! i)) (after dev w S ys)))) (lk_order S)"
      using inv by (simp add: effect_inv_def)
  qed (simp add: rest)
  moreover have "lk_routers S' b = ?start b" if *: "\<forall>g \<in> set (lk_calls S'). holding g \<longrightarrow> gr_addr g \<noteq> b" for b
  proof -
    have "holding (?g\<lparr>gr_rest := k r\<rparr>)" using i(2) by (simp add: holding_def)
    moreover have "?g\<lparr>gr_rest := k r\<rparr> \<in> set (lk_calls S')" unfolding S'(1) by (rule update_mem(2) [OF i(1)])
    ultimately have "gr_addr (?g\<lparr>gr_rest := k r\<rparr>) \<noteq> b" using * by blast
    then have b: "b \<noteq> gr_addr ?g" by auto
    have "\<forall>g \<in> set (lk_calls S). holding g \<longrightarrow> gr_addr g \<noteq> b"
      by (rule free_before [where i = i]) (use b * in \<open>simp_all add: S'(1)\<close>)
    then have "lk_routers S b = ?start b" using inv unfolding effect_inv_def by blast
    with b show ?thesis unfolding S'(3) by simp
  qed
  ultimately show ?thesis unfolding effect_inv_def same S'(2) a by blast
qed

lemma effect_inv_m_Unlock:
  assumes inv: "effect_inv dev w S" and tab: "table_inv S" and hold: "holders_inv S" and order: "order_inv S"
    and i: "i < length (lk_calls S)" "gr_pc (lk_calls S ! i) = Holding m" "gr_rest (lk_calls S ! i) = Ret x"
    and S': "lk_calls S' = (lk_calls S)[i := (lk_calls S ! i)\<lparr>gr_pc := Returned\<rparr>]" "lk_order S' = lk_order S @ [i]"
      "lk_routers S' = lk_routers S"
  shows "effect_inv dev w S'"
proof -
  let ?g = "lk_calls S ! i"
  let ?start = "after dev w S (lk_order S)"
  have same: "gr_op (lk_calls S' ! j) = gr_op (lk_calls S ! j)" "gr_rest (lk_calls S' ! j) = gr_rest (lk_calls S ! j)" for j
    unfolding S'(1) using i(1) by (simp_all add: nth_list_update)
  have a: "after dev w S' is = after dev w S is" for "is" by (rule after_cong) (rule same)
  have ok: "call_ok dev ?start (lk_routers S) g" if "g \<in> set (lk_calls S)" for g
    using inv that unfolding effect_inv_def by blast
  obtain p where p: "gr_op ?g = Inr (gr_addr ?g, p)" "exec_cmds (dev (gr_addr ?g)) p (?start (gr_addr ?g)) = (x, lk_routers S (gr_addr ?g))"
    using ok [of ?g] i by (auto simp: call_ok_def holding_def)
  have run: "run_op dev (gr_op ?g) ?start = (x, ?start(gr_addr ?g := lk_routers S (gr_addr ?g)))"
    using p by (simp add: run_op_def)
  have a2: "after dev w S (lk_order S @ [i]) = ?start(gr_addr ?g := lk_routers S (gr_addr ?g))"
    using run by (simp add: after_def serial_snoc)
  have other: "call_ok dev (?start(gr_addr ?g := lk_routers S (gr_addr ?g))) (lk_routers S) (lk_calls S ! j)"
    if j: "j < length (lk_calls S)" "j \<noteq> i" for j
  proof -
    have "holding (lk_calls S ! j) \<Longrightarrow> gr_addr (lk_calls S ! j) \<noteq> gr_addr ?g"
      using exclusive [OF tab hold j(1) i(1) _ i(2)] j(2) by (auto simp: holding_def)
    then show ?thesis using ok [of "lk_calls S ! j"] j(1) by (auto simp: call_ok_def)
  qed
  have mine: "call_ok dev (?start(gr_addr ?g := lk_routers S (gr_addr ?g))) (lk_routers S) (?g\<lparr>gr_pc := Returned\<rparr>)"
    by (simp add: call_ok_def)
  have "call_ok dev (?start(gr_addr ?g := lk_routers S (gr_addr ?g))) (lk_routers S) g" if "g \<in> set (lk_calls S')" for g
    using update_others [OF that [unfolded S'(1)]] other mine by blast
  moreover have "in_order (\<lambda>ys i. gr_rest (lk_calls S ! i) = Ret (fst (run_op dev (gr_op (lk_calls S ! i)) (after dev w S ys)))) (lk_order S @ [i])"
    using inv run i(3) by (simp add: effect_inv_def)
  moreover have "lk_routers S b = (?start(gr_addr ?g := lk_routers S (gr_addr ?g))) b"
    if *: "\<forall>g \<in> set (lk_calls S'). holding g \<longrightarrow> gr_addr g \<noteq> b" for b
  proof (cases "b = gr_addr ?g")
    case False
    have "\<forall>g \<in> set (lk_calls S). holding g \<longrightarrow> gr_addr g \<noteq> b"
      by (rule free_before [where i = i]) (use False * in \<open>simp_all add: S'(1)\<close>)
    then have "lk_routers S b = ?start b" using inv unfolding effect_inv_def by blast
    with False show ?thesis by simp
  qed simp
  ultimately show ?thesis unfolding effect_inv_def same S'(2,3) a a2 by blast
qed

definition lock_inv :: "(string \<Rightarrow> string \<Rightarrow> 'd \<Rightarrow> run_result \<times> 'd) \<Rightarrow> (string \<Rightarrow> 'd) \<Rightarrow> ('t, 'o, 'd) locked \<Rightarrow> bool" where
  "lock_inv dev w S \<longleftrightarrow> table_inv S \<and> holders_inv S \<and> order_inv S \<and> effect_inv dev w S"

lemma effect_inv_step:
  assumes "lock_step entry dev S S'" and inv: "lock_inv dev w S"
  shows "effect_inv dev w S'"
proof -
  have i: "effect_inv dev w S" "table_inv S" "holders_inv S" "order_inv S" using inv by (simp_all add: lock_inv_def)
  show ?thesis
    using assms(1)
  proof cases
    case (m_Lock i m)
    then show ?thesis by (intro effect_inv_m_Lock [OF i(1-3)]) simp_all
  next
    case (command i m c k addr r d)
    then show ?thesis by (intro effect_inv_command [OF i(1-3) command(2-4) _ i(4)]) simp_all
  next
    case (m_Unlock i m x)
    then show ?thesis by (intro effect_inv_m_Unlock [OF i m_Unlock(2-4)]) (simp_all add: set_pc_def)
  next
    case (mu_Lock j)
    then show ?thesis by (intro effect_inv_pc [OF i(1) mu_Lock(2), of InTable]) (simp_all add: holding_def)
  next
    case (look j m t' n')
    then show ?thesis by (intro effect_inv_pc [OF i(1) look(2), of "Leaving m"]) (simp_all add: holding_def)
  next
    case (mu_Unlock j m)
    then show ?thesis by (intro effect_inv_pc [OF i(1) mu_Unlock(2), of "Waiting m"]) (simp_all add: holding_def)
  qed
qed

lemma lock_inv_reach:
  assumes "lock_reach entry dev t0 w S" and "mutex_of t0 = Map.empty"
  shows "lock_inv dev w S"
  using assms(1)
proof (induction rule: lock_reach.induct)
  case init
  show ?case using assms(2)
    by (simp add: lock_inv_def table_inv_def holders_inv_def order_inv_def effect_inv_def after_def serial_def)
next
  case (call S opr)
  then show ?case
    by (simp add: lock_inv_def table_inv_call holders_inv_call order_inv_call effect_inv_call)
next
  case (step S S')
  then show ?case
    using table_inv_step holders_inv_step order_inv_step effect_inv_step unfolding lock_inv_def by blast
qed

lemma serializable:
  assumes "lock_reach entry dev t0 w S" and "mutex_of t0 = Map.empty"
  shows "\<exists>is. distinct is \<and> set is = {i. i < length (lk_calls S) \<and> gr_pc (lk_calls S ! i) = Returned} \<and>
    (\<forall>ys i zs. is = ys @ i # zs \<longrightarrow> gr_before (lk_calls S ! i) \<subseteq> set ys \<and>
       gr_rest (lk_calls S ! i) = Ret (fst (run_op dev (gr_op (lk_calls S ! i)) (serial dev (map (\<lambda>i. gr_op (lk_calls S ! i)) ys) w)))) \<and>
    ((\<forall>g \<in> set (lk_calls S). \<not> holding g) \<longrightarrow> lk_routers S = serial dev (map (\<lambda>i. gr_op (lk_calls S ! i)) is) w)"
  using lock_inv_reach [OF assms]
  unfolding lock_inv_def order_inv_def effect_inv_def in_order_def after_def
  by (intro exI [of _ "lk_order S"]) (simp add: fun_eq_iff)

lemma progress:
  assumes "lock_reach entry dev t0 w S" and "mutex_of t0 = Map.empty" and "g \<in> set (lk_calls S)" "gr_pc g \<noteq> Returned"
  shows "\<exists>S'. lock_step entry dev S S'"
proof -
  have hold: "holders_inv S" using lock_inv_reach [OF assms(1,2)] by (simp add: lock_inv_def)
  obtain i where i: "i < length (lk_calls S)" "g = lk_calls S ! i" using assms(3) unfolding in_set_conv_nth by blast
  have held: "\<exists>S'. lock_step entry dev S S'" if "j < length (lk_calls S)" "gr_pc (lk_calls S ! j) = Holding m" for j m
  proof (cases "gr_rest (lk_calls S ! j)")
    case (Ret x)
    from lock_step.m_Unlock [OF that Ret] show ?thesis by blast
  next
    case (Cmd c k)
    obtain r d where "dev (gr_addr (lk_calls S ! j)) c (lk_routers S (gr_addr (lk_calls S ! j))) = (r, d)" by fastforce
    from lock_step.command [where dev = dev and addr = "gr_addr (lk_calls S ! j)" and k = k, OF that Cmd refl this] show ?thesis by blast
  qed
  show ?thesis
  proof (cases "lk_mu S")
    case (Some j)
    with hold have j: "j < length (lk_calls S)" "gr_pc (lk_calls S ! j) = InTable \<or> (\<exists>m. gr_pc (lk_calls S ! j) = Leaving m)"
      unfolding holders_inv_def by blast+
    obtain m t' n' where "entry (lk_table S) (gr_addr (lk_calls S ! j)) (lk_next S) = (m, t', n')" by (rule prod_cases3)
    with j show ?thesis using lock_step.look lock_step.mu_Unlock by metis
  next
    case None
    with hold i(1) have free: "gr_pc g \<noteq> InTable" "gr_pc g \<noteq> Leaving m" for m
      unfolding holders_inv_def i(2) by (metis option.discI)+
    show ?thesis
    proof (cases "gr_pc g")
      case AtTable
      with i None show ?thesis using lock_step.mu_Lock by metis
    next
      case (Waiting m)
      show ?thesis
      proof (cases "lk_held S m")
        case None
        with i Waiting show ?thesis using lock_step.m_Lock by metis
      next
        case (Some j)
        with hold have "j < length (lk_calls S)" "gr_pc (lk_calls S ! j) = Holding m" unfolding holders_inv_def by blast+
        with held show ?thesis by blast
      qed
    next
      case (Holding m)
      with held i show ?thesis by blast
    qed (use free assms(4) in simp_all)
  qed
qed

end

subsection \<open>The two tables\<close>

text \<open>
  \<^verbatim>\<open>router.Client\<close> makes its map on first use: \<^verbatim>\<open>c.locks == nil\<close> is \<open>None\<close>. The map of \<^verbatim>\<open>demo.World\<close> is made by its constructor.
\<close>

definition client_entry :: "(string \<rightharpoonup> nat) option entry" where
  "client_entry tab addr fresh =
     (let locks = (case tab of None \<Rightarrow> Map.empty | Some l \<Rightarrow> l)
      in case locks addr of
           None \<Rightarrow> (fresh, Some (locks(addr \<mapsto> fresh)), Suc fresh)
         | Some m \<Rightarrow> (m, Some locks, fresh))"

definition demo_entry :: "(string \<rightharpoonup> nat) entry" where
  "demo_entry locks addr fresh =
     (case locks addr of
        None \<Rightarrow> (fresh, locks(addr \<mapsto> fresh), Suc fresh)
      | Some m \<Rightarrow> (m, locks, fresh))"

definition client_mutex :: "(string \<rightharpoonup> nat) option \<Rightarrow> string \<rightharpoonup> nat" where
  "client_mutex tab = (case tab of None \<Rightarrow> Map.empty | Some locks \<Rightarrow> locks)"

interpretation client_locks: lock_table client_entry client_mutex
  by unfold_locales (auto simp: client_entry_def client_mutex_def Let_def split: option.splits)

interpretation demo_locks: lock_table demo_entry "\<lambda>locks. locks"
  by unfold_locales (auto simp: demo_entry_def split: option.splits)

end
