(* ===== verification/Router_Calls.thy ===== *)
theory Router_Calls
  imports Addr_Locks
begin

section \<open>Package router: concurrent calls of the client\<close>

text \<open>
  The methods of \<^verbatim>\<open>router.Client\<close> as the commands they run while they hold the lock of their router, and what the lock gives:
  any number of goroutines that call them in any interleaving get the results, and leave the routers in the state, that the same
  calls would have one after another. This is what lets \<open>Poller_Steps\<close> take a whole method as one step.

  \<open>dev\<close> is a fleet of routers that do not influence each other: what a command does to one router depends on that router alone.
\<close>

subsection \<open>The methods as commands\<close>

definition status_result :: "(string \<Rightarrow> go_error + Status) \<Rightarrow> string \<Rightarrow> run_result \<Rightarrow> go_error + RouterRuntime" where
  "status_result unmarshal addr r =
     (case r of
        RunFailed e \<Rightarrow> Inl (routerErr addr ''status'' e)
      | Ran out err ex \<Rightarrow>
          if ex \<noteq> 0 then Inl (CommandErr \<lparr>ce_Addr = addr, ce_Cmd = Quote statusCmd, ce_StderrText = err, ce_Exit = ex\<rparr>)
          else ParseStatus unmarshal out)"

definition step_error :: "string \<Rightarrow> string \<Rightarrow> run_result \<Rightarrow> go_error option" where
  "step_error addr what r =
     (case r of
        RunFailed e \<Rightarrow> Some (routerErr addr what e)
      | Ran out err ex \<Rightarrow>
          if ex \<noteq> 0 then Some (CommandErr \<lparr>ce_Addr = addr, ce_Cmd = what, ce_StderrText = err, ce_Exit = ex\<rparr>) else None)"

definition keep_cmds :: "string \<Rightarrow> string \<Rightarrow> (go_error option \<Rightarrow> 'o cmds) \<Rightarrow> 'o cmds" where
  "keep_cmds addr marker k = Cmd (keepCmd marker) (\<lambda>r. k (step_error addr ''keep marker (revert may fire)'' r))"

definition apply_cmds ::
    "(string \<Rightarrow> go_error + Status) \<Rightarrow> bool option \<Rightarrow> string \<Rightarrow> string \<Rightarrow> string \<Rightarrow> string \<Rightarrow> bool \<Rightarrow>
     (RouterRuntime \<times> string \<times> go_error option \<Rightarrow> 'o) \<Rightarrow> 'o cmds" where
  "apply_cmds unmarshal lanAccess marker addr targetArg prevArg autoKeep fin =
     (let setting = (targetArg \<noteq> [])
      in Cmd (armCmd marker prevArg) (\<lambda>r1.
        case step_error addr ''arm revert'' r1 of
          Some e \<Rightarrow> Ret (fin (zero_RouterRuntime, [], Some e))
        | None \<Rightarrow> Cmd (applyCmd targetArg setting lanAccess) (\<lambda>r2.
        case step_error addr ''apply exit-node'' r2 of
          Some e \<Rightarrow> Ret (fin (zero_RouterRuntime, [], Some e))
        | None \<Rightarrow> Cmd statusCmd (\<lambda>r3.
        case status_result unmarshal addr r3 of
          Inl e \<Rightarrow> Ret (fin (zero_RouterRuntime, [], Some (routerErr addr ''confirm read failed (revert will fire)'' e)))
        | Inr rt \<Rightarrow>
            if \<not> confirmed rt targetArg setting then
              Ret (fin (rt, [], Some (ErrorString (''router '' @ addr @ '': exit-node not confirmed (revert will fire): want '' @
                 describeArg targetArg @ '', got '' @ describeCurrent rt))))
            else if \<not> autoKeep then Ret (fin (rt, marker, None))
            else keep_cmds addr marker (\<lambda>e. Ret (fin (rt, [], e)))))))"

definition probe_cmds :: "string \<Rightarrow> (go_error + string \<Rightarrow> 'o) \<Rightarrow> 'o cmds" where
  "probe_cmds addr fin = Cmd probeCmd (\<lambda>r. Ret (fin (
     case r of
       RunFailed e \<Rightarrow> Inl (routerErr addr ''probe'' e)
     | Ran out err ex \<Rightarrow>
         if ex \<noteq> 0 then Inl (CommandErr \<lparr>ce_Addr = addr, ce_Cmd = ''probe'', ce_StderrText = err, ce_Exit = ex\<rparr>)
         else Inr (TrimSpace out))))"

definition egress_cmds :: "string \<Rightarrow> string \<Rightarrow> (go_error + bool \<times> string \<Rightarrow> 'o) \<Rightarrow> 'o cmds" where
  "egress_cmds addr url fin = Cmd (egressCmd url) (\<lambda>r. Ret (fin (
     case r of
       RunFailed e \<Rightarrow> Inl (routerErr addr ''egress probe'' e)
     | Ran out err ex \<Rightarrow>
         (case parseEgressExit out of
            None \<Rightarrow> (let o1 = TrimSpace out in Inr (False, if o1 = [] then TrimSpace err else o1))
          | Some (n, detail) \<Rightarrow> Inr (n = 0, detail)))))"

text \<open>A call of the client, with the marker that \<^verbatim>\<open>newMarker()\<close> yields in it, and its result.\<close>

datatype client_call =
    StatusCall string
  | ApplyCall string "ExitNodeRef option" "ExitNodeRef option" bool string
  | KeepCall string string
  | ProbeCall string
  | EgressCall string string

datatype client_result =
    StatusResult "go_error + RouterRuntime"
  | ApplyResult "RouterRuntime \<times> string \<times> go_error option"
  | KeepResult "go_error option"
  | ProbeResult "go_error + string"
  | EgressResult "go_error + bool \<times> string"

text \<open>What a call does: it returns before it takes the lock, or runs commands under the lock of its router.\<close>

fun client_op ::
    "(string \<Rightarrow> go_error + Status) \<Rightarrow> bool option \<Rightarrow> client_call \<Rightarrow> client_result + string \<times> client_result cmds" where
  "client_op unm lan (StatusCall addr) = Inr (addr, Cmd statusCmd (\<lambda>r. Ret (StatusResult (status_result unm addr r))))"
| "client_op unm lan (ApplyCall addr target prev autoKeep marker) =
     (case exitArg target of
        Inl e \<Rightarrow> Inl (ApplyResult (zero_RouterRuntime, [], Some (routerErr addr ''target'' e)))
      | Inr targetArg \<Rightarrow>
     (case exitArg prev of
        Inl e \<Rightarrow> Inl (ApplyResult (zero_RouterRuntime, [], Some (routerErr addr ''prev'' e)))
      | Inr prevArg \<Rightarrow> Inr (addr, apply_cmds unm lan marker addr targetArg prevArg autoKeep ApplyResult)))"
| "client_op unm lan (KeepCall addr marker) = Inr (addr, keep_cmds addr marker (\<lambda>e. Ret (KeepResult e)))"
| "client_op unm lan (ProbeCall addr) = Inr (addr, probe_cmds addr ProbeResult)"
| "client_op unm lan (EgressCall addr url) =
     (case ValidateEgressURL url of
        Some e \<Rightarrow> Inl (EgressResult (Inl e))
      | None \<Rightarrow> Inr (addr, egress_cmds addr url EgressResult))"

text \<open>The same call as one step, by the definitions of \<open>Router_Client\<close>.\<close>

fun client_method ::
    "'w runner \<Rightarrow> (string \<Rightarrow> go_error + Status) \<Rightarrow> bool option \<Rightarrow> client_call \<Rightarrow> 'w \<Rightarrow> client_result \<times> 'w" where
  "client_method run unm lan (StatusCall addr) w = apfst StatusResult (status run unm addr w)"
| "client_method run unm lan (ApplyCall addr target prev autoKeep marker) w =
     apfst ApplyResult (ApplyExitNode run unm lan marker addr target prev autoKeep w)"
| "client_method run unm lan (KeepCall addr marker) w = apfst KeepResult (KeepExitNode run addr marker w)"
| "client_method run unm lan (ProbeCall addr) w = apfst ProbeResult (router_Probe run addr w)"
| "client_method run unm lan (EgressCall addr url) w = apfst EgressResult (EgressProbe run addr url w)"

definition in_turn ::
    "'w runner \<Rightarrow> (string \<Rightarrow> go_error + Status) \<Rightarrow> bool option \<Rightarrow> client_call list \<Rightarrow> 'w \<Rightarrow> 'w" where
  "in_turn run unm lan cs w = fold (\<lambda>c w. snd (client_method run unm lan c w)) cs w"

definition fleet_run :: "(string \<Rightarrow> string \<Rightarrow> 'd \<Rightarrow> run_result \<times> 'd) \<Rightarrow> (string \<Rightarrow> 'd) runner" where
  "fleet_run dev addr cmd w = (case dev addr cmd (w addr) of (r, d) \<Rightarrow> (r, w(addr := d)))"

lemma status_split: "status run unm addr w = (case run addr statusCmd w of (r, w') \<Rightarrow> (status_result unm addr r, w'))"
  by (simp add: status_def status_result_def split: prod.split run_result.split)

lemma run_step_split: "run_step run addr cmd what w = (case run addr cmd w of (r, w') \<Rightarrow> (step_error addr what r, w'))"
  by (simp add: run_step_def step_error_def split: prod.split run_result.split)

lemma run_op_method: "run_op dev (client_op unm lan c) w = client_method (fleet_run dev) unm lan c w"
proof (cases c)
  case (ApplyCall addr target prev autoKeep marker)
  then show ?thesis
    by (auto simp: run_op_def ApplyExitNode_def KeepExitNode_def apply_cmds_def keep_cmds_def fleet_run_def status_split run_step_split Let_def
        split: sum.split prod.split option.split)
qed (auto simp: run_op_def KeepExitNode_def keep_cmds_def fleet_run_def status_split run_step_split Let_def router_Probe_def
    probe_cmds_def EgressProbe_def egress_cmds_def split: sum.split prod.split option.split run_result.split)

lemma serial_in_turn: "serial dev (map (client_op unm lan) cs) w = in_turn (fleet_run dev) unm lan cs w"
  by (simp add: serial_def in_turn_def fold_map comp_def run_op_method)

subsection \<open>What the locks give\<close>

text \<open>
  C3 (linearizability). However the goroutines that call the client interleave, statement by statement and command by
  command: the calls that have returned can be put in an order that respects real time (a call that had returned
  before another was made comes first), such that each has the result its method gives when it runs after the ones before it;
  and whenever no call is under way in its commands, the routers are in the state that order leaves them in.
\<close>

theorem client_calls_linearizable:
  assumes "lock_reach client_entry dev None w S" and "map gr_op (lk_calls S) = map (client_op unm lan) cs"
  shows "\<exists>order. distinct order \<and> set order = {i. i < length cs \<and> gr_pc (lk_calls S ! i) = Returned} \<and>
    (\<forall>ys i zs. order = ys @ i # zs \<longrightarrow> gr_before (lk_calls S ! i) \<subseteq> set ys \<and>
       gr_rest (lk_calls S ! i) = Ret (fst (client_method (fleet_run dev) unm lan (cs ! i) (in_turn (fleet_run dev) unm lan (map ((!) cs) ys) w)))) \<and>
    ((\<forall>g \<in> set (lk_calls S). \<not> holding g) \<longrightarrow> lk_routers S = in_turn (fleet_run dev) unm lan (map ((!) cs) order) w)"
proof -
  have len: "length (lk_calls S) = length cs" using assms(2) by (metis length_map)
  have opr: "gr_op (lk_calls S ! i) = client_op unm lan (cs ! i)" if "i < length cs" for i
    using assms(2) len that by (metis nth_map)
  obtain order where ord: "distinct order" "set order = {i. i < length (lk_calls S) \<and> gr_pc (lk_calls S ! i) = Returned}"
    and each: "\<And>ys i zs. order = ys @ i # zs \<Longrightarrow> gr_before (lk_calls S ! i) \<subseteq> set ys \<and>
       gr_rest (lk_calls S ! i) = Ret (fst (run_op dev (gr_op (lk_calls S ! i)) (serial dev (map (\<lambda>i. gr_op (lk_calls S ! i)) ys) w)))"
    and final: "\<forall>g \<in> set (lk_calls S). \<not> holding g \<Longrightarrow> lk_routers S = serial dev (map (\<lambda>i. gr_op (lk_calls S ! i)) order) w"
    using client_locks.serializable [OF assms(1)] by (simp add: client_mutex_def) blast
  have turn: "serial dev (map (\<lambda>i. gr_op (lk_calls S ! i)) ys) w = in_turn (fleet_run dev) unm lan (map ((!) cs) ys) w"
    if "set ys \<subseteq> set order" for ys
  proof -
    have "map (\<lambda>i. gr_op (lk_calls S ! i)) ys = map (client_op unm lan) (map ((!) cs) ys)"
      using that ord(2) len opr by auto
    then show ?thesis by (simp only: serial_in_turn)
  qed
  show ?thesis
  proof (intro exI conjI allI impI)
    show "distinct order" by (rule ord(1))
    show "set order = {i. i < length cs \<and> gr_pc (lk_calls S ! i) = Returned}" using ord(2) len by simp
    show "lk_routers S = in_turn (fleet_run dev) unm lan (map ((!) cs) order) w" if "\<forall>g \<in> set (lk_calls S). \<not> holding g"
      using final [OF that] turn by simp
    fix ys i zs
    assume d: "order = ys @ i # zs"
    then have i: "i < length cs" "set ys \<subseteq> set order" using ord(2) len by auto
    show "gr_before (lk_calls S ! i) \<subseteq> set ys" using each [OF d] by blast
    show "gr_rest (lk_calls S ! i) = Ret (fst (client_method (fleet_run dev) unm lan (cs ! i) (in_turn (fleet_run dev) unm lan (map ((!) cs) ys) w)))"
      using each [OF d] turn [OF i(2)] opr [OF i(1)] by (simp add: run_op_method)
  qed
qed

text \<open>
  C4 (mutual exclusion). At most one goroutine is inside its commands on a router, those that wait for the same mutex
  mean the same router, so calls on different routers never wait for each other's commands; and the same holds of the
  preview.
\<close>

theorem router_commands_exclusive:
  assumes "lock_reach client_entry dev None w S" and "lock_reach demo_entry dev' Map.empty w' T"
  shows "(\<forall>i j m n. i < length (lk_calls S) \<longrightarrow> j < length (lk_calls S) \<longrightarrow> gr_pc (lk_calls S ! i) = Holding m \<longrightarrow>
      gr_pc (lk_calls S ! j) = Holding n \<longrightarrow> gr_addr (lk_calls S ! i) = gr_addr (lk_calls S ! j) \<longrightarrow> i = j) \<and>
    (\<forall>g \<in> set (lk_calls S). \<forall>h \<in> set (lk_calls S). \<forall>m. gr_pc g = Holding m \<longrightarrow> gr_pc h = Waiting m \<longrightarrow> gr_addr g = gr_addr h) \<and>
    (\<forall>i j m n. i < length (lk_calls T) \<longrightarrow> j < length (lk_calls T) \<longrightarrow> gr_pc (lk_calls T ! i) = Holding m \<longrightarrow>
      gr_pc (lk_calls T ! j) = Holding n \<longrightarrow> gr_addr (lk_calls T ! i) = gr_addr (lk_calls T ! j) \<longrightarrow> i = j) \<and>
    (\<forall>g \<in> set (lk_calls T). \<forall>h \<in> set (lk_calls T). \<forall>m. gr_pc g = Holding m \<longrightarrow> gr_pc h = Waiting m \<longrightarrow> gr_addr g = gr_addr h)"
proof -
  have c: "client_locks.lock_inv dev w S" using client_locks.lock_inv_reach [OF assms(1)] by (simp add: client_mutex_def)
  have d: "demo_locks.lock_inv dev' w' T" using demo_locks.lock_inv_reach [OF assms(2)] by simp
  from c have "client_locks.table_inv S" "holders_inv S" unfolding client_locks.lock_inv_def by simp_all
  note cl = this client_locks.exclusive [OF this]
  from d have "demo_locks.table_inv T" "holders_inv T" unfolding demo_locks.lock_inv_def by simp_all
  note dl = this demo_locks.exclusive [OF this]
  show ?thesis
    using cl(3) dl(3) client_locks.same_mutex [OF cl(1)] demo_locks.same_mutex [OF dl(1)] by blast
qed

text \<open>
  C5 (no deadlock, termination). Once no new call is made, no goroutine runs for ever, whatever is scheduled; and when
  none can take another step, every call has returned.
\<close>

theorem client_calls_return:
  assumes "lock_reach client_entry dev None w S"
  shows "termip (lock_step client_entry dev) S \<and>
    (\<forall>T. (lock_step client_entry dev)\<^sup>*\<^sup>* S T \<and> (\<nexists>U. lock_step client_entry dev T U) \<longrightarrow> (\<forall>g \<in> set (lk_calls T). gr_pc g = Returned))"
proof (intro conjI allI impI ballI)
  show "termip (lock_step client_entry dev) S"
    by (rule accp_wfpD) (use lock_step_wf in \<open>simp add: conversep_iff wfp_def\<close>)
next
  fix T g
  assume T: "(lock_step client_entry dev)\<^sup>*\<^sup>* S T \<and> (\<nexists>U. lock_step client_entry dev T U)" and g: "g \<in> set (lk_calls T)"
  from T have "(lock_step client_entry dev)\<^sup>*\<^sup>* S T" ..
  then have "lock_reach client_entry dev None w T"
    by (induction rule: rtranclp_induct) (auto intro: assms lock_reach.step)
  from client_locks.progress [OF this _ g] T show "gr_pc g = Returned" by (auto simp: client_mutex_def)
qed

subsection \<open>Two calls on one router\<close>

text \<open>The next statement of goroutine \<open>i\<close>, if it has one, and a schedule.\<close>

definition next_stmt ::
    "'t entry \<Rightarrow> (string \<Rightarrow> string \<Rightarrow> 'd \<Rightarrow> run_result \<times> 'd) \<Rightarrow> nat \<Rightarrow> ('t, 'o, 'd) locked \<Rightarrow> ('t, 'o, 'd) locked option" where
  "next_stmt entry dev i S =
     (if i < length (lk_calls S) then
        (let g = lk_calls S ! i; addr = gr_addr g
         in case gr_pc g of
              AtTable \<Rightarrow> if lk_mu S = None then Some ((set_pc i InTable S)\<lparr>lk_mu := Some i\<rparr>) else None
            | InTable \<Rightarrow> (case entry (lk_table S) addr (lk_next S) of
                 (m, t', n') \<Rightarrow> Some ((set_pc i (Leaving m) S)\<lparr>lk_table := t', lk_next := n'\<rparr>))
            | Leaving m \<Rightarrow> Some ((set_pc i (Waiting m) S)\<lparr>lk_mu := None\<rparr>)
            | Waiting m \<Rightarrow> if lk_held S m = None then Some ((set_pc i (Holding m) S)\<lparr>lk_held := (lk_held S)(m := Some i)\<rparr>) else None
            | Holding m \<Rightarrow> (case gr_rest g of
                 Ret x \<Rightarrow> Some ((set_pc i Returned S)\<lparr>lk_held := (lk_held S)(m := None), lk_order := lk_order S @ [i]\<rparr>)
               | Cmd c k \<Rightarrow> (case dev addr c (lk_routers S addr) of
                    (r, d) \<Rightarrow> Some (S\<lparr>lk_calls := (lk_calls S)[i := g\<lparr>gr_rest := k r\<rparr>], lk_routers := (lk_routers S)(addr := d)\<rparr>)))
            | Returned \<Rightarrow> None)
      else None)"

lemma next_stmt_step: "next_stmt entry dev i S = Some S' \<Longrightarrow> lock_step entry dev S S'"
  by (auto simp: next_stmt_def Let_def split: if_splits pc.splits cmds.splits prod.splits
      intro: lock_step.intros lock_step.command [OF _ _ _ refl])

fun run_stmts ::
    "'t entry \<Rightarrow> (string \<Rightarrow> string \<Rightarrow> 'd \<Rightarrow> run_result \<times> 'd) \<Rightarrow> nat list \<Rightarrow> ('t, 'o, 'd) locked \<Rightarrow> ('t, 'o, 'd) locked" where
  "run_stmts entry dev [] S = S"
| "run_stmts entry dev (i # is) S = (case next_stmt entry dev i S of None \<Rightarrow> S | Some S' \<Rightarrow> run_stmts entry dev is S')"

lemma run_stmts_reach: "lock_reach entry dev t0 w S \<Longrightarrow> lock_reach entry dev t0 w (run_stmts entry dev is S)"
proof (induction entry dev "is" S rule: run_stmts.induct)
  case (2 entry dev i "is" S)
  show ?case
  proof (cases "next_stmt entry dev i S")
    case (Some S')
    from 2(1) [OF Some lock_reach.step [OF 2(2) next_stmt_step [OF Some]]] Some show ?thesis by simp
  qed (use 2(2) in simp)
qed simp

lemma lock_step_ops: "lock_step entry dev S S' \<Longrightarrow> map gr_op (lk_calls S') = map gr_op (lk_calls S)"
  by (induction rule: lock_step.induct) (simp_all add: set_pc_def map_update list_update_same_conv)

lemma run_stmts_ops: "map gr_op (lk_calls (run_stmts entry dev is S)) = map gr_op (lk_calls S)"
  by (induction entry dev "is" S rule: run_stmts.induct) (auto split: option.split dest!: next_stmt_step lock_step_ops)

text \<open>A router that writes down its commands, and two keep markers for it.\<close>

definition log_dev :: "string \<Rightarrow> string \<Rightarrow> string list \<Rightarrow> run_result \<times> string list" where
  "log_dev addr c d = (Ran [] [] 0, d @ [c])"

definition two_keeps :: "client_call list" where
  "two_keeps = [KeepCall ''100.64.0.1'' ''/tmp/m1'', KeepCall ''100.64.0.1'' ''/tmp/m2'']"

definition keeps_start :: "((string \<rightharpoonup> nat) option, client_result, string list) locked" where
  "keeps_start = fold (\<lambda>c. call (client_op (\<lambda>_. Inl (ErrorString [])) None c)) two_keeps
     \<lparr>lk_table = None, lk_next = 0, lk_mu = None, lk_held = (\<lambda>_. None), lk_calls = [], lk_routers = (\<lambda>_. []), lk_order = []\<rparr>"

definition keeps_mid :: "((string \<rightharpoonup> nat) option, client_result, string list) locked" where
  "keeps_mid = run_stmts client_entry log_dev [0, 0, 0, 1, 1, 1, 1] keeps_start"

definition keeps_end :: "((string \<rightharpoonup> nat) option, client_result, string list) locked" where
  "keeps_end = run_stmts client_entry log_dev [1, 1, 0, 0, 0] keeps_mid"

lemma keeps_start_reach: "lock_reach client_entry log_dev None (\<lambda>_. []) keeps_start"
  by (auto simp: keeps_start_def two_keeps_def intro: lock_reach.call lock_reach.init)

lemma keeps_reach:
  "lock_reach client_entry log_dev None (\<lambda>_. []) keeps_mid" "lock_reach client_entry log_dev None (\<lambda>_. []) keeps_end"
  unfolding keeps_mid_def keeps_end_def by (intro run_stmts_reach keeps_start_reach)+

lemma keeps_ops: "map gr_op (lk_calls keeps_end) = map (client_op (\<lambda>_. Inl (ErrorString [])) None) two_keeps"
  unfolding keeps_end_def keeps_mid_def run_stmts_ops by (simp add: keeps_start_def two_keeps_def call_def)

lemma keeps_pcs: "map gr_pc (lk_calls keeps_mid) = [Waiting 0, Holding 0]" "map gr_pc (lk_calls keeps_end) = [Returned, Returned]"
  by code_simp+

lemma keeps_mid_nth: "gr_pc (lk_calls keeps_mid ! 0) = Waiting 0" "gr_pc (lk_calls keeps_mid ! 1) = Holding 0" "length (lk_calls keeps_mid) = 2"
  by code_simp+

lemma keeps_returned: "\<forall>g \<in> set (lk_calls keeps_end). gr_pc g = Returned"
proof -
  have "gr_pc ` set (lk_calls keeps_end) = {Returned}" using arg_cong [OF keeps_pcs(2), of set] by simp
  then show ?thesis by blast
qed

lemma keeps_log: "lk_routers keeps_end ''100.64.0.1'' = [keepCmd ''/tmp/m2'', keepCmd ''/tmp/m1'']"
  by code_simp

theorem client_calls_linearizable_witness:
  "\<exists>order. distinct order \<and> set order = {0, 1} \<and>
     [keepCmd ''/tmp/m2'', keepCmd ''/tmp/m1''] =
       in_turn (fleet_run log_dev) (\<lambda>_. Inl (ErrorString [])) None (map ((!) two_keeps) order) (\<lambda>_. []) ''100.64.0.1''"
proof -
  have idle: "\<forall>g \<in> set (lk_calls keeps_end). \<not> holding g" using keeps_returned by (auto simp: holding_def)
  have "length (lk_calls keeps_end) = 2" "length two_keeps = 2" using arg_cong [OF keeps_pcs(2), of length] by (simp_all add: two_keeps_def)
  then have returned: "{i. i < length two_keeps \<and> gr_pc (lk_calls keeps_end ! i) = Returned} = {0, 1}"
    using keeps_returned by (auto simp: less_2_cases_iff)
  obtain order where o: "distinct order" "set order = {i. i < length two_keeps \<and> gr_pc (lk_calls keeps_end ! i) = Returned}"
    "(\<forall>g \<in> set (lk_calls keeps_end). \<not> holding g) \<longrightarrow>
       lk_routers keeps_end = in_turn (fleet_run log_dev) (\<lambda>_. Inl (ErrorString [])) None (map ((!) two_keeps) order) (\<lambda>_. [])"
    using client_calls_linearizable [OF keeps_reach(2) keeps_ops] by (elim exE conjE) (rule that)
  have "lk_routers keeps_end ''100.64.0.1'' =
      in_turn (fleet_run log_dev) (\<lambda>_. Inl (ErrorString [])) None (map ((!) two_keeps) order) (\<lambda>_. []) ''100.64.0.1''"
    using mp [OF o(3) idle] by (rule fun_cong)
  with o(1,2) show ?thesis unfolding returned keeps_log by (intro exI [of _ order]) simp
qed

theorem router_commands_exclusive_witness:
  "\<exists>i j. i \<noteq> j \<and> gr_pc (lk_calls keeps_mid ! i) = Waiting 0 \<and> gr_pc (lk_calls keeps_mid ! j) = Holding 0 \<and>
     gr_addr (lk_calls keeps_mid ! i) = gr_addr (lk_calls keeps_mid ! j)"
proof -
  note pcs = keeps_mid_nth
  have demo: "lock_reach demo_entry log_dev Map.empty (\<lambda>_. [])
      \<lparr>lk_table = Map.empty, lk_next = 0, lk_mu = None, lk_held = (\<lambda>_. None), lk_calls = [], lk_routers = (\<lambda>_. []), lk_order = []\<rparr>"
    by (rule lock_reach.init)
  have "lk_calls keeps_mid ! 0 \<in> set (lk_calls keeps_mid)" "lk_calls keeps_mid ! 1 \<in> set (lk_calls keeps_mid)" using pcs(3) by simp_all
  then have "gr_addr (lk_calls keeps_mid ! 1) = gr_addr (lk_calls keeps_mid ! 0)"
    using router_commands_exclusive [OF keeps_reach(1) demo] pcs(1,2) by blast
  with pcs show ?thesis by (intro exI [of _ 0] exI [of _ 1]) simp
qed

theorem client_calls_return_witness:
  "termip (lock_step client_entry log_dev) keeps_start \<and> (\<nexists>U. lock_step client_entry log_dev keeps_end U) \<and> list_all (\<lambda>g. gr_pc g = Returned) (lk_calls keeps_end)"
proof -
  have stuck: "\<nexists>U. lock_step client_entry log_dev keeps_end U"
    using keeps_returned by (auto elim!: lock_step.cases simp: all_set_conv_all_nth)
  moreover have "termip (lock_step client_entry log_dev) keeps_start" using client_calls_return [OF keeps_start_reach] by blast
  moreover have "\<forall>g \<in> set (lk_calls keeps_end). gr_pc g = Returned"
    using client_calls_return [OF keeps_reach(2)] stuck by blast
  ultimately show ?thesis by (simp add: list_all_iff)
qed

end
