(* ===== verification/Api_Sections.thy ===== *)
theory Api_Sections
  imports Api_Safety Poller_Steps
begin

section \<open>Package api: handlers in sections\<close>

text \<open>
  The handlers of \<^verbatim>\<open>internal/api/api.go\<close> once more, at the grain at which requests interleave. Each request runs on its
  own goroutine; what it shares with the others it reaches through calls that are atomic one by one: a method of a store
  holds the store's lock, \<^verbatim>\<open>a.store.Load\<close> reads one pointer, and the controller's operations take the poller's lock section
  by section. A handler is therefore a program: an answer, an access to the system followed by the rest, or a controller operation under
  way. \<open>run_prog\<close> runs a program alone; \<open>sections_agree\<close> says that this is the handler as it was given before.
\<close>

subsection \<open>Programs\<close>

datatype 'w prog =
    Answer response
  | Stuck
  | Access "env \<Rightarrow> 'w system \<Rightarrow> 'w system \<times> 'w prog"
  | Await string op "response option"

text \<open>
  \<open>Stuck\<close> is a call that does not return. \<open>Await\<close> carries the router the controller was called for, the
  operation that is left, and the response once it is determined. \<open>Read\<close> is an access that changes nothing.
\<close>

definition Read :: "(env \<Rightarrow> 'w system \<Rightarrow> 'w prog) \<Rightarrow> 'w prog" where
  "Read f = Access (\<lambda>env sys. (sys, f env sys))"

definition reply :: "response option \<Rightarrow> 'w prog" where
  "reply r = (case r of None \<Rightarrow> Stuck | Some resp \<Rightarrow> Answer resp)"

text \<open>The instants that a section of a controller operation reads, from the environment it finds.\<close>

fun section_times :: "env \<Rightarrow> op \<Rightarrow> time \<times> time" where
  "section_times env (SetReady plan) = (ts_step1 (ev_set env), 0)"
| "section_times env (SetApply plan q) = (ts_arm (ev_set env), ts_now (ev_set env))"
| "section_times env (SetFinish plan q ar armAt now) = (ts_step3 (ev_set env), 0)"
| "section_times env (KeepCheck rid addr) = (ev_keepAt env, ev_keepBuilt env)"
| "section_times env (KeepFinish rid addr e) = (ev_keepBuilt env, 0)"
| "section_times env (ProbeFinish addr g rt) = (tp_checked (ev_probe env), 0)"
| "section_times env ZonesChanged = (ev_refreshed env, 0)"
| "section_times env opr = (0, 0)"

text \<open>What the handler writes for the result of its controller call.\<close>

fun set_response :: "RouterView \<times> controlError option \<Rightarrow> response" where
  "set_response (rv, Some e) = control_response e"
| "set_response (rv, None) = writeJSON 200 (json_RouterViewDTO (routerViewDTO rv))"

fun keep_response :: "controlError + RouterView \<Rightarrow> response" where
  "keep_response (Inl e) = control_response e"
| "keep_response (Inr rv) = writeJSON 200 (json_RouterViewDTO (routerViewDTO rv))"

definition probe_response :: "probe_times \<Rightarrow> go_error + string \<Rightarrow> response" where
  "probe_response ts r =
     (let dur = (tp_end ts - tp_start ts) div 1000000
      in writeJSON 200 (json_ProbeResult
           (case r of
              Inl e \<Rightarrow> \<lparr>pr_OK = False, pr_DurationMs = dur, pr_Output = [], pr_Error = Error e, pr_CheckedAt = tp_checked ts\<rparr>
            | Inr out \<Rightarrow> \<lparr>pr_OK = True, pr_DurationMs = dur, pr_Output = out, pr_Error = [], pr_CheckedAt = tp_checked ts\<rparr>)))"

text \<open>The section that determines the result of a controller operation, and the response that this gives.\<close>

fun section_result :: "'w API \<Rightarrow> env \<Rightarrow> string \<Rightarrow> op \<Rightarrow> pstate \<times> 'w \<Rightarrow> response option" where
  "section_result a env rid (SetReady plan) (s, w) =
     (case set_step1 (sp_addr plan) (sp_target plan) (ts_step1 (ev_set env)) s of
        (q, None, s1) \<Rightarrow>
          Some (control_response (preflightErr (''router '' @ Quote rid @ '' is no longer present in the snapshot'')))
      | (q, Some pending, s1) \<Rightarrow> None)"
| "section_result a env rid (SetFinish plan q ar armAt now) (s, w) =
     Some (set_response (set_result rid ar (fst (set_step3 (a_cfg a) plan q ar armAt now (ts_step3 (ev_set env)) s))))"
| "section_result a env rid (KeepCheck i addr) (s, w) =
     (case keep_validate addr (ev_keepAt env) (ev_keepBuilt env) s of
        (KeepRefused e snap, s1) \<Rightarrow> Some (control_response e)
      | (KeepEntry entry, s1) \<Rightarrow> None)"
| "section_result a env rid (KeepWrite i addr entry) (s, w) =
     map_option (\<lambda>e. control_response (routerControlError e)) (fst (ro_Keep (a_rc a) addr (ke_marker entry) w))"
| "section_result a env rid (KeepFinish i addr entry) (s, w) =
     Some (keep_response (fst (keep_commit i addr (ke_seq entry) (ev_keepBuilt env) s)))"
| "section_result a env rid (ProbeDial addr) (s, w) =
     Some (probe_response (ev_probe env) (fst (ro_Probe (a_rc a) addr w)))"
| "section_result a env rid opr (s, w) = None"

text \<open>One step of a program.\<close>

definition after_section :: "string \<Rightarrow> op list \<Rightarrow> response option \<Rightarrow> 'w prog" where
  "after_section rid os r = (case os of [] \<Rightarrow> reply r | opr # _ \<Rightarrow> Await rid opr r)"

fun prog_step :: "'w API \<Rightarrow> env \<Rightarrow> 'w prog \<Rightarrow> 'w system \<Rightarrow> 'w system \<times> 'w prog" where
  "prog_step a env (Access f) sys = f env sys"
| "prog_step a env (Await rid opr r) sys =
     (case section_times env opr of (t, u) \<Rightarrow>
      case advance (a_cfg a) (a_rc a) (sy_zones sys) t u opr (sy_poller sys, sy_world sys) of
        (os, pw) \<Rightarrow>
          (with_poller sys pw,
           after_section rid os
             (case section_result a env rid opr (sy_poller sys, sy_world sys) of Some x \<Rightarrow> Some x | None \<Rightarrow> r)))"
| "prog_step a env p sys = (sys, p)"

partial_function (option) run_prog :: "'w API \<Rightarrow> env \<Rightarrow> 'w prog \<Rightarrow> 'w system \<Rightarrow> (response \<times> 'w system) option" where
  "run_prog a env p sys =
     (case p of
        Answer resp \<Rightarrow> Some (resp, sys)
      | Stuck \<Rightarrow> None
      | _ \<Rightarrow> (case prog_step a env p sys of (sys', p') \<Rightarrow> run_prog a env p' sys'))"

subsection \<open>The router handlers\<close>

definition authorizeRouterWrite_prog :: "'w request \<Rightarrow> string \<Rightarrow> string \<Rightarrow> 'w prog \<Rightarrow> 'w prog" where
  "authorizeRouterWrite_prog r routerID target next =
     (case subject_of r of
        None \<Rightarrow> Answer forbidden
      | Some sub \<Rightarrow>
          if sub_Admin sub then next
          else Read (\<lambda>env sys. case authorizeRouterWrite r sys routerID target of Some resp \<Rightarrow> Answer resp | None \<Rightarrow> next))"

definition SetExitNode_prog :: "string \<Rightarrow> string \<Rightarrow> 'w prog" where
  "SetExitNode_prog routerID target =
     Read (\<lambda>env sys. let snap = sy_snap sys
       in Read (\<lambda>env sys. case set_preflight (sy_zones sys) snap routerID target of
            Inl e \<Rightarrow> Answer (control_response e)
          | Inr plan \<Rightarrow> Await routerID (SetReady plan) None))"

definition Keep_prog :: "string \<Rightarrow> 'w prog" where
  "Keep_prog routerID =
     Read (\<lambda>env sys. case keep_target (sy_snap sys) routerID of
         Inl e \<Rightarrow> Answer (control_response e)
       | Inr addr \<Rightarrow> Await routerID (KeepCheck routerID addr) None)"

definition Probe_prog :: "string \<Rightarrow> 'w prog" where
  "Probe_prog routerID =
     Read (\<lambda>env sys. case findRouterViewByStableID (sy_snap sys) routerID of
         None \<Rightarrow> Answer (control_response (mk_controlError 404 (''unknown router '' @ Quote routerID)))
       | Some rv \<Rightarrow>
           (let addr = primaryIP (rv_Node rv)
            in if addr = [] then
                 Answer (control_response (mk_controlError 404 (''router '' @ Quote routerID @ '' has no Tailscale IPv4 address'')))
               else if \<not> nv_Online (rv_Node rv) then
                 Answer (writeJSON 200 (json_ProbeResult \<lparr>pr_OK = False, pr_DurationMs = 0, pr_Output = [],
                   pr_Error = ''node is offline'', pr_CheckedAt = tp_checked (ev_probe env)\<rparr>))
               else Await routerID (ProbeDial addr) None))"

definition handleMe_prog :: "'w request \<Rightarrow> 'w prog" where
  "handleMe_prog r =
     (case subject_of r of
        None \<Rightarrow> Answer (writeErr 401 ''login required'')
      | Some sub \<Rightarrow>
          if sub_Admin sub then Answer (writeJSON 200 (json_MeResponse \<lparr>me_Role = ''admin'', me_ZoneID = [], me_ZoneName = []\<rparr>))
          else Read (\<lambda>env sys.
            let zoneName = (case sy_groups sys of
                     None \<Rightarrow> []
                   | Some gs \<Rightarrow> (case groups_Get gs (sub_ZoneID sub) of None \<Rightarrow> [] | Some g \<Rightarrow> g_Name g))
            in Answer (writeJSON 200 (json_MeResponse \<lparr>me_Role = ''guest'', me_ZoneID = sub_ZoneID sub, me_ZoneName = zoneName\<rparr>))))"

definition handleNodes_prog :: "'w request \<Rightarrow> 'w prog" where
  "handleNodes_prog r =
     (case subject_of r of
        None \<Rightarrow> Answer (writeErr 401 ''login required'')
      | Some sub \<Rightarrow> Read (\<lambda>env sys.
          let snap = (if sub_Admin sub then sy_snap sys else FilterSnapshotToZone (sy_snap sys) (sub_ZoneID sub))
          in Answer (writeJSON 200 (json_NodesResponse \<lparr>nr_Nodes = nodeDTOs (sn_Nodes snap), nr_BuiltAt = rfc3339 (sn_BuiltAt snap),
               nr_NetmapErr = sn_NetmapErr snap\<rparr>))))"

definition find_router_prog :: "string \<Rightarrow> 'w prog" where
  "find_router_prog ident =
     Read (\<lambda>env sys. case findRouterViewByStableID (sy_snap sys) ident of
         Some rv \<Rightarrow> Answer (writeJSON 200 (json_RouterViewDTO (routerViewDTO rv)))
       | None \<Rightarrow> Answer (router_not_found ident))"

definition handleRouter_prog :: "string \<Rightarrow> 'w request \<Rightarrow> 'w prog" where
  "handleRouter_prog ident r =
     (case subject_of r of
        None \<Rightarrow> Answer (writeErr 401 ''login required'')
      | Some sub \<Rightarrow>
          if sub_Admin sub then find_router_prog ident
          else Read (\<lambda>env sys. if routerInZone sys (sub_ZoneID sub) ident then find_router_prog ident else Answer (router_not_found ident)))"

definition handleSetExitNode_prog :: "'w API \<Rightarrow> string \<Rightarrow> 'w request \<Rightarrow> 'w prog" where
  "handleSetExitNode_prog a ident r =
     (case decode_body (dec_object (upd_exitNode (a_fold a)) []) [] (rq_body r 4096) of
        Inl e \<Rightarrow> Answer (writeErrDetail 400 ''invalid request body'' e [])
      | Inr target \<Rightarrow> authorizeRouterWrite_prog r ident target (SetExitNode_prog ident target))"

definition handleKeep_prog :: "string \<Rightarrow> 'w request \<Rightarrow> 'w prog" where
  "handleKeep_prog ident r = authorizeRouterWrite_prog r ident [] (Keep_prog ident)"

definition handleProbe_prog :: "string \<Rightarrow> 'w request \<Rightarrow> 'w prog" where
  "handleProbe_prog ident r = authorizeRouterWrite_prog r ident [] (Probe_prog ident)"

subsection \<open>The store handlers\<close>

text \<open>
  A mutation of the zones is followed by \<^verbatim>\<open>RefreshGroups\<close>; the response is known by then. The store an endpoint uses is
  wired when the endpoint is registered.
\<close>

definition refresh_then :: "response \<Rightarrow> 'w prog" where
  "refresh_then resp = Await [] ZonesChanged (Some resp)"

definition on_zones :: "(env \<Rightarrow> GroupsStore \<Rightarrow> 'w system \<Rightarrow> 'w system \<times> 'w prog) \<Rightarrow> 'w prog" where
  "on_zones f = Access (\<lambda>env sys. case sy_groups sys of None \<Rightarrow> (sys, Stuck) | Some gs \<Rightarrow> f env gs sys)"

definition on_accounts :: "(env \<Rightarrow> GuestsStore \<Rightarrow> 'w system \<Rightarrow> 'w system \<times> 'w prog) \<Rightarrow> 'w prog" where
  "on_accounts f = Access (\<lambda>env sys. case sy_guests sys of None \<Rightarrow> (sys, Stuck) | Some us \<Rightarrow> f env us sys)"

definition handleListGroups_prog :: "'w prog" where
  "handleListGroups_prog = on_zones (\<lambda>env gs sys. (sys, Answer (writeJSON 200 (JArr (map json_GroupDTO (groupDTOs (groups_List gs)))))))"

definition handleCreateGroup_prog :: "'w API \<Rightarrow> 'w request \<Rightarrow> 'w prog" where
  "handleCreateGroup_prog a r =
     (case decodeGroupBody a r of
        Inl resp \<Rightarrow> Answer resp
      | Inr body \<Rightarrow> on_zones (\<lambda>env gs sys.
          case groups_Create (a_fold a) (ev_io env) (ev_random env) (request_group body) gs (sy_files sys) of
            None \<Rightarrow> (sys, Stuck)
          | Some (Inl e, gs', fs') \<Rightarrow> (with_groups sys gs' fs', Answer (writeGroupErr ''group'' e))
          | Some (Inr g, gs', fs') \<Rightarrow> (with_groups sys gs' fs', refresh_then (writeJSON 201 (json_GroupDTO (groupDTO g))))))"

definition handleUpdateGroup_prog :: "'w API \<Rightarrow> string \<Rightarrow> 'w request \<Rightarrow> 'w prog" where
  "handleUpdateGroup_prog a ident r =
     (case decodeGroupBody a r of
        Inl resp \<Rightarrow> Answer resp
      | Inr body \<Rightarrow> on_zones (\<lambda>env gs sys.
          case groups_Update (a_fold a) (ev_io env) ident (request_group body) gs (sy_files sys) of
            (Inl e, gs', fs') \<Rightarrow> (with_groups sys gs' fs', Answer (writeGroupErr ''group'' e))
          | (Inr g, gs', fs') \<Rightarrow> (with_groups sys gs' fs', refresh_then (writeJSON 200 (json_GroupDTO (groupDTO g))))))"

text \<open>The guests are listed first, and the zone is deleted by a second call.\<close>

definition handleDeleteGroup_prog :: "string \<Rightarrow> 'w prog" where
  "handleDeleteGroup_prog ident =
     Read (\<lambda>env sys.
       if zone_in_use sys ident then
         Answer (writeErrDetail 409 ''zone in use'' ''a guest is assigned to this zone; delete or reassign the guest first'' [])
       else on_zones (\<lambda>env gs sys.
         case groups_Delete (ev_io env) ident gs (sy_files sys) of
           (Some e, gs', fs') \<Rightarrow> (with_groups sys gs' fs', Answer (writeGroupErr ''group'' e))
         | (None, gs', fs') \<Rightarrow> (with_groups sys gs' fs', refresh_then (WriteHeader 204))))"

definition handleListGuests_prog :: "'w prog" where
  "handleListGuests_prog = on_accounts (\<lambda>env us sys. (sys, Answer (writeJSON 200 (JArr (map json_GuestDTO (guestDTOs (guests_List us)))))))"

text \<open>The zone is looked up first, and the guest is created by a second call.\<close>

definition handleCreateGuest_prog :: "'w API \<Rightarrow> 'w request \<Rightarrow> 'w prog" where
  "handleCreateGuest_prog a r =
     (case decode_body (dec_object (upd_guest_body (a_fold a)) zero_guest_body) zero_guest_body (rq_body r guestReqLimit) of
        Inl e \<Rightarrow> Answer (writeErrDetail 400 ''invalid request body'' e [])
      | Inr body \<Rightarrow>
          (let zoneID = TrimSpace (gb_ZoneID body)
           in Read (\<lambda>env sys. case sy_groups sys of
                None \<Rightarrow> Answer (writeErrDetail 422 ''invalid guest'' ''no zones are configured'' [])
              | Some gs \<Rightarrow>
                  (case groups_Get gs zoneID of
                     None \<Rightarrow> Answer (writeErrDetail 422 ''invalid guest'' (''no zone with id '' @ gb_ZoneID body) [])
                   | Some _ \<Rightarrow> on_accounts (\<lambda>env us sys.
                       case guests_Create (a_fold a) (a_bcryptGenerate a) (ev_io env) (ev_random env) (ev_now env)
                               (gb_Label body) zoneID (gb_Password body) us (sy_files sys) of
                         None \<Rightarrow> (sys, Stuck)
                       | Some (Inl e, us', fs') \<Rightarrow> (with_guests sys us' fs', Answer (writeGroupErr ''guest'' e))
                       | Some (Inr g, us', fs') \<Rightarrow> (with_guests sys us' fs', Answer (writeJSON 201 (json_GuestDTO (guestDTO g)))))))))"

definition handleSetGuestDisabled_prog :: "'w API \<Rightarrow> string \<Rightarrow> 'w request \<Rightarrow> 'w prog" where
  "handleSetGuestDisabled_prog a ident r =
     (case decode_body (dec_object (upd_disabled (a_fold a)) False) False (rq_body r guestReqLimit) of
        Inl e \<Rightarrow> Answer (writeErrDetail 400 ''invalid request body'' e [])
      | Inr disabled \<Rightarrow> on_accounts (\<lambda>env us sys.
          case SetDisabled (ev_io env) ident disabled us (sy_files sys) of
            (Inl e, us', fs') \<Rightarrow> (with_guests sys us' fs', Answer (writeGroupErr ''guest'' e))
          | (Inr g, us', fs') \<Rightarrow> (with_guests sys us' fs', Answer (writeJSON 200 (json_GuestDTO (guestDTO g))))))"

definition handleDeleteGuest_prog :: "string \<Rightarrow> 'w prog" where
  "handleDeleteGuest_prog ident =
     on_accounts (\<lambda>env us sys.
       case guests_Delete (ev_io env) ident us (sy_files sys) of
         (Some e, us', fs') \<Rightarrow> (with_guests sys us' fs', Answer (writeGroupErr ''guest'' e))
       | (None, us', fs') \<Rightarrow> (with_guests sys us' fs', Answer (WriteHeader 204)))"

subsection \<open>Authentication, login and routes\<close>

text \<open>\<^verbatim>\<open>resolveSubject\<close>: the guest is looked up first, its zone by a second call.\<close>

definition resolve_prog :: "'w API \<Rightarrow> env \<Rightarrow> 'w request \<Rightarrow> (Subject option \<Rightarrow> 'w prog) \<Rightarrow> 'w prog" where
  "resolve_prog a env r next =
     (if tailnet_owner a env r then next (Some (zero_Subject\<lparr>sub_Admin := True\<rparr>))
      else case parseSession (a_sessionSecret a) (ev_now env) (rq_cookie r ''tsctl_session'') of
          None \<Rightarrow> next None
        | Some sub \<Rightarrow>
            if sub_Admin sub then next (Some sub)
            else Read (\<lambda>env sys. case sy_guests sys of
                None \<Rightarrow> next None
              | Some us \<Rightarrow>
                  (case guests_Get us (sub_GuestID sub) of
                     None \<Rightarrow> next None
                   | Some g \<Rightarrow>
                       if gu_Disabled g then next None
                       else Read (\<lambda>env sys. case sy_groups sys of
                           None \<Rightarrow> next None
                         | Some gs \<Rightarrow>
                             (case groups_Get gs (gu_ZoneID g) of
                                None \<Rightarrow> next None
                              | Some _ \<Rightarrow> next (Some (zero_Subject\<lparr>sub_GuestID := gu_ID g, sub_ZoneID := gu_ZoneID g\<rparr>)))))))"

definition RequireAuth_prog :: "'w API \<Rightarrow> env \<Rightarrow> 'w request \<Rightarrow> ('w request \<Rightarrow> 'w prog) \<Rightarrow> 'w prog" where
  "RequireAuth_prog a env r next =
     resolve_prog a env r (\<lambda>res. case res of
        None \<Rightarrow> Answer (writeErr 401 ''login required'')
      | Some sub \<Rightarrow> next (r\<lparr>rq_ctx := auth_context a r sub\<rparr>))"

definition RequireAdmin_prog :: "'w request \<Rightarrow> 'w prog \<Rightarrow> 'w prog" where
  "RequireAdmin_prog r next =
     (case subject_of r of
        None \<Rightarrow> Answer (writeErr 403 ''admin only'')
      | Some sub \<Rightarrow> if \<not> sub_Admin sub then Answer (writeErr 403 ''admin only'') else next)"

text \<open>A login reads the guest store in one call, and then draws the nonce of the session.\<close>

definition handleLogin_prog :: "'w API \<Rightarrow> 'w request \<Rightarrow> 'w prog" where
  "handleLogin_prog a r =
     (case decode_body (dec_object (upd_login (a_fold a)) \<lparr>lb_Label = [], lb_Password = []\<rparr>)
             \<lparr>lb_Label = [], lb_Password = []\<rparr> (rq_body r 4096) of
        Inl e \<Rightarrow> Answer (writeErrDetail 400 ''invalid request body'' e [])
      | Inr body \<Rightarrow> Read (\<lambda>env sys. case login_subject a body sys of
            Inl resp \<Rightarrow> Answer resp
          | Inr sub \<Rightarrow>
              (case newSessionValue (a_sessionSecret a) (ev_now env) (ev_nonce env) sub of
                 Inl _ \<Rightarrow> Answer (writeErr 500 ''could not create session'')
               | Inr val \<Rightarrow> Answer ((writeJSON 200 json_ok)\<lparr>rsp_cookies := [session_cookie val (sessionTTL div second)]\<rparr>))))"

definition handleLogout_prog :: "'w prog" where
  "handleLogout_prog = Answer ((writeJSON 200 json_ok)\<lparr>rsp_cookies := [session_cookie [] (-1)]\<rparr>)"

definition handleCSRF_prog :: "env \<Rightarrow> 'w prog" where
  "handleCSRF_prog env =
     (case randomToken (ev_token env) of
        Inl _ \<Rightarrow> Answer (writeErr 500 ''could not generate CSRF token'')
      | Inr tok \<Rightarrow> Answer ((writeJSON 200 (JObj [(''token'', js tok)]))
          \<lparr>rsp_cookies := [\<lparr>sc_Name = ''tsctl_csrf'', sc_Value = tok, sc_HttpOnly = False, sc_SameSiteStrict = True, sc_MaxAge = 0\<rparr>]\<rparr>))"

fun endpoint_prog :: "'w API \<Rightarrow> endpoint \<Rightarrow> 'w request \<Rightarrow> 'w prog" where
  "endpoint_prog a EpNodes r = handleNodes_prog r"
| "endpoint_prog a (EpRouter i) r = handleRouter_prog i r"
| "endpoint_prog a (EpExitNode i) r = handleSetExitNode_prog a i r"
| "endpoint_prog a (EpKeep i) r = handleKeep_prog i r"
| "endpoint_prog a (EpProbe i) r = handleProbe_prog i r"
| "endpoint_prog a EpMe r = handleMe_prog r"
| "endpoint_prog a EpListGroups r = RequireAdmin_prog r handleListGroups_prog"
| "endpoint_prog a EpCreateGroup r = RequireAdmin_prog r (handleCreateGroup_prog a r)"
| "endpoint_prog a (EpUpdateGroup i) r = RequireAdmin_prog r (handleUpdateGroup_prog a i r)"
| "endpoint_prog a (EpDeleteGroup i) r = RequireAdmin_prog r (handleDeleteGroup_prog i)"
| "endpoint_prog a EpListGuests r = RequireAdmin_prog r handleListGuests_prog"
| "endpoint_prog a EpCreateGuest r = RequireAdmin_prog r (handleCreateGuest_prog a r)"
| "endpoint_prog a (EpGuestDisabled i) r = RequireAdmin_prog r (handleSetGuestDisabled_prog a i r)"
| "endpoint_prog a (EpDeleteGuest i) r = RequireAdmin_prog r (handleDeleteGuest_prog i)"

definition data_prog :: "'w API \<Rightarrow> bool \<Rightarrow> bool \<Rightarrow> 'w request \<Rightarrow> 'w prog" where
  "data_prog a groups guests r =
     (let ps = data_patterns groups guests (rq_path r)
      in case List.find (\<lambda>p. method_matches (fst p) (rq_Method r)) ps of
           Some (_, ep) \<Rightarrow> endpoint_prog a ep r
         | None \<Rightarrow> Answer (WriteHeader (if ps = [] then 404 else 405)))"

definition api_prog :: "'w API \<Rightarrow> bool \<Rightarrow> bool \<Rightarrow> env \<Rightarrow> 'w request \<Rightarrow> 'w prog" where
  "api_prog a groups guests env r =
     (if rq_path r = [''csrf''] \<and> method_matches ''GET'' (rq_Method r) then handleCSRF_prog env
      else if rq_path r = [''login''] \<and> rq_Method r = ''POST'' then handleLogin_prog a r
      else if rq_path r = [''logout''] \<and> rq_Method r = ''POST'' then handleLogout_prog
      else RequireAuth_prog a env r (data_prog a groups guests))"

text \<open>\<open>groups\<close> and \<open>guests\<close> say which stores are wired; the first three checks need nothing of the system.\<close>

definition Routes_prog :: "'w API \<Rightarrow> bool \<Rightarrow> bool \<Rightarrow> env \<Rightarrow> 'w request \<Rightarrow> 'w prog" where
  "Routes_prog a groups guests env r =
     (if \<not> hostAllowed a (rq_Host r) then Answer (writeErr 403 ''bad Host header'')
      else if \<not> safe_method (rq_Method r) \<and> \<not> origin_ok a r then Answer (writeErr 403 ''bad Origin'')
      else if \<not> safe_method (rq_Method r) \<and> \<not> fetch_site_ok r then Answer (writeErr 403 ''cross-site request blocked'')
      else if \<not> safe_method (rq_Method r) \<and> \<not> double_submit_ok r then Answer (writeErr 403 ''invalid CSRF token'')
      else api_prog a groups guests env r)"

subsection \<open>Run alone\<close>

lemma run_Answer [simp]: "run_prog a env (Answer resp) sys = Some (resp, sys)"
  and run_Stuck [simp]: "run_prog a env Stuck sys = None"
  by (simp_all add: run_prog.simps)

lemma run_Access: "run_prog a env (Access f) sys = (case f env sys of (sys', p') \<Rightarrow> run_prog a env p' sys')"
  by (subst run_prog.simps) simp

lemma run_Read [simp]: "run_prog a env (Read f) sys = run_prog a env (f env sys) sys"
  by (simp add: Read_def run_Access)

lemma run_Await:
  "run_prog a env (Await rid opr r) sys = (case prog_step a env (Await rid opr r) sys of (sys', p') \<Rightarrow> run_prog a env p' sys')"
  by (subst run_prog.simps) simp

lemma run_reply [simp]: "run_prog a env (reply (Some resp)) sys = Some (resp, sys)"
  by (simp add: reply_def)

lemma after_section_simps [simp]:
  "after_section rid [] r = reply r" "after_section rid (opr # os) r = Await rid opr r"
  by (simp_all add: after_section_def)

lemma run_on_zones [simp]:
  "run_prog a env (on_zones f) sys =
     (case sy_groups sys of None \<Rightarrow> None | Some gs \<Rightarrow> (case f env gs sys of (sys', p') \<Rightarrow> run_prog a env p' sys'))"
  by (simp add: on_zones_def run_Access split: option.split)

lemma run_on_accounts [simp]:
  "run_prog a env (on_accounts f) sys =
     (case sy_guests sys of None \<Rightarrow> None | Some us \<Rightarrow> (case f env us sys of (sys', p') \<Rightarrow> run_prog a env p' sys'))"
  by (simp add: on_accounts_def run_Access split: option.split)

lemma run_refresh_then [simp]: "run_prog a env (refresh_then resp) sys = Some (resp, refresh_groups env sys)"
  by (simp add: refresh_then_def run_Await refresh_groups_def with_poller_def)

lemma with_poller_again [simp]:
  "with_poller (with_poller sys pw) pw' = with_poller sys pw'"
  "sy_poller (with_poller sys pw) = fst pw" "sy_world (with_poller sys pw) = snd pw" "sy_zones (with_poller sys pw) = sy_zones sys"
  by (simp_all add: with_poller_def sy_zones_def)

lemma run_Show [simp]:
  "run_prog a env (after_section rid (show_op snap) (Some resp)) sys =
     Some (resp, with_poller sys (maybe_broadcast snap (sy_poller sys), sy_world sys))"
  by (cases snap) (simp_all add: show_op_def maybe_broadcast_def run_Await with_poller_def)

text \<open>The controller operations, section by section, are the operations as a whole.\<close>

lemma run_disarm:
  "run_prog a env (Await rid (SetDisarm addr ms snap) (Some resp)) sys =
     Some (resp, with_poller sys (maybe_broadcast snap (sy_poller sys), disarm_all (a_rc a) addr ms (sy_world sys)))"
proof (induction ms arbitrary: sys)
  case Nil
  show ?case by (simp add: run_Await)
next
  case (Cons m ms)
  show ?case by (subst run_Await) (simp add: Cons.IH)
qed

lemma run_SetExitNode:
  "run_prog a env (SetExitNode_prog rid target) sys =
     (case SetExitNode (a_cfg a) (a_rc a) (sy_zones sys) (ev_set env) rid target (sy_poller sys, sy_world sys) of
        (res, pw) \<Rightarrow> Some (set_response res, with_poller sys pw))"
proof (cases "set_preflight (sy_zones sys) (sy_snap sys) rid target")
  case (Inl e)
  then show ?thesis by (simp add: SetExitNode_prog_def SetExitNode_def with_poller_def)
next
  case (Inr plan)
  obtain q snap s1 where st1: "set_step1 (sp_addr plan) (sp_target plan) (ts_step1 (ev_set env)) (sy_poller sys) = (q, snap, s1)"
    by (metis prod_cases3)
  show ?thesis
  proof (cases snap)
    case None
    with Inr st1 show ?thesis by (simp add: SetExitNode_prog_def SetExitNode_def run_Await)
  next
    case (Some pending)
    obtain ar w1 where ap: "set_apply (a_cfg a) (a_rc a) plan (sy_world sys) = (ar, w1)" by fastforce
    obtain out s3 where st3: "set_step3 (a_cfg a) plan q ar (ts_arm (ev_set env)) (ts_now (ev_set env)) (ts_step3 (ev_set env))
        (Broadcast pending s1) = (out, s3)" by fastforce
    have "run_prog a env (SetExitNode_prog rid target) sys =
        run_prog a env (Await rid (SetDisarm (sp_addr plan) (so_disarm out) (so_published out)) (Some (set_response (set_result rid ar out))))
          (with_poller sys (s3, w1))"
      using Inr st1 Some ap st3 by (simp add: SetExitNode_prog_def run_Await)
    then show ?thesis
      using Inr st1 Some ap st3 by (simp add: run_disarm SetExitNode_def maybe_broadcast_def Let_def)
  qed
qed

lemma run_Keep:
  "run_prog a env (Keep_prog rid) sys =
     (case Keep (a_rc a) (ev_keepAt env) (ev_keepBuilt env) rid (sy_poller sys, sy_world sys) of
        (res, pw) \<Rightarrow> Some (keep_response res, with_poller sys pw))"
proof (cases "keep_target (sy_snap sys) rid")
  case (Inl e)
  then show ?thesis by (simp add: Keep_prog_def Keep_def with_poller_def)
next
  case (Inr addr)
  obtain c s1 where v: "keep_validate addr (ev_keepAt env) (ev_keepBuilt env) (sy_poller sys) = (c, s1)" by fastforce
  show ?thesis
  proof (cases c)
    case (KeepRefused e snap)
    with Inr v show ?thesis by (simp add: Keep_prog_def Keep_def run_Await [of _ _ _ "KeepCheck rid addr"])
  next
    case (KeepEntry entry)
    obtain k w1 where k: "ro_Keep (a_rc a) addr (ke_marker entry) (sy_world sys) = (k, w1)" by fastforce
    obtain res snap s2 where c: "keep_commit rid addr (ke_seq entry) (ev_keepBuilt env) s1 = (res, snap, s2)"
      by (metis prod_cases3)
    have "run_prog a env (Keep_prog rid) sys = run_prog a env (Await rid (KeepWrite rid addr entry) None) (with_poller sys (s1, sy_world sys))"
      using Inr v KeepEntry by (simp add: Keep_prog_def run_Await [of _ _ _ "KeepCheck rid addr"])
    with Inr v k c KeepEntry show ?thesis
      by (cases k) (simp_all add: Keep_def run_Await [of _ _ _ "KeepWrite rid addr entry"] run_Await [of _ _ _ "KeepFinish rid addr entry"]
          reply_def)
  qed
qed

lemma run_resolve:
  "run_prog a env (Await rid (ProbeCapture addr) (Some resp)) (with_poller sys (s, w)) =
     Some (resp, with_poller sys (resolveAfterProbe (a_cfg a) (a_rc a) (tp_checked (ev_probe env)) addr (s, w)))"
proof (cases "resolve_capture addr s")
  case None
  then show ?thesis by (simp add: resolveAfterProbe_def run_Await)
next
  case (Some g)
  obtain rt w1 where st: "ro_Status (a_rc a) addr w = (rt, w1)" by fastforce
  show ?thesis
  proof (cases rt)
    case (Inl e)
    with Some st show ?thesis by (simp add: resolveAfterProbe_def run_Await)
  next
    case (Inr rr)
    obtain snap s1 where c: "resolve_commit (a_cfg a) addr g rr (tp_checked (ev_probe env)) s = (snap, s1)" by fastforce
    have "run_prog a env (Await rid (ProbeCapture addr) (Some resp)) (with_poller sys (s, w)) =
        run_prog a env (Await rid (ProbeFinish addr g rr) (Some resp)) (with_poller sys (s, w1))"
      using Some st Inr by (simp add: run_Await [of _ _ _ "ProbeCapture addr"] run_Await [of _ _ _ "ProbeRead addr g"])
    with Some st Inr c show ?thesis by (simp add: resolveAfterProbe_def run_Await [of _ _ _ "ProbeFinish addr g rr"])
  qed
qed

lemma run_Probe:
  "run_prog a env (Probe_prog rid) sys =
     (case Probe (a_cfg a) (a_rc a) (ev_probe env) rid (sy_poller sys, sy_world sys) of
        (Inl e, pw) \<Rightarrow> Some (control_response e, with_poller sys pw)
      | (Inr res, pw) \<Rightarrow> Some (writeJSON 200 (json_ProbeResult res), with_poller sys pw))"
proof (cases "findRouterViewByStableID (sy_snap sys) rid")
  case None
  then show ?thesis by (simp add: Probe_prog_def Probe_def with_poller_def)
next
  case (Some rv)
  let ?addr = "primaryIP (rv_Node rv)"
  note unfold = Probe_prog_def Probe_def Let_def
  show ?thesis
  proof (cases "?addr = [] \<or> \<not> nv_Online (rv_Node rv)")
    case True
    with Some show ?thesis by (auto simp: unfold with_poller_def)
  next
    case False
    obtain res w1 where p: "ro_Probe (a_rc a) ?addr (sy_world sys) = (res, w1)" by fastforce
    show ?thesis
    proof (cases res)
      case (Inl e)
      with Some False p show ?thesis
        by (simp add: unfold probe_response_def run_Await reply_def)
    next
      case (Inr out)
      let ?sys = "with_poller sys (sy_poller sys, w1)" and ?resp = "probe_response (ev_probe env) (Inr out)"
      have "run_prog a env (Probe_prog rid) sys = run_prog a env (Await rid (ProbeCapture ?addr) (Some ?resp)) ?sys"
        using Some False p Inr by (simp add: unfold run_Await [of _ _ _ "ProbeDial ?addr"])
      also have "\<dots> = Some (?resp, with_poller sys (resolveAfterProbe (a_cfg a) (a_rc a) (tp_checked (ev_probe env)) ?addr (sy_poller sys, w1)))"
        by (rule run_resolve)
      finally show ?thesis
        using Some False p Inr by (simp add: unfold probe_response_def split: prod.split)
    qed
  qed
qed

lemmas router_progs = handleSetExitNode_prog_def handleKeep_prog_def handleProbe_prog_def

lemma run_authorize:
  "run_prog a env (authorizeRouterWrite_prog r rid target next) sys =
     (case authorizeRouterWrite r sys rid target of Some resp \<Rightarrow> Some (resp, sys) | None \<Rightarrow> run_prog a env next sys)"
  by (auto simp: authorizeRouterWrite_prog_def authorizeRouterWrite_def split: option.split)

lemma run_router_handlers:
  "run_prog a env (handleSetExitNode_prog a i r) sys = handleSetExitNode a i env r sys"
  "run_prog a env (handleKeep_prog i r) sys = handleKeep a i env r sys"
  "run_prog a env (handleProbe_prog i r) sys = handleProbe a i env r sys"
  by (auto simp: router_progs run_authorize handleSetExitNode_def handleKeep_def handleProbe_def
      run_SetExitNode run_Keep run_Probe split: option.split sum.split prod.split)

lemma run_reads:
  "run_prog a env (handleMe_prog r) sys = handleMe env r sys"
  "run_prog a env (handleNodes_prog r) sys = handleNodes env r sys"
  "run_prog a env (handleRouter_prog i r) sys = handleRouter i env r sys"
  by (auto simp: handleMe_prog_def handleMe_def handleNodes_prog_def handleNodes_def handleRouter_prog_def handleRouter_def
      find_router_prog_def Let_def split: option.split)

lemma run_stores:
  "run_prog a env handleListGroups_prog sys = on_groups handleListGroups env r sys"
  "run_prog a env handleListGuests_prog sys = on_guests handleListGuests env r sys"
  "run_prog a env (handleDeleteGuest_prog i) sys = on_guests (\<lambda>us. handleDeleteGuest us i) env r sys"
  by (auto simp: handleListGroups_prog_def handleListGuests_prog_def handleDeleteGuest_prog_def on_groups_def on_guests_def
      handleListGroups_def handleListGuests_def handleDeleteGuest_def split: option.split prod.split)

lemma run_group_writes:
  assumes "sy_groups sys = Some gs"
  shows "run_prog a env (handleCreateGroup_prog a r) sys = handleCreateGroup a gs env r sys"
    "run_prog a env (handleUpdateGroup_prog a i r) sys = handleUpdateGroup a gs i env r sys"
    "run_prog a env (handleDeleteGroup_prog i) sys = handleDeleteGroup gs i env r sys"
  using assms
  by (auto simp: handleCreateGroup_prog_def handleUpdateGroup_prog_def handleDeleteGroup_prog_def
      handleCreateGroup_def handleUpdateGroup_def handleDeleteGroup_def split: option.split sum.split prod.split)

lemma run_guest_writes:
  assumes "sy_guests sys = Some us"
  shows "run_prog a env (handleCreateGuest_prog a r) sys = handleCreateGuest a us env r sys"
    "run_prog a env (handleSetGuestDisabled_prog a i r) sys = handleSetGuestDisabled a us i env r sys"
  using assms
  by (auto simp: handleCreateGuest_prog_def handleSetGuestDisabled_prog_def handleCreateGuest_def handleSetGuestDisabled_def Let_def
      split: option.split sum.split prod.split)

lemma run_admin:
  "(run_prog a env p sys = h env r sys) \<Longrightarrow> run_prog a env (RequireAdmin_prog r p) sys = RequireAdmin h env r sys"
  by (auto simp: RequireAdmin_prog_def RequireAdmin_def split: option.split)

text \<open>An endpoint is registered only if the store that it uses is wired.\<close>

fun needs_groups :: "endpoint \<Rightarrow> bool" where
  "needs_groups EpListGroups = True"
| "needs_groups EpCreateGroup = True"
| "needs_groups (EpUpdateGroup i) = True"
| "needs_groups (EpDeleteGroup i) = True"
| "needs_groups ep = False"

fun needs_guests :: "endpoint \<Rightarrow> bool" where
  "needs_guests EpListGuests = True"
| "needs_guests EpCreateGuest = True"
| "needs_guests (EpGuestDisabled i) = True"
| "needs_guests (EpDeleteGuest i) = True"
| "needs_guests ep = False"

lemma data_patterns_wired: "list_all (\<lambda>p. (needs_groups (snd p) \<longrightarrow> g) \<and> (needs_guests (snd p) \<longrightarrow> u)) (data_patterns g u p)"
  unfolding data_patterns_def
  by (cases p; cases "tl p"; cases "tl (tl p)"; cases "tl (tl (tl p))") simp_all

lemma run_endpoint:
  assumes "(pat, ep) \<in> set (data_patterns (sy_groups sys \<noteq> None) (sy_guests sys \<noteq> None) path)"
  shows "run_prog a env (endpoint_prog a ep r) sys = endpoint_handler a ep env r sys"
proof -
  have "needs_groups ep \<longrightarrow> sy_groups sys \<noteq> None" "needs_guests ep \<longrightarrow> sy_guests sys \<noteq> None"
    using assms data_patterns_wired [of "sy_groups sys \<noteq> None" "sy_guests sys \<noteq> None" path] by (auto simp: list_all_iff)
  then show ?thesis
    by (cases ep) (auto simp: run_reads run_router_handlers run_stores [where r = r] on_groups_def on_guests_def
        run_group_writes run_guest_writes intro!: run_admin)
qed

lemma run_data:
  "run_prog a env (data_prog a (sy_groups sys \<noteq> None) (sy_guests sys \<noteq> None) r) sys = data_mux a env r sys"
  by (auto simp: data_prog_def data_mux_def Let_def run_endpoint dest!: data_patterns_find(1) split: option.split)

lemma run_resolve_subject:
  "run_prog a env (resolve_prog a env r next) sys = run_prog a env (next (resolveSubject a env r sys)) sys"
  by (auto simp: resolve_prog_def resolveSubject_def split: option.split)

text \<open>
  A request that runs with no other in between does what the handler does in one step: the program of
  accesses and poller sections, run alone from any state, gives the same response and the same state, or does not
  return either.
\<close>

theorem sections_agree:
  "run_prog a env (Routes_prog a (sy_groups sys \<noteq> None) (sy_guests sys \<noteq> None) env r) sys = Routes a env r sys"
proof -
  have login: "run_prog a env (handleLogin_prog a r) sys = handleLogin a env r sys"
    by (auto simp: handleLogin_prog_def handleLogin_def split: sum.split)
  have csrf: "run_prog a env (handleCSRF_prog env) sys = handleCSRF env r sys"
    by (auto simp: handleCSRF_prog_def handleCSRF_def split: sum.split)
  have "run_prog a env (api_prog a (sy_groups sys \<noteq> None) (sy_guests sys \<noteq> None) env r) sys = api_mux a env r sys"
    unfolding api_prog_def api_mux_def RequireAuth_prog_def RequireAuth_def
    by (simp add: login csrf handleLogout_prog_def handleLogout_def run_resolve_subject run_data del: not_None_eq split: option.split)
  then show ?thesis
    by (simp add: Routes_prog_def Routes_def RequireHost_def RequireCSRF_def safe_method_def del: not_None_eq)
qed

end
