(* ===== verification/Api_Server.thy ===== *)
theory Api_Server
  imports Api_Sections
begin

section \<open>Package api: concurrent requests\<close>

text \<open>
  The server while it runs: requests that have arrived, each with the program that is left of it, the polls of the
  background loop, and the system they share. A step lets a request arrive, takes one section of one of them, or one of
  a poll; all interleavings are covered. Each section finds its own environment (clock, random bytes, outcome of file I/O).
  \<open>th_seen\<close> is a history variable, the states of the system in which the request took its sections, the newest first;
  \<open>ss_timers\<close> are those of \<open>Poller_Steps\<close>.
\<close>

subsection \<open>The running server\<close>

record 'w thread =
  th_arrived :: env
  th_req :: "'w request"
  th_prog :: "'w prog"
  th_seen :: "'w system list"

record 'w server =
  ss_sys :: "'w system"
  ss_threads :: "'w thread list"
  ss_polls :: "op list"
  ss_timers :: timers

definition new_thread :: "'w API \<Rightarrow> 'w system \<Rightarrow> env \<Rightarrow> 'w request \<Rightarrow> 'w thread" where
  "new_thread a sys env r = \<lparr>th_arrived = env, th_req = r,
     th_prog = Routes_prog a (sy_groups sys \<noteq> None) (sy_guests sys \<noteq> None) env r, th_seen = []\<rparr>"

definition arrive :: "'w API \<Rightarrow> env \<Rightarrow> 'w request \<Rightarrow> 'w server \<Rightarrow> 'w server" where
  "arrive a env r S = S\<lparr>ss_threads := ss_threads S @ [new_thread a (ss_sys S) env r]\<rparr>"

definition prog_ops :: "'w prog \<Rightarrow> op list" where
  "prog_ops p = (case p of Await rid opr r \<Rightarrow> [opr] | _ \<Rightarrow> [])"

definition thread_timers :: "'w API \<Rightarrow> env \<Rightarrow> 'w system \<Rightarrow> 'w prog \<Rightarrow> 'w prog \<Rightarrow> timers \<Rightarrow> timers" where
  "thread_timers a env sys p p' T =
     (case p of
        Await rid opr r \<Rightarrow> timers_after (a_rc a) (sy_world sys) (sy_poller sys) (fst (section_times env opr)) opr (prog_ops p') T
      | _ \<Rightarrow> T)"

definition thread_step :: "'w API \<Rightarrow> env \<Rightarrow> nat \<Rightarrow> 'w server \<Rightarrow> 'w server" where
  "thread_step a env i S =
     (let th = ss_threads S ! i
      in case prog_step a env (th_prog th) (ss_sys S) of
           (sys', p') \<Rightarrow> S\<lparr>ss_sys := sys', ss_threads := (ss_threads S)[i := th\<lparr>th_prog := p', th_seen := ss_sys S # th_seen th\<rparr>],
             ss_timers := thread_timers a env (ss_sys S) (th_prog th) p' (ss_timers S)\<rparr>)"

text \<open>
  What the operating system guarantees of an environment: \<^verbatim>\<open>os.CreateTemp\<close> opens a new file, whose name is never that of a
  store, and \<^verbatim>\<open>rand.Read\<close> fills its buffer.
\<close>

definition env_ok :: "env \<Rightarrow> 'w system \<Rightarrow> bool" where
  "env_ok env sys \<longleftrightarrow> eight_bytes (ev_random env) \<and>
     (\<forall>gs. sy_groups sys = Some gs \<longrightarrow> fresh_tmp (ev_io env) (gs_path gs) (sy_files sys)) \<and>
     (\<forall>us. sy_guests sys = Some us \<longrightarrow> fresh_tmp (ev_io env) (gt_path us) (sy_files sys))"

inductive server_step :: "'w API \<Rightarrow> 'w server \<Rightarrow> 'w server \<Rightarrow> bool" for a where
  request: "server_step a S (arrive a env r S)"
| sect: "i < length (ss_threads S) \<Longrightarrow> env_ok env (ss_sys S) \<Longrightarrow> server_step a S (thread_step a env i S)"
| poll: "server_step a S (S\<lparr>ss_polls :=
    PollCapture (refresh_inventory (a_cfg a) inven now (sy_snap (ss_sys S))) (sy_snap (ss_sys S)) # ss_polls S\<rparr>)"
| poll_section: "ss_polls S = xs @ opr # ys \<Longrightarrow>
    advance (a_cfg a) (a_rc a) (sy_zones (ss_sys S)) t u opr (sy_poller (ss_sys S), sy_world (ss_sys S)) = (os, pw) \<Longrightarrow>
    server_step a S (S\<lparr>ss_sys := with_poller (ss_sys S) pw, ss_polls := os @ xs @ ys,
      ss_timers := timers_after (a_rc a) (sy_world (ss_sys S)) (sy_poller (ss_sys S)) t opr os (ss_timers S)\<rparr>)"

definition server_start :: "'w system \<Rightarrow> 'w server" where
  "server_start sys = \<lparr>ss_sys = sys, ss_threads = [], ss_polls = [], ss_timers = no_timers\<rparr>"

inductive server_reach :: "'w API \<Rightarrow> 'w system \<Rightarrow> 'w server \<Rightarrow> bool" for a sys where
  start: "server_reach a sys (server_start sys)"
| step: "server_reach a sys S \<Longrightarrow> server_step a S S' \<Longrightarrow> server_reach a sys S'"

text \<open>A schedule: which request takes its next section, in which environment.\<close>

fun run_threads :: "'w API \<Rightarrow> (nat \<times> env) list \<Rightarrow> 'w server \<Rightarrow> 'w server" where
  "run_threads a [] S = S"
| "run_threads a ((i, env) # ks) S =
     (if i < length (ss_threads S) \<and> env_ok env (ss_sys S) then run_threads a ks (thread_step a env i S) else S)"

lemma run_threads_reach: "server_reach a sys S \<Longrightarrow> server_reach a sys (run_threads a ks S)"
  by (induction a ks S rule: run_threads.induct) (auto intro: server_reach.step server_step.sect)

lemma arrive_reach: "server_reach a sys S \<Longrightarrow> server_reach a sys (arrive a env r S)"
  by (auto intro: server_reach.step server_step.request)

subsection \<open>Invariants of programs\<close>

text \<open>
  A program satisfies \<open>prog_ok acc awt\<close> if \<open>acc\<close> holds of each access it makes, and \<open>awt\<close> of each controller operation it
  awaits, with the states seen until then. If \<open>awt\<close> is kept by the sections of an operation, each step keeps the whole.
\<close>

inductive prog_ok ::
    "('w system list \<Rightarrow> (env \<Rightarrow> 'w system \<Rightarrow> 'w system \<times> 'w prog) \<Rightarrow> bool) \<Rightarrow> ('w system list \<Rightarrow> string \<Rightarrow> op \<Rightarrow> bool) \<Rightarrow>
     'w system list \<Rightarrow> 'w prog \<Rightarrow> bool" for acc awt where
  ok_Answer [intro!, simp]: "prog_ok acc awt seen (Answer resp)"
| ok_Stuck [intro!, simp]: "prog_ok acc awt seen Stuck"
| ok_Await: "awt seen rid opr \<Longrightarrow> prog_ok acc awt seen (Await rid opr r)"
| ok_Access: "acc seen f \<Longrightarrow> (\<And>env sys. prog_ok acc awt (sys # seen) (snd (f env sys))) \<Longrightarrow> prog_ok acc awt seen (Access f)"

inductive_cases prog_ok_AwaitE: "prog_ok acc awt seen (Await rid opr r)"
inductive_cases prog_ok_AccessE: "prog_ok acc awt seen (Access f)"

definition awaits_kept :: "('w system list \<Rightarrow> string \<Rightarrow> op \<Rightarrow> bool) \<Rightarrow> bool" where
  "awaits_kept awt \<longleftrightarrow>
     (\<forall>cfg (rc :: 'w router_ops) gs t u opr sw seen sys rid.
        awt seen rid opr \<longrightarrow> (\<forall>opr' \<in> set (fst (advance cfg rc gs t u opr sw)). awt (sys # seen) rid opr'))"

lemma prog_ok_step:
  assumes "awaits_kept awt" and "prog_ok acc awt seen p" and "prog_step a env p sys = (sys', p')"
  shows "prog_ok acc awt (sys # seen) p'"
  using assms(2)
proof cases
  case (ok_Await rid opr r)
  obtain t u where tu: "section_times env opr = (t, u)" by fastforce
  obtain os pw where adv: "advance (a_cfg a) (a_rc a) (sy_zones sys) t u opr (sy_poller sys, sy_world sys) = (os, pw)"
    by (rule prod.exhaust)
  have "p' = after_section rid os (case section_result a env rid opr (sy_poller sys, sy_world sys) of Some x \<Rightarrow> Some x | None \<Rightarrow> r)"
    using assms(3) ok_Await tu adv by simp
  moreover have "\<forall>opr' \<in> set (fst (advance (a_cfg a) (a_rc a) (sy_zones sys) t u opr (sy_poller sys, sy_world sys))). awt (sys # seen) rid opr'"
    using assms(1) ok_Await(2) unfolding awaits_kept_def by blast
  ultimately show ?thesis
    using adv by (cases os) (auto simp: reply_def intro: prog_ok.ok_Await split: option.split)
next
  case (ok_Access f)
  then show ?thesis using assms(3) by (metis prog_step.simps(1) snd_conv)
qed (use assms(3) in auto)

definition threads_ok ::
    "('w API \<Rightarrow> env \<Rightarrow> 'w request \<Rightarrow> 'w system list \<Rightarrow> (env \<Rightarrow> 'w system \<Rightarrow> 'w system \<times> 'w prog) \<Rightarrow> bool) \<Rightarrow>
     ('w API \<Rightarrow> env \<Rightarrow> 'w request \<Rightarrow> 'w system list \<Rightarrow> string \<Rightarrow> op \<Rightarrow> bool) \<Rightarrow> 'w API \<Rightarrow> 'w server \<Rightarrow> bool" where
  "threads_ok acc awt a S \<longleftrightarrow>
     (\<forall>th \<in> set (ss_threads S). prog_ok (acc a (th_arrived th) (th_req th)) (awt a (th_arrived th) (th_req th)) (th_seen th) (th_prog th))"

lemma thread_step_simps:
  assumes "prog_step a env (th_prog (ss_threads S ! i)) (ss_sys S) = (sys', p')"
  shows "ss_sys (thread_step a env i S) = sys'"
    "ss_threads (thread_step a env i S) =
      (ss_threads S)[i := (ss_threads S ! i)\<lparr>th_prog := p', th_seen := ss_sys S # th_seen (ss_threads S ! i)\<rparr>]"
    "ss_polls (thread_step a env i S) = ss_polls S"
    "ss_timers (thread_step a env i S) = thread_timers a env (ss_sys S) (th_prog (ss_threads S ! i)) p' (ss_timers S)"
  using assms by (simp_all add: thread_step_def Let_def)

lemma threads_ok_reach:
  assumes start: "\<And>g u env r. prog_ok (acc a env r) (awt a env r) [] (Routes_prog a g u env r)"
    and kept: "\<And>env r. awaits_kept (awt a env r)" and reach: "server_reach a sys S"
  shows "threads_ok acc awt a S"
  using reach
proof (induction rule: server_reach.induct)
  case start
  show ?case by (simp add: threads_ok_def server_start_def)
next
  case (step S S')
  from step(2) show ?case
  proof cases
    case (request env r)
    with step.IH start show ?thesis by (auto simp: threads_ok_def arrive_def new_thread_def)
  next
    case (sect i env)
    let ?th = "ss_threads S ! i"
    obtain sys' p' where p: "prog_step a env (th_prog ?th) (ss_sys S) = (sys', p')" by fastforce
    have "prog_ok (acc a (th_arrived ?th) (th_req ?th)) (awt a (th_arrived ?th) (th_req ?th)) (th_seen ?th) (th_prog ?th)"
      using step.IH sect(2) by (auto simp: threads_ok_def)
    from prog_ok_step [OF kept this p] step.IH show ?thesis
      unfolding sect(1) threads_ok_def thread_step_simps [OF p] by (auto dest: in_set_update_cases)
  next
    case poll
    with step.IH show ?thesis by (simp add: threads_ok_def)
  next
    case poll_section
    with step.IH show ?thesis by (simp add: threads_ok_def)
  qed
qed

end
