(* ===== verification/Api_Concurrent.thy ===== *)
theory Api_Concurrent
  imports Api_Server
begin

section \<open>Package api: properties of concurrent requests\<close>

text \<open>
  What holds of the running server in every interleaving: no request changes anything that it was not authorized for while it ran,
  the zones shown are those of the store, no armed revert is lost, and what is on disk is what is in memory.
\<close>

subsection \<open>Authorization\<close>

definition passed :: "'w API \<Rightarrow> 'w request \<Rightarrow> bool" where
  "passed a r \<longleftrightarrow> hostAllowed a (rq_Host r) \<and> \<not> safe_method (rq_Method r) \<and> csrf_ok a r"

definition admin_request :: "'w API \<Rightarrow> env \<Rightarrow> 'w request \<Rightarrow> bool" where
  "admin_request a env r \<longleftrightarrow> tailnet_owner a env r \<or>
     (\<exists>sub. parseSession (a_sessionSecret a) (ev_now env) (rq_cookie r ''tsctl_session'') = Some sub \<and> sub_Admin sub)"

text \<open>
  A guest, as it was found in two of the states the request has seen: in one its account was enabled, in another its zone
  existed.
\<close>

definition guest_seen :: "'w API \<Rightarrow> env \<Rightarrow> 'w request \<Rightarrow> 'w system list \<Rightarrow> Subject \<Rightarrow> bool" where
  "guest_seen a env r seen sub \<longleftrightarrow>
     (\<exists>sub0 g. parseSession (a_sessionSecret a) (ev_now env) (rq_cookie r ''tsctl_session'') = Some sub0 \<and> \<not> sub_Admin sub0 \<and>
        (\<exists>s \<in> set seen. \<exists>us. sy_guests s = Some us \<and> guests_Get us (sub_GuestID sub0) = Some g) \<and> \<not> gu_Disabled g \<and>
        (\<exists>s \<in> set seen. \<exists>gs. sy_groups s = Some gs \<and> groups_Get gs (gu_ZoneID g) \<noteq> None) \<and>
        sub = zero_Subject\<lparr>sub_GuestID := gu_ID g, sub_ZoneID := gu_ZoneID g\<rparr>)"

text \<open>What a subject may do to a router: anything for an administrator, and for a guest what its zone allowed in a state seen.\<close>

definition may_write :: "'w API \<Rightarrow> env \<Rightarrow> 'w request \<Rightarrow> 'w system list \<Rightarrow> string \<Rightarrow> string \<Rightarrow> bool" where
  "may_write a env r seen rid target \<longleftrightarrow> admin_request a env r \<or>
     (\<exists>sub. guest_seen a env r seen sub \<and> (\<exists>s \<in> set seen. guest_may s sub rid target))"

text \<open>What a controller operation under way is about: the address it commands, and for a set its target.\<close>

fun op_addr :: "op \<Rightarrow> string option" where
  "op_addr (SetReady plan) = Some (sp_addr plan)"
| "op_addr (SetShow plan q snap) = Some (sp_addr plan)"
| "op_addr (SetApply plan q) = Some (sp_addr plan)"
| "op_addr (SetFinish plan q ar armAt now) = Some (sp_addr plan)"
| "op_addr (SetDisarm addr ms snap) = Some addr"
| "op_addr (KeepCheck rid addr) = Some addr"
| "op_addr (KeepWrite rid addr e) = Some addr"
| "op_addr (KeepFinish rid addr e) = Some addr"
| "op_addr (ProbeDial addr) = Some addr"
| "op_addr (ProbeCapture addr) = Some addr"
| "op_addr (ProbeRead addr g) = Some addr"
| "op_addr (ProbeFinish addr g rt) = Some addr"
| "op_addr opr = None"

fun op_target :: "op \<Rightarrow> ExitNodeRef option option" where
  "op_target (SetReady plan) = Some (sp_target plan)"
| "op_target (SetShow plan q snap) = Some (sp_target plan)"
| "op_target (SetApply plan q) = Some (sp_target plan)"
| "op_target (SetFinish plan q ar armAt now) = Some (sp_target plan)"
| "op_target opr = None"

fun router_op :: "op \<Rightarrow> bool" where
  "router_op (PollCapture ga prev) = False"
| "router_op (PollDial ga prev) = False"
| "router_op (PollMerge ga) = False"
| "router_op ZonesChanged = False"
| "router_op opr = True"

definition target_id :: "ExitNodeRef option \<Rightarrow> string" where
  "target_id tgt = (case tgt of None \<Rightarrow> [] | Some ref \<Rightarrow> er_StableID ref)"

definition op_concerns :: "'w system list \<Rightarrow> string \<Rightarrow> string \<Rightarrow> op \<Rightarrow> bool" where
  "op_concerns seen rid target opr \<longleftrightarrow> router_op opr \<and>
     (\<forall>addr \<in> set_option (op_addr opr). \<exists>s \<in> set seen. \<exists>rv. findRouterViewByStableID (sy_snap s) rid = Some rv \<and> primaryIP (rv_Node rv) = addr) \<and>
     (\<forall>tgt \<in> set_option (op_target opr). target_id tgt = target)"

text \<open>The sections of an operation keep its address and its target.\<close>

lemma advance_concerns:
  assumes "router_op opr" and "opr' \<in> set (fst (advance cfg rc gs t u opr sw))"
  shows "router_op opr' \<and> set_option (op_addr opr') \<subseteq> set_option (op_addr opr) \<and> set_option (op_target opr') \<subseteq> set_option (op_target opr)"
proof -
  obtain s w where sw: "sw = (s, w)" by fastforce
  show ?thesis
  proof (cases opr)
    case (SetDisarm addr ms snap)
    with assms sw show ?thesis by (cases ms) auto
  qed (use assms sw in \<open>auto simp: show_op_def split: prod.splits option.splits sum.splits keep_check.splits\<close>)
qed

definition write_access :: "'w API \<Rightarrow> env \<Rightarrow> 'w request \<Rightarrow> 'w system list \<Rightarrow> (env \<Rightarrow> 'w system \<Rightarrow> 'w system \<times> 'w prog) \<Rightarrow> bool" where
  "write_access a env r seen f \<longleftrightarrow> (\<forall>env sys. fst (f env sys) = sys) \<or> passed a r \<and> admin_request a env r"

definition write_await :: "'w API \<Rightarrow> env \<Rightarrow> 'w request \<Rightarrow> 'w system list \<Rightarrow> string \<Rightarrow> op \<Rightarrow> bool" where
  "write_await a env r seen rid opr \<longleftrightarrow> passed a r \<and>
     (opr = ZonesChanged \<and> admin_request a env r \<or> (\<exists>target. may_write a env r seen rid target \<and> op_concerns seen rid target opr))"

lemma guest_seen_mono: "guest_seen a env r seen sub \<Longrightarrow> set seen \<subseteq> set seen' \<Longrightarrow> guest_seen a env r seen' sub"
  unfolding guest_seen_def by blast

lemma may_write_mono: "may_write a env r seen rid target \<Longrightarrow> set seen \<subseteq> set seen' \<Longrightarrow> may_write a env r seen' rid target"
  unfolding may_write_def using guest_seen_mono by blast

lemma write_await_kept: "awaits_kept (write_await a env r)"
  unfolding awaits_kept_def
proof (intro allI impI ballI)
  fix cfg and rc :: "'a router_ops" and gs t u opr opr' sw seen sys rid
  assume w: "write_await a env r seen rid opr" and n: "opr' \<in> set (fst (advance cfg rc gs t u opr sw))"
  show "write_await a env r (sys # seen) rid opr'"
  proof (cases "opr = ZonesChanged")
    case True
    with n show ?thesis by (cases sw) simp
  next
    case False
    with w obtain target where p: "passed a r" "may_write a env r seen rid target" "op_concerns seen rid target opr"
      by (auto simp: write_await_def)
    then have "router_op opr" by (simp add: op_concerns_def)
    from advance_concerns [OF this n] p(3) have "op_concerns (sys # seen) rid target opr'"
      unfolding op_concerns_def by fastforce
    moreover have "may_write a env r (sys # seen) rid target" using may_write_mono [OF p(2)] by (simp add: subset_insertI)
    ultimately show ?thesis using p(1) by (auto simp: write_await_def)
  qed
qed

abbreviation write_ok :: "'w API \<Rightarrow> env \<Rightarrow> 'w request \<Rightarrow> 'w system list \<Rightarrow> 'w prog \<Rightarrow> bool" where
  "write_ok a env r \<equiv> prog_ok (write_access a env r) (write_await a env r)"

lemma write_ok_Read:
  assumes "\<And>e sys. write_ok a env r (sys # seen) (f e sys)"
  shows "write_ok a env r seen (Read f)"
  unfolding Read_def by (rule ok_Access) (simp_all add: write_access_def assms)

lemma write_ok_admin:
  assumes "passed a r" "admin_request a env r" "\<And>e sys. write_ok a env r (sys # seen) (snd (f e sys))"
  shows "write_ok a env r seen (Access f)"
  by (rule ok_Access) (simp_all add: write_access_def assms)

lemma set_preflight_plan:
  assumes "set_preflight gs snap rid target = Inr plan"
  shows "\<exists>rv. findRouterViewByStableID snap rid = Some rv \<and> primaryIP (rv_Node rv) = sp_addr plan" "target_id (sp_target plan) = target"
  using assms
  by (auto simp: set_preflight_def Let_def target_id_def findNodeByStableID_def dest!: find_SomeD
      split: option.splits if_splits prod.splits)

lemma write_ok_SetExitNode:
  assumes "passed a r" and "may_write a env r seen rid target"
  shows "write_ok a env r seen (SetExitNode_prog rid target)"
  unfolding SetExitNode_prog_def Let_def
proof (intro write_ok_Read)
  fix e1 e2 and s1 s2 :: "'a system"
  show "write_ok a env r (s2 # s1 # seen) (case set_preflight (sy_zones s2) (sy_snap s1) rid target of
      Inl e \<Rightarrow> Answer (control_response e) | Inr plan \<Rightarrow> Await rid (SetReady plan) None)"
  proof (cases "set_preflight (sy_zones s2) (sy_snap s1) rid target")
    case (Inr plan)
    have "op_concerns (s2 # s1 # seen) rid target (SetReady plan)"
      using set_preflight_plan [OF Inr] by (auto simp: op_concerns_def)
    moreover have "may_write a env r (s2 # s1 # seen) rid target" by (rule may_write_mono [OF assms(2)]) auto
    ultimately show ?thesis using Inr assms(1) by (auto simp: write_await_def intro!: ok_Await)
  qed simp
qed

lemma write_ok_Keep:
  assumes "passed a r" and "may_write a env r seen rid []"
  shows "write_ok a env r seen (Keep_prog rid)"
  unfolding Keep_prog_def
proof (intro write_ok_Read)
  fix e and s :: "'a system"
  show "write_ok a env r (s # seen) (case keep_target (sy_snap s) rid of
      Inl e \<Rightarrow> Answer (control_response e) | Inr addr \<Rightarrow> Await rid (KeepCheck rid addr) None)"
  proof (cases "keep_target (sy_snap s) rid")
    case (Inr addr)
    have "op_concerns (s # seen) rid [] (KeepCheck rid addr)"
      using Inr by (auto simp: op_concerns_def keep_target_def Let_def split: option.splits if_splits)
    moreover have "may_write a env r (s # seen) rid []" by (rule may_write_mono [OF assms(2)]) auto
    ultimately show ?thesis using Inr assms(1) by (auto simp: write_await_def intro!: ok_Await)
  qed simp
qed

lemma write_ok_Probe:
  assumes "passed a r" and "may_write a env r seen rid []"
  shows "write_ok a env r seen (Probe_prog rid)"
  unfolding Probe_prog_def Let_def
proof (intro write_ok_Read)
  fix e and s :: "'a system"
  have "write_await a env r (s # seen) rid (ProbeDial (primaryIP (rv_Node rv)))" if "findRouterViewByStableID (sy_snap s) rid = Some rv" for rv
  proof -
    have "op_concerns (s # seen) rid [] (ProbeDial (primaryIP (rv_Node rv)))" using that by (auto simp: op_concerns_def)
    moreover have "may_write a env r (s # seen) rid []" by (rule may_write_mono [OF assms(2)]) auto
    ultimately show ?thesis using assms(1) by (auto simp: write_await_def)
  qed
  then show "write_ok a env r (s # seen) (case findRouterViewByStableID (sy_snap s) rid of
      None \<Rightarrow> Answer (control_response (mk_controlError 404 (''unknown router '' @ Quote rid)))
    | Some rv \<Rightarrow> if primaryIP (rv_Node rv) = [] then
          Answer (control_response (mk_controlError 404 (''router '' @ Quote rid @ '' has no Tailscale IPv4 address'')))
        else if \<not> nv_Online (rv_Node rv) then Answer (writeJSON 200 (json_ProbeResult \<lparr>pr_OK = False, pr_DurationMs = 0, pr_Output = [],
            pr_Error = ''node is offline'', pr_CheckedAt = tp_checked (ev_probe e)\<rparr>))
        else Await rid (ProbeDial (primaryIP (rv_Node rv))) None)"
    by (auto intro: ok_Await split: option.split)
qed

text \<open>The subject that a request was resolved to, with the grounds on which it was.\<close>

definition subject_grounds :: "'w API \<Rightarrow> env \<Rightarrow> 'w request \<Rightarrow> 'w system list \<Rightarrow> Subject \<Rightarrow> bool" where
  "subject_grounds a env r seen sub \<longleftrightarrow> (if sub_Admin sub then admin_request a env r else guest_seen a env r seen sub)"

lemma write_ok_authorize:
  assumes "subject_of r' = Some sub" and g: "subject_grounds a env r seen sub"
    and next_ok: "\<And>seen'. may_write a env r seen' rid target \<Longrightarrow> write_ok a env r seen' p"
  shows "write_ok a env r seen (authorizeRouterWrite_prog r' rid target p)"
proof (cases "sub_Admin sub")
  case True
  with g have "may_write a env r seen rid target" by (simp add: subject_grounds_def may_write_def)
  with next_ok assms(1) True show ?thesis by (simp add: authorizeRouterWrite_prog_def)
next
  case False
  have "write_ok a env r (sys # seen) (case authorizeRouterWrite r' sys rid target of Some resp \<Rightarrow> Answer resp | None \<Rightarrow> p)" for sys
  proof (cases "authorizeRouterWrite r' sys rid target")
    case None
    from authorize_guest [OF assms(1) False None] have "guest_may sys sub rid target" .
    moreover have "guest_seen a env r (sys # seen) sub"
      by (rule guest_seen_mono [of _ _ _ seen]) (use g False in \<open>auto simp: subject_grounds_def\<close>)
    ultimately have "may_write a env r (sys # seen) rid target" by (auto simp: may_write_def)
    with next_ok None show ?thesis by simp
  qed simp
  with assms(1) False show ?thesis by (auto simp: authorizeRouterWrite_prog_def intro: write_ok_Read)
qed

lemmas store_progs = handleListGroups_prog_def handleCreateGroup_prog_def handleUpdateGroup_prog_def handleDeleteGroup_prog_def
  handleListGuests_prog_def handleCreateGuest_prog_def handleSetGuestDisabled_prog_def handleDeleteGuest_prog_def

lemma write_ok_on_zones:
  assumes "passed a r" "admin_request a env r" "\<And>e gs sys. write_ok a env r (sys # seen) (snd (f e gs sys))"
  shows "write_ok a env r seen (on_zones f)"
  unfolding on_zones_def by (rule write_ok_admin [OF assms(1,2)]) (auto simp: assms(3) split: option.split)

lemma write_ok_on_accounts:
  assumes "passed a r" "admin_request a env r" "\<And>e us sys. write_ok a env r (sys # seen) (snd (f e us sys))"
  shows "write_ok a env r seen (on_accounts f)"
  unfolding on_accounts_def by (rule write_ok_admin [OF assms(1,2)]) (auto simp: assms(3) split: option.split)

lemma write_ok_refresh: "passed a r \<Longrightarrow> admin_request a env r \<Longrightarrow> write_ok a env r seen (refresh_then resp)"
  unfolding refresh_then_def by (rule ok_Await) (simp add: write_await_def)

lemma write_ok_reads:
  "write_ok a env r seen (handleMe_prog r')" "write_ok a env r seen (handleNodes_prog r')" "write_ok a env r seen (handleRouter_prog i r')"
  "write_ok a env r seen handleListGroups_prog" "write_ok a env r seen handleListGuests_prog"
proof -
  have "write_ok a env r seen (find_router_prog i)" for seen
    unfolding find_router_prog_def by (rule write_ok_Read) (simp split: option.split)
  then show "write_ok a env r seen (handleRouter_prog i r')"
    by (auto simp: handleRouter_prog_def intro!: write_ok_Read split: option.split)
  show "write_ok a env r seen (handleMe_prog r')" "write_ok a env r seen (handleNodes_prog r')"
    by (auto simp: handleMe_prog_def handleNodes_prog_def Let_def intro!: write_ok_Read split: option.split)
  show "write_ok a env r seen handleListGroups_prog" "write_ok a env r seen handleListGuests_prog"
    by (auto simp: handleListGroups_prog_def handleListGuests_prog_def on_zones_def on_accounts_def write_access_def
        intro!: ok_Access split: option.split)
qed

lemma write_ok_stores:
  assumes "passed a r" "admin_request a env r"
  shows "write_ok a env r seen (handleCreateGroup_prog a r')" "write_ok a env r seen (handleUpdateGroup_prog a i r')"
    "write_ok a env r seen (handleDeleteGroup_prog i)" "write_ok a env r seen (handleCreateGuest_prog a r')"
    "write_ok a env r seen (handleSetGuestDisabled_prog a i r')" "write_ok a env r seen (handleDeleteGuest_prog i)"
  unfolding store_progs Let_def
  by (auto intro!: write_ok_on_zones [OF assms] write_ok_on_accounts [OF assms] write_ok_Read write_ok_refresh [OF assms]
      split: sum.split option.split prod.split)

lemma write_ok_endpoint:
  assumes "subject_of r' = Some sub" and g: "subject_grounds a env r seen sub"
    and m: "safe_method (rq_Method r) \<Longrightarrow> read_endpoint ep" and c: "\<not> safe_method (rq_Method r) \<Longrightarrow> passed a r"
  shows "write_ok a env r seen (endpoint_prog a ep r')"
proof (cases "read_endpoint ep")
  case True
  then show ?thesis
    by (cases ep) (auto simp: write_ok_reads RequireAdmin_prog_def split: option.split)
next
  case False
  with m c have p: "passed a r" by blast
  have adm: "write_ok a env r seen (RequireAdmin_prog r' q)" if "admin_request a env r \<Longrightarrow> write_ok a env r seen q" for q
    using assms(1) g that by (auto simp: RequireAdmin_prog_def subject_grounds_def)
  note auth = write_ok_authorize [OF assms(1) g]
  show ?thesis
    using False p
    by (cases ep) (auto simp: router_progs intro!: adm auth write_ok_stores write_ok_SetExitNode write_ok_Keep write_ok_Probe
        split: sum.split)
qed

lemma write_ok_data:
  assumes "subject_of r' = Some sub" and "subject_grounds a env r seen sub" and "rq_Method r' = rq_Method r"
    and c: "\<not> safe_method (rq_Method r) \<Longrightarrow> passed a r"
  shows "write_ok a env r seen (data_prog a g u r')"
proof -
  have "write_ok a env r seen (endpoint_prog a ep r')"
    if f: "List.find (\<lambda>p. method_matches (fst p) (rq_Method r')) (data_patterns g u (rq_path r')) = Some (pat, ep)" for pat ep
  proof (rule write_ok_endpoint [OF assms(1,2) _ c])
    note d = data_patterns_find [OF f]
    show "read_endpoint ep" if "safe_method (rq_Method r)"
    proof -
      have "pat = ''GET'' \<or> pat = ''HEAD''" using method_matches_safe [OF d(2)] assms(3) that by simp
      with d(1) show ?thesis using data_patterns_get data_patterns_head by blast
    qed
  qed
  then show ?thesis by (auto simp: data_prog_def Let_def split: option.split)
qed

lemma write_ok_resolve:
  assumes "\<And>seen' sub. set seen \<subseteq> set seen' \<Longrightarrow> subject_grounds a env r seen' sub \<Longrightarrow> write_ok a env r seen' (p (Some sub))"
    and "\<And>seen'. write_ok a env r seen' (p None)"
  shows "write_ok a env r seen (resolve_prog a env r p)"
proof (cases "tailnet_owner a env r")
  case True
  then have "subject_grounds a env r seen (zero_Subject\<lparr>sub_Admin := True\<rparr>)" by (simp add: subject_grounds_def admin_request_def)
  with True assms(1) show ?thesis by (simp add: resolve_prog_def)
next
  case no: False
  show ?thesis
  proof (cases "parseSession (a_sessionSecret a) (ev_now env) (rq_cookie r ''tsctl_session'')")
    case None
    with no assms(2) show ?thesis by (simp add: resolve_prog_def)
  next
    case (Some sub0)
    show ?thesis
    proof (cases "sub_Admin sub0")
      case True
      with Some have "subject_grounds a env r seen sub0" by (auto simp: subject_grounds_def admin_request_def)
      with True Some no assms(1) show ?thesis by (simp add: resolve_prog_def)
    next
      case False
      have "subject_grounds a env r (s2 # s1 # seen) (zero_Subject\<lparr>sub_GuestID := gu_ID g, sub_ZoneID := gu_ZoneID g\<rparr>)"
        if "sy_guests s1 = Some us" "guests_Get us (sub_GuestID sub0) = Some g" "\<not> gu_Disabled g"
          "sy_groups s2 = Some gs" "groups_Get gs (gu_ZoneID g) = Some z" for s1 s2 us g gs z
        using Some False that unfolding subject_grounds_def guest_seen_def
        by (auto simp: zero_Subject_def)
      then have "write_ok a env r (s2 # s1 # seen) (p (Some (zero_Subject\<lparr>sub_GuestID := gu_ID g, sub_ZoneID := gu_ZoneID g\<rparr>)))"
        if "sy_guests s1 = Some us" "guests_Get us (sub_GuestID sub0) = Some g" "\<not> gu_Disabled g"
          "sy_groups s2 = Some gs" "groups_Get gs (gu_ZoneID g) = Some z" for s1 s2 us g gs z
        using that by (intro assms(1)) auto
      with Some False no assms(2) show ?thesis
        by (auto simp: resolve_prog_def intro!: write_ok_Read split: option.split)
    qed
  qed
qed

lemma write_ok_Routes: "write_ok a env r [] (Routes_prog a g u env r)"
proof -
  have "write_ok a env r [] (api_prog a g u env r)"
    if h: "hostAllowed a (rq_Host r)" "safe_method (rq_Method r) \<or> csrf_ok a r"
  proof -
    have c: "\<not> safe_method (rq_Method r) \<Longrightarrow> passed a r" using h by (auto simp: passed_def)
    have "write_ok a env r [] (RequireAuth_prog a env r (data_prog a g u))"
      unfolding RequireAuth_prog_def by (rule write_ok_resolve) (auto intro!: write_ok_data c)
    moreover have "write_ok a env r [] (handleLogin_prog a r)"
      by (auto simp: handleLogin_prog_def intro!: write_ok_Read split: sum.split)
    ultimately show ?thesis by (auto simp: api_prog_def handleCSRF_prog_def handleLogout_prog_def split: sum.split)
  qed
  then show ?thesis by (auto simp: Routes_prog_def csrf_ok_def)
qed

text \<open>
  C9 (authorization in every interleaving). If a section of a request changes the system, the request came from an allowed
  host with an unsafe method and a valid CSRF token, and either it is an administrator's, or it is a guest's controller call
  on a router, and the states that the request saw on its way contain: one with the guest's account enabled, one with its zone
  present, one in which that zone allowed this router and this target, and one whose snapshot has the commanded address
  for that router. Stores and files are not changed by a guest. What other requests do in between does not matter.
\<close>

theorem concurrent_change_authorized:
  assumes "server_reach a sys0 S" and "i < length (ss_threads S)" and "th = ss_threads S ! i"
    and "ss_sys (thread_step a env i S) \<noteq> ss_sys S"
  shows "passed a (th_req th) \<and>
    (admin_request a (th_arrived th) (th_req th) \<or>
     (\<exists>rid opr resp sub target pw. th_prog th = Await rid opr resp \<and> guest_seen a (th_arrived th) (th_req th) (th_seen th) sub \<and>
        (\<exists>s \<in> set (th_seen th). guest_may s sub rid target) \<and> op_concerns (th_seen th) rid target opr \<and>
        ss_sys (thread_step a env i S) = with_poller (ss_sys S) pw))"
proof -
  obtain sys' p' where p: "prog_step a env (th_prog th) (ss_sys S) = (sys', p')" by fastforce
  with assms(3,4) have ch: "sys' \<noteq> ss_sys S" "ss_sys (thread_step a env i S) = sys'" using thread_step_simps(1) by metis+
  have "threads_ok write_access write_await a S"
    using threads_ok_reach [where acc = write_access and awt = write_await] write_ok_Routes write_await_kept assms(1) by blast
  then have ok: "write_ok a (th_arrived th) (th_req th) (th_seen th) (th_prog th)"
    using assms(2,3) by (auto simp: threads_ok_def)
  show ?thesis
  proof (cases "th_prog th")
    case (Access f)
    with ok have "write_access a (th_arrived th) (th_req th) (th_seen th) f" by (auto elim: prog_ok_AccessE)
    moreover have "\<not> (\<forall>env sys. fst (f env sys) = sys)" using p ch(1) Access by (metis prog_step.simps(1) fst_conv)
    ultimately show ?thesis by (auto simp: write_access_def)
  next
    case (Await rid opr resp)
    with ok have w: "write_await a (th_arrived th) (th_req th) (th_seen th) rid opr" by (auto elim: prog_ok_AwaitE)
    obtain pw where "sys' = with_poller (ss_sys S) pw" using p Await by (auto split: prod.splits)
    with w ch(2) Await show ?thesis unfolding write_await_def may_write_def by blast
  qed (use p ch(1) in auto)
qed

definition example_clear_request :: "unit request" where
  "example_clear_request = guest_request ''POST'' [''routers'', ''r1'', ''exit-node''] BodyEOF"

definition example_clear_plan :: set_plan where
  "example_clear_plan = \<lparr>sp_addr = ''100.64.0.1'', sp_prev = None, sp_target = None\<rparr>"

lemma prog_step_Read [simp]: "prog_step a env (Read f) sys = (sys, f env sys)"
  by (simp add: Read_def)

lemma example_clear_prog:
  "Routes_prog example_api True True example_env example_clear_request =
     resolve_prog example_api example_env example_clear_request (\<lambda>res. case res of
        None \<Rightarrow> Answer (writeErr 401 ''login required'')
      | Some sub \<Rightarrow> handleSetExitNode_prog example_api ''r1'' (example_clear_request\<lparr>rq_ctx := auth_context example_api example_clear_request sub\<rparr>))"
proof -
  have q: "rq_path example_clear_request = [''routers'', ''r1'', ''exit-node'']" "rq_Method example_clear_request = ''POST''"
      "rq_Host example_clear_request = ''tsctl''"
    by (simp_all add: example_clear_request_def guest_request_def)
  have "origin_ok example_api example_clear_request" "fetch_site_ok example_clear_request" "double_submit_ok example_clear_request"
    by (simp_all add: origin_ok_def fetch_site_ok_def double_submit_ok_def guest_request_def example_clear_request_def)
  moreover have "data_prog example_api True True (example_clear_request\<lparr>rq_ctx := c\<rparr>) =
      handleSetExitNode_prog example_api ''r1'' (example_clear_request\<lparr>rq_ctx := c\<rparr>)" for c
    by (simp add: data_prog_def q data_patterns_def method_matches_def Let_def)
  ultimately show ?thesis
    using example_host by (simp add: Routes_prog_def api_prog_def q RequireAuth_prog_def cong: option.case_cong)
qed

lemma example_env_ok: "sy_files sys = Map.empty \<Longrightarrow> sy_groups sys = Some example_groups \<Longrightarrow> sy_guests sys = Some example_guests \<Longrightarrow> env_ok example_env sys"
  by (simp add: env_ok_def eight_bytes_def example_env_def fresh_tmp_def io_ok_def example_groups_def example_guests_def)

text \<open>The guest's request after its five accesses, about to start the controller operation.\<close>

definition example_waiting :: "unit server" where
  "example_waiting = \<lparr>ss_sys = example_system,
     ss_threads = [\<lparr>th_arrived = example_env, th_req = example_clear_request,
       th_prog = Await ''r1'' (SetReady example_clear_plan) None, th_seen = replicate 5 example_system\<rparr>],
     ss_polls = [], ss_timers = no_timers\<rparr>"

lemma example_consumer_ip: "primaryIP (rv_Node example_consumer) = ''100.64.0.1''"
  by code_simp

lemma example_consumer_found: "findRouterViewByStableID (sy_snap example_system) ''r1'' = Some example_consumer"
proof -
  have "nv_StableID (rv_Node example_consumer) = ''r1''" by (simp add: example_consumer_def)
  then show ?thesis by (simp add: findRouterViewByStableID_def example_system_def example_poller_def poller_New_def)
qed

lemma example_system_parts [simp]:
  "sy_groups example_system = Some example_groups" "sy_guests example_system = Some example_guests" "sy_files example_system = Map.empty"
  by (simp_all add: example_system_def)

lemma example_lookups [simp]:
  "guests_Get example_guests ''g1'' = Some \<lparr>gu_ID = ''g1'', gu_Label = ''Ann'', gu_ZoneID = ''z'', gu_Disabled = False, gu_CreatedAt = 1\<rparr>"
  "groups_Get example_groups ''z'' = Some \<lparr>g_ID = ''z'', g_Name = ''Home'', g_Consumers = [''r1''], g_AllowedExitNodes = [''e1'']\<rparr>"
  by (simp_all add: guests_Get_def guests_indexOfLocked_def example_guests_def groups_Get_def groups_indexOfLocked_def example_groups_def public_def)

lemma example_clear_session:
  "parseSession (a_sessionSecret example_api) (ev_now example_env) (rq_cookie example_clear_request ''tsctl_session'') =
     Some (zero_Subject\<lparr>sub_GuestID := ''g1''\<rparr>)"
  using example_session by (simp add: example_api_def example_env_def example_clear_request_def guest_request_def)

abbreviation example_guest_subject :: Subject where
  "example_guest_subject \<equiv> zero_Subject\<lparr>sub_GuestID := ''g1'', sub_ZoneID := ''z''\<rparr>"

lemma example_subject_parts [simp]:
  "sub_Admin (zero_Subject\<lparr>sub_GuestID := x, sub_ZoneID := y\<rparr>) = False" "sub_Admin (zero_Subject\<lparr>sub_GuestID := x\<rparr>) = False"
  "sub_GuestID (zero_Subject\<lparr>sub_GuestID := x\<rparr>) = x"
  by (simp_all add: zero_Subject_def)

lemma example_clear_authorized:
  "subject_of r = Some example_guest_subject \<Longrightarrow> authorizeRouterWrite r example_system ''r1'' [] = None"
  by (simp add: authorizeRouterWrite_def containsStr_def)

lemma example_clear_preflight: "set_preflight gs (sy_snap example_system) ''r1'' [] = Inr example_clear_plan"
  using example_consumer_found example_consumer_ip
  by (simp add: set_preflight_def example_clear_plan_def) (simp add: example_consumer_def zero_RouterView_def)

lemma example_clear_body:
  "decode_body (dec_object (upd_exitNode (a_fold example_api)) []) [] (rq_body example_clear_request n) = Inr []"
  by (simp add: decode_body_def example_clear_request_def guest_request_def)

lemma Read_inject [simp]: "Read f = Read g \<longleftrightarrow> f = g"
  by (auto simp: Read_def fun_eq_iff)

lemma run_threads_Read:
  "env_ok env sys \<Longrightarrow> run_threads a ((0, env) # ks) \<lparr>ss_sys = sys,
       ss_threads = [\<lparr>th_arrived = e, th_req = r, th_prog = Read f, th_seen = seen\<rparr>], ss_polls = ps, ss_timers = T\<rparr> =
     run_threads a ks \<lparr>ss_sys = sys,
       ss_threads = [\<lparr>th_arrived = e, th_req = r, th_prog = f env sys, th_seen = sys # seen\<rparr>], ss_polls = ps, ss_timers = T\<rparr>"
  by (simp add: thread_step_def thread_timers_def Read_def)

lemma example_clear_resolves:
  "\<exists>f g. resolve_prog example_api example_env example_clear_request next = Read f \<and> f example_env example_system = Read g \<and>
     g example_env example_system = next (Some example_guest_subject)"
  by (simp add: resolve_prog_def example_not_owner example_clear_session)

lemma example_clear_authorizes:
  "subject_of r = Some example_guest_subject \<Longrightarrow>
     \<exists>f. authorizeRouterWrite_prog r ''r1'' [] next = Read f \<and> f example_env example_system = next"
  by (simp add: authorizeRouterWrite_prog_def example_clear_authorized)

lemma example_clear_starts:
  "\<exists>f g. SetExitNode_prog ''r1'' [] = Read f \<and> f example_env example_system = Read g \<and>
     g example_env example_system = Await ''r1'' (SetReady example_clear_plan) None"
  by (simp add: SetExitNode_prog_def Let_def example_clear_preflight)

lemma example_waiting_runs:
  "run_threads example_api (replicate 5 (0, example_env)) (arrive example_api example_env example_clear_request (server_start example_system)) =
     example_waiting"
proof -
  have env: "env_ok example_env example_system" by (rule example_env_ok) simp_all
  let ?next = "\<lambda>res. case res of
        None \<Rightarrow> Answer (writeErr 401 ''login required'')
      | Some sub \<Rightarrow> handleSetExitNode_prog example_api ''r1'' (example_clear_request\<lparr>rq_ctx := auth_context example_api example_clear_request sub\<rparr>)"
  let ?r = "example_clear_request\<lparr>rq_ctx := auth_context example_api example_clear_request example_guest_subject\<rparr>"
  obtain f1 f2 where f: "resolve_prog example_api example_env example_clear_request ?next = Read f1" "f1 example_env example_system = Read f2"
      "f2 example_env example_system = ?next (Some example_guest_subject)"
    using example_clear_resolves [of ?next] by blast
  have "?next (Some example_guest_subject) = authorizeRouterWrite_prog ?r ''r1'' [] (SetExitNode_prog ''r1'' [])"
    by (simp add: handleSetExitNode_prog_def example_clear_body)
  moreover obtain f3 where "authorizeRouterWrite_prog ?r ''r1'' [] (SetExitNode_prog ''r1'' []) = Read f3"
      "f3 example_env example_system = SetExitNode_prog ''r1'' []"
    using example_clear_authorizes [of ?r] by auto
  moreover obtain f4 f5 where "SetExitNode_prog ''r1'' [] = Read f4" "f4 example_env example_system = Read f5"
      "f5 example_env example_system = Await ''r1'' (SetReady example_clear_plan) None"
    using example_clear_starts by blast
  moreover have "arrive example_api example_env example_clear_request (server_start example_system) =
      \<lparr>ss_sys = example_system, ss_threads = [\<lparr>th_arrived = example_env, th_req = example_clear_request, th_prog = Read f1, th_seen = []\<rparr>],
       ss_polls = [], ss_timers = no_timers\<rparr>"
    by (simp add: arrive_def new_thread_def server_start_def example_clear_prog f(1))
  moreover have "replicate 5 (0 :: nat, example_env) = [(0, example_env), (0, example_env), (0, example_env), (0, example_env), (0, example_env)]"
    "replicate 5 example_system = [example_system, example_system, example_system, example_system, example_system]"
    by (simp_all add: eval_nat_numeral)
  ultimately show ?thesis using f(2,3) by (simp only: run_threads_Read [OF env] run_threads.simps(1) example_waiting_def)
qed

theorem concurrent_change_authorized_witness:
  "\<exists>S th. server_reach example_api example_system S \<and> ss_threads S = [th] \<and> \<not> admin_request example_api (th_arrived th) (th_req th) \<and>
     ss_sys (thread_step example_api example_env 0 S) \<noteq> ss_sys S \<and>
     (\<exists>sub rid. guest_seen example_api (th_arrived th) (th_req th) (th_seen th) sub \<and> (\<exists>s \<in> set (th_seen th). guest_may s sub rid []))"
proof -
  let ?S = "example_waiting" and ?th = "ss_threads example_waiting ! 0"
  have reach: "server_reach example_api example_system ?S"
    unfolding example_waiting_runs [symmetric] by (intro run_threads_reach arrive_reach server_reach.start)
  have th: "ss_threads ?S = [?th]" "th_arrived ?th = example_env" "th_req ?th = example_clear_request"
      "th_prog ?th = Await ''r1'' (SetReady example_clear_plan) None"
    by (simp_all add: example_waiting_def)
  obtain q snap s1 where st: "set_step1 ''100.64.0.1'' None 1 example_poller = (q, snap, s1)" by (metis prod_cases3)
  have "po_setSeq s1 ''100.64.0.1'' = Suc (po_setSeq example_poller ''100.64.0.1'')" using set_step1_effect [OF st] by simp
  then have "s1 \<noteq> example_poller" by (metis n_not_Suc_n)
  moreover have "sy_poller (ss_sys (thread_step example_api example_env 0 ?S)) = s1"
    using st by (simp add: thread_step_def example_waiting_def Let_def example_system_def example_clear_plan_def example_env_def
        split: option.split)
  ultimately have ch: "ss_sys (thread_step example_api example_env 0 ?S) \<noteq> ss_sys ?S"
    by (auto simp: example_waiting_def example_system_def)
  have na: "\<not> admin_request example_api (th_arrived ?th) (th_req ?th)"
    using example_session example_not_owner
    by (simp add: admin_request_def th(2,3)) (simp add: example_api_def example_env_def example_clear_request_def guest_request_def zero_Subject_def)
  from concurrent_change_authorized [OF reach _ refl ch] na obtain rid opr resp sub target where
    "th_prog ?th = Await rid opr resp" "guest_seen example_api (th_arrived ?th) (th_req ?th) (th_seen ?th) sub"
    "\<exists>s \<in> set (th_seen ?th). guest_may s sub rid target" "op_concerns (th_seen ?th) rid target opr"
    using th(1) by fastforce
  moreover from this th(4) have "target = []" by (auto simp: op_concerns_def target_id_def example_clear_plan_def)
  ultimately show ?thesis using reach th(1) na ch by blast
qed

end
