(* ===== verification/Api_Consistency.thy ===== *)
theory Api_Consistency
  imports Api_Concurrent
begin

section \<open>Package api: consistency of the running server\<close>

text \<open>
  What the parts of the running server say about each other in every interleaving: the zones shown in the
  snapshot and the zones of the store; the armed reverts and the gates; memory and disk.
\<close>

subsection \<open>The zones shown\<close>

definition zones_shown :: "'w system \<Rightarrow> bool" where
  "zones_shown sys \<longleftrightarrow> sn_Groups (sy_snap sys) = buildGroupViews (sy_zones sys) (sn_Nodes (sy_snap sys))"

text \<open>A request that has changed a zone and not yet called \<^verbatim>\<open>RefreshGroups\<close>.\<close>

definition refreshing :: "'w thread \<Rightarrow> bool" where
  "refreshing th \<longleftrightarrow> (\<exists>rid resp. th_prog th = Await rid ZonesChanged resp)"

lemma set_step1_groups:
  assumes "set_step1 addr tgt t s = (q, snap, s1)"
  shows "sn_Groups (po_snap s1) = sn_Groups (po_snap s)" "sn_Nodes (po_snap s1) = sn_Nodes (po_snap s)"
  using assms by (auto simp: set_step1_def Let_def withRouter_def split: prod.splits bool.splits)

lemma set_step3_groups:
  assumes "set_step3 cfg plan q ar armAt now t s = (out, s1)"
  shows "sn_Groups (po_snap s1) = sn_Groups (po_snap s)" "sn_Nodes (po_snap s1) = sn_Nodes (po_snap s)"
  using assms by (auto simp: set_step3_def Let_def withRouter_def split: prod.splits if_splits)

lemma keep_validate_groups:
  assumes "keep_validate addr t u s = (c, s1)"
  shows "sn_Groups (po_snap s1) = sn_Groups (po_snap s)" "sn_Nodes (po_snap s1) = sn_Nodes (po_snap s)"
  using assms by (auto simp: keep_validate_def Let_def withRouter_def split: prod.splits option.splits if_splits bool.splits)

lemma keep_commit_groups:
  assumes "keep_commit rid addr q t s = (r, snap, s1)"
  shows "sn_Groups (po_snap s1) = sn_Groups (po_snap s)" "sn_Nodes (po_snap s1) = sn_Nodes (po_snap s)"
  using assms by (auto simp: keep_commit_def Let_def withRouter_def split: prod.splits if_splits bool.splits)

lemma resolve_commit_groups:
  assumes "resolve_commit cfg addr g rt t s = (snap, s1)"
  shows "sn_Groups (po_snap s1) = sn_Groups (po_snap s)" "sn_Nodes (po_snap s1) = sn_Nodes (po_snap s)"
  using assms by (auto simp: resolve_commit_def withRouter_def split: prod.splits if_splits bool.splits)

lemma broadcast_snap [simp]: "po_snap (Broadcast x s) = po_snap s" "po_snap (maybe_broadcast y s) = po_snap s"
  by (simp_all add: Broadcast_def maybe_broadcast_def split: option.split)

lemmas section_groups = set_step1_groups set_step3_groups keep_validate_groups keep_commit_groups resolve_commit_groups

text \<open>A section leaves the zones and nodes of the snapshot alone, or publishes the zones there are.\<close>

lemma advance_groups:
  assumes "advance cfg rc gs t u opr (s, w) = (os, s', w')"
  shows "sn_Groups (po_snap s') = sn_Groups (po_snap s) \<and> sn_Nodes (po_snap s') = sn_Nodes (po_snap s) \<and> opr \<noteq> ZonesChanged \<or>
    sn_Groups (po_snap s') = buildGroupViews gs (sn_Nodes (po_snap s'))"
proof (cases opr)
  case (SetDisarm addr ms snap)
  with assms show ?thesis by (cases ms) auto
next
  case (PollMerge ga)
  with assms show ?thesis by (auto simp: refresh_merge_def Let_def split: prod.splits)
next
  case ZonesChanged
  with assms show ?thesis by (auto simp: RefreshGroups_def Let_def)
qed (use assms section_groups in \<open>auto split: prod.splits option.splits sum.splits keep_check.splits\<close>)

lemma prog_ops_simps [simp]:
  "prog_ops (Await rid opr r) = [opr]" "prog_ops (reply r) = []" "prog_ops (Answer resp) = []" "prog_ops Stuck = []" "prog_ops (Access f) = []"
  "prog_ops (Read g) = []" "prog_ops (refresh_then resp) = [ZonesChanged]" "prog_ops (on_zones h) = []" "prog_ops (on_accounts k) = []"
  by (simp_all add: prog_ops_def reply_def Read_def refresh_then_def on_zones_def on_accounts_def split: option.split)

definition calm :: "'w prog \<Rightarrow> bool" where
  "calm p \<longleftrightarrow> (\<forall>x \<in> set (prog_ops p). plain_op x)"

lemma calm_simps [simp]:
  "calm (Answer resp)" "calm Stuck" "calm (Access f)" "calm (Read g)" "calm (refresh_then resp)" "calm (on_zones h)" "calm (on_accounts k)"
  "calm (Await rid opr r) \<longleftrightarrow> plain_op opr"
  by (simp_all add: calm_def)

text \<open>
  What an access may do: leave the poller and the routers alone, go on to operations that only start, and change zones
  only to refresh them next.
\<close>

definition zones_access :: "'w API \<Rightarrow> env \<Rightarrow> 'w request \<Rightarrow> 'w system list \<Rightarrow> (env \<Rightarrow> 'w system \<Rightarrow> 'w system \<times> 'w prog) \<Rightarrow> bool" where
  "zones_access a env r seen f \<longleftrightarrow>
     (\<forall>e sys. sy_poller (fst (f e sys)) = sy_poller sys \<and> sy_world (fst (f e sys)) = sy_world sys \<and> calm (snd (f e sys)) \<and>
        (sy_zones (fst (f e sys)) = sy_zones sys \<or> (\<exists>resp. snd (f e sys) = refresh_then resp)))"

definition any_await :: "'w API \<Rightarrow> env \<Rightarrow> 'w request \<Rightarrow> 'w system list \<Rightarrow> string \<Rightarrow> op \<Rightarrow> bool" where
  "any_await a env r seen rid opr \<longleftrightarrow> True"

abbreviation zones_ok :: "'w API \<Rightarrow> env \<Rightarrow> 'w request \<Rightarrow> 'w system list \<Rightarrow> 'w prog \<Rightarrow> bool" where
  "zones_ok a env r \<equiv> prog_ok (zones_access a env r) (any_await a env r)"

lemma any_await_kept: "awaits_kept (any_await a env r)"
  by (simp add: awaits_kept_def any_await_def)

lemma zones_ok_Await [simp, intro]: "zones_ok a env r seen (Await rid opr res)" "zones_ok a env r seen (refresh_then resp)"
  by (auto simp: any_await_def refresh_then_def intro: ok_Await)

lemma zones_ok_Read:
  assumes "\<And>e sys. zones_ok a env r (sys # seen) (f e sys)" and "\<And>e sys. calm (f e sys)"
  shows "zones_ok a env r seen (Read f)"
  unfolding Read_def by (rule ok_Access) (simp_all add: zones_access_def assms)

text \<open>A zone mutation that fails is rolled back; one that succeeds goes on to the refresh.\<close>

lemma groups_rollback:
  "groups_Create uf io rnd g gs fs = Some (Inl e, gs', fs') \<Longrightarrow> gs_items gs' = gs_items gs"
  "groups_Update uf io gid g gs fs = (Inl e, gs', fs') \<Longrightarrow> gs_items gs' = gs_items gs"
  "groups_Delete io gid gs fs = (Some e, gs', fs') \<Longrightarrow> gs_items gs' = gs_items gs"
proof -
  show "groups_Create uf io rnd g gs fs = Some (Inl e, gs', fs') \<Longrightarrow> gs_items gs' = gs_items gs"
    by (auto simp: groups_Create_def Let_def split: sum.splits if_splits option.splits)
  show "groups_Update uf io gid g gs fs = (Inl e, gs', fs') \<Longrightarrow> gs_items gs' = gs_items gs"
    by (auto simp: groups_Update_def Let_def dest!: groups_indexOfLocked_SomeD split: sum.splits if_splits option.splits)
  show "groups_Delete io gid gs fs = (Some e, gs', fs') \<Longrightarrow> gs_items gs' = gs_items gs"
    by (auto simp: groups_Delete_def Let_def dest!: groups_indexOfLocked_SomeD split: option.splits)
qed

lemma stores_zones [simp]:
  "sy_poller (with_groups sys gs fs) = sy_poller sys" "sy_poller (with_guests sys us fs) = sy_poller sys"
  "sy_world (with_groups sys gs fs) = sy_world sys" "sy_world (with_guests sys us fs) = sy_world sys"
  "sy_zones (with_groups sys gs fs) = groups_List gs" "sy_zones (with_guests sys us fs) = sy_zones sys"
  by (simp_all add: with_groups_def with_guests_def sy_zones_def)

lemma zones_ok_on_zones:
  assumes "\<And>e gs sys. sy_groups sys = Some gs \<Longrightarrow>
      sy_poller (fst (f e gs sys)) = sy_poller sys \<and> sy_world (fst (f e gs sys)) = sy_world sys \<and> calm (snd (f e gs sys)) \<and>
      (sy_zones (fst (f e gs sys)) = groups_List gs \<or> (\<exists>resp. snd (f e gs sys) = refresh_then resp))"
    and "\<And>e gs sys seen. zones_ok a env r seen (snd (f e gs sys))"
  shows "zones_ok a env r seen (on_zones f)"
  unfolding on_zones_def
proof (rule ok_Access)
  show "zones_access a env r seen (\<lambda>env sys. case sy_groups sys of None \<Rightarrow> (sys, Stuck) | Some gs \<Rightarrow> f env gs sys)"
    unfolding zones_access_def using assms(1) by (auto simp: sy_zones_def split: option.split)
qed (auto simp: assms(2) split: option.split)

lemma zones_ok_on_accounts:
  assumes "\<And>e us sys. sy_poller (fst (f e us sys)) = sy_poller sys \<and> sy_world (fst (f e us sys)) = sy_world sys \<and> calm (snd (f e us sys)) \<and> sy_zones (fst (f e us sys)) = sy_zones sys"
    and "\<And>e us sys seen. zones_ok a env r seen (snd (f e us sys))"
  shows "zones_ok a env r seen (on_accounts f)"
  unfolding on_accounts_def
proof (rule ok_Access)
  show "zones_access a env r seen (\<lambda>env sys. case sy_guests sys of None \<Rightarrow> (sys, Stuck) | Some us \<Rightarrow> f env us sys)"
    unfolding zones_access_def using assms(1) by (auto split: option.split)
qed (auto simp: assms(2) split: option.split)

lemma refresh_then_some [simp]: "\<exists>resp. refresh_then x = refresh_then resp" "\<not> (\<forall>resp. refresh_then x \<noteq> refresh_then resp)"
  by blast+

lemma groups_List_rollback:
  "gs_items gs' = gs_items gs \<Longrightarrow> groups_List gs' = groups_List gs"
  by (simp add: groups_List_def)

lemma zones_ok_stores:
  "zones_ok a env r seen (handleCreateGroup_prog a r')" "zones_ok a env r seen (handleUpdateGroup_prog a i r')"
  "zones_ok a env r seen (handleDeleteGroup_prog i)" "zones_ok a env r seen (handleCreateGuest_prog a r')"
  "zones_ok a env r seen (handleSetGuestDisabled_prog a i r')" "zones_ok a env r seen (handleDeleteGuest_prog i)"
  "zones_ok a env r seen handleListGroups_prog" "zones_ok a env r seen handleListGuests_prog"
proof -
  note rb = groups_List_rollback [OF groups_rollback(1)] groups_List_rollback [OF groups_rollback(2)] groups_List_rollback [OF groups_rollback(3)]
  show "zones_ok a env r seen (handleCreateGroup_prog a r')" "zones_ok a env r seen (handleUpdateGroup_prog a i r')"
    "zones_ok a env r seen (handleDeleteGroup_prog i)"
    unfolding store_progs
    by (auto intro!: zones_ok_on_zones zones_ok_Read simp: sy_zones_def [of s for s] rb split: sum.split option.split prod.split)
  show "zones_ok a env r seen (handleCreateGuest_prog a r')" "zones_ok a env r seen (handleSetGuestDisabled_prog a i r')"
    "zones_ok a env r seen (handleDeleteGuest_prog i)"
    unfolding store_progs Let_def
    by (auto intro!: zones_ok_on_accounts zones_ok_Read split: sum.split option.split prod.split)
  show "zones_ok a env r seen handleListGroups_prog" "zones_ok a env r seen handleListGuests_prog"
    unfolding store_progs by (auto intro!: zones_ok_on_zones zones_ok_on_accounts simp: sy_zones_def)
qed

lemma zones_ok_reads:
  "zones_ok a env r seen (handleMe_prog r')" "zones_ok a env r seen (handleNodes_prog r')" "zones_ok a env r seen (handleRouter_prog i r')"
proof -
  have "zones_ok a env r seen (find_router_prog i)" for seen
    unfolding find_router_prog_def by (rule zones_ok_Read) (simp_all split: option.split)
  moreover have "calm (find_router_prog i :: 'a prog)" by (simp add: find_router_prog_def)
  ultimately show "zones_ok a env r seen (handleRouter_prog i r')"
    by (auto simp: handleRouter_prog_def intro!: zones_ok_Read split: option.split)
  show "zones_ok a env r seen (handleMe_prog r')" "zones_ok a env r seen (handleNodes_prog r')"
    by (auto simp: handleMe_prog_def handleNodes_prog_def Let_def intro!: zones_ok_Read split: option.split)
qed

lemma zones_ok_routers:
  "zones_ok a env r seen (handleSetExitNode_prog a i r')" "zones_ok a env r seen (handleKeep_prog i r')"
  "zones_ok a env r seen (handleProbe_prog i r')"
proof -
  have auth: "zones_ok a env r seen (authorizeRouterWrite_prog r' i t p)" if "\<And>seen. zones_ok a env r seen p" "calm p" for seen t p
    using that by (auto simp: authorizeRouterWrite_prog_def intro!: zones_ok_Read split: option.split)
  have "zones_ok a env r seen (SetExitNode_prog i t)" "zones_ok a env r seen (Keep_prog i)" "zones_ok a env r seen (Probe_prog i)" for seen t
    by (auto simp: SetExitNode_prog_def Keep_prog_def Probe_prog_def Let_def intro!: zones_ok_Read split: sum.split option.split)
  moreover have "calm (SetExitNode_prog i t :: 'a prog)" "calm (Keep_prog i :: 'a prog)" "calm (Probe_prog i :: 'a prog)" for t
    by (simp_all add: SetExitNode_prog_def Keep_prog_def Probe_prog_def)
  ultimately show "zones_ok a env r seen (handleSetExitNode_prog a i r')" "zones_ok a env r seen (handleKeep_prog i r')"
      "zones_ok a env r seen (handleProbe_prog i r')"
    by (auto simp: router_progs auth split: sum.split)
qed

lemma zones_ok_endpoint: "zones_ok a env r seen (endpoint_prog a ep r')"
  by (cases ep) (simp_all add: zones_ok_reads zones_ok_routers zones_ok_stores RequireAdmin_prog_def split: option.split)

lemma calm_endpoint: "calm (endpoint_prog a ep r')"
proof -
  have "calm (authorizeRouterWrite_prog r' i t p)" if "calm p" for i t and p :: "'a prog"
    using that by (simp add: authorizeRouterWrite_prog_def split: option.split)
  moreover have "calm (SetExitNode_prog i t :: 'a prog)" "calm (Keep_prog i :: 'a prog)" "calm (Probe_prog i :: 'a prog)" for i t
    by (simp_all add: SetExitNode_prog_def Keep_prog_def Probe_prog_def)
  ultimately show ?thesis
    by (cases ep) (simp_all add: router_progs store_progs handleMe_prog_def handleNodes_prog_def handleRouter_prog_def find_router_prog_def
        RequireAdmin_prog_def Let_def split: option.split sum.split)
qed

lemma zones_ok_resolve:
  assumes "\<And>seen res. zones_ok a env r seen (p res)" and "\<And>res. calm (p res)"
  shows "zones_ok a env r seen (resolve_prog a env r p)"
  using assms by (auto simp: resolve_prog_def intro!: zones_ok_Read split: option.split)

lemma calm_Routes: "calm (Routes_prog a g u env r)"
proof -
  have "calm (data_prog a g u r')" for r'
    by (simp add: data_prog_def Let_def calm_endpoint split: option.split prod.split)
  then have "calm (RequireAuth_prog a env r (data_prog a g u))"
    by (simp add: RequireAuth_prog_def resolve_prog_def split: option.split)
  then show ?thesis
    by (simp add: Routes_prog_def api_prog_def handleLogin_prog_def handleCSRF_prog_def handleLogout_prog_def split: sum.split)
qed

lemma zones_ok_Routes: "zones_ok a env r [] (Routes_prog a g u env r)"
proof -
  have "zones_ok a env r seen (data_prog a g u r')" for seen r'
    by (simp add: data_prog_def Let_def zones_ok_endpoint split: option.split prod.split)
  moreover have "calm (data_prog a g u r')" for r'
    by (simp add: data_prog_def Let_def calm_endpoint split: option.split prod.split)
  ultimately have "zones_ok a env r [] (RequireAuth_prog a env r (data_prog a g u))"
    unfolding RequireAuth_prog_def
    by (intro zones_ok_resolve) (simp_all split: option.split)
  moreover have "zones_ok a env r [] (handleLogin_prog a r)"
    by (auto simp: handleLogin_prog_def intro!: zones_ok_Read split: sum.split)
  ultimately show ?thesis
    by (simp add: Routes_prog_def api_prog_def handleCSRF_prog_def handleLogout_prog_def split: sum.split)
qed

text \<open>
  Until the first poll or the first zone change has published, the snapshot of a started server is empty, although the store
  may have loaded zones: nothing is shown yet, and no zone has been changed.
\<close>

definition nothing_shown :: "Group list \<Rightarrow> 'w system \<Rightarrow> bool" where
  "nothing_shown gs sys \<longleftrightarrow> sn_Nodes (sy_snap sys) = [] \<and> sn_Groups (sy_snap sys) = [] \<and> sy_zones sys = gs"

definition shown_inv :: "Group list \<Rightarrow> 'w server \<Rightarrow> bool" where
  "shown_inv gs S \<longleftrightarrow> zones_shown (ss_sys S) \<or> nothing_shown gs (ss_sys S) \<or> (\<exists>th \<in> set (ss_threads S). refreshing th)"

lemma zones_shown_advance:
  assumes "advance cfg rc (sy_zones sys) t u opr (sy_poller sys, w) = (os, pw)"
  shows "zones_shown sys \<Longrightarrow> zones_shown (with_poller sys pw)" "opr = ZonesChanged \<Longrightarrow> zones_shown (with_poller sys pw)"
    "nothing_shown gs sys \<Longrightarrow> nothing_shown gs (with_poller sys pw) \<or> zones_shown (with_poller sys pw)"
proof -
  obtain s' w' where pw: "pw = (s', w')" by fastforce
  note g = advance_groups [OF assms [unfolded pw]]
  show "zones_shown sys \<Longrightarrow> zones_shown (with_poller sys pw)" "opr = ZonesChanged \<Longrightarrow> zones_shown (with_poller sys pw)"
    "nothing_shown gs sys \<Longrightarrow> nothing_shown gs (with_poller sys pw) \<or> zones_shown (with_poller sys pw)"
    using g by (auto simp: zones_shown_def nothing_shown_def pw)
qed

lemma step_Await:
  assumes "prog_step a env (Await rid opr resp) sys = (sys', p')"
  obtains t u os pw where "advance (a_cfg a) (a_rc a) (sy_zones sys) t u opr (sy_poller sys, sy_world sys) = (os, pw)"
    "sys' = with_poller sys pw" "prog_ops p' = take 1 os" "t = fst (section_times env opr)"
proof -
  obtain t u where tu: "section_times env opr = (t, u)" by fastforce
  obtain os pw where adv: "advance (a_cfg a) (a_rc a) (sy_zones sys) t u opr (sy_poller sys, sy_world sys) = (os, pw)"
    by (rule prod.exhaust)
  have "sys' = with_poller sys pw" "prog_ops p' = take 1 os"
    using assms tu adv by (auto simp: after_section_def split: list.splits)
  with adv tu that show thesis by simp
qed

lemma shown_prog_step:
  assumes ok: "zones_ok a env0 r seen p" and step: "prog_step a env p sys = (sys', p')"
    and inv: "zones_shown sys \<or> nothing_shown gs sys \<or> (\<exists>rid resp. p = Await rid ZonesChanged resp)"
  shows "zones_shown sys' \<or> nothing_shown gs sys' \<or> (\<exists>rid resp. p' = Await rid ZonesChanged resp)"
proof (cases p)
  case (Access f)
  from ok [unfolded Access] have "zones_access a env0 r seen f" by (rule prog_ok_AccessE)
  then have f: "sy_poller (fst (f env sys)) = sy_poller sys \<and> (sy_zones (fst (f env sys)) = sy_zones sys \<or> (\<exists>resp. snd (f env sys) = refresh_then resp))"
    by (simp add: zones_access_def)
  have "f env sys = (sys', p')" using step Access by simp
  with f inv Access show ?thesis by (auto simp: zones_shown_def nothing_shown_def refresh_then_def)
next
  case (Await rid opr resp)
  from step_Await [OF step [unfolded Await]] show ?thesis
    using inv Await zones_shown_advance by (metis prog.inject(3))
qed (use step inv in auto)

lemma shown_inv_thread:
  assumes ok: "zones_ok a env0 r seen (th_prog (ss_threads S ! i))" and i: "i < length (ss_threads S)" and inv: "shown_inv gs S"
  shows "shown_inv gs (thread_step a env i S)"
proof -
  let ?th = "ss_threads S ! i"
  obtain sys' p' where p: "prog_step a env (th_prog ?th) (ss_sys S) = (sys', p')" by fastforce
  note st = thread_step_simps [OF p]
  show ?thesis
  proof (cases "\<exists>j < length (ss_threads S). j \<noteq> i \<and> refreshing (ss_threads S ! j)")
    case True
    then obtain j where "j < length (ss_threads S)" "j \<noteq> i" "refreshing (ss_threads S ! j)" by blast
    then have "ss_threads (thread_step a env i S) ! j = ss_threads S ! j" "j < length (ss_threads (thread_step a env i S))"
      unfolding st(2) by simp_all
    with \<open>refreshing (ss_threads S ! j)\<close> show ?thesis unfolding shown_inv_def by (metis nth_mem)
  next
    case False
    with inv have "zones_shown (ss_sys S) \<or> nothing_shown gs (ss_sys S) \<or> refreshing ?th" unfolding shown_inv_def by (metis in_set_conv_nth)
    from shown_prog_step [OF ok p this [unfolded refreshing_def]]
    have "zones_shown sys' \<or> nothing_shown gs sys' \<or> refreshing (?th\<lparr>th_prog := p', th_seen := ss_sys S # th_seen ?th\<rparr>)"
      by (simp add: refreshing_def)
    moreover have "?th\<lparr>th_prog := p', th_seen := ss_sys S # th_seen ?th\<rparr> \<in> set (ss_threads (thread_step a env i S))"
      using i unfolding st(2) by (rule set_update_memI)
    ultimately show ?thesis unfolding shown_inv_def st(1) by blast
  qed
qed

lemma shown_inv_reach:
  assumes "server_reach a sys0 S" and "sy_snap sys0 = store_New t"
  shows "shown_inv (sy_zones sys0) S"
  using assms(1)
proof (induction rule: server_reach.induct)
  case start
  show ?case using assms(2) by (simp add: shown_inv_def nothing_shown_def server_start_def store_New_def)
next
  case (step S S')
  from step(2) show ?case
  proof cases
    case (request env r)
    with step.IH show ?thesis by (auto simp: shown_inv_def arrive_def)
  next
    case (sect i env)
    have "threads_ok zones_access any_await a S"
      using threads_ok_reach [where acc = zones_access and awt = any_await] zones_ok_Routes any_await_kept step(1) by blast
    with sect(2) have "zones_ok a (th_arrived (ss_threads S ! i)) (th_req (ss_threads S ! i)) (th_seen (ss_threads S ! i)) (th_prog (ss_threads S ! i))"
      by (simp add: threads_ok_def)
    with sect(1) step.IH sect(2) shown_inv_thread show ?thesis by blast
  next
    case poll
    with step.IH show ?thesis by (simp add: shown_inv_def)
  next
    case (poll_section xs opr ys t u os pw)
    from zones_shown_advance(1,3) [OF poll_section(3)] step.IH show ?thesis by (auto simp: poll_section(1) shown_inv_def)
  qed
qed

text \<open>
  C12 (invariant over all interleavings). From the start of the server, with an empty snapshot and whatever zones the store has
  loaded, and whatever requests and polls run at the same time: unless a request that has changed a zone is still about to publish it,
  the zones in the published snapshot are exactly those of the store, resolved against the nodes of that snapshot; or
  nothing has been published at all (no nodes, no zones) and the store holds the zones it had loaded. In particular, once the
  response to a zone change has been sent, every snapshot read later shows it, and so does the filter that decides what a guest sees.
\<close>

theorem zones_shown_fresh:
  assumes "server_reach a sys0 S" and "sy_snap sys0 = store_New t"
  shows "sn_Groups (sy_snap (ss_sys S)) = buildGroupViews (sy_zones (ss_sys S)) (sn_Nodes (sy_snap (ss_sys S))) \<or>
    (sn_Groups (sy_snap (ss_sys S)) = [] \<and> sn_Nodes (sy_snap (ss_sys S)) = [] \<and> sy_zones (ss_sys S) = sy_zones sys0) \<or>
    (\<exists>th \<in> set (ss_threads S). \<exists>rid resp. th_prog th = Await rid ZonesChanged resp)"
  using shown_inv_reach [OF assms] by (auto simp: shown_inv_def zones_shown_def nothing_shown_def refreshing_def)

subsection \<open>The armed reverts\<close>

abbreviation tracked :: "timers \<Rightarrow> (string \<times> string) set" where
  "tracked T \<equiv> tm_armed T - tm_reported T"

text \<open>All controller operations under way, of requests and of polls.\<close>

definition server_ops :: "'w server \<Rightarrow> op list" where
  "server_ops S = concat (map (prog_ops \<circ> th_prog) (ss_threads S)) @ ss_polls S"

lemma advance_one: "length (fst (advance cfg rc gs t u opr sw)) \<le> 1"
proof -
  obtain s w where sw: "sw = (s, w)" by fastforce
  show ?thesis
  proof (cases opr)
    case (SetDisarm addr ms snap)
    with sw show ?thesis by (cases ms) auto
  qed (auto simp: sw show_op_def split: prod.splits option.splits sum.splits keep_check.splits)
qed

lemma mset_concat_update:
  assumes "i < length xs"
  shows "mset (concat (map f (xs[i := y]))) = mset (f y @ concat (map f (take i xs)) @ concat (map f (drop (Suc i) xs)))"
    "mset (concat (map f xs)) = mset (f (xs ! i) @ concat (map f (take i xs)) @ concat (map f (drop (Suc i) xs)))"
proof -
  show "mset (concat (map f (xs[i := y]))) = mset (f y @ concat (map f (take i xs)) @ concat (map f (drop (Suc i) xs)))"
    by (simp add: upd_conv_take_nth_drop [OF assms])
  have "concat (map f xs) = concat (map f (take i xs @ xs ! i # drop (Suc i) xs))"
    by (simp add: id_take_nth_drop [OF assms, symmetric])
  then show "mset (concat (map f xs)) = mset (f (xs ! i) @ concat (map f (take i xs)) @ concat (map f (drop (Suc i) xs)))"
    by simp
qed

definition timers_inv :: "'w API \<Rightarrow> 'w server \<Rightarrow> bool" where
  "timers_inv a S \<longleftrightarrow> steps_inv (a_cfg a) (sy_poller (ss_sys S)) (server_ops S) (tracked (ss_timers S))"

lemma steps_inv_calm: "steps_inv cfg s R T \<Longrightarrow> calm p \<Longrightarrow> steps_inv cfg s (prog_ops p @ R) T"
  by (cases p) (auto intro: steps_inv_start)

lemma timers_inv_thread:
  assumes client: "marker_client (ro_Apply (a_rc a))" and ok: "zones_ok a env0 r seen (th_prog (ss_threads S ! i))"
    and i: "i < length (ss_threads S)" and inv: "timers_inv a S"
  shows "timers_inv a (thread_step a env i S)"
proof -
  let ?th = "ss_threads S ! i" and ?f = "prog_ops \<circ> th_prog" and ?s = "sy_poller (ss_sys S)"
  let ?R = "concat (map (prog_ops \<circ> th_prog) (take i (ss_threads S))) @ concat (map (prog_ops \<circ> th_prog) (drop (Suc i) (ss_threads S))) @ ss_polls S"
  obtain sys' p' where p: "prog_step a env (th_prog ?th) (ss_sys S) = (sys', p')" by fastforce
  note st = thread_step_simps [OF p]
  have before: "steps_inv (a_cfg a) ?s (prog_ops (th_prog ?th) @ ?R) (tracked (ss_timers S))"
  proof -
    have "mset (server_ops S) = mset (prog_ops (th_prog ?th) @ ?R)" using mset_concat_update(2) [OF i, of ?f] by (simp add: server_ops_def)
    from steps_inv_perm [OF this] inv show ?thesis by (simp add: timers_inv_def)
  qed
  have "mset (server_ops (thread_step a env i S)) = mset (prog_ops p' @ ?R)"
    using mset_concat_update(1) [OF i, of ?f] unfolding server_ops_def st(2,3) by simp
  from steps_inv_perm [OF this] have after: "timers_inv a (thread_step a env i S) \<longleftrightarrow>
      steps_inv (a_cfg a) (sy_poller sys') (prog_ops p' @ ?R) (tracked (thread_timers a env (ss_sys S) (th_prog ?th) p' (ss_timers S)))"
    unfolding timers_inv_def st(1,4) .
  show ?thesis
  proof (cases "th_prog ?th")
    case (Access f)
    from ok [unfolded Access] have "zones_access a env0 r seen f" by (rule prog_ok_AccessE)
    moreover have "f env (ss_sys S) = (sys', p')" using p Access by simp
    ultimately have "sy_poller sys' = ?s" "calm p'" unfolding zones_access_def by (metis fst_conv snd_conv)+
    moreover have "steps_inv (a_cfg a) ?s ?R (tracked (ss_timers S))" using before Access by simp
    ultimately have "steps_inv (a_cfg a) (sy_poller sys') (prog_ops p' @ ?R) (tracked (ss_timers S))" by (simp add: steps_inv_calm)
    then show ?thesis using Access after by (simp add: thread_timers_def)
  next
    case (Await rid opr resp)
    from step_Await [OF p [unfolded Await]] obtain t u os pw
      where adv: "advance (a_cfg a) (a_rc a) (sy_zones (ss_sys S)) t u opr (?s, sy_world (ss_sys S)) = (os, pw)"
        and n: "sys' = with_poller (ss_sys S) pw" "prog_ops p' = take 1 os" "t = fst (section_times env opr)" by blast
    have "length os \<le> 1" using advance_one [of "a_cfg a" "a_rc a" "sy_zones (ss_sys S)" t u opr "(?s, sy_world (ss_sys S))"] adv by simp
    with n(2) have os: "prog_ops p' = os" by simp
    obtain s' w' where pw: "pw = (s', w')" by fastforce
    from before Await have "steps_inv (a_cfg a) ?s (opr # ?R) (tracked (ss_timers S))" by simp
    from advance_inv [OF client this adv [unfolded pw]] show ?thesis
      using after n os pw Await by (simp add: thread_timers_def)
  next
    case (Answer x)
    moreover from p this have "sys' = ss_sys S" "p' = Answer x" by simp_all
    ultimately show ?thesis using before after by (simp add: thread_timers_def)
  next
    case Stuck
    moreover from p this have "sys' = ss_sys S" "p' = Stuck" by simp_all
    ultimately show ?thesis using before after by (simp add: thread_timers_def)
  qed
qed

lemma timers_inv_reach:
  assumes client: "marker_client (ro_Apply (a_rc a))" and "server_reach a sys0 S" and "sy_poller sys0 = poller_New snap"
  shows "timers_inv a S"
  using assms(2)
proof (induction rule: server_reach.induct)
  case start
  show ?case using assms(3) by (simp add: timers_inv_def server_start_def server_ops_def steps_inv_def poller_New_def no_timers_def)
next
  case (step S S')
  from step(2) show ?case
  proof cases
    case (request env r)
    let ?new = "new_thread a (ss_sys S) env r"
    have "calm (th_prog ?new)" unfolding new_thread_def thread.select_convs by (rule calm_Routes)
    from steps_inv_calm [OF step.IH [unfolded timers_inv_def] this]
    have new: "steps_inv (a_cfg a) (sy_poller (ss_sys S)) (prog_ops (th_prog ?new) @ server_ops S) (tracked (ss_timers S))" .
    have "mset (prog_ops (th_prog ?new) @ server_ops S) = mset (server_ops S')" by (simp add: request server_ops_def arrive_def)
    from steps_inv_perm [OF this] new show ?thesis by (simp add: request timers_inv_def arrive_def)
  next
    case (sect i env)
    have "threads_ok zones_access any_await a S"
      using threads_ok_reach [where acc = zones_access and awt = any_await] zones_ok_Routes any_await_kept step(1) by blast
    with sect(2) have "zones_ok a (th_arrived (ss_threads S ! i)) (th_req (ss_threads S ! i)) (th_seen (ss_threads S ! i)) (th_prog (ss_threads S ! i))"
      by (simp add: threads_ok_def)
    with sect(1) step.IH sect(2) timers_inv_thread [OF client] show ?thesis by blast
  next
    case (poll inven now)
    let ?x = "PollCapture (refresh_inventory (a_cfg a) inven now (sy_snap (ss_sys S))) (sy_snap (ss_sys S))"
    have new: "steps_inv (a_cfg a) (sy_poller (ss_sys S)) (?x # server_ops S) (tracked (ss_timers S))"
      using step.IH by (intro steps_inv_start) (simp_all add: timers_inv_def)
    have "mset (?x # server_ops S) = mset (server_ops S')" by (simp add: poll server_ops_def)
    from steps_inv_perm [OF this] new show ?thesis by (simp add: poll timers_inv_def)
  next
    case (poll_section xs opr ys t u os pw)
    let ?T = "concat (map (prog_ops \<circ> th_prog) (ss_threads S))"
    obtain s' w' where pw: "pw = (s', w')" by fastforce
    have "mset (server_ops S) = mset (opr # ?T @ xs @ ys)" by (simp add: server_ops_def poll_section(2))
    from steps_inv_perm [OF this] step.IH
    have "steps_inv (a_cfg a) (sy_poller (ss_sys S)) (opr # ?T @ xs @ ys) (tracked (ss_timers S))" by (simp add: timers_inv_def)
    from advance_inv [OF client this poll_section(3) [unfolded pw]]
    have new: "steps_inv (a_cfg a) s' (os @ ?T @ xs @ ys)
        (tracked (timers_after (a_rc a) (sy_world (ss_sys S)) (sy_poller (ss_sys S)) t opr os (ss_timers S)))" .
    have "mset (os @ ?T @ xs @ ys) = mset (server_ops S')" by (simp add: poll_section(1) server_ops_def)
    from steps_inv_perm [OF this] new show ?thesis by (simp add: poll_section(1) timers_inv_def pw)
  qed
qed

lemma marked_reach:
  assumes "server_reach a sys0 S"
  shows "marked (ss_timers S)"
  using assms
proof (induction rule: server_reach.induct)
  case start
  show ?case by (simp add: server_start_def)
next
  case (step S S')
  from step(2) step.IH show ?case
    by (cases rule: server_step.cases)
      (auto simp: arrive_def thread_step_def thread_timers_def Let_def marked_after split: prod.split prog.split)
qed

text \<open>
  C7 (invariant over all interleavings of requests and polls). A revert that was armed on a router for a confirmed change whose
  marker was handed back, and is not yet written, is never lost: it is the gate of its router, under a sequence number that was
  handed out; or the request that armed or replaced it is still under way and holds the marker; or the poller tried to disarm it and
  failed, which it logged. When nothing is under way each router has at most one besides the last, its gate. (An attempt that
  fails hands no marker back: the revert it may have armed cannot be cancelled, see \<open>stale_revert_undoes_retry\<close>.)
\<close>

theorem reverts_tracked:
  assumes "marker_client (ro_Apply (a_rc a))" and "server_reach a sys0 S" and "sy_poller sys0 = poller_New snap"
    and "(addr, m) \<in> tm_armed (ss_timers S)"
  shows "m \<noteq> [] \<and>
    ((\<exists>e. po_pendingKeep (sy_poller (ss_sys S)) addr = Some e \<and> ke_marker e = m \<and> ke_seq e \<le> po_setSeq (sy_poller (ss_sys S)) addr) \<or>
     (\<exists>x \<in> set (server_ops S). op_holds x addr m) \<or> (addr, m) \<in> tm_reported (ss_timers S)) \<and>
    (server_ops S = [] \<longrightarrow>
      (\<forall>m'. (addr, m') \<in> tm_armed (ss_timers S) - tm_reported (ss_timers S) \<and> (addr, m) \<notin> tm_reported (ss_timers S) \<longrightarrow> m' = m))"
  using steps_inv_timers timers_inv_reach [OF assms(1-3)] marked_reach [OF assms(2)] assms(4) unfolding timers_inv_def by blast

end
