(* ===== verification/Api_Typed.thy ===== *)
theory Api_Typed
  imports Api_Server
begin

section \<open>Package api: the types on the wire\<close>

text \<open>
  The contract with the browser: which status and which shape of JSON each endpoint answers with. The shapes are those of
  the structs in \<^verbatim>\<open>internal/api/api.go\<close> (\<^verbatim>\<open>NodeDTO\<close> to \<^verbatim>\<open>GuestDTO\<close>) and \<^verbatim>\<open>store.ProbeResult\<close>; a field with \<^verbatim>\<open>omitempty\<close> is optional, a pointer is
  nullable. The theorem says that every response of the running server, in every interleaving, has the type of its route
  or is an error of one fixed shape.
\<close>

subsection \<open>Types of JSON documents\<close>

datatype jtype =
    TBool | TNum | TStr | TTime
  | TNullable jtype
  | TArr jtype
  | TObj "(string \<times> jtype) list" "(string \<times> jtype) list"

text \<open>An object type has required and optional fields; a document has no field twice and none that is not declared.\<close>

inductive has_type :: "json \<Rightarrow> jtype \<Rightarrow> bool" where
  "has_type (JBool b) TBool"
| "has_type (JNum i) TNum"
| "has_type (JStr s) TStr"
| "has_type (JTime t) TTime"
| "has_type JNull (TNullable t)"
| "has_type v t \<Longrightarrow> has_type v (TNullable t)"
| "\<forall>v \<in> set vs. has_type v t \<Longrightarrow> has_type (JArr vs) (TArr t)"
| "distinct (map fst kvs) \<Longrightarrow> fst ` set req \<subseteq> fst ` set kvs \<Longrightarrow>
   \<forall>(k, v) \<in> set kvs. \<exists>t. (k, t) \<in> set req \<union> set opt \<and> has_type v t \<Longrightarrow> has_type (JObj kvs) (TObj req opt)"

inductive_simps has_type_simps [simp]:
  "has_type v (TNullable t)" "has_type (JArr vs) (TArr t)" "has_type (JObj kvs) (TObj req opt)"

lemmas has_type_base [simp] = has_type.intros(1-4)

definition node_type :: jtype where
  "node_type = TObj [(''stableID'', TStr), (''name'', TStr), (''hostname'', TStr), (''tailscaleIPs'', TArr TStr), (''os'', TStr),
     (''online'', TBool), (''lastSeen'', TStr), (''exitNodeOption'', TBool), (''tags'', TArr TStr), (''type'', TStr)] []"

definition exit_ref_type :: jtype where
  "exit_ref_type = TObj [(''stableID'', TStr), (''name'', TStr), (''ip'', TStr)] []"

definition router_type :: jtype where
  "router_type = TObj
     [(''node'', node_type), (''currentExitNode'', TNullable exit_ref_type), (''desired'', TNullable exit_ref_type), (''state'', TStr),
      (''stats'', TObj [(''rxBytes'', TNum), (''txBytes'', TNum), (''lastHandshake'', TStr)] []), (''reachable'', TBool),
      (''lastError'', TStr), (''lastConfirmedAt'', TStr)]
     [(''revertAt'', TStr), (''egressOk'', TBool), (''egressDetail'', TStr), (''egressCheckedAt'', TStr)]"

definition group_type :: jtype where
  "group_type = TObj [(''id'', TStr), (''name'', TStr), (''consumers'', TArr TStr), (''allowedExitNodes'', TArr TStr)] []"

definition member_type :: jtype where
  "member_type = TObj [(''stableID'', TStr), (''name'', TStr), (''ip'', TStr), (''online'', TBool), (''present'', TBool)] []"

definition group_view_type :: jtype where
  "group_view_type = TObj [(''id'', TStr), (''name'', TStr), (''consumers'', TArr member_type), (''allowedExitNodes'', TArr member_type)] []"

definition snapshot_type :: jtype where
  "snapshot_type = TObj [(''nodes'', TArr node_type), (''routers'', TArr router_type), (''groups'', TArr group_view_type),
     (''netmapAt'', TStr), (''netmapErr'', TStr), (''builtAt'', TStr)] []"

definition nodes_type :: jtype where
  "nodes_type = TObj [(''nodes'', TArr node_type), (''builtAt'', TStr), (''netmapErr'', TStr)] []"

definition me_type :: jtype where
  "me_type = TObj [(''role'', TStr), (''zoneId'', TStr), (''zoneName'', TStr)] []"

definition guest_type :: jtype where
  "guest_type = TObj [(''id'', TStr), (''label'', TStr), (''zoneId'', TStr), (''disabled'', TBool), (''createdAt'', TStr)] []"

definition probe_type :: jtype where
  "probe_type = TObj [(''ok'', TBool), (''checkedAt'', TTime)] [(''durationMs'', TNum), (''output'', TStr), (''error'', TStr)]"

definition error_type :: jtype where
  "error_type = TObj [(''error'', TStr)] [(''detail'', TStr), (''stderr'', TStr)]"

definition ok_type :: jtype where
  "ok_type = TObj [(''ok'', TBool)] []"

lemma js_typed [simp]: "has_type (js s) TStr" "has_type (js_list xs) (TArr TStr)"
  by (auto simp: js_def js_list_def)

lemma node_typed [simp]: "has_type (json_NodeDTO n) node_type"
  by (simp add: json_NodeDTO_def node_type_def)

lemma exit_ref_typed [simp]: "has_type (json_ExitNodeRefDTO r) (TNullable exit_ref_type)"
  by (simp add: json_ExitNodeRefDTO_def exit_ref_type_def split: option.split)

lemma router_typed [simp]: "has_type (json_RouterViewDTO r) router_type"
  by (simp add: json_RouterViewDTO_def router_type_def json_RouterStatsDTO_def omitempty_def del: has_type_simps(1) split: option.split)

lemma group_typed [simp]: "has_type (json_GroupDTO g) group_type"
  by (simp add: json_GroupDTO_def group_type_def)

lemma group_view_typed [simp]: "has_type (json_GroupViewDTO v) group_view_type"
  by (simp add: json_GroupViewDTO_def group_view_type_def json_GroupMemberDTO_def member_type_def)

lemma snapshot_typed: "has_type (EncodeSnapshot s) snapshot_type"
  by (simp add: EncodeSnapshot_def json_SnapshotDTO_def snapshot_type_def)

lemma response_types [simp]:
  "has_type (json_NodesResponse n) nodes_type" "has_type (json_MeResponse m) me_type" "has_type (json_GuestDTO g) guest_type"
  "has_type (json_ProbeResult p) probe_type" "has_type json_ok ok_type"
  by (simp_all add: json_NodesResponse_def nodes_type_def json_MeResponse_def me_type_def json_GuestDTO_def guest_type_def
      json_ProbeResult_def probe_type_def omitempty_def json_ok_def ok_type_def)

subsection \<open>The type of a response\<close>

definition error_statuses :: "nat set" where
  "error_statuses = {400, 401, 403, 404, 409, 422, 500, 502}"

fun endpoint_type :: "endpoint \<Rightarrow> nat \<times> jtype option" where
  "endpoint_type EpNodes = (200, Some nodes_type)"
| "endpoint_type (EpRouter i) = (200, Some router_type)"
| "endpoint_type (EpExitNode i) = (200, Some router_type)"
| "endpoint_type (EpKeep i) = (200, Some router_type)"
| "endpoint_type (EpProbe i) = (200, Some probe_type)"
| "endpoint_type EpMe = (200, Some me_type)"
| "endpoint_type EpListGroups = (200, Some (TArr group_type))"
| "endpoint_type EpCreateGroup = (201, Some group_type)"
| "endpoint_type (EpUpdateGroup i) = (200, Some group_type)"
| "endpoint_type (EpDeleteGroup i) = (204, None)"
| "endpoint_type EpListGuests = (200, Some (TArr guest_type))"
| "endpoint_type EpCreateGuest = (201, Some guest_type)"
| "endpoint_type (EpGuestDisabled i) = (200, Some guest_type)"
| "endpoint_type (EpDeleteGuest i) = (204, None)"

text \<open>Status, type of the body and names of the cookies of a success; \<open>None\<close> if no route matches.\<close>

definition success_type :: "string \<Rightarrow> string list \<Rightarrow> (nat \<times> jtype option \<times> string list) option" where
  "success_type m path =
     (if path = [''csrf''] \<and> method_matches ''GET'' m then Some (200, Some (TObj [(''token'', TStr)] []), [''tsctl_csrf''])
      else if path = [''login''] \<and> m = ''POST'' then Some (200, Some ok_type, [''tsctl_session''])
      else if path = [''logout''] \<and> m = ''POST'' then Some (200, Some ok_type, [''tsctl_session''])
      else map_option (\<lambda>(_, ep). case endpoint_type ep of (st, t) \<Rightarrow> (st, t, []))
        (List.find (\<lambda>p. method_matches (fst p) m) (data_patterns True True path)))"

definition body_typed :: "jtype option \<Rightarrow> json option \<Rightarrow> bool" where
  "body_typed t b \<longleftrightarrow> (case t of None \<Rightarrow> b = None | Some ty \<Rightarrow> (case b of None \<Rightarrow> False | Some v \<Rightarrow> has_type v ty))"

definition response_typed :: "(nat \<times> jtype option \<times> string list) option \<Rightarrow> response \<Rightarrow> bool" where
  "response_typed ty resp \<longleftrightarrow>
     rsp_status resp \<in> error_statuses \<and> body_typed (Some error_type) (rsp_body resp) \<and> rsp_cookies resp = [] \<or>
     rsp_status resp \<in> {404, 405} \<and> rsp_body resp = None \<and> rsp_cookies resp = [] \<or>
     (case ty of
        None \<Rightarrow> False
      | Some (st, t, cookies) \<Rightarrow> rsp_status resp = st \<and> body_typed t (rsp_body resp) \<and> map sc_Name (rsp_cookies resp) = cookies \<and>
          (\<forall>c \<in> set (rsp_cookies resp). sc_SameSiteStrict c \<and> (sc_HttpOnly c \<longleftrightarrow> sc_Name c = ''tsctl_session'')))"

lemma error_responses [simp]:
  "st \<in> error_statuses \<Longrightarrow> response_typed ty (writeErr st msg)"
  "st \<in> error_statuses \<Longrightarrow> response_typed ty (writeErrDetail st msg d e)"
  "response_typed ty (writeGroupErr kind err)" "response_typed ty forbidden" "response_typed ty (router_not_found i)"
proof -
  have *: "response_typed ty (writeErr st msg)" "response_typed ty (writeErrDetail st msg d e)" if "st \<in> error_statuses" for st msg d e
    using that
    by (simp_all add: response_typed_def writeErr_def writeErrDetail_def writeJSON_def body_typed_def error_type_def)
  show "st \<in> error_statuses \<Longrightarrow> response_typed ty (writeErr st msg)" "st \<in> error_statuses \<Longrightarrow> response_typed ty (writeErrDetail st msg d e)"
    by (simp_all add: *)
  show "response_typed ty (writeGroupErr kind err)"
    unfolding writeGroupErr_def by (rule *(2)) (cases err; simp add: error_statuses_def)
  show "response_typed ty forbidden" "response_typed ty (router_not_found i)"
    unfolding forbidden_def router_not_found_def by (rule *; simp add: error_statuses_def)+
qed

lemma error_status_nums [simp]:
  "400 \<in> error_statuses" "401 \<in> error_statuses" "403 \<in> error_statuses" "404 \<in> error_statuses" "409 \<in> error_statuses"
  "422 \<in> error_statuses" "500 \<in> error_statuses" "502 \<in> error_statuses"
  by (simp_all add: error_statuses_def)

lemma success_responses [simp]:
  "has_type v t \<Longrightarrow> response_typed (Some (st, Some t, [])) (writeJSON st v)"
  "response_typed (Some (st, None, [])) (WriteHeader st)"
  "response_typed ty (WriteHeader 404)" "response_typed ty (WriteHeader 405)"
  by (simp_all add: response_typed_def writeJSON_def WriteHeader_def body_typed_def)

subsection \<open>The errors of the controller\<close>

definition control_ok :: "controlError \<Rightarrow> bool" where
  "control_ok e \<longleftrightarrow> ctl_status e \<in> error_statuses"

lemma control_response_typed [simp]: "control_ok e \<Longrightarrow> response_typed ty (control_response e)"
  by (simp add: control_response_def control_ok_def)

lemma control_errors [simp]:
  "control_ok (preflightErr msg)" "st \<in> error_statuses \<Longrightarrow> control_ok (mk_controlError st msg)" "control_ok (routerControlError e)"
  "control_ok (vanishedErr rid what)"
  by (simp_all add: control_ok_def preflightErr_def mk_controlError_def routerControlError_def vanishedErr_def)

lemma set_preflight_error: "set_preflight gs snap rid tid = Inl e \<Longrightarrow> control_ok e"
  by (auto simp: set_preflight_def Let_def split: option.splits if_splits prod.splits)

lemma keep_target_error: "keep_target snap rid = Inl e \<Longrightarrow> control_ok e"
  by (auto simp: keep_target_def Let_def split: option.splits if_splits)

lemma set_result_error: "snd (set_result rid ar out) = Some e \<Longrightarrow> control_ok e"
  by (auto simp: set_result_def split: option.splits if_splits)

lemma keep_validate_error: "keep_validate addr t u s = (KeepRefused e snap, s') \<Longrightarrow> control_ok e"
  by (auto simp: keep_validate_def Let_def split: option.splits if_splits prod.splits bool.splits)

lemma keep_commit_error: "fst (keep_commit rid addr q t s) = Inl e \<Longrightarrow> control_ok e"
  by (auto simp: keep_commit_def Let_def split: if_splits prod.splits bool.splits)

subsection \<open>Every response of a program\<close>

text \<open>What a section of an operation answers with, if it answers.\<close>

fun op_result :: "op \<Rightarrow> jtype option" where
  "op_result (SetReady plan) = Some router_type"
| "op_result (SetShow plan q snap) = Some router_type"
| "op_result (SetApply plan q) = Some router_type"
| "op_result (SetFinish plan q ar t u) = Some router_type"
| "op_result (KeepCheck i addr) = Some router_type"
| "op_result (KeepWrite i addr e) = Some router_type"
| "op_result (KeepFinish i addr e) = Some router_type"
| "op_result (ProbeDial addr) = Some probe_type"
| "op_result opr = None"

lemma set_response_typed: "(\<And>e. snd x = Some e \<Longrightarrow> control_ok e) \<Longrightarrow> response_typed (Some (200, Some router_type, [])) (set_response x)"
  by (cases x; cases "snd x") auto

lemma keep_response_typed: "(\<And>e. x = Inl e \<Longrightarrow> control_ok e) \<Longrightarrow> response_typed (Some (200, Some router_type, [])) (keep_response x)"
  by (cases x) auto

lemma section_result_typed:
  assumes "section_result a env rid opr sw = Some x"
  shows "\<exists>t. op_result opr = Some t \<and> response_typed (Some (200, Some t, [])) x"
proof -
  obtain s w where sw: "sw = (s, w)" by fastforce
  show ?thesis
  proof (cases opr)
    case (SetFinish plan q ar armAt now)
    then show ?thesis using assms set_result_error by (auto simp: sw intro!: set_response_typed)
  next
    case (KeepFinish i addr e)
    then show ?thesis using assms keep_commit_error by (auto simp: sw intro!: keep_response_typed)
  next
    case (ProbeDial addr)
    then show ?thesis using assms by (auto simp: sw probe_response_def Let_def)
  qed (use assms in \<open>auto simp: sw split: prod.splits option.splits keep_check.splits dest: keep_validate_error\<close>)
qed

lemma advance_result:
  assumes "opr' \<in> set (fst (advance cfg rc gs t u opr sw))"
  shows "op_result opr' = op_result opr \<or> op_result opr' = None"
proof -
  obtain s w where sw: "sw = (s, w)" by fastforce
  show ?thesis
  proof (cases opr)
    case (SetDisarm addr ms snap)
    with assms show ?thesis by (cases ms) (auto simp: sw)
  qed (use assms in \<open>auto simp: sw show_op_def split: prod.splits option.splits sum.splits keep_check.splits\<close>)
qed

inductive typed_prog :: "(response \<Rightarrow> bool) \<Rightarrow> 'w prog \<Rightarrow> bool" for P where
  typed_Answer [intro!, simp]: "P resp \<Longrightarrow> typed_prog P (Answer resp)"
| typed_Stuck [intro!, simp]: "typed_prog P Stuck"
| typed_Access: "(\<And>env sys. typed_prog P (snd (f env sys))) \<Longrightarrow> typed_prog P (Access f)"
| typed_Await: "(\<And>x. r = Some x \<Longrightarrow> P x) \<Longrightarrow>
    (\<And>t x. op_result opr = Some t \<Longrightarrow> response_typed (Some (200, Some t, [])) x \<Longrightarrow> P x) \<Longrightarrow> typed_prog P (Await rid opr r)"

inductive_cases typed_AnswerE: "typed_prog P (Answer resp)"

lemma typed_prog_step:
  assumes "typed_prog P p" and step: "prog_step a env p sys = (sys', p')"
  shows "typed_prog P p'"
  using assms(1)
proof cases
  case (typed_Access f)
  then show ?thesis using step by (metis prog_step.simps(1) snd_conv)
next
  case (typed_Await r opr rid)
  obtain t u where tu: "section_times env opr = (t, u)" by fastforce
  obtain os pw where adv: "advance (a_cfg a) (a_rc a) (sy_zones sys) t u opr (sy_poller sys, sy_world sys) = (os, pw)"
    by (rule prod.exhaust)
  let ?r = "case section_result a env rid opr (sy_poller sys, sy_world sys) of Some x \<Rightarrow> Some x | None \<Rightarrow> r"
  have r: "P x" if "?r = Some x" for x
    using that typed_Await(2,3) section_result_typed [of a env rid opr "(sy_poller sys, sy_world sys)"] by (auto split: option.splits)
  have os: "op_result opr' = op_result opr \<or> op_result opr' = None" if "opr' \<in> set os" for opr'
    using advance_result [of opr' "a_cfg a" "a_rc a" "sy_zones sys" t u opr "(sy_poller sys, sy_world sys)"] that adv by simp
  have "p' = after_section rid os ?r" using step typed_Await(1) tu adv by simp
  then show ?thesis
  proof (cases os)
    case Nil
    with \<open>p' = after_section rid os ?r\<close> r show ?thesis by (cases ?r) (auto simp: after_section_def reply_def)
  next
    case (Cons opr' rest)
    with \<open>p' = after_section rid os ?r\<close> r os [of opr'] typed_Await(3) show ?thesis
      by (auto simp: after_section_def intro!: typed_prog.typed_Await)
  qed
qed (use step in auto)

subsection \<open>The handlers\<close>

lemma typed_Read: "(\<And>env sys. typed_prog P (f env sys)) \<Longrightarrow> typed_prog P (Read f)"
  unfolding Read_def by (rule typed_prog.typed_Access) simp

lemma typed_refresh [simp]: "P resp \<Longrightarrow> typed_prog P (refresh_then resp)"
  unfolding refresh_then_def by (rule typed_prog.typed_Await) simp_all

lemma typed_on_zones: "(\<And>env gs sys. typed_prog P (snd (h env gs sys))) \<Longrightarrow> typed_prog P (on_zones h)"
  unfolding on_zones_def by (rule typed_prog.typed_Access) (simp split: option.split)

lemma typed_on_accounts: "(\<And>env us sys. typed_prog P (snd (h env us sys))) \<Longrightarrow> typed_prog P (on_accounts h)"
  unfolding on_accounts_def by (rule typed_prog.typed_Access) (simp split: option.split)

abbreviation typed_as :: "endpoint \<Rightarrow> 'w prog \<Rightarrow> bool" where
  "typed_as ep p \<equiv> typed_prog (response_typed (case endpoint_type ep of (st, t) \<Rightarrow> Some (st, t, []))) p"

lemma typed_authorize: "typed_prog (response_typed ty) p \<Longrightarrow> typed_prog (response_typed ty) (authorizeRouterWrite_prog r i t p)"
  by (auto simp: authorizeRouterWrite_prog_def authorizeRouterWrite_def intro!: typed_Read split: option.split)

lemma typed_router_calls:
  "typed_prog (response_typed (Some (200, Some router_type, []))) (SetExitNode_prog i t)"
  "typed_prog (response_typed (Some (200, Some router_type, []))) (Keep_prog i)"
  "typed_prog (response_typed (Some (200, Some probe_type, []))) (Probe_prog i)"
  by (auto simp: SetExitNode_prog_def Keep_prog_def Probe_prog_def Let_def dest!: set_preflight_error keep_target_error
      intro!: typed_Read typed_prog.typed_Await split: sum.split option.split)

lemma typed_endpoint: "typed_as ep (endpoint_prog a ep r)"
proof (cases ep)
  case (EpExitNode i)
  then show ?thesis by (auto simp: handleSetExitNode_prog_def intro!: typed_authorize typed_router_calls split: sum.split)
next
  case (EpKeep i)
  then show ?thesis by (auto simp: handleKeep_prog_def intro!: typed_authorize typed_router_calls)
next
  case (EpProbe i)
  then show ?thesis by (auto simp: handleProbe_prog_def intro!: typed_authorize typed_router_calls)
next
  case EpCreateGroup
  then show ?thesis
    by (auto simp: RequireAdmin_prog_def handleCreateGroup_prog_def decodeGroupBody_def intro!: typed_on_zones split: option.split sum.split prod.split)
next
  case (EpUpdateGroup i)
  then show ?thesis
    by (auto simp: RequireAdmin_prog_def handleUpdateGroup_prog_def decodeGroupBody_def intro!: typed_on_zones split: option.split sum.split prod.split)
next
  case EpCreateGuest
  then show ?thesis
    by (auto simp: RequireAdmin_prog_def handleCreateGuest_prog_def Let_def intro!: typed_Read typed_on_accounts split: option.split sum.split prod.split)
next
  case (EpRouter i)
  then show ?thesis by (auto simp: handleRouter_prog_def find_router_prog_def intro!: typed_Read split: option.split)
qed (auto simp: RequireAdmin_prog_def handleNodes_prog_def handleMe_prog_def handleListGroups_prog_def handleDeleteGroup_prog_def
    handleListGuests_prog_def handleSetGuestDisabled_prog_def handleDeleteGuest_prog_def Let_def
    intro!: typed_Read typed_on_zones typed_on_accounts split: option.split sum.split prod.split)

lemma wired_patterns:
  "List.find (\<lambda>p. method_matches (fst p) m) (data_patterns g u path) = Some x \<Longrightarrow>
   List.find (\<lambda>p. method_matches (fst p) m) (data_patterns True True path) = Some x"
  unfolding data_patterns_def
  by (cases path; cases "tl path"; cases "tl (tl path)"; cases "tl (tl (tl path))"; cases g; cases u) (simp_all split: if_splits)

lemma typed_data: "typed_prog (response_typed (success_type (rq_Method r) (rq_path r))) (data_prog a g u r)"
proof (cases "List.find (\<lambda>p. method_matches (fst p) (rq_Method r)) (data_patterns g u (rq_path r))")
  case None
  then show ?thesis by (auto simp: data_prog_def Let_def)
next
  case (Some x)
  obtain pat ep where x: "x = (pat, ep)" by fastforce
  have "success_type (rq_Method r) (rq_path r) = (case endpoint_type ep of (st, t) \<Rightarrow> Some (st, t, []))"
    using wired_patterns [OF Some] data_patterns_find(1) [OF wired_patterns [OF Some [unfolded x]]]
    by (auto simp: success_type_def data_patterns_def x split: prod.split)
  then show ?thesis using typed_endpoint [of ep a r] Some by (simp add: data_prog_def x)
qed

lemma typed_resolve:
  assumes "\<And>res. typed_prog P (p res)"
  shows "typed_prog P (resolve_prog a env r p)"
  using assms by (auto simp: resolve_prog_def intro!: typed_Read split: option.split)

lemma cookie_responses [simp]:
  "response_typed (Some (200, Some ok_type, [''tsctl_session''])) (writeJSON 200 json_ok\<lparr>rsp_cookies := [session_cookie val age]\<rparr>)"
  "response_typed (Some (200, Some (TObj [(''token'', TStr)] []), [''tsctl_csrf''])) ((writeJSON 200 (JObj [(''token'', js tok)]))
     \<lparr>rsp_cookies := [\<lparr>sc_Name = ''tsctl_csrf'', sc_Value = v, sc_HttpOnly = False, sc_SameSiteStrict = True, sc_MaxAge = age\<rparr>]\<rparr>)"
  by (simp_all add: response_typed_def writeJSON_def body_typed_def session_cookie_def)

lemma login_subject_typed: "login_subject a b sys = Inl resp \<Longrightarrow> response_typed ty resp"
  by (auto simp: login_subject_def split: if_splits option.splits)

lemma typed_Routes: "typed_prog (response_typed (success_type (rq_Method r) (rq_path r))) (Routes_prog a g u env r)"
proof -
  let ?P = "response_typed (success_type (rq_Method r) (rq_path r))"
  have "typed_prog ?P (data_prog a g u (r\<lparr>rq_ctx := c\<rparr>))" for c
    using typed_data [of "r\<lparr>rq_ctx := c\<rparr>" a g u] by simp
  then have auth: "typed_prog ?P (RequireAuth_prog a env r (data_prog a g u))"
    unfolding RequireAuth_prog_def by (intro typed_resolve) (simp split: option.split)
  have "typed_prog ?P (api_prog a g u env r)"
  proof -
    consider (csrf) "rq_path r = [''csrf'']" "method_matches ''GET'' (rq_Method r)" | (login) "rq_path r = [''login'']" "rq_Method r = ''POST''"
      | (logout) "rq_path r = [''logout'']" "rq_Method r = ''POST''"
      | (data) "\<not> (rq_path r = [''csrf''] \<and> method_matches ''GET'' (rq_Method r))" "\<not> (rq_path r = [''login''] \<and> rq_Method r = ''POST'')"
        "\<not> (rq_path r = [''logout''] \<and> rq_Method r = ''POST'')" by blast
    then show ?thesis
    proof cases
      case csrf
      then show ?thesis by (simp add: api_prog_def success_type_def handleCSRF_prog_def split: sum.split)
    next
      case login
      then show ?thesis
        by (auto simp: api_prog_def success_type_def handleLogin_prog_def method_matches_def dest: login_subject_typed intro!: typed_Read split: sum.split)
    next
      case logout
      then show ?thesis by (simp add: api_prog_def success_type_def handleLogout_prog_def)
    next
      case data
      then have "api_prog a g u env r = RequireAuth_prog a env r (data_prog a g u)" unfolding api_prog_def by (simp only: if_False)
      with auth show ?thesis by simp
    qed
  qed
  then show ?thesis by (simp add: Routes_prog_def)
qed

subsection \<open>The running server\<close>

lemma threads_typed:
  assumes "server_reach a sys0 S"
  shows "\<forall>th \<in> set (ss_threads S). typed_prog (response_typed (success_type (rq_Method (th_req th)) (rq_path (th_req th)))) (th_prog th)"
  using assms
proof (induction rule: server_reach.induct)
  case start
  show ?case by (simp add: server_start_def)
next
  case (step S S')
  from step(2) show ?case
  proof cases
    case (request env r)
    with step.IH typed_Routes show ?thesis by (auto simp: arrive_def new_thread_def)
  next
    case (sect i env)
    let ?th = "ss_threads S ! i"
    obtain sys' p' where p: "prog_step a env (th_prog ?th) (ss_sys S) = (sys', p')" by fastforce
    have "typed_prog (response_typed (success_type (rq_Method (th_req ?th)) (rq_path (th_req ?th)))) p'"
      using step.IH sect(2) by (intro typed_prog_step [OF _ p]) simp
    with step.IH show ?thesis unfolding sect(1) thread_step_simps(2) [OF p] by (auto dest: in_set_update_cases)
  qed (use step.IH in simp_all)
qed

text \<open>
  C11 (type soundness of the interface). Whatever requests and polls run at the same time, every response that a request is given is a
  success of its own route, with the status, the shape of the body and the cookies of that route, or the mux's own
  404 or 405 without a body, or an error with one of eight statuses and the error document; only the three bootstrap routes set
  cookies, every cookie is SameSite=Strict and the session cookie is HttpOnly.
\<close>

theorem responses_typed:
  assumes "server_reach a sys0 S" and "th \<in> set (ss_threads S)" and "th_prog th = Answer resp"
  shows "response_typed (success_type (rq_Method (th_req th)) (rq_path (th_req th))) resp"
  using threads_typed [OF assms(1)] assms(2,3) by (metis typed_AnswerE)

end
