(* ===== verification/Api_Races.thy ===== *)
theory Api_Races
  imports Api_Consistency Api_Typed
begin

section \<open>Package api: two requests that break a promise together\<close>

text \<open>
  \<^verbatim>\<open>handleDeleteGroup\<close> refuses to delete a zone that a guest is assigned to, and \<^verbatim>\<open>handleCreateGuest\<close> refuses to bind a guest to a zone
  that does not exist. Each looks at the other store first and then changes its own by a second call, and no lock is held across the two.
  One at a time they keep every guest bound to a zone (\<open>guests_keep_their_zone\<close>); here is the interleaving in which they do not.
  Two smaller executions serve as instances of the theorems on the running server.
\<close>

subsection \<open>An administrator's requests\<close>

definition owner_env :: env where
  "owner_env = example_env\<lparr>ev_whois := (\<lambda>_. Inr (''owner@example'', False))\<rparr>"

definition owner_request :: "string \<Rightarrow> string list \<Rightarrow> body \<Rightarrow> 'w request" where
  "owner_request meth path b = \<lparr>rq_Method = meth, rq_Host = ''tsctl'', rq_RemoteAddr = ''100.64.0.9:99'', rq_Origin = [], rq_SecFetchSite = [],
     rq_CSRF = ''tok'', rq_cookie = [''tsctl_csrf'' \<mapsto> ''tok''], rq_path = path, rq_body = (\<lambda>_. b), rq_ctx = Background\<rparr>"

definition owner_authed :: "'w API \<Rightarrow> 'w request \<Rightarrow> 'w request" where
  "owner_authed a r = r\<lparr>rq_ctx := auth_context a r (zero_Subject\<lparr>sub_Admin := True\<rparr>)\<rparr>"

lemma owner_authed [simp]:
  "subject_of (owner_authed a r) = Some (zero_Subject\<lparr>sub_Admin := True\<rparr>)"
  "rq_path (owner_authed a r) = rq_path r" "rq_Method (owner_authed a r) = rq_Method r" "rq_body (owner_authed a r) = rq_body r"
  by (simp_all add: owner_authed_def)

lemma owner_request [simp]:
  "rq_path (owner_request m p b) = p" "rq_Method (owner_request m p b) = m" "rq_body (owner_request m p b) n = b"
  by (simp_all add: owner_request_def)

lemma owner_prog:
  assumes "\<not> bootstrap_path path" and "hostAllowed a ''tsctl''" and "a_owner a = ''owner@example''"
  shows "Routes_prog a g u owner_env (owner_request meth path b) = data_prog a g u (owner_authed a (owner_request meth path b))"
proof -
  have "origin_ok a (owner_request meth path b)" "fetch_site_ok (owner_request meth path b :: 'a request)"
    "double_submit_ok (owner_request meth path b :: 'a request)" "rq_Host (owner_request meth path b :: 'a request) = ''tsctl''"
    by (simp_all add: origin_ok_def fetch_site_ok_def double_submit_ok_def owner_request_def)
  moreover have "tailnet_owner a owner_env r" for r
    using assms(3) by (simp add: tailnet_owner_def owner_env_def)
  ultimately show ?thesis
    using assms(1,2) by (simp add: Routes_prog_def api_prog_def bootstrap_path_def RequireAuth_prog_def resolve_prog_def owner_authed_def)
qed

lemma example_owner: "a_owner example_api = ''owner@example''"
  by (simp add: example_api_def)

definition delete_request :: "unit request" where
  "delete_request = owner_request ''DELETE'' [''groups'', ''z''] BodyEOF"

definition create_request :: "unit request" where
  "create_request = owner_request ''POST'' [''guests'']
     (BodyDoc (JObj [(''label'', JStr ''Bob''), (''zoneId'', JStr ''z''), (''password'', JStr ''swordfish'')]) [])"

lemma delete_prog: "Routes_prog example_api True True owner_env delete_request = handleDeleteGroup_prog ''z''"
proof -
  have "Routes_prog example_api True True owner_env delete_request = data_prog example_api True True (owner_authed example_api delete_request)"
    unfolding delete_request_def by (rule owner_prog [OF _ example_host example_owner]) (simp add: bootstrap_path_def)
  also have "\<dots> = RequireAdmin_prog (owner_authed example_api delete_request) (handleDeleteGroup_prog ''z'')"
    by (simp add: data_prog_def delete_request_def data_patterns_def method_matches_def Let_def)
  also have "\<dots> = handleDeleteGroup_prog ''z''" by (simp add: RequireAdmin_prog_def)
  finally show ?thesis .
qed

lemma create_prog: "Routes_prog example_api True True owner_env create_request = handleCreateGuest_prog example_api (owner_authed example_api create_request)"
proof -
  have "Routes_prog example_api True True owner_env create_request = data_prog example_api True True (owner_authed example_api create_request)"
    unfolding create_request_def by (rule owner_prog [OF _ example_host example_owner]) (simp add: bootstrap_path_def)
  also have "\<dots> = RequireAdmin_prog (owner_authed example_api create_request) (handleCreateGuest_prog example_api (owner_authed example_api create_request))"
    by (simp add: data_prog_def create_request_def data_patterns_def method_matches_def Let_def)
  also have "\<dots> = handleCreateGuest_prog example_api (owner_authed example_api create_request)" by (simp add: RequireAdmin_prog_def)
  finally show ?thesis .
qed

subsection \<open>The interleaving\<close>

definition no_guests :: GuestsStore where
  "no_guests = \<lparr>gt_path = ''guests.json'', gt_items = []\<rparr>"

definition race_system :: "unit system" where
  "race_system = example_system\<lparr>sy_guests := Some no_guests, sy_poller := RefreshGroups (groups_List example_groups) 0 example_poller\<rparr>"

definition race_schedule :: "(nat \<times> env) list" where
  "race_schedule = [(1, owner_env), (0, owner_env), (0, owner_env), (0, owner_env), (1, owner_env)]"

definition race_start :: "unit server" where
  "race_start = arrive example_api owner_env create_request (arrive example_api owner_env delete_request (server_start race_system))"

lemma two_threads [simp]:
  "thread_step a env 0 \<lparr>ss_sys = sys, ss_threads = [t, v], ss_polls = ps, ss_timers = T\<rparr> =
     (case prog_step a env (th_prog t) sys of (sys', p') \<Rightarrow>
        \<lparr>ss_sys = sys', ss_threads = [t\<lparr>th_prog := p', th_seen := sys # th_seen t\<rparr>, v], ss_polls = ps,
         ss_timers = thread_timers a env sys (th_prog t) p' T\<rparr>)"
  "thread_step a env (Suc 0) \<lparr>ss_sys = sys, ss_threads = [t, v], ss_polls = ps, ss_timers = T\<rparr> =
     (case prog_step a env (th_prog v) sys of (sys', p') \<Rightarrow>
        \<lparr>ss_sys = sys', ss_threads = [t, v\<lparr>th_prog := p', th_seen := sys # th_seen v\<rparr>], ss_polls = ps,
         ss_timers = thread_timers a env sys (th_prog v) p' T\<rparr>)"
  by (simp_all add: thread_step_def split: prod.split)

lemma owner_env_parts [simp]: "ev_io owner_env = io_ok ''t''" "ev_now owner_env = 0"
  by (simp_all add: owner_env_def example_env_def)

lemma race_delete:
  "\<exists>gs fs. groups_Delete (ev_io owner_env) ''z'' example_groups Map.empty = (None, gs, fs) \<and> gs_items gs = [] \<and>
     gs_path gs = ''groups.json'' \<and> fs ''t'' = None"
  by (simp add: groups_Delete_def groups_indexOfLocked_def example_groups_def Let_def groups_persistLocked_def atomic_save_def io_ok_def
      remove_at_def save_final_def)

lemma race_fresh_id: "freshIDLocked [] (ev_random owner_env) 0 = Some (Inr ''0102030405060708'')"
  by code_simp

lemma race_trims: "TrimSpace ''Bob'' = ''Bob''" "TrimSpace ''z'' = ''z''"
  by code_simp+

lemma race_create:
  "\<exists>us fs'. guests_Create (a_fold example_api) (a_bcryptGenerate example_api) (ev_io owner_env) (ev_random owner_env) (ev_now owner_env)
       ''Bob'' (TrimSpace ''z'') ''swordfish'' no_guests fs =
     Some (Inr \<lparr>gu_ID = ''0102030405060708'', gu_Label = ''Bob'', gu_ZoneID = ''z'', gu_Disabled = False, gu_CreatedAt = 0\<rparr>, us, fs') \<and>
     guests_List us = [\<lparr>gu_ID = ''0102030405060708'', gu_Label = ''Bob'', gu_ZoneID = ''z'', gu_Disabled = False, gu_CreatedAt = 0\<rparr>]"
  by (simp add: guests_Create_def race_trims race_fresh_id labelTakenLocked_def no_guests_def Let_def guests_persistLocked_def atomic_save_def
      io_ok_def example_api_def public_def guests_List_def)

lemma race_body:
  "decode_body (dec_object (upd_guest_body (a_fold example_api)) zero_guest_body) zero_guest_body (rq_body create_request guestReqLimit) =
     Inr \<lparr>gb_Label = ''Bob'', gb_ZoneID = ''z'', gb_Password = ''swordfish''\<rparr>"
  by code_simp

definition race_end :: "unit server" where
  "race_end = run_threads example_api race_schedule race_start"

lemma race_env_ok:
  assumes "sy_groups sys = Some gs" "gs_path gs = ''groups.json''" "sy_guests sys = Some no_guests" "sy_files sys ''t'' = None"
  shows "env_ok owner_env sys"
  using assms by (auto simp: env_ok_def eight_bytes_def owner_env_def example_env_def fresh_tmp_def io_ok_def no_guests_def)

text \<open>What the schedule does, request by request.\<close>

lemma race_runs:
  "\<exists>us. map th_prog (ss_threads race_end) =
       [Answer (WriteHeader 204),
        Answer (writeJSON 201 (json_GuestDTO (guestDTO
          \<lparr>gu_ID = ''0102030405060708'', gu_Label = ''Bob'', gu_ZoneID = ''z'', gu_Disabled = False, gu_CreatedAt = 0\<rparr>)))] \<and>
     sy_zones (ss_sys race_end) = [] \<and> sy_guests (ss_sys race_end) = Some us \<and>
     guests_List us = [\<lparr>gu_ID = ''0102030405060708'', gu_Label = ''Bob'', gu_ZoneID = ''z'', gu_Disabled = False, gu_CreatedAt = 0\<rparr>]"
proof -
  let ?g = "\<lparr>gu_ID = ''0102030405060708'', gu_Label = ''Bob'', gu_ZoneID = ''z'', gu_Disabled = False, gu_CreatedAt = 0\<rparr>"
  let ?t = "\<lambda>r p seen. \<lparr>th_arrived = owner_env, th_req = r, th_prog = p, th_seen = seen\<rparr> :: unit thread"
  let ?S = "\<lambda>sys p n q m. \<lparr>ss_sys = sys, ss_threads = [?t delete_request p n, ?t create_request q m], ss_polls = [], ss_timers = no_timers\<rparr> :: unit server"
  obtain gs fs where d: "groups_Delete (ev_io owner_env) ''z'' example_groups Map.empty = (None, gs, fs)" "gs_items gs = []"
      "gs_path gs = ''groups.json''" "fs ''t'' = None" using race_delete by blast
  let ?sys1 = "with_groups race_system gs fs"
  let ?sys2 = "refresh_groups owner_env ?sys1"
  obtain us fs' where c: "guests_Create (a_fold example_api) (a_bcryptGenerate example_api) (ev_io owner_env) (ev_random owner_env)
      (ev_now owner_env) ''Bob'' (TrimSpace ''z'') ''swordfish'' no_guests fs = Some (Inr ?g, us, fs')" "guests_List us = [?g]"
    using race_create by blast
  have sys: "sy_groups race_system = Some example_groups" "sy_guests race_system = Some no_guests" "sy_files race_system = Map.empty"
    by (simp_all add: race_system_def)
  have stores: "sy_groups ?sys2 = Some gs" "sy_guests ?sys2 = Some no_guests" "sy_files ?sys2 = fs"
    by (simp_all add: sys) (simp add: refresh_groups_def with_groups_def)
  have env: "env_ok owner_env race_system" "env_ok owner_env ?sys1" "env_ok owner_env ?sys2"
    using d(3,4) stores sys by (auto intro!: race_env_ok simp: with_groups_def) (simp add: example_groups_def)
  obtain f k where q: "handleCreateGuest_prog example_api (owner_authed example_api create_request) = Read f" "f owner_env race_system = on_accounts k"
      "k owner_env no_guests ?sys2 = (with_guests ?sys2 us fs', Answer (writeJSON 201 (json_GuestDTO (guestDTO ?g))))"
    using race_body c(1) stores(3) by (simp add: handleCreateGuest_prog_def Let_def sys race_trims)
  obtain h j where p: "handleDeleteGroup_prog ''z'' = Read h" "h owner_env race_system = on_zones j"
      "j owner_env example_groups race_system = (?sys1, refresh_then (WriteHeader 204))"
    using d(1) by (simp add: handleDeleteGroup_prog_def zone_in_use_def sys no_guests_def guests_List_def)
  have z: "prog_step example_api owner_env (refresh_then (WriteHeader 204)) ?sys1 = (?sys2, Answer (WriteHeader 204))"
    by (simp add: refresh_then_def refresh_groups_def with_poller_def reply_def)
  have tm: "thread_timers a e s (Read x) r no_timers = no_timers" "thread_timers a e s (on_zones y) r no_timers = no_timers" "thread_timers a e s (on_accounts w) r no_timers = no_timers"
      "thread_timers a e s (refresh_then v) (Answer v) no_timers = no_timers" for a :: "unit API" and e s x r y w v
    by (simp_all add: thread_timers_def Read_def on_zones_def on_accounts_def refresh_then_def timers_after_def no_timers_def)
  have s0: "race_start = ?S race_system (Read h) [] (Read f) []"
    by (simp add: race_start_def arrive_def new_thread_def server_start_def sys delete_prog create_prog p(1) q(1))
  have s1: "thread_step example_api owner_env (Suc 0) (?S race_system (Read h) [] (Read f) []) = ?S race_system (Read h) [] (on_accounts k) [race_system]"
    by (simp add: q(2) tm)
  have s2: "thread_step example_api owner_env 0 (?S race_system (Read h) [] (on_accounts k) [race_system]) =
      ?S race_system (on_zones j) [race_system] (on_accounts k) [race_system]"
    by (simp add: p(2) tm)
  have s3: "thread_step example_api owner_env 0 (?S race_system (on_zones j) [race_system] (on_accounts k) [race_system]) =
      ?S ?sys1 (refresh_then (WriteHeader 204)) [race_system, race_system] (on_accounts k) [race_system]"
    using p(3) tm(2) by (simp add: on_zones_def sys)
  have s4: "thread_step example_api owner_env 0 (?S ?sys1 (refresh_then (WriteHeader 204)) [race_system, race_system] (on_accounts k) [race_system]) =
      ?S ?sys2 (Answer (WriteHeader 204)) [?sys1, race_system, race_system] (on_accounts k) [race_system]"
    by (simp add: z tm)
  have s5: "thread_step example_api owner_env (Suc 0) (?S ?sys2 (Answer (WriteHeader 204)) [?sys1, race_system, race_system] (on_accounts k) [race_system]) =
      ?S (with_guests ?sys2 us fs') (Answer (WriteHeader 204)) [?sys1, race_system, race_system]
        (Answer (writeJSON 201 (json_GuestDTO (guestDTO ?g)))) [?sys2, race_system]"
    using q(3) tm(3) stores(2) by (simp add: on_accounts_def)
  have run: "run_threads example_api ((i, owner_env) # ks) (?S sys p n q m) = run_threads example_api ks S'"
    if "thread_step example_api owner_env i (?S sys p n q m) = S'" "i < 2" "env_ok owner_env sys" for i ks sys p n q m S'
    using that by simp
  have fin: "race_end = ?S (with_guests ?sys2 us fs') (Answer (WriteHeader 204)) [?sys1, race_system, race_system]
      (Answer (writeJSON 201 (json_GuestDTO (guestDTO ?g)))) [?sys2, race_system]"
    unfolding race_end_def race_schedule_def One_nat_def s0
    by (subst run [OF s1 _ env(1)] run [OF s2 _ env(1)] run [OF s3 _ env(1)] run [OF s4 _ env(2)] run [OF s5 _ env(3)], simp)+ simp
  show ?thesis unfolding fin using c(2) d(2) by (simp add: groups_List_def sy_zones_def with_guests_def with_groups_def refresh_groups_def)
qed

lemma race_end_reach: "server_reach example_api race_system race_end"
  unfolding race_end_def race_start_def by (intro run_threads_reach arrive_reach server_reach.start)

lemma run_threads_reqs: "map th_req (ss_threads (run_threads a ks S)) = map th_req (ss_threads S)"
proof (induction a ks S rule: run_threads.induct)
  case (2 a i env ks S)
  have "map th_req (ss_threads (thread_step a env i S)) = map th_req (ss_threads S)" if "i < length (ss_threads S)"
    using that by (simp add: thread_step_def Let_def map_update list_update_same_conv split: prod.split)
  with 2 show ?case by simp
qed simp

lemma race_end_reqs: "map th_req (ss_threads race_end) = [delete_request, create_request]"
  by (simp add: race_end_def run_threads_reqs race_start_def arrive_def new_thread_def server_start_def)

text \<open>
  C40 (an anomaly of concurrent requests). From a system in which every guest is bound to a zone of the store, two requests of an
  administrator, one that deletes a zone and one that creates a guest in it, can both succeed (204 and 201): the guest is created after
  the deletion has found the zone unused and before the zone is gone, or, as here, from a lookup of the zone made before.
  The guest store then binds a guest to a zone that is not in the group store.
\<close>

theorem orphan_guest_reachable:
  "zone_refs race_system \<and>
   (\<exists>S p q. server_reach example_api race_system S \<and> map th_req (ss_threads S) = [delete_request, create_request] \<and>
      map th_prog (ss_threads S) = [Answer p, Answer q] \<and> rsp_status p = 204 \<and> rsp_status q = 201 \<and> \<not> zone_refs (ss_sys S))"
proof -
  obtain us where r: "map th_prog (ss_threads race_end) = [Answer (WriteHeader 204), Answer (writeJSON 201 (json_GuestDTO (guestDTO
          \<lparr>gu_ID = ''0102030405060708'', gu_Label = ''Bob'', gu_ZoneID = ''z'', gu_Disabled = False, gu_CreatedAt = 0\<rparr>)))]"
      "sy_zones (ss_sys race_end) = []" "sy_guests (ss_sys race_end) = Some us"
      "guests_List us = [\<lparr>gu_ID = ''0102030405060708'', gu_Label = ''Bob'', gu_ZoneID = ''z'', gu_Disabled = False, gu_CreatedAt = 0\<rparr>]"
    using race_runs by (elim exE conjE)
  have "gu_ZoneID ` set (guests_List us) = bound_zones us" by (simp add: guests_List_def bound_zones_def image_image public_def)
  with r(4) have "bound_zones us = {''z''}" by simp
  moreover have "sy_groups (ss_sys race_end) = Some gs \<Longrightarrow> zone_ids gs = {}" for gs
    using r(2) by (simp add: sy_zones_def zone_ids_def groups_List_def)
  ultimately have "\<not> zone_refs (ss_sys race_end)" using r(3) by (auto simp: zone_refs_def split: option.splits)
  moreover have "zone_refs race_system" by (simp add: zone_refs_def race_system_def bound_zones_def no_guests_def)
  ultimately show ?thesis using r(1) race_end_reach race_end_reqs
    by (intro conjI exI [of _ race_end]) (auto simp: WriteHeader_def writeJSON_def)
qed

subsection \<open>The published zones after the first poll\<close>

text \<open>A server as it starts, with an empty snapshot and one zone in its store, and the first poll of it.\<close>

definition started_system :: "unit system" where
  "started_system = example_system\<lparr>sy_poller := poller_New (store_New 1)\<rparr>"

definition first_poll :: gathered where
  "first_poll = refresh_inventory (a_cfg example_api) (Inr [zero_NodeView\<lparr>nv_StableID := ''e1''\<rparr>]) 5 (store_New 1)"

lemma poll_alone:
  assumes "server_reach a sys0 \<lparr>ss_sys = sys, ss_threads = [], ss_polls = [opr], ss_timers = T\<rparr>"
    and "advance (a_cfg a) (a_rc a) (sy_zones sys) t 0 opr (sy_poller sys, sy_world sys) = (os, pw)"
  shows "\<exists>T'. server_reach a sys0 \<lparr>ss_sys = with_poller sys pw, ss_threads = [], ss_polls = os, ss_timers = T'\<rparr>"
  using server_reach.step [OF assms(1) server_step.poll_section [of _ "[]" opr "[]" a t 0 os pw]] assms(2) by auto

lemma first_poll_addrs: "ga_addrs first_poll = []"
  by code_simp

lemma first_poll_reads: "refresh_dial cfg rc t prev (refresh_capture s first_poll) w = (refresh_capture s first_poll\<lparr>ga_routers := []\<rparr>, w)"
  by (simp add: refresh_dial_def refresh_capture_def first_poll_addrs)

theorem zones_shown_fresh_witness:
  "\<exists>S. server_reach example_api started_system S \<and> sn_Nodes (sy_snap (ss_sys S)) \<noteq> [] \<and>
     map gv_ID (sn_Groups (sy_snap (ss_sys S))) = [''z'']"
proof -
  let ?s = "poller_New (store_New 1)" and ?ga = "first_poll" and ?S = "\<lambda>sys ps T. \<lparr>ss_sys = sys, ss_threads = [], ss_polls = ps, ss_timers = T\<rparr> :: unit server"
  let ?cap = "refresh_capture ?s ?ga"
  have sys: "sy_poller started_system = ?s" "sy_world started_system = ()" "with_poller started_system (?s, ()) = started_system"
      "sy_snap started_system = store_New 1" "sy_zones started_system = gs_items example_groups"
    by (simp_all add: started_system_def with_poller_def example_system_def poller_New_def sy_zones_def groups_List_def)
  have "server_reach example_api started_system (?S started_system [PollCapture ?ga (store_New 1)] no_timers)"
    using server_reach.step [OF server_reach.start server_step.poll [of example_api "server_start started_system" "Inr [zero_NodeView\<lparr>nv_StableID := ''e1''\<rparr>]" 5]]
    by (simp add: server_start_def sys(4) first_poll_def)
  from poll_alone [OF this, of 0] sys obtain T1 where "server_reach example_api started_system (?S started_system [PollDial ?cap (store_New 1)] T1)"
    by auto
  from poll_alone [OF this, of 6] sys
  obtain T2 where "server_reach example_api started_system (?S started_system [PollMerge (?cap\<lparr>ga_routers := []\<rparr>)] T2)"
    by (auto simp: first_poll_reads)
  from poll_alone [OF this, of 7] sys obtain T3 where
    r: "server_reach example_api started_system (?S (with_poller started_system (refresh_merge (gs_items example_groups) 7 (?cap\<lparr>ga_routers := []\<rparr>) ?s, ())) [] T3)"
    (is "server_reach _ _ ?S3") by auto
  have n: "sn_Nodes (sy_snap (ss_sys ?S3)) = [zero_NodeView\<lparr>nv_StableID := ''e1''\<rparr>]"
    by (simp add: refresh_merge_def Broadcast_def Let_def with_poller_def refresh_capture_def first_poll_def refresh_inventory_def split: prod.split)
  have z: "sy_zones (ss_sys ?S3) = gs_items example_groups"
    by (simp add: started_system_def with_poller_def example_system_def sy_zones_def groups_List_def)
  from zones_shown_fresh [OF r sys(4)] n z
  have "sn_Groups (sy_snap (ss_sys ?S3)) = buildGroupViews (gs_items example_groups) (sn_Nodes (sy_snap (ss_sys ?S3)))" by simp
  then have "map gv_ID (sn_Groups (sy_snap (ss_sys ?S3))) = [''z'']"
    by (simp add: example_groups_def buildGroupViews_def group_view_def)
  with r n show ?thesis by (intro exI [of _ ?S3]) simp
qed

subsection \<open>The type of the second response\<close>

theorem responses_typed_witness:
  "\<exists>th resp. th \<in> set (ss_threads race_end) \<and> th_prog th = Answer resp \<and>
     success_type (rq_Method (th_req th)) (rq_path (th_req th)) = Some (201, Some guest_type, []) \<and>
     response_typed (Some (201, Some guest_type, [])) resp"
proof -
  obtain p q where r: "map th_prog (ss_threads race_end) = [Answer p, Answer q]" using race_runs by (elim exE conjE)
  then have len: "length (ss_threads race_end) = 2" by (metis length_Cons length_map list.size(3) numeral_2_eq_2)
  let ?th = "ss_threads race_end ! 1"
  have th: "?th \<in> set (ss_threads race_end)" "th_prog ?th = Answer q" "th_req ?th = create_request"
    using len r race_end_reqs by (auto simp: list_eq_iff_nth_eq less_2_cases_iff)
  have "success_type (rq_Method create_request) (rq_path create_request) = Some (201, Some guest_type, [])"
    by (simp add: create_request_def success_type_def data_patterns_def method_matches_def)
  with responses_typed [OF race_end_reach th(1,2)] th show ?thesis by (intro exI [of _ ?th] exI [of _ q]) simp
qed

end
