(* ===== verification/Api_Reverts.thy ===== *)
theory Api_Reverts
  imports Api_Races
begin

section \<open>Package api: a change under way\<close>

text \<open>
  An administrator's change on a simulated router, taken section by section until the client has armed the revert and the
  request has not yet recorded it: the instance at which \<open>reverts_tracked\<close> speaks of a revert held by a request.
\<close>

definition sim_api :: "sim API" where
  "sim_api = \<lparr>a_owner = ''owner@example'', a_uiPassword = ''letmein'', a_sessionSecret = ''secret'', a_allowedHosts = {''tsctl''},
     a_fold = ascii_fold, a_lower = ascii_fold, a_urlHost = (\<lambda>_. None), a_bcryptCompare = (\<lambda>h pw. h = pw),
     a_bcryptGenerate = Inr, a_dummyHash = ''dummy'', a_cfg = example_cfg True, a_rc = sim_ops\<rparr>"

definition sim_system :: "sim system" where
  "sim_system = \<lparr>sy_poller = poller_New example_snap, sy_world = sim_start,
     sy_groups = Some \<lparr>gs_path = ''groups.json'', gs_items = [example_zone]\<rparr>, sy_guests = Some no_guests, sy_files = Map.empty\<rparr>"

definition change_request :: "sim request" where
  "change_request = owner_request ''POST'' [''routers'', ''r1'', ''exit-node''] (BodyDoc (JObj [(''exitNode'', JStr ''e1'')]) [])"

lemma change_prog: "Routes_prog sim_api True True owner_env change_request = SetExitNode_prog ''r1'' ''e1''"
proof -
  have host: "hostAllowed sim_api ''tsctl''" using example_host by (simp add: hostAllowed_def sim_api_def example_api_def)
  have body: "decode_body (dec_object (upd_exitNode (a_fold sim_api)) []) []
      (BodyDoc (JObj [(''exitNode'', JStr ''e1'')]) []) = Inr ''e1''" by code_simp
  have "Routes_prog sim_api True True owner_env change_request = data_prog sim_api True True (owner_authed sim_api change_request)"
    unfolding change_request_def by (rule owner_prog [OF _ host]) (simp_all add: bootstrap_path_def sim_api_def)
  also have "\<dots> = handleSetExitNode_prog sim_api ''r1'' (owner_authed sim_api change_request)"
    by (simp add: data_prog_def change_request_def data_patterns_def method_matches_def Let_def)
  also have "\<dots> = SetExitNode_prog ''r1'' ''e1''"
    using body by (simp add: handleSetExitNode_prog_def change_request_def authorizeRouterWrite_prog_def)
  finally show ?thesis .
qed

lemma one_thread [simp]:
  "thread_step a env 0 \<lparr>ss_sys = sys, ss_threads = [t], ss_polls = ps, ss_timers = T\<rparr> =
     (case prog_step a env (th_prog t) sys of (sys', p') \<Rightarrow>
        \<lparr>ss_sys = sys', ss_threads = [t\<lparr>th_prog := p', th_seen := sys # th_seen t\<rparr>], ss_polls = ps,
         ss_timers = thread_timers a env sys (th_prog t) p' T\<rparr>)"
  by (simp add: thread_step_def split: prod.split)

lemma sim_step1: "fst (snd (set_step1 ''100.64.0.1'' (sp_target example_plan) 1 (poller_New example_snap))) \<noteq> None"
  by code_simp

lemma sim_armed: "ar_marker (fst (set_apply (example_cfg True) sim_ops example_plan sim_start)) \<noteq> []"
  by code_simp

lemma sim_no_gate: "po_pendingKeep (snd (snd (set_step1 ''100.64.0.1'' (sp_target example_plan) 1 (poller_New example_snap)))) ''100.64.0.1'' = None"
  by code_simp

theorem reverts_tracked_witness:
  "\<exists>S m. server_reach sim_api sim_system S \<and> (''100.64.0.1'', m) \<in> tm_armed (ss_timers S) \<and> m \<noteq> [] \<and>
     map th_req (ss_threads S) = [change_request] \<and> (\<exists>x \<in> set (server_ops S). op_holds x ''100.64.0.1'' m)"
proof -
  let ?t = "\<lambda>p seen. \<lparr>th_arrived = owner_env, th_req = change_request, th_prog = p, th_seen = seen\<rparr> :: sim thread"
  let ?S = "\<lambda>sys p n. \<lparr>ss_sys = sys, ss_threads = [?t p n], ss_polls = [], ss_timers = no_timers\<rparr> :: sim server"
  obtain q pending s1 where st: "set_step1 ''100.64.0.1'' (sp_target example_plan) 1 (poller_New example_snap) = (q, Some pending, s1)"
    using sim_step1 by (metis not_Some_eq prod.collapse)
  obtain ar w where ap: "set_apply (example_cfg True) sim_ops example_plan sim_start = (ar, w)" by fastforce
  have m: "ar_marker ar \<noteq> []" using sim_armed ap by simp
  let ?sys1 = "with_poller sim_system (s1, sim_start)"
  let ?sys2 = "with_poller sim_system (Broadcast pending s1, sim_start)"
  let ?sys3 = "with_poller sim_system (Broadcast pending s1, w)"
  have env: "env_ok owner_env sim_system" "env_ok owner_env ?sys1" "env_ok owner_env ?sys2"
    by (auto intro!: race_env_ok simp: sim_system_def) (simp_all add: with_poller_def)
  let ?pre = "Read (\<lambda>env sys. case set_preflight (sy_zones sys) (sy_snap sim_system) ''r1'' ''e1'' of
            Inl e \<Rightarrow> Answer (control_response e) | Inr plan \<Rightarrow> Await ''r1'' (SetReady plan) None)"
  have a: "sp_addr example_plan = ''100.64.0.1''" by (simp add: example_plan_def)
  have fields: "a_cfg sim_api = example_cfg True" "a_rc sim_api = sim_ops" "ts_step1 (ev_set owner_env) = 1"
    "sy_poller sim_system = poller_New example_snap" "sy_world sim_system = sim_start" "po_snap (poller_New example_snap) = example_snap"
    "sy_zones sim_system = [example_zone]"
    by (simp_all add: sim_api_def owner_env_def example_env_def sim_system_def sy_zones_def groups_List_def poller_New_def)
  have s0: "arrive sim_api owner_env change_request (server_start sim_system) = ?S sim_system (SetExitNode_prog ''r1'' ''e1'') []"
    by (simp add: arrive_def new_thread_def server_start_def change_prog sim_system_def)
  have s1: "thread_step sim_api owner_env 0 (?S sim_system (SetExitNode_prog ''r1'' ''e1'') []) = ?S sim_system ?pre [sim_system]"
    by (simp add: SetExitNode_prog_def Read_def thread_timers_def)
  have s2: "thread_step sim_api owner_env 0 (?S sim_system ?pre [sim_system]) =
      ?S sim_system (Await ''r1'' (SetReady example_plan) None) [sim_system, sim_system]"
    by (simp add: Read_def thread_timers_def fields example_preflight)
  have s3: "thread_step sim_api owner_env 0 (?S sim_system (Await ''r1'' (SetReady example_plan) None) [sim_system, sim_system]) =
      ?S ?sys1 (Await ''r1'' (SetShow example_plan q pending) None) [sim_system, sim_system, sim_system]"
    using st a by (simp add: fields thread_timers_def after_section_def timers_after_def no_timers_def)
  have s4: "thread_step sim_api owner_env 0 (?S ?sys1 (Await ''r1'' (SetShow example_plan q pending) None) [sim_system, sim_system, sim_system]) =
      ?S ?sys2 (Await ''r1'' (SetApply example_plan q) None) [?sys1, sim_system, sim_system, sim_system]"
    by (simp add: fields thread_timers_def after_section_def timers_after_def no_timers_def with_poller_def)
  let ?S5 = "\<lparr>ss_sys = ?sys3, ss_threads = [?t (Await ''r1'' (SetFinish example_plan q ar 2 3) None) [?sys2, ?sys1, sim_system, sim_system, sim_system]],
       ss_polls = [], ss_timers = \<lparr>tm_armed = {(''100.64.0.1'', ar_marker ar)}, tm_reported = {}\<rparr>\<rparr>"
  have s5: "thread_step sim_api owner_env 0 (?S ?sys2 (Await ''r1'' (SetApply example_plan q) None) [?sys1, sim_system, sim_system, sim_system]) = ?S5"
    using ap a m by (simp add: fields thread_timers_def after_section_def timers_after_def no_timers_def with_poller_def) (simp add: owner_env_def example_env_def)
  have next_step: "server_reach sim_api sim_system (thread_step sim_api owner_env 0 (?S sys p n))"
    if "server_reach sim_api sim_system (?S sys p n)" "env_ok owner_env sys" for sys p n
    by (rule server_reach.step [OF that(1) server_step.sect]) (use that(2) in simp_all)
  have "server_reach sim_api sim_system (?S sim_system (SetExitNode_prog ''r1'' ''e1'') [])"
    unfolding s0 [symmetric] by (intro arrive_reach server_reach.start)
  from next_step [OF next_step [OF next_step [OF next_step [OF next_step [OF this env(1), unfolded s1] env(1), unfolded s2]
    env(1), unfolded s3] env(2), unfolded s4] env(3), unfolded s5]
  have "server_reach sim_api sim_system ?S5" .
  moreover have t: "(''100.64.0.1'', ar_marker ar) \<in> tm_armed (ss_timers ?S5)" by simp
  moreover have "po_pendingKeep (sy_poller (ss_sys ?S5)) ''100.64.0.1'' = None" using sim_no_gate st by (simp add: Broadcast_def with_poller_def)
  moreover have "marker_client (ro_Apply (a_rc sim_api))" using sim_marker_client fields(2) by simp
  ultimately show ?thesis using reverts_tracked [OF _ _ fields(4) t]
    by (intro exI [of _ ?S5] exI [of _ "ar_marker ar"]) simp
qed

end
