(* ===== verification/Server_Goroutines.thy ===== *)
theory Server_Goroutines
  imports Tsctl_Main Poller
begin

section \<open>The goroutines of a running server\<close>

text \<open>
  The process that \<^verbatim>\<open>runServe\<close> of \<^verbatim>\<open>cmd/tsctl/main.go\<close> starts, at the level of its goroutines and channels: the
  event loop of the hub (\<^verbatim>\<open>internal/sse/hub.go\<close>), one goroutine per event stream, the loop of the poller
  (\<^verbatim>\<open>internal/poller/poller.go\<close>), the publications of snapshots, the watchdog and the main goroutine with its shutdown.
  \<open>Sse_Hub\<close> takes a send on a latest-wins channel, a fan-out and a publication as one step each; here every \<^verbatim>\<open>select\<close>
  is a step of its own, so that the goroutines meet between any two of them.

  A channel of capacity one is an option; a send on an unbuffered channel is one step of both its ends.
\<close>

subsection \<open>State\<close>

text \<open>The three selects of a latest-wins send: try, drain if full, retry. \<open>None\<close>: the send is over.\<close>

datatype send_stage = STry | SDrain | SRetry

fun latest_wins :: "send_stage \<Rightarrow> 'a option \<Rightarrow> 'a \<Rightarrow> 'a option \<times> send_stage option" where
  "latest_wins STry None x = (Some x, None)"
| "latest_wins STry (Some y) x = (Some y, Some SDrain)"
| "latest_wins SDrain ch x = (None, Some SRetry)"
| "latest_wins SRetry None x = (Some x, None)"
| "latest_wins SRetry (Some y) x = (Some y, None)"

text \<open>
  Where the hub's \<^verbatim>\<open>Run\<close> is: in its select; about to load the snapshot for a stream it has added; sending a snapshot to
  the streams of a list (the flag: for a stream just added); reporting a count; or returned.
\<close>

datatype hub_pc = RSelect | RLoad nat | RSend send_stage "nat list" Snapshot bool | REmit send_stage nat | RReturned

text \<open>
  A stream: where its \<^verbatim>\<open>ServeHTTP\<close> is, its channel, whether it came in on the host port, whether its client has gone.
  Two histories are added: the snapshot it was sent last, and the one it took last.
\<close>

datatype stream_pc = HRegister | HStream | HWrite | HPing | HUnregister | HReturned

record stream =
  st_pc :: stream_pc
  st_ch :: "Snapshot option"
  st_host :: bool
  st_gone :: bool
  st_sent :: "Snapshot option"
  st_taken :: "Snapshot option"

text \<open>
  A publication: the snapshot has been stored and \<^verbatim>\<open>Broadcast\<close> is under way. \<^verbatim>\<open>refreshOnce\<close> and \<^verbatim>\<open>RefreshGroups\<close> hold the
  poller's mutex until it is over; \<^verbatim>\<open>SetExitNode\<close>, \<^verbatim>\<open>Keep\<close> and \<^verbatim>\<open>resolveAfterProbe\<close> release it before.
\<close>

record publication =
  pb_snap :: Snapshot
  pb_locked :: bool
  pb_stage :: send_stage

datatype poller_pc = PSelect | PRefresh | PReturned

record process =
  pr_store :: Snapshot
  pr_cancelled :: bool
  pr_healthy :: bool
  pr_hub :: hub_pc
  pr_clients :: "nat set"
  pr_done :: bool
  pr_broadcast :: "Snapshot option"
  pr_transitions :: "nat option"
  pr_known :: nat
  pr_streams :: "stream list"
  pr_pubs :: "publication list"
  pr_ordered :: bool
  pr_poller :: poller_pc
  pr_loop :: run_state
  pr_watchdog :: bool
  pr_main :: "stop_step list option"

definition process_start :: "Snapshot \<Rightarrow> bool \<Rightarrow> process" where
  "process_start st wd = \<lparr>pr_store = st, pr_cancelled = False, pr_healthy = True, pr_hub = RSelect, pr_clients = {}, pr_done = False,
     pr_broadcast = None, pr_transitions = None, pr_known = 0, pr_streams = [], pr_pubs = [], pr_ordered = True,
     pr_poller = PSelect, pr_loop = run_init, pr_watchdog = wd, pr_main = None\<rparr>"

definition new_stream :: "bool \<Rightarrow> stream" where
  "new_stream host = \<lparr>st_pc = HRegister, st_ch = None, st_host = host, st_gone = False, st_sent = None, st_taken = None\<rparr>"

definition put_stream :: "nat \<Rightarrow> (stream \<Rightarrow> stream) \<Rightarrow> process \<Rightarrow> process" where
  "put_stream i f S = S\<lparr>pr_streams := (pr_streams S)[i := f (pr_streams S ! i)]\<rparr>"

definition stream_at :: "process \<Rightarrow> nat \<Rightarrow> stream_pc \<Rightarrow> bool" where
  "stream_at S i pc \<longleftrightarrow> i < length (pr_streams S) \<and> st_pc (pr_streams S ! i) = pc"

text \<open>The cases of a stream's selects that end it: its request is over or the hub is.\<close>

definition stream_over :: "process \<Rightarrow> nat \<Rightarrow> bool" where
  "stream_over S i \<longleftrightarrow> pr_done S \<or> pr_cancelled S \<or> st_gone (pr_streams S ! i)"

subsection \<open>The hub\<close>

text \<open>One select of \<^verbatim>\<open>send\<close> for the first stream of the list.\<close>

definition send_to :: "send_stage \<Rightarrow> nat \<Rightarrow> Snapshot \<Rightarrow> process \<Rightarrow> process \<times> send_stage option" where
  "send_to st c snap S =
     (case latest_wins st (st_ch (pr_streams S ! c)) snap of (ch, nxt) \<Rightarrow>
        (put_stream c (\<lambda>x. x\<lparr>st_ch := ch, st_sent := (if nxt = None then ch else st_sent x)\<rparr>) S, nxt))"

definition hub_next :: "process \<Rightarrow> process" where
  "hub_next S =
     (case pr_hub S of
        RLoad i \<Rightarrow> S\<lparr>pr_hub := RSend STry [i] (pr_store S) True\<rparr>
      | RSend st (c # cs) snap added \<Rightarrow>
          (case send_to st c snap S of
             (S', Some st') \<Rightarrow> S'\<lparr>pr_hub := RSend st' (c # cs) snap added\<rparr>
           | (S', None) \<Rightarrow> S'\<lparr>pr_hub := RSend STry cs snap added\<rparr>)
      | RSend st [] snap added \<Rightarrow>
          S\<lparr>pr_hub := (if added \<and> card (pr_clients S) = 1 then REmit STry 1 else RSelect)\<rparr>
      | REmit st n \<Rightarrow>
          (case latest_wins st (pr_transitions S) n of
             (ch, Some st') \<Rightarrow> S\<lparr>pr_transitions := ch, pr_hub := REmit st' n\<rparr>
           | (ch, None) \<Rightarrow> S\<lparr>pr_transitions := ch, pr_hub := RSelect\<rparr>)
      | _ \<Rightarrow> S)"

definition hub_added :: "nat \<Rightarrow> process \<Rightarrow> process" where
  "hub_added i S = (put_stream i (\<lambda>x. x\<lparr>st_pc := HStream\<rparr>) S)\<lparr>pr_clients := insert i (pr_clients S), pr_hub := RLoad i\<rparr>"

definition hub_removed :: "nat \<Rightarrow> process \<Rightarrow> process" where
  "hub_removed i S =
     (let S1 = put_stream i (\<lambda>x. x\<lparr>st_pc := HReturned\<rparr>) S
      in if i \<in> pr_clients S then
           S1\<lparr>pr_clients := pr_clients S - {i}, pr_hub := (if pr_clients S - {i} = {} then REmit STry 0 else RSelect)\<rparr>
         else S1)"

subsection \<open>The main goroutine\<close>

text \<open>
  What a step of the shutdown waits for, and what it changes. A drain waits for the streams of its server (or for
  the timeout, below); the other requests are short.
\<close>

fun stop_ready :: "stop_step \<Rightarrow> process \<Rightarrow> bool" where
  "stop_ready AwaitWorkers S \<longleftrightarrow> pr_hub S = RReturned \<and> pr_poller S = PReturned"
| "stop_ready DrainTailnet S \<longleftrightarrow> (\<forall>x \<in> set (pr_streams S). \<not> st_host x \<longrightarrow> st_pc x = HReturned)"
| "stop_ready DrainHost S \<longleftrightarrow> (\<forall>x \<in> set (pr_streams S). st_host x \<longrightarrow> st_pc x = HReturned)"
| "stop_ready _ S \<longleftrightarrow> True"

fun stop_effect :: "stop_step \<Rightarrow> process \<Rightarrow> process" where
  "stop_effect MarkUnhealthy S = S\<lparr>pr_healthy := False\<rparr>"
| "stop_effect CancelWorkers S = S\<lparr>pr_cancelled := True\<rparr>"
| "stop_effect _ S = S"

definition still_serving :: "bool \<Rightarrow> process \<Rightarrow> bool" where
  "still_serving host S \<longleftrightarrow>
     (case pr_main S of None \<Rightarrow> True | Some steps \<Rightarrow> (if host then DrainHost else DrainTailnet) \<in> set steps)"

subsection \<open>Steps\<close>

text \<open>
  What the goroutines do by themselves. The iteration over the client set of a fan-out is in any order; a write to a
  stream and a revalidation succeed or fail.
\<close>

inductive go_step :: "process \<Rightarrow> process \<Rightarrow> bool" where
  hub_cancel: "pr_hub S = RSelect \<Longrightarrow> pr_cancelled S \<Longrightarrow> go_step S (S\<lparr>pr_hub := RReturned, pr_done := True\<rparr>)"
| hub_register: "pr_hub S = RSelect \<Longrightarrow> stream_at S i HRegister \<Longrightarrow> go_step S (hub_added i S)"
| hub_unregister: "pr_hub S = RSelect \<Longrightarrow> stream_at S i HUnregister \<Longrightarrow> go_step S (hub_removed i S)"
| hub_fanout: "pr_hub S = RSelect \<Longrightarrow> pr_broadcast S = Some snap \<Longrightarrow> distinct cs \<Longrightarrow> set cs = pr_clients S \<Longrightarrow>
    go_step S (S\<lparr>pr_broadcast := None, pr_hub := RSend STry cs snap False\<rparr>)"
| hub_work: "pr_hub S \<noteq> RSelect \<Longrightarrow> pr_hub S \<noteq> RReturned \<Longrightarrow> go_step S (hub_next S)"
| stream_refused: "stream_at S i HRegister \<Longrightarrow> stream_over S i \<Longrightarrow> go_step S (put_stream i (\<lambda>x. x\<lparr>st_pc := HReturned\<rparr>) S)"
| stream_ended: "stream_at S i HStream \<Longrightarrow> stream_over S i \<Longrightarrow> go_step S (put_stream i (\<lambda>x. x\<lparr>st_pc := HUnregister\<rparr>) S)"
| stream_takes: "stream_at S i HStream \<Longrightarrow> st_ch (pr_streams S ! i) = Some snap \<Longrightarrow>
    go_step S (put_stream i (\<lambda>x. x\<lparr>st_pc := HWrite, st_ch := None, st_taken := Some snap\<rparr>) S)"
| stream_wrote: "stream_at S i HWrite \<or> stream_at S i HPing \<Longrightarrow> pc = HStream \<or> pc = HUnregister \<Longrightarrow>
    go_step S (put_stream i (\<lambda>x. x\<lparr>st_pc := pc\<rparr>) S)"
| stream_left: "stream_at S i HUnregister \<Longrightarrow> pr_done S \<Longrightarrow> go_step S (put_stream i (\<lambda>x. x\<lparr>st_pc := HReturned\<rparr>) S)"
| broadcasts: "j < length (pr_pubs S) \<Longrightarrow> p = pr_pubs S ! j \<Longrightarrow> latest_wins (pb_stage p) (pr_broadcast S) (pb_snap p) = (ch, nxt) \<Longrightarrow>
    go_step S (S\<lparr>pr_broadcast := ch, pr_pubs :=
      (case nxt of Some st \<Rightarrow> (pr_pubs S)[j := p\<lparr>pb_stage := st\<rparr>] | None \<Rightarrow> remove_at j (pr_pubs S))\<rparr>)"
| poller_cancel: "pr_poller S = PSelect \<Longrightarrow> pr_cancelled S \<Longrightarrow> go_step S (S\<lparr>pr_poller := PReturned\<rparr>)"
| poller_count: "pr_poller S = PSelect \<Longrightarrow> pr_transitions S = Some n \<Longrightarrow> run_step_loop (Clients n) (pr_loop S) = (r, refresh) \<Longrightarrow>
    go_step S (S\<lparr>pr_transitions := None, pr_known := n, pr_loop := r, pr_poller := (if refresh then PRefresh else PSelect)\<rparr>)"
| poller_refreshed: "pr_poller S = PRefresh \<Longrightarrow> go_step S (S\<lparr>pr_poller := PSelect\<rparr>)"
| watchdog_cancel: "pr_watchdog S \<Longrightarrow> pr_cancelled S \<Longrightarrow> go_step S (S\<lparr>pr_watchdog := False\<rparr>)"
| main_stops: "pr_main S = Some (st # rest) \<Longrightarrow> stop_ready st S \<Longrightarrow> go_step S ((stop_effect st S)\<lparr>pr_main := Some rest\<rparr>)"

text \<open>
  What happens to them: the signal, a new request for a stream, a client that goes, the timers (the ticker and the
  linger timer of the poller, a stream's heartbeat, the watchdog's, the timeout of a drain), and the publications,
  each from a critical section of the poller. \<open>pr_ordered\<close> records that the newest snapshot was published under the
  mutex with no other publication under way.
\<close>

inductive env_step :: "Config \<Rightarrow> process \<Rightarrow> process \<Rightarrow> bool" for cfg where
  signalled: "pr_main S = None \<Longrightarrow> env_step cfg S (S\<lparr>pr_main := Some (stop_steps cfg)\<rparr>)"
| request: "still_serving host S \<Longrightarrow> (host \<longrightarrow> cf_HTTPListen cfg \<noteq> []) \<Longrightarrow>
    env_step cfg S (S\<lparr>pr_streams := pr_streams S @ [new_stream host]\<rparr>)"
| client_gone: "i < length (pr_streams S) \<Longrightarrow> env_step cfg S (put_stream i (\<lambda>x. x\<lparr>st_gone := True\<rparr>) S)"
| heartbeat: "stream_at S i HStream \<Longrightarrow> env_step cfg S (put_stream i (\<lambda>x. x\<lparr>st_pc := HPing\<rparr>) S)"
| tick: "pr_poller S = PSelect \<Longrightarrow> run_enabled e (pr_loop S) \<Longrightarrow> e \<in> {Tick, LingerFires} \<Longrightarrow> run_step_loop e (pr_loop S) = (r, refresh) \<Longrightarrow>
    env_step cfg S (S\<lparr>pr_loop := r, pr_poller := (if refresh then PRefresh else PSelect)\<rparr>)"
| drain_timeout: "pr_main S = Some (st # rest) \<Longrightarrow> st \<in> {DrainTailnet, DrainHost, DrainHealth} \<Longrightarrow> env_step cfg S (S\<lparr>pr_main := Some rest\<rparr>)"
| publish: "list_all (\<lambda>p. \<not> pb_locked p) (pr_pubs S) \<Longrightarrow>
    env_step cfg S (S\<lparr>pr_store := snap, pr_pubs := pr_pubs S @ [\<lparr>pb_snap = snap, pb_locked = locked, pb_stage = STry\<rparr>],
      pr_ordered := (if locked then pr_ordered S \<or> pr_pubs S = [] else False)\<rparr>)"

inductive process_reach :: "Config \<Rightarrow> process \<Rightarrow> bool" for cfg where
  start: "process_reach cfg (process_start st wd)"
| go: "process_reach cfg S \<Longrightarrow> go_step S S' \<Longrightarrow> process_reach cfg S'"
| env: "process_reach cfg S \<Longrightarrow> env_step cfg S S' \<Longrightarrow> process_reach cfg S'"

end
