(* ===== verification/Server_Convergence.thy ===== *)
theory Server_Convergence
  imports Server_Goroutines
begin

section \<open>What the browsers of a running server show\<close>

text \<open>
  The invariants of the hub's goroutines, the convergence of all browsers to the current snapshot once a poll has
  published it alone, and an execution in which the last frame is an old one.
\<close>

subsection \<open>Invariants\<close>

lemma put_stream_simps [simp]:
  "pr_store (put_stream i f S) = pr_store S" "pr_cancelled (put_stream i f S) = pr_cancelled S"
  "pr_hub (put_stream i f S) = pr_hub S" "pr_clients (put_stream i f S) = pr_clients S" "pr_done (put_stream i f S) = pr_done S"
  "pr_broadcast (put_stream i f S) = pr_broadcast S" "pr_transitions (put_stream i f S) = pr_transitions S"
  "pr_known (put_stream i f S) = pr_known S" "pr_pubs (put_stream i f S) = pr_pubs S" "pr_ordered (put_stream i f S) = pr_ordered S"
  "pr_poller (put_stream i f S) = pr_poller S" "pr_watchdog (put_stream i f S) = pr_watchdog S" "pr_main (put_stream i f S) = pr_main S"
  "pr_streams (put_stream i f S) = (pr_streams S)[i := f (pr_streams S ! i)]"
  by (simp_all add: put_stream_def)

lemma stop_effect_simps [simp]:
  "pr_store (stop_effect st S) = pr_store S" "pr_hub (stop_effect st S) = pr_hub S" "pr_clients (stop_effect st S) = pr_clients S"
  "pr_done (stop_effect st S) = pr_done S" "pr_broadcast (stop_effect st S) = pr_broadcast S"
  "pr_transitions (stop_effect st S) = pr_transitions S" "pr_known (stop_effect st S) = pr_known S"
  "pr_streams (stop_effect st S) = pr_streams S" "pr_pubs (stop_effect st S) = pr_pubs S" "pr_ordered (stop_effect st S) = pr_ordered S"
  "pr_poller (stop_effect st S) = pr_poller S" "pr_watchdog (stop_effect st S) = pr_watchdog S"
  "pr_cancelled (stop_effect st S) \<longleftrightarrow> st = CancelWorkers \<or> pr_cancelled S"
  by (cases st; simp)+

text \<open>One step of the hub outside its select, case by case.\<close>

lemma hub_next_cases [consumes 2, case_names load send sent emit]:
  assumes "pr_hub S \<noteq> RSelect" and "pr_hub S \<noteq> RReturned"
  obtains i where "pr_hub S = RLoad i" "hub_next S = S\<lparr>pr_hub := RSend STry [i] (pr_store S) True\<rparr>"
  | st c cs snap added ch nxt where "pr_hub S = RSend st (c # cs) snap added"
      "latest_wins st (st_ch (pr_streams S ! c)) snap = (ch, nxt)"
      "hub_next S = (put_stream c (\<lambda>x. x\<lparr>st_ch := ch, st_sent := (if nxt = None then ch else st_sent x)\<rparr>) S)
         \<lparr>pr_hub := (case nxt of Some st' \<Rightarrow> RSend st' (c # cs) snap added | None \<Rightarrow> RSend STry cs snap added)\<rparr>"
  | st snap added where "pr_hub S = RSend st [] snap added"
      "hub_next S = S\<lparr>pr_hub := (if added \<and> card (pr_clients S) = 1 then REmit STry 1 else RSelect)\<rparr>"
  | st n ch nxt where "pr_hub S = REmit st n" "latest_wins st (pr_transitions S) n = (ch, nxt)"
      "hub_next S = S\<lparr>pr_transitions := ch, pr_hub := (case nxt of Some st' \<Rightarrow> REmit st' n | None \<Rightarrow> RSelect)\<rparr>"
proof (cases "pr_hub S")
  case (RLoad i)
  with that(1) show ?thesis by (simp add: hub_next_def)
next
  case (RSend st cs snap added)
  show ?thesis
  proof (cases cs)
    case Nil
    with RSend that(3) show ?thesis by (simp add: hub_next_def)
  next
    case (Cons c cs')
    obtain ch nxt where l: "latest_wins st (st_ch (pr_streams S ! c)) snap = (ch, nxt)" by fastforce
    with RSend Cons show ?thesis
      by (intro that(2) [of st c cs' snap added ch nxt]) (auto simp: hub_next_def send_to_def split: option.splits)
  qed
next
  case (REmit st n)
  obtain ch nxt where "latest_wins st (pr_transitions S) n = (ch, nxt)" by fastforce
  with REmit show ?thesis by (intro that(4) [of st n ch nxt]) (auto simp: hub_next_def split: option.splits)
qed (use assms in simp_all)

lemma latest_wins_cases:
  assumes "latest_wins st ch0 x = (ch, nxt)"
  obtains "ch = Some x" "nxt = None" "ch0 = None" "st = STry \<or> st = SRetry"
  | y where "st = STry" "ch0 = Some y" "ch = Some y" "nxt = Some SDrain"
  | "st = SDrain" "ch = None" "nxt = Some SRetry"
  | y where "st = SRetry" "ch0 = Some y" "ch = Some y" "nxt = None"
  using assms by (cases "(st, ch0, x)" rule: latest_wins.cases) auto

text \<open>Who is in the client set, and that the hub's \<^verbatim>\<open>done\<close> is closed exactly when its loop has returned.\<close>

definition bounds_inv :: "process \<Rightarrow> bool" where
  "bounds_inv S \<longleftrightarrow> pr_clients S \<subseteq> {..< length (pr_streams S)} \<and>
     (pr_hub S = RReturned \<longleftrightarrow> pr_done S) \<and> (pr_done S \<longrightarrow> pr_cancelled S) \<and>
     (\<forall>i. pr_hub S = RLoad i \<longrightarrow> i \<in> pr_clients S) \<and>
     (\<forall>st cs snap added. pr_hub S = RSend st cs snap added \<longrightarrow> set cs \<subseteq> pr_clients S \<and> distinct cs)"

lemma bounds_inv_go: "go_step S S' \<Longrightarrow> bounds_inv S \<Longrightarrow> bounds_inv S'"
proof (induction rule: go_step.induct)
  case (hub_work S)
  from hub_work(1,2) show ?case
    by (cases rule: hub_next_cases) (use hub_work(3) in \<open>auto simp: bounds_inv_def split: option.splits\<close>)
qed (auto simp: bounds_inv_def hub_added_def hub_removed_def stream_at_def Let_def)

lemma bounds_inv_env: "env_step cfg S S' \<Longrightarrow> bounds_inv S \<Longrightarrow> bounds_inv S'"
  by (induction rule: env_step.induct) (auto simp: bounds_inv_def)

text \<open>What a stream's channel holds is what it was sent last; when it is empty, the stream has taken that.\<close>

definition being_replaced :: "process \<Rightarrow> nat \<Rightarrow> bool" where
  "being_replaced S i \<longleftrightarrow> (case pr_hub S of RSend SRetry (c # cs) snap added \<Rightarrow> c = i | _ \<Rightarrow> False)"

definition frame_ok :: "bool \<Rightarrow> stream \<Rightarrow> bool" where
  "frame_ok replaced x \<longleftrightarrow>
     (if replaced then st_ch x = None
      else (\<forall>s. st_ch x = Some s \<longrightarrow> st_sent x = Some s) \<and> (st_ch x = None \<longrightarrow> st_taken x = st_sent x))"

definition frame_inv :: "process \<Rightarrow> bool" where
  "frame_inv S \<longleftrightarrow> (\<forall>i < length (pr_streams S). frame_ok (being_replaced S i) (pr_streams S ! i))"

lemma being_replaced_simps [simp]:
  "pr_hub S = RSelect \<Longrightarrow> \<not> being_replaced S i" "being_replaced (put_stream j f S) i = being_replaced S i"
  by (simp_all add: being_replaced_def)

lemma frame_inv_put:
  assumes "frame_inv S" and "\<And>x. frame_ok (being_replaced S i) x \<Longrightarrow> x = pr_streams S ! i \<Longrightarrow> frame_ok (being_replaced S i) (f x)"
  shows "frame_inv (put_stream i f S)"
proof (cases "i < length (pr_streams S)")
  case True
  with assms show ?thesis by (auto simp: frame_inv_def nth_list_update)
next
  case False
  with assms show ?thesis by (simp add: frame_inv_def list_update_beyond)
qed

lemma frame_inv_same:
  assumes "frame_inv S" and "pr_streams S' = pr_streams S" and "\<And>i. being_replaced S' i = being_replaced S i"
  shows "frame_inv S'"
  using assms by (simp add: frame_inv_def)

lemma frame_inv_go: "go_step S S' \<Longrightarrow> bounds_inv S \<Longrightarrow> frame_inv S \<Longrightarrow> frame_inv S'"
proof (induction rule: go_step.induct)
  case (hub_work S)
  from hub_work(1,2) show ?case
  proof (cases rule: hub_next_cases)
    case (send st c cs snap added ch nxt)
    have "c < length (pr_streams S)" using hub_work(3) send(1) by (auto simp: bounds_inv_def)
    note c = nth_list_update [OF this]
    from send(2) show ?thesis
      by (cases rule: latest_wins_cases)
        (use hub_work(4) send in \<open>auto simp: frame_inv_def frame_ok_def being_replaced_def c split: if_splits option.splits send_stage.splits list.splits\<close>)
  qed (use hub_work(4) in \<open>auto simp: frame_inv_def frame_ok_def being_replaced_def split: option.splits send_stage.splits if_splits\<close>)
next
  case (hub_register S i)
  have "frame_inv (put_stream i (\<lambda>x. x\<lparr>st_pc := HStream\<rparr>) S)" using hub_register(4) by (rule frame_inv_put) (simp add: frame_ok_def)
  then show ?case
    by (rule frame_inv_same) (use hub_register(1) in \<open>simp_all add: hub_added_def being_replaced_def\<close>)
next
  case (hub_unregister S i)
  have "frame_inv (put_stream i (\<lambda>x. x\<lparr>st_pc := HReturned\<rparr>) S)" using hub_unregister(4) by (rule frame_inv_put) (simp add: frame_ok_def)
  then show ?case
    by (rule frame_inv_same) (use hub_unregister(1) in \<open>simp_all add: hub_removed_def being_replaced_def Let_def\<close>)
next
  case (stream_takes S i snap)
  from stream_takes(4) show ?case by (rule frame_inv_put) (use stream_takes(2) in \<open>simp add: frame_ok_def split: if_splits\<close>)
next
  case (main_stops S st rest)
  from main_stops(4) show ?case by (rule frame_inv_same) (simp_all add: being_replaced_def)
qed (erule frame_inv_put frame_inv_same; simp add: frame_ok_def being_replaced_def)+

lemma frame_inv_env: "env_step cfg S S' \<Longrightarrow> frame_inv S \<Longrightarrow> frame_inv S'"
proof (induction rule: env_step.induct)
  case (request host S)
  then show ?case by (auto simp: frame_inv_def being_replaced_def frame_ok_def new_stream_def nth_append less_Suc_eq split: hub_pc.splits send_stage.splits list.splits)
qed (erule frame_inv_put frame_inv_same; simp add: frame_ok_def being_replaced_def)+

text \<open>What the poller knows, or will know once it has drained the transitions: whether anybody is connected.\<close>

fun will_know :: "nat option \<Rightarrow> nat \<Rightarrow> nat" where
  "will_know (Some n) k = n"
| "will_know None k = k"

definition present :: "nat set \<Rightarrow> nat" where
  "present clients = (if clients = {} then 0 else 1)"

fun presence_ok :: "hub_pc \<Rightarrow> nat set \<Rightarrow> nat option \<Rightarrow> nat \<Rightarrow> bool" where
  "presence_ok (RLoad i) cl tr k \<longleftrightarrow> card cl = 1 \<or> will_know tr k = present cl"
| "presence_ok (RSend st cs snap added) cl tr k \<longleftrightarrow> added \<and> card cl = 1 \<or> will_know tr k = present cl"
| "presence_ok (REmit st n) cl tr k \<longleftrightarrow> n = present cl \<and> (st = SRetry \<longrightarrow> tr = None)"
| "presence_ok _ cl tr k \<longleftrightarrow> will_know tr k = present cl"

definition presence_inv :: "process \<Rightarrow> bool" where
  "presence_inv S \<longleftrightarrow> presence_ok (pr_hub S) (pr_clients S) (pr_transitions S) (pr_known S)"

lemma presence_ok_taken: "presence_ok pc cl (Some n) k \<Longrightarrow> presence_ok pc cl None n"
  by (cases pc) simp_all

lemma presence_inv_go: "go_step S S' \<Longrightarrow> bounds_inv S \<Longrightarrow> presence_inv S \<Longrightarrow> presence_inv S'"
proof (induction rule: go_step.induct)
  case (hub_work S)
  have fin: "finite (pr_clients S)" using hub_work(3) by (auto simp: bounds_inv_def intro: finite_subset)
  from hub_work(1,2) show ?case
  proof (cases rule: hub_next_cases)
    case (emit st n ch nxt)
    from emit(2) show ?thesis
      by (cases rule: latest_wins_cases) (use hub_work(4) emit in \<open>auto simp: presence_inv_def\<close>)
  next
    case (sent st snap added)
    then show ?thesis using hub_work(4) by (auto simp: presence_inv_def present_def split: if_splits)
  qed (use hub_work(4) in \<open>auto simp: presence_inv_def split: option.splits\<close>)
next
  case (hub_register S i)
  have "card (insert i (pr_clients S)) = 1 \<or> pr_clients S \<noteq> {}" by auto
  with hub_register show ?case by (auto simp: presence_inv_def hub_added_def present_def)
next
  case (poller_count S n r refresh)
  then show ?case by (simp add: presence_inv_def presence_ok_taken)
qed (auto simp: presence_inv_def hub_removed_def present_def Let_def)

lemma presence_inv_env: "env_step cfg S S' \<Longrightarrow> presence_inv S \<Longrightarrow> presence_inv S'"
  by (induction rule: env_step.induct) (simp_all add: presence_inv_def)

text \<open>
  Convergence. As long as the newest snapshot was published under the mutex with nothing else under way, no older
  one can overtake it: it is still with its publication, or in the broadcast channel, or every stream has been sent
  it but those whose turn is to come.
\<close>

definition turn_to_come :: "hub_pc \<Rightarrow> nat set" where
  "turn_to_come pc = (case pc of RLoad i \<Rightarrow> {i} | RSend st cs snap added \<Rightarrow> set cs | _ \<Rightarrow> {})"

fun sends_only :: "hub_pc \<Rightarrow> Snapshot \<Rightarrow> bool" where
  "sends_only (RSend st cs snap added) new \<longleftrightarrow> snap = new"
| "sends_only _ new \<longleftrightarrow> True"

definition all_sent :: "process \<Rightarrow> bool" where
  "all_sent S \<longleftrightarrow> sends_only (pr_hub S) (pr_store S) \<and>
     (\<forall>c \<in> pr_clients S - turn_to_come (pr_hub S). st_sent (pr_streams S ! c) = Some (pr_store S))"

definition order_inv :: "process \<Rightarrow> bool" where
  "order_inv S \<longleftrightarrow> (pr_ordered S \<longrightarrow>
     (case pr_pubs S of
        [] \<Rightarrow> (case pr_broadcast S of Some s \<Rightarrow> s = pr_store S | None \<Rightarrow> all_sent S)
      | [p] \<Rightarrow> pb_locked p \<and> pb_snap p = pr_store S \<and> (pb_stage p = SRetry \<longrightarrow> pr_broadcast S = None)
      | _ \<Rightarrow> False))"

lemma order_inv_pubs:
  assumes "order_inv S" and "pr_ordered S' = pr_ordered S" "pr_pubs S' = pr_pubs S" "pr_store S' = pr_store S"
    and "pr_broadcast S' = pr_broadcast S" and "all_sent S \<Longrightarrow> all_sent S'"
  shows "order_inv S'"
  using assms by (auto simp: order_inv_def split: list.splits option.splits)

lemma sent_update:
  assumes "\<And>x. st_sent (f x) = st_sent x"
  shows "st_sent (xs[i := f (xs ! i)] ! c) = st_sent (xs ! c)"
  using assms by (cases "i < length xs"; cases "c = i") (simp_all add: list_update_beyond)

lemma all_sent_same:
  assumes "all_sent S" and "pr_store S' = pr_store S" and "sends_only (pr_hub S') (pr_store S)"
    and "pr_clients S' - turn_to_come (pr_hub S') \<subseteq> pr_clients S - turn_to_come (pr_hub S)"
    and "\<And>c. st_sent (pr_streams S' ! c) = st_sent (pr_streams S ! c)"
  shows "all_sent S'"
  using assms by (auto simp: all_sent_def)

lemma all_sent_put: "all_sent S \<Longrightarrow> (\<And>x. st_sent (f x) = st_sent x) \<Longrightarrow> all_sent (put_stream i f S)"
  by (simp add: all_sent_def sent_update)

lemma all_sent_other [simp]:
  "all_sent (S\<lparr>pr_poller := p\<rparr>) = all_sent S" "all_sent (S\<lparr>pr_loop := r\<rparr>) = all_sent S" "all_sent (S\<lparr>pr_known := n\<rparr>) = all_sent S"
  "all_sent (S\<lparr>pr_transitions := tr\<rparr>) = all_sent S" "all_sent (S\<lparr>pr_watchdog := w\<rparr>) = all_sent S"
  "all_sent (S\<lparr>pr_main := m\<rparr>) = all_sent S" "all_sent (stop_effect st S) = all_sent S"
  by (simp_all add: all_sent_def)

lemma order_inv_go: "go_step S S' \<Longrightarrow> bounds_inv S \<Longrightarrow> frame_inv S \<Longrightarrow> order_inv S \<Longrightarrow> order_inv S'"
proof (induction rule: go_step.induct)
  case (hub_cancel S)
  then show ?case by (auto intro!: order_inv_pubs [OF hub_cancel(5)] simp: all_sent_def turn_to_come_def)
next
  case (hub_register S i)
  have "all_sent (hub_added i S)" if "all_sent S"
    using that by (rule all_sent_same) (use hub_register(1) in \<open>auto simp: hub_added_def turn_to_come_def sent_update\<close>)
  then show ?case by (intro order_inv_pubs [OF hub_register(5)]) (simp_all add: hub_added_def)
next
  case (hub_unregister S i)
  have "all_sent (hub_removed i S)" if "all_sent S"
    using that by (rule all_sent_same) (use hub_unregister(1) in \<open>auto simp: hub_removed_def turn_to_come_def Let_def sent_update\<close>)
  then show ?case by (intro order_inv_pubs [OF hub_unregister(5)]) (simp_all add: hub_removed_def Let_def)
next
  case (hub_fanout S snap cs)
  then show ?case by (auto simp: order_inv_def all_sent_def turn_to_come_def split: list.splits)
next
  case (hub_work S)
  from hub_work(1,2) show ?case
  proof (cases rule: hub_next_cases)
    case (load i)
    then show ?thesis by (intro order_inv_pubs [OF hub_work(5)]) (auto simp: all_sent_def turn_to_come_def)
  next
    case (send st c cs snap added ch nxt)
    have c: "c < length (pr_streams S)" "c \<notin> set cs" using hub_work(3) send(1) by (auto simp: bounds_inv_def)
    have drained: "st_ch (pr_streams S ! c) = None" if "st = SRetry"
      using hub_work(4) c(1) that send(1) by (force simp: frame_inv_def frame_ok_def being_replaced_def)
    from send(2) show ?thesis
      by (cases rule: latest_wins_cases)
        (intro order_inv_pubs [OF hub_work(5)]; use send c drained in \<open>auto simp: all_sent_def turn_to_come_def nth_list_update\<close>)+
  next
    case (sent st snap added)
    then show ?thesis by (intro order_inv_pubs [OF hub_work(5)]) (auto simp: all_sent_def turn_to_come_def)
  next
    case (emit st n ch nxt)
    then show ?thesis
      by (intro order_inv_pubs [OF hub_work(5)]) (auto simp: all_sent_def turn_to_come_def split: option.splits)
  qed
next
  case (broadcasts j S p ch nxt)
  show ?case
  proof (cases "pr_ordered S")
    case True
    then obtain q where q: "pr_pubs S = [q]" "pb_locked q" "pb_snap q = pr_store S"
        "pb_stage q = SRetry \<Longrightarrow> pr_broadcast S = None"
      using broadcasts(1,6) by (auto simp: order_inv_def split: list.splits)
    have "j = 0" "p = q" using broadcasts(1,2) q(1) by simp_all
    from broadcasts(3) show ?thesis
      by (cases rule: latest_wins_cases) (use True q \<open>j = 0\<close> \<open>p = q\<close> in \<open>auto simp: order_inv_def remove_at_def\<close>)
  qed (simp add: order_inv_def)
qed (erule order_inv_pubs; simp add: all_sent_put)+

lemma order_inv_env: "env_step cfg S S' \<Longrightarrow> bounds_inv S \<Longrightarrow> order_inv S \<Longrightarrow> order_inv S'"
proof (induction rule: env_step.induct)
  case (request host S)
  then show ?case
    by (intro order_inv_pubs [OF request(4)]) (auto simp: all_sent_def bounds_inv_def nth_append subset_iff)
next
  case (publish S locked snap)
  then show ?case by (auto simp: order_inv_def split: list.splits)
qed (erule order_inv_pubs; simp add: all_sent_put)+

lemma process_inv:
  "process_reach cfg S \<Longrightarrow> bounds_inv S \<and> frame_inv S \<and> presence_inv S \<and> order_inv S"
proof (induction rule: process_reach.induct)
  case (start st wd)
  then show ?case
    by (simp add: process_start_def bounds_inv_def frame_inv_def presence_inv_def present_def order_inv_def all_sent_def)
next
  case (go S S')
  then show ?case using bounds_inv_go frame_inv_go presence_inv_go order_inv_go by blast
next
  case (env S S')
  then show ?case using bounds_inv_env frame_inv_env presence_inv_env order_inv_env by blast
qed

text \<open>
  C28 (invariant, eventual consistency). In every state of the running process in which the hub waits for work: what the
  poller knows of the number of viewers, or finds in its channel, is right. And when no publication is under way and the
  newest one came from a poll or a change of zones that met no other: every connected browser has been sent the
  current snapshot, none older, and finds it in its channel or has taken it.
\<close>

theorem browsers_converge:
  assumes "process_reach cfg S" and "pr_hub S = RSelect"
  shows "will_know (pr_transitions S) (pr_known S) = (if pr_clients S = {} then 0 else 1) \<and>
    (pr_ordered S \<and> pr_pubs S = [] \<and> pr_broadcast S = None \<longrightarrow>
       (\<forall>c \<in> pr_clients S. let x = pr_streams S ! c in
          st_ch x = Some (pr_store S) \<or> st_ch x = None \<and> st_taken x = Some (pr_store S)))"
proof -
  note inv = process_inv [OF assms(1)]
  have "st_ch x = Some (pr_store S) \<or> st_ch x = None \<and> st_taken x = Some (pr_store S)"
    if "pr_ordered S" "pr_pubs S = []" "pr_broadcast S = None" "c \<in> pr_clients S" "x = pr_streams S ! c" for c x
  proof -
    have "all_sent S" using inv that(1-3) by (simp add: order_inv_def)
    then have "st_sent x = Some (pr_store S)" using that(4,5) assms(2) by (simp add: all_sent_def turn_to_come_def)
    moreover have "frame_ok False x"
      using inv that(4,5) assms(2) by (auto simp: frame_inv_def bounds_inv_def)
    ultimately show ?thesis by (cases "st_ch x") (auto simp: frame_ok_def)
  qed
  then show ?thesis using inv assms(2) by (simp add: presence_inv_def present_def Let_def)
qed

subsection \<open>Executions\<close>

lemma go_to: "process_reach cfg S \<Longrightarrow> go_step S S' \<Longrightarrow> S' = T \<Longrightarrow> process_reach cfg T"
  by (blast intro: process_reach.go)

lemma env_to: "process_reach cfg S \<Longrightarrow> env_step cfg S S' \<Longrightarrow> S' = T \<Longrightarrow> process_reach cfg T"
  by (blast intro: process_reach.env)

text \<open>One browser on a server that does not stop.\<close>

definition one_browser :: "process \<Rightarrow> hub_pc \<Rightarrow> Snapshot option \<Rightarrow> nat option \<Rightarrow> stream_pc \<Rightarrow> Snapshot option \<Rightarrow> Snapshot option \<Rightarrow> Snapshot option \<Rightarrow>
    publication list \<Rightarrow> Snapshot \<Rightarrow> bool \<Rightarrow> process" where
  "one_browser base pc bc tr spc ch sent taken pubs st ordered =
     base\<lparr>pr_store := st, pr_hub := pc, pr_clients := {0}, pr_broadcast := bc, pr_transitions := tr,
       pr_streams := [\<lparr>st_pc = spc, st_ch = ch, st_host = False, st_gone = False, st_sent = sent, st_taken = taken\<rparr>],
       pr_pubs := pubs, pr_ordered := ordered\<rparr>"

lemmas one_browser_simps = one_browser_def process_start_def put_stream_def stream_at_def hub_next_def send_to_def

text \<open>The browser connects and takes the snapshot of the moment; the hub has told the poller.\<close>

lemma browser_connects:
  "process_reach cfg (one_browser (process_start st False) RSelect None (Some 1) HWrite None (Some st) (Some st) [] st True)"
proof -
  have "process_reach cfg (process_start st False)" by (rule process_reach.start)
  then have "process_reach cfg ((process_start st False)\<lparr>pr_streams := [new_stream False]\<rparr>)"
    by (rule env_to [OF _ env_step.request [of False]]) (simp_all add: still_serving_def process_start_def)
  then have "process_reach cfg (one_browser (process_start st False) (RLoad 0) None None HStream None None None [] st True)"
    by (rule go_to [OF _ go_step.hub_register [of _ 0]])
      (simp_all add: one_browser_simps new_stream_def hub_added_def)
  then have "process_reach cfg (one_browser (process_start st False) (RSend STry [0] st True) None None HStream None None None [] st True)"
    by (rule go_to [OF _ go_step.hub_work]) (simp_all add: one_browser_simps)
  then have "process_reach cfg (one_browser (process_start st False) (RSend STry [] st True) None None HStream (Some st) (Some st) None [] st True)"
    by (rule go_to [OF _ go_step.hub_work]) (simp_all add: one_browser_simps)
  then have "process_reach cfg (one_browser (process_start st False) (REmit STry 1) None None HStream (Some st) (Some st) None [] st True)"
    by (rule go_to [OF _ go_step.hub_work]) (simp_all add: one_browser_simps)
  then have "process_reach cfg (one_browser (process_start st False) RSelect None (Some 1) HStream (Some st) (Some st) None [] st True)"
    by (rule go_to [OF _ go_step.hub_work]) (simp_all add: one_browser_simps)
  then show ?thesis
    by (rule go_to [OF _ go_step.stream_takes [of _ 0 st]]) (simp_all add: one_browser_simps)
qed

text \<open>A process in which nobody has anything to do.\<close>

lemma at_rest:
  assumes "pr_streams S = [x]" "st_pc x = HStream" "st_ch x = None" "\<not> st_gone x" "\<not> pr_done S" "pr_hub S = RSelect" "\<not> pr_cancelled S"
    "pr_broadcast S = None" "pr_pubs S = []" "pr_poller S = PSelect" "pr_transitions S = None" "\<not> pr_watchdog S" "pr_main S = None"
  shows "\<nexists>S'. go_step S S'"
proof (rule notI, elim exE)
  fix S' assume "go_step S S'"
  then show False by cases (use assms in \<open>auto simp: stream_at_def stream_over_def\<close>)
qed

text \<open>A broadcast reaches it, whatever the snapshot.\<close>

lemma broadcast_arrives:
  assumes "process_reach cfg (one_browser b RSelect (Some s) tr HStream None sent taken pubs st ordered)"
  shows "process_reach cfg (one_browser b RSelect None tr HStream None (Some s) (Some s) pubs st ordered)"
proof -
  from assms have "process_reach cfg (one_browser b (RSend STry [0] s False) None tr HStream None sent taken pubs st ordered)"
    by (rule go_to [OF _ go_step.hub_fanout [of _ s "[0]"]]) (simp_all add: one_browser_simps)
  then have "process_reach cfg (one_browser b (RSend STry [] s False) None tr HStream (Some s) (Some s) taken pubs st ordered)"
    by (rule go_to [OF _ go_step.hub_work]) (simp_all add: one_browser_simps)
  then have "process_reach cfg (one_browser b RSelect None tr HStream (Some s) (Some s) taken pubs st ordered)"
    by (rule go_to [OF _ go_step.hub_work]) (simp_all add: one_browser_simps)
  then have "process_reach cfg (one_browser b RSelect None tr HWrite None (Some s) (Some s) pubs st ordered)"
    by (rule go_to [OF _ go_step.stream_takes [of _ 0 s]]) (simp_all add: one_browser_simps)
  then show ?thesis
    by (rule go_to [OF _ go_step.stream_wrote [of _ 0 HStream]]) (simp_all add: one_browser_simps)
qed

text \<open>
  A stale frame may be the last. \<^verbatim>\<open>SetExitNode\<close>, \<^verbatim>\<open>Keep\<close> and \<^verbatim>\<open>resolveAfterProbe\<close> store their snapshot under the mutex and
  broadcast it after releasing it. Of two such publications the older can then be broadcast last: the process comes
  to a point where no publication is under way and every channel is empty, a browser is connected, and what it
  shows is the older snapshot, although the store holds the newer one. Only the next publication, a poll or a change, repairs it.
\<close>

theorem stale_frame_last:
  "\<exists>S x. process_reach cfg S \<and> (\<nexists>S'. go_step S S') \<and> pr_clients S = {0} \<and> pr_streams S = [x] \<and> st_pc x = HStream \<and>
     st_taken x = Some older \<and> pr_store S = newer"
proof -
  let ?p = "\<lambda>s locked. \<lparr>pb_snap = s, pb_locked = locked, pb_stage = STry\<rparr>"
  define b where "b pc = (process_start older False)\<lparr>pr_known := 1, pr_poller := pc,
      pr_loop := \<lparr>ru_active = True, ru_ticker = True, ru_linger = False\<rparr>\<rparr>" for pc
  note d = b_def one_browser_simps
  let ?o = "Some older" and ?n = "Some newer"
  from browser_connects [of cfg older]
  have "process_reach cfg (one_browser (process_start older False) RSelect None (Some 1) HStream None ?o ?o [] older True)"
    by (rule go_to [OF _ go_step.stream_wrote [of _ 0 HStream]]) (simp_all add: d)
  then have "process_reach cfg (one_browser (b PRefresh) RSelect None None HStream None ?o ?o [] older True)"
    by (rule go_to [OF _ go_step.poller_count [of _ 1 "\<lparr>ru_active = True, ru_ticker = True, ru_linger = False\<rparr>" True]])
      (simp_all add: d run_init_def)
  then have "process_reach cfg (one_browser (b PRefresh) RSelect None None HStream None ?o ?o [?p older True] older True)"
    by (rule env_to [OF _ env_step.publish [where snap = older and locked = True]]) (simp_all add: d)
  then have "process_reach cfg (one_browser (b PRefresh) RSelect ?o None HStream None ?o ?o [] older True)"
    by (rule go_to [OF _ go_step.broadcasts [of 0 _ "?p older True" ?o None]]) (simp_all add: d remove_at_def)
  from broadcast_arrives [OF this]
  have "process_reach cfg (one_browser (b PSelect) RSelect None None HStream None ?o ?o [] older True)"
    by (rule go_to [OF _ go_step.poller_refreshed]) (simp_all add: d)
  then have "process_reach cfg (one_browser (b PSelect) RSelect None None HStream None ?o ?o [?p older False] older False)"
    by (rule env_to [OF _ env_step.publish [where snap = older and locked = False]]) (simp_all add: d)
  then have "process_reach cfg (one_browser (b PSelect) RSelect None None HStream None ?o ?o [?p older False, ?p newer False] newer False)"
    by (rule env_to [OF _ env_step.publish [where snap = newer and locked = False]]) (simp_all add: d)
  then have "process_reach cfg (one_browser (b PSelect) RSelect ?n None HStream None ?o ?o [?p older False] newer False)"
    by (rule go_to [OF _ go_step.broadcasts [of 1 _ "?p newer False" ?n None]]) (simp_all add: d remove_at_def)
  from broadcast_arrives [OF this]
  have "process_reach cfg (one_browser (b PSelect) RSelect ?o None HStream None ?n ?n [] newer False)"
    by (rule go_to [OF _ go_step.broadcasts [of 0 _ "?p older False" ?o None]]) (simp_all add: d remove_at_def)
  from broadcast_arrives [OF this]
  have r: "process_reach cfg (one_browser (b PSelect) RSelect None None HStream None ?o ?o [] newer False)" .
  let ?S = "one_browser (b PSelect) RSelect None None HStream None ?o ?o [] newer False"
    and ?x = "\<lparr>st_pc = HStream, st_ch = None, st_host = False, st_gone = False, st_sent = ?o, st_taken = ?o\<rparr> :: stream"
  have "\<nexists>S'. go_step ?S S'" by (rule at_rest [of _ ?x]) (simp_all add: d)
  moreover have "pr_clients ?S = {0}" "pr_store ?S = newer"
"pr_streams ?S = [?x]"
    by (simp_all add: d)
  ultimately show ?thesis using r by (intro exI [of _ ?S] exI [of _ ?x]) simp
qed

theorem browsers_converge_witness:
  "\<forall>cfg. \<exists>S. process_reach cfg S \<and> pr_clients S = {0} \<and> will_know (pr_transitions S) (pr_known S) = 1 \<and>
     st_taken (pr_streams S ! 0) = Some (pr_store S)"
proof
  fix cfg
  let ?S = "one_browser (process_start (store_New 1) False) RSelect None (Some 1) HWrite None (Some (store_New 1)) (Some (store_New 1)) [] (store_New 1) True"
  have f: "pr_hub ?S = RSelect" "pr_clients ?S = {0}" "pr_ordered ?S" "pr_pubs ?S = []" "pr_broadcast ?S = None"
      "st_ch (pr_streams ?S ! 0) = None" by (simp_all add: one_browser_simps)
  note c = browsers_converge [OF browser_connects [of cfg "store_New 1"] f(1)]
  show "\<exists>S. process_reach cfg S \<and> pr_clients S = {0} \<and> will_know (pr_transitions S) (pr_known S) = 1 \<and>
     st_taken (pr_streams S ! 0) = Some (pr_store S)" using c f browser_connects [of cfg "store_New 1"] by (intro exI [of _ ?S]) (simp add: Let_def)
qed

end
