(* ===== verification/Server_Shutdown.thy ===== *)
theory Server_Shutdown
  imports Server_Convergence
begin

section \<open>The process ends\<close>

text \<open>
  The shutdown of \<^verbatim>\<open>runServe\<close> among all its goroutines: a measure of the work left, and the progress of every goroutine once the
  context is cancelled.
\<close>

subsection \<open>Work left\<close>

text \<open>What the goroutines still have to do, if nothing more happens to them.\<close>

fun stage_work :: "send_stage \<Rightarrow> nat" where
  "stage_work STry = 3"
| "stage_work SDrain = 2"
| "stage_work SRetry = 1"

fun hub_work :: "hub_pc \<Rightarrow> nat" where
  "hub_work RReturned = 0"
| "hub_work RSelect = 1"
| "hub_work (RLoad i) = 16"
| "hub_work (RSend st [] snap added) = 9"
| "hub_work (RSend st (c # cs) snap added) = 12 + stage_work st + 6 * length cs"
| "hub_work (REmit st n) = 5 + stage_work st"

fun pc_work :: "stream_pc \<Rightarrow> nat" where
  "pc_work HRegister = 30"
| "pc_work HStream = 9"
| "pc_work HWrite = 10"
| "pc_work HPing = 10"
| "pc_work HUnregister = 8"
| "pc_work HReturned = 0"

definition stream_work :: "stream \<Rightarrow> nat" where
  "stream_work x = pc_work (st_pc x) + (if st_ch x = None then 0 else 2)"

fun poller_work :: "poller_pc \<Rightarrow> nat" where
  "poller_work PSelect = 1"
| "poller_work PRefresh = 2"
| "poller_work PReturned = 0"

definition fanout_work :: "process \<Rightarrow> nat" where
  "fanout_work S = 9 + 6 * length (pr_streams S)"

definition main_work :: "stop_step list option \<Rightarrow> nat" where
  "main_work m = (case m of None \<Rightarrow> 0 | Some steps \<Rightarrow> length steps)"

definition work_left :: "process \<Rightarrow> nat" where
  "work_left S = sum_list (map stream_work (pr_streams S)) + hub_work (pr_hub S) +
     (if pr_broadcast S = None then 0 else fanout_work S) +
     sum_list (map (\<lambda>p. fanout_work S + stage_work (pb_stage p)) (pr_pubs S)) +
     (if pr_transitions S = None then 0 else 3) + poller_work (pr_poller S) + (if pr_watchdog S then 1 else 0) + main_work (pr_main S)"

lemma sum_list_set:
  fixes f :: "'a \<Rightarrow> nat"
  shows "i < length xs \<Longrightarrow> sum_list (map f (xs[i := y])) + f (xs ! i) = sum_list (map f xs) + f y"
  by (induction xs arbitrary: i) (auto split: nat.splits)

lemma sum_list_remove:
  fixes f :: "'a \<Rightarrow> nat"
  assumes "i < length xs"
  shows "sum_list (map f (remove_at i xs)) + f (xs ! i) = sum_list (map f xs)"
proof -
  have "sum_list (map f xs) = sum_list (map f (take i xs @ xs ! i # drop (Suc i) xs))"
    by (rule arg_cong [where f = "\<lambda>ys. sum_list (map f ys)"]) (rule split_at_nth [OF assms])
  then show ?thesis by (simp add: remove_at_def)
qed

lemma fanout_work_put [simp]: "fanout_work (put_stream i f S) = fanout_work S"
  by (simp add: fanout_work_def)

lemma work_left_put:
  assumes "i < length (pr_streams S)" and "stream_work (f (pr_streams S ! i)) < stream_work (pr_streams S ! i)"
  shows "work_left (put_stream i f S) < work_left S"
  using assms sum_list_set [OF assms(1), of stream_work "f (pr_streams S ! i)"] by (simp add: work_left_def)

lemma fanout_fits:
  assumes "bounds_inv S" "distinct cs" "set cs = pr_clients S"
  shows "hub_work (RSend STry cs snap added) \<le> fanout_work S"
proof -
  have "card (pr_clients S) \<le> card {..< length (pr_streams S)}"
    using assms(1) by (intro card_mono) (auto simp: bounds_inv_def)
  then have "length cs \<le> length (pr_streams S)" using distinct_card [OF assms(2)] assms(3) by simp
  then show ?thesis by (cases cs) (simp_all add: fanout_work_def)
qed

lemma work_left_hub:
  assumes "pr_hub S \<noteq> RSelect" and "pr_hub S \<noteq> RReturned" and "bounds_inv S"
  shows "work_left (hub_next S) < work_left S"
  using assms(1,2)
proof (cases rule: hub_next_cases)
  case (load i)
  then show ?thesis by (simp add: work_left_def fanout_work_def)
next
  case (send st c cs snap added ch nxt)
  have c: "c < length (pr_streams S)" using assms(3) send(1) by (auto simp: bounds_inv_def)
  let ?f = "\<lambda>x. x\<lparr>st_ch := ch, st_sent := (if nxt = None then ch else st_sent x)\<rparr>"
  have sum: "sum_list (map stream_work ((pr_streams S)[c := ?f (pr_streams S ! c)])) + stream_work (pr_streams S ! c) =
      sum_list (map stream_work (pr_streams S)) + stream_work (?f (pr_streams S ! c))"
    by (rule sum_list_set [OF c])
  have rest: "hub_work (RSend STry cs snap added) \<le> 9 + 6 * length cs" by (cases cs) simp_all
  show ?thesis using send(2)
    by (cases rule: latest_wins_cases)
      (use send(1,3) sum rest in \<open>auto simp: work_left_def fanout_work_def stream_work_def\<close>)
next
  case (sent st snap added)
  then show ?thesis by (simp add: work_left_def fanout_work_def)
next
  case (emit st n ch nxt)
  from emit(2) show ?thesis
    by (cases rule: latest_wins_cases) (use emit in \<open>auto simp: work_left_def fanout_work_def\<close>)
qed

lemma work_left_decreases: "go_step S S' \<Longrightarrow> bounds_inv S \<Longrightarrow> work_left S' < work_left S"
proof (induction rule: go_step.induct)
  case (hub_cancel S)
  then show ?case by (simp add: work_left_def fanout_work_def)
next
  case (hub_register S i)
  let ?x = "pr_streams S ! i"
  have i: "i < length (pr_streams S)" "st_pc ?x = HRegister" using hub_register(2) by (simp_all add: stream_at_def)
  show ?case
    using sum_list_set [OF i(1), of stream_work "?x\<lparr>st_pc := HStream\<rparr>"] i(2) hub_register(1)
    by (simp add: work_left_def hub_added_def fanout_work_def stream_work_def)
next
  case (hub_unregister S i)
  let ?x = "pr_streams S ! i"
  have i: "i < length (pr_streams S)" "st_pc ?x = HUnregister" using hub_unregister(2) by (simp_all add: stream_at_def)
  show ?case
    using sum_list_set [OF i(1), of stream_work "?x\<lparr>st_pc := HReturned\<rparr>"] i(2) hub_unregister(1)
    by (simp add: work_left_def hub_removed_def fanout_work_def stream_work_def Let_def)
next
  case (hub_fanout S snap cs)
  then show ?case using fanout_fits [OF hub_fanout(5,3,4), of snap False] by (simp add: work_left_def fanout_work_def)
next
  case (hub_work S)
  then show ?case by (rule work_left_hub)
next
  case (broadcasts j S p ch nxt)
  let ?f = "\<lambda>p. fanout_work S + stage_work (pb_stage p)"
  have put: "sum_list (map ?f ((pr_pubs S)[j := p\<lparr>pb_stage := st\<rparr>])) + ?f p = sum_list (map ?f (pr_pubs S)) + (fanout_work S + stage_work st)" for st
    using sum_list_set [OF broadcasts(1), of ?f "p\<lparr>pb_stage := st\<rparr>"] broadcasts(2) by simp
  have rem: "sum_list (map ?f (remove_at j (pr_pubs S))) + ?f p = sum_list (map ?f (pr_pubs S))"
    using sum_list_remove [OF broadcasts(1), of ?f] broadcasts(2) by simp
  have fw: "fanout_work (S\<lparr>pr_broadcast := x, pr_pubs := ps\<rparr>) = fanout_work S" for x ps by (simp add: fanout_work_def)
  from broadcasts(3) show ?case
  proof (cases rule: latest_wins_cases)
    case 1
    then show ?thesis using rem by (auto simp: work_left_def fw)
  next
    case (2 y)
    then show ?thesis using put [of SDrain] by (simp add: work_left_def fw)
  next
    case 3
    then show ?thesis using put [of SRetry] by (simp add: work_left_def fw)
  next
    case (4 y)
    then show ?thesis using rem by (simp add: work_left_def fw)
  qed
next
  case (poller_count S n r refresh)
  then show ?case by (simp add: work_left_def fanout_work_def del: run_step_loop.simps)
next
  case (main_stops S st rest)
  then show ?case by (simp add: work_left_def fanout_work_def main_work_def)
qed ((rule work_left_put; force simp: stream_at_def stream_work_def) | simp add: work_left_def fanout_work_def)+

lemma go_step_terminates: "bounds_inv S \<Longrightarrow> termip go_step S"
proof (induction "work_left S" arbitrary: S rule: less_induct)
  case less
  show ?case
  proof (rule accpI)
    fix S' assume "go_step\<inverse>\<inverse> S' S"
    then have "go_step S S'" by simp
    then show "termip go_step S'" using less work_left_decreases bounds_inv_go by blast
  qed
qed

text \<open>The progress of the shutdown: the steps still to be taken, and what the steps taken have brought about.\<close>

definition stop_inv :: "Config \<Rightarrow> process \<Rightarrow> bool" where
  "stop_inv cfg S \<longleftrightarrow> (\<forall>steps. pr_main S = Some steps \<longrightarrow>
     (\<exists>taken. stop_steps cfg = taken @ steps \<and> (MarkUnhealthy \<in> set taken \<longrightarrow> \<not> pr_healthy S) \<and>
        (CancelWorkers \<in> set taken \<longrightarrow> pr_cancelled S) \<and>
        (AwaitWorkers \<in> set taken \<longrightarrow> pr_hub S = RReturned \<and> pr_poller S = PReturned)))"

lemma stop_inv_other:
  assumes "stop_inv cfg S" and "pr_main S' = pr_main S" "pr_healthy S' = pr_healthy S" "pr_cancelled S' = pr_cancelled S"
    and "pr_hub S = RReturned \<Longrightarrow> pr_hub S' = RReturned" "pr_poller S = PReturned \<Longrightarrow> pr_poller S' = PReturned"
  shows "stop_inv cfg S'"
  using assms unfolding stop_inv_def by (metis (no_types, lifting))

lemma put_stream_healthy [simp]: "pr_healthy (put_stream i f S) = pr_healthy S"
  by (simp add: put_stream_def)

lemma stop_inv_go: "go_step S S' \<Longrightarrow> stop_inv cfg S \<Longrightarrow> stop_inv cfg S'"
proof (induction rule: go_step.induct)
  case (hub_work S)
  from hub_work(1,2) show ?case
    by (cases rule: hub_next_cases) (use hub_work in \<open>auto intro!: stop_inv_other [OF hub_work(3)]\<close>)
next
  case (main_stops S st rest)
  from main_stops(1,3) obtain taken where t: "stop_steps cfg = taken @ st # rest" "MarkUnhealthy \<in> set taken \<longrightarrow> \<not> pr_healthy S"
      "CancelWorkers \<in> set taken \<longrightarrow> pr_cancelled S" "AwaitWorkers \<in> set taken \<longrightarrow> pr_hub S = RReturned \<and> pr_poller S = PReturned"
    by (auto simp: stop_inv_def)
  have "pr_healthy (stop_effect st S) \<longleftrightarrow> st \<noteq> MarkUnhealthy \<and> pr_healthy S" by (cases st) simp_all
  with t main_stops(2) show ?case by (auto simp: stop_inv_def intro!: exI [of _ "taken @ [st]"])
qed (erule stop_inv_other; simp add: hub_added_def hub_removed_def Let_def)+

lemma stop_inv_env: "env_step cfg S S' \<Longrightarrow> stop_inv cfg S \<Longrightarrow> stop_inv cfg S'"
proof (induction rule: env_step.induct)
  case (signalled S)
  then show ?case by (simp add: stop_inv_def)
next
  case (drain_timeout S st rest)
  then obtain taken where "stop_steps cfg = taken @ st # rest" "MarkUnhealthy \<in> set taken \<longrightarrow> \<not> pr_healthy S"
      "CancelWorkers \<in> set taken \<longrightarrow> pr_cancelled S" "AwaitWorkers \<in> set taken \<longrightarrow> pr_hub S = RReturned \<and> pr_poller S = PReturned"
    by (auto simp: stop_inv_def)
  with drain_timeout(2) show ?case by (auto simp: stop_inv_def intro!: exI [of _ "taken @ [st]"])
qed (erule stop_inv_other; simp)+

lemma process_stop_inv: "process_reach cfg S \<Longrightarrow> stop_inv cfg S"
proof (induction rule: process_reach.induct)
  case (start st wd)
  then show ?case by (simp add: stop_inv_def process_start_def)
qed (simp_all add: stop_inv_go stop_inv_env)

text \<open>Once the context is cancelled, every goroutine but the main one can move until it has returned.\<close>

lemma cancelled_progress:
  assumes "bounds_inv S" and "pr_cancelled S" and stuck: "\<nexists>S'. go_step S S'"
  shows "pr_hub S = RReturned" "pr_poller S = PReturned" "\<not> pr_watchdog S" "\<forall>x \<in> set (pr_streams S). st_pc x = HReturned"
proof -
  show hub: "pr_hub S = RReturned" using go_step.hub_cancel [of S] go_step.hub_work [of S] assms(2) stuck by blast
  show "pr_poller S = PReturned"
    using go_step.poller_cancel [of S] go_step.poller_refreshed [of S] assms(2) stuck by (cases "pr_poller S") blast+
  show "\<not> pr_watchdog S" using go_step.watchdog_cancel [of S] assms(2) stuck by blast
  have d: "pr_done S" using hub assms(1) by (simp add: bounds_inv_def)
  have "st_pc (pr_streams S ! i) = HReturned" if i: "i < length (pr_streams S)" for i
    using go_step.stream_refused [of S i] go_step.stream_ended [of S i] go_step.stream_wrote [of S i HStream]
      go_step.stream_left [of S i] stuck d assms(2) i
    by (cases "st_pc (pr_streams S ! i)") (auto simp: stream_at_def stream_over_def)
  then show "\<forall>x \<in> set (pr_streams S). st_pc x = HReturned" by (auto simp: in_set_conv_nth)
qed

lemma stop_steps_order:
  assumes "stop_steps cfg = taken @ st # rest"
  shows "st \<notin> {NotifyStopping, MarkUnhealthy, CancelWorkers} \<Longrightarrow> CancelWorkers \<in> set taken"
    "st \<in> {DrainTailnet, DrainHost, DrainHealth, CloseNode} \<Longrightarrow> {MarkUnhealthy, AwaitWorkers} \<subseteq> set taken"
  using assms by (auto simp: stop_steps_def Cons_eq_append_conv append_eq_Cons_conv append_eq_append_conv2 split: if_splits)

text \<open>
  C27 (liveness, shutdown). In every reachable state the goroutines have finitely many steps to take by themselves, so that no
  two of them keep each other busy; and once the signal has come they only come to rest when everything is over:
  the main goroutine has taken its last step, the hub, the poller and the watchdog have returned, and so has every
  stream. No goroutine waits for one that is gone. The servers are drained and the node is closed only after the
  workers have ended and the health endpoint has turned unhealthy.
\<close>

theorem shutdown_completes:
  assumes "process_reach cfg S"
  shows "termip go_step S \<and>
    (pr_main S \<noteq> None \<and> (\<nexists>S'. go_step S S') \<longrightarrow>
       pr_main S = Some [] \<and> pr_hub S = RReturned \<and> pr_poller S = PReturned \<and> \<not> pr_watchdog S \<and>
       (\<forall>x \<in> set (pr_streams S). st_pc x = HReturned)) \<and>
    (\<forall>st rest. pr_main S = Some (st # rest) \<and> st \<in> {DrainTailnet, DrainHost, DrainHealth, CloseNode} \<longrightarrow>
       pr_hub S = RReturned \<and> pr_poller S = PReturned \<and> \<not> pr_healthy S)"
proof (intro conjI)
  note b = conjunct1 [OF process_inv [OF assms]] and si = process_stop_inv [OF assms]
  show "termip go_step S" using b by (rule go_step_terminates)
  show "pr_main S \<noteq> None \<and> (\<nexists>S'. go_step S S') \<longrightarrow>
       pr_main S = Some [] \<and> pr_hub S = RReturned \<and> pr_poller S = PReturned \<and> \<not> pr_watchdog S \<and>
       (\<forall>x \<in> set (pr_streams S). st_pc x = HReturned)"
  proof (rule impI, elim conjE)
    assume "pr_main S \<noteq> None" and stuck: "\<nexists>S'. go_step S S'"
    then obtain steps taken where m: "pr_main S = Some steps" "stop_steps cfg = taken @ steps"
        "CancelWorkers \<in> set taken \<longrightarrow> pr_cancelled S" using si by (auto simp: stop_inv_def)
    have blocked: "\<not> stop_ready st S" if "steps = st # rest" for st rest using go_step.main_stops [of S st rest] m(1) that stuck by blast
    have can: "pr_cancelled S"
    proof (cases steps)
      case Nil
      then show ?thesis using m(2,3) by (auto simp: stop_steps_def)
    next
      case (Cons st rest)
      have "st \<notin> {NotifyStopping, MarkUnhealthy, CancelWorkers}" using blocked [OF Cons] by auto
      then show ?thesis using stop_steps_order(1) [of cfg taken st rest] m(2,3) Cons by simp
    qed
    note over = cancelled_progress [OF b can stuck]
    have "steps = []"
    proof (cases steps)
      case (Cons st rest)
      have "stop_ready st S" using over by (cases st) simp_all
      then show ?thesis using blocked [OF Cons] by simp
    qed simp
    with over m(1) show "pr_main S = Some [] \<and> pr_hub S = RReturned \<and> pr_poller S = PReturned \<and> \<not> pr_watchdog S \<and>
       (\<forall>x \<in> set (pr_streams S). st_pc x = HReturned)" by simp
  qed
  show "\<forall>st rest. pr_main S = Some (st # rest) \<and> st \<in> {DrainTailnet, DrainHost, DrainHealth, CloseNode} \<longrightarrow>
       pr_hub S = RReturned \<and> pr_poller S = PReturned \<and> \<not> pr_healthy S"
    using si stop_steps_order(2) [of cfg] unfolding stop_inv_def by blast
qed

subsection \<open>An execution\<close>

text \<open>A stream that is writing a frame when the workers have ended: the drain of its server is still to come.\<close>

definition draining :: "Config \<Rightarrow> Snapshot \<Rightarrow> process" where
  "draining cfg st = (one_browser (process_start st False) RReturned None (Some 1) HWrite None (Some st) (Some st) [] st True)
     \<lparr>pr_cancelled := True, pr_healthy := False, pr_done := True, pr_poller := PReturned, pr_main := Some (drop 4 (stop_steps cfg))\<rparr>"

lemma draining_reach: "process_reach cfg (draining cfg st)"
proof -
  define S where "S = one_browser (process_start st False) RSelect None (Some 1) HWrite None (Some st) (Some st) [] st True"
  note d = S_def one_browser_simps
  obtain R where R: "stop_steps cfg = NotifyStopping # MarkUnhealthy # CancelWorkers # AwaitWorkers # R" by (simp add: stop_steps_def)
  have "process_reach cfg S" unfolding S_def by (rule browser_connects)
  then have "process_reach cfg (S\<lparr>pr_main := Some (stop_steps cfg)\<rparr>)"
    by (rule env_to [OF _ env_step.signalled]) (simp_all add: d)
  then have "process_reach cfg (S\<lparr>pr_main := Some (MarkUnhealthy # CancelWorkers # AwaitWorkers # R)\<rparr>)"
    by (rule go_to [OF _ go_step.main_stops [of _ NotifyStopping]]) (simp_all add: d R)
  then have "process_reach cfg (S\<lparr>pr_healthy := False, pr_main := Some (CancelWorkers # AwaitWorkers # R)\<rparr>)"
    by (rule go_to [OF _ go_step.main_stops [of _ MarkUnhealthy]]) (simp_all add: d)
  then have "process_reach cfg (S\<lparr>pr_healthy := False, pr_cancelled := True, pr_main := Some (AwaitWorkers # R)\<rparr>)"
    by (rule go_to [OF _ go_step.main_stops [of _ CancelWorkers]]) (simp_all add: d)
  then have "process_reach cfg (S\<lparr>pr_healthy := False, pr_cancelled := True, pr_main := Some (AwaitWorkers # R), pr_hub := RReturned, pr_done := True\<rparr>)"
    by (rule go_to [OF _ go_step.hub_cancel]) (simp_all add: d)
  then have "process_reach cfg (S\<lparr>pr_healthy := False, pr_cancelled := True, pr_main := Some (AwaitWorkers # R), pr_hub := RReturned, pr_done := True,
      pr_poller := PReturned\<rparr>)"
    by (rule go_to [OF _ go_step.poller_cancel]) (simp_all add: d)
  then show ?thesis
    by (rule go_to [OF _ go_step.main_stops [of _ AwaitWorkers]]) (simp_all add: d R draining_def)
qed

theorem shutdown_completes_witness:
  "\<forall>cfg. \<exists>S. process_reach cfg S \<and> termip go_step S \<and> pr_main S \<noteq> None \<and> st_pc (pr_streams S ! 0) = HWrite \<and>
     pr_hub S = RReturned \<and> pr_poller S = PReturned \<and> \<not> pr_healthy S"
proof
  fix cfg
  let ?S = "draining cfg (store_New 1)"
  have m: "pr_main ?S = Some (DrainTailnet # tl (drop 4 (stop_steps cfg)))" by (simp add: draining_def stop_steps_def)
  have "pr_hub ?S = RReturned \<and> pr_poller ?S = PReturned \<and> \<not> pr_healthy ?S"
    using shutdown_completes [OF draining_reach] m by blast
  moreover have "termip go_step ?S" using shutdown_completes [OF draining_reach] by blast
  moreover have "st_pc (pr_streams ?S ! 0) = HWrite" by (simp add: draining_def one_browser_simps)
  ultimately show "\<exists>S. process_reach cfg S \<and> termip go_step S \<and> pr_main S \<noteq> None \<and> st_pc (pr_streams S ! 0) = HWrite \<and>
     pr_hub S = RReturned \<and> pr_poller S = PReturned \<and> \<not> pr_healthy S" using draining_reach [of cfg "store_New 1"] m by blast
qed

end
