(* ===== verification/Spec2Isabelle.thy ===== *)
theory Spec2Isabelle
  imports Tsctl_Commands Poller_Gaps Preview_Memory Dead_Mans_Switch Router_Calls Api_Reverts Server_Shutdown
begin

text \<open>
  Verification of tsctl, the control plane for Tailscale exit nodes.

  \<^bold>\<open>The program.\<close> tsctl is a node of a tailnet that shows the fleet of routers in a browser and changes which exit node each of
  them uses. It reaches a router by running commands over SSH. A change is guarded by a dead-man's switch on the
  router: a revert is armed first, then the change is applied and confirmed by a read, and only a keep-marker stops the
  revert. A poller keeps a snapshot of the fleet and publishes it to browsers through an event hub; zones say which
  consumers may use which exit nodes; guests are people bound to one zone. The packages are under
  \<^verbatim>\<open>internal/\<close>, the binary is \<^verbatim>\<open>cmd/tsctl\<close>.

  \<^bold>\<open>Theories and code.\<close>
  \<^item> \<open>Prelude\<close>: base types, searches and list lemmas. \<open>Go_Strings\<close>, \<open>Go_Errors\<close>, \<open>Go_Files\<close>, \<open>Netip\<close>: what the program uses of
    \<^verbatim>\<open>strings\<close>, \<^verbatim>\<open>strconv\<close>, \<^verbatim>\<open>net\<close>, \<^verbatim>\<open>net/netip\<close>, \<^verbatim>\<open>errors\<close>, \<^verbatim>\<open>encoding/json\<close> and the file system.
  \<^item> \<open>Store_Types\<close>: \<^verbatim>\<open>internal/store/types.go\<close>. \<open>Authz\<close>: \<^verbatim>\<open>internal/authz\<close>. \<open>Netmap\<close>: \<^verbatim>\<open>internal/netmap\<close>.
  \<^item> \<open>Keyed_Stores\<close>, \<open>Group_Store\<close>, \<open>Guest_Store\<close>: \<^verbatim>\<open>internal/groups\<close> and \<^verbatim>\<open>internal/guests\<close>. The slice is a list, the file system a
    map from names to documents, and a save the list of file states it goes through. A deployment (\<open>groups_life\<close>, \<open>guests_life\<close>) has a process or
    none; a crash may leave any of these states, and that the next process can load it, and what it loads, is proved.
    \<open>Go_Slices\<close>, \<open>Group_Memory\<close>, \<open>Group_Aliasing\<close>: the zone store once more, its slices as headers over shared arrays, among
    callers that write what they hold.
  \<^item> \<open>Router_Commands\<close>, \<open>Router_Client\<close>, \<open>Router_Transport\<close>: \<^verbatim>\<open>internal/router/router.go\<close> and \<^verbatim>\<open>hostkey.go\<close>: the command lines, the
    sequence of a change over any command runner, the construction of the client, one command over SSH, and trust on first use over
    the bytes of the known_hosts file.
    \<open>Dead_Mans_Switch\<close>: the same sequence on a device that behaves as documented. \<open>Addr_Locks\<close>, \<open>Router_Calls\<close>: the mutex per router
    at the level of statements, and concurrent calls of the client's methods command by command.
  \<^item> \<open>Poller_Core\<close>, \<open>Poller\<close>: \<^verbatim>\<open>internal/poller/poller.go\<close>. The fields guarded by the mutex are the record \<open>pstate\<close>; an operation is
    the composition of its critical sections with the slow work in between. \<open>Poller_Safety\<close>: what each operation promises.
    \<open>Poller_Steps\<close>: all interleavings of the sections. \<open>Poller_Gaps\<close>: two sequences in which the code does not do what it means to.
  \<^item> \<open>Sse_Hub\<close>: \<^verbatim>\<open>internal/sse/hub.go\<close>, the event loop as steps and one stream as a function of its events.
    \<open>Server_Goroutines\<close>: the running process, with the hub, the streams, the poller's loop, publications, watchdog and main goroutine
    at the level of their selects. \<open>Server_Convergence\<close>, \<open>Server_Shutdown\<close>: what the browsers show, and how the process ends.
  \<^item> \<open>Session_Mac\<close>, \<open>Api_Session\<close>, \<open>Api_Wire\<close>, \<open>Api\<close>, \<open>Api_Handlers\<close>: \<^verbatim>\<open>internal/api/api.go\<close>: the signed cookie with its HMAC-SHA256, host
    names and wire shapes, middleware and authentication, the data handlers and the routing table. A request is one
    step on the record \<open>system\<close> (poller, routers, stores, files). \<open>Api_Examples\<close>, \<open>Api_Safety\<close>, \<open>Api_Access\<close>: a concrete system, and
    the properties of the interface.
  \<^item> \<open>Api_Sections\<close>: each handler again as a program of accesses to the shared state and sections of the poller, and the proof that
    a program run alone is the handler. \<open>Api_Server\<close>: the running server, any number of requests and polls, one access or section
    at a time. \<open>Api_Typed\<close>: the shapes of the JSON and what each route answers with. \<open>Api_Concurrent\<close>, \<open>Api_Consistency\<close>: what else holds in every interleaving. \<open>Api_Races\<close>, \<open>Api_Reverts\<close>: two executions.
  \<^item> \<open>Config\<close>, \<open>Tsctl_Main\<close>: \<^verbatim>\<open>cmd/tsctl\<close>: flags, environment and validation; commands, wiring, the mux, shutdown.
    \<open>Tsctl_Commands\<close>: what the process prints and exits with, the messages to systemd and the watchdog, the wiring of the preview.
  \<^item> \<open>Demo\<close>: \<^verbatim>\<open>internal/demo/demo.go\<close>, a second provider of the netmap and the router client. \<open>Preview_Memory\<close>: its zones on
    shared memory.

  \<^bold>\<open>Interfaces.\<close> The contracts are locales. \<open>labelled_store\<close>, \<open>persisted_store\<close>, their union \<open>durable_store\<close> and \<open>keyed_lookup\<close> (in
  \<open>Keyed_Stores\<close>) are what the two stores share, interpreted on both. \<open>marker_client\<close> and its extension \<open>router_client\<close> (in
  \<open>Router_Client\<close>) are what the poller relies on; the SSH client provides both, the preview the first. \<open>lock_table\<close> (in \<open>Addr_Locks\<close>) is
  a table of mutexes, provided by the client and by the preview.

  \<^bold>\<open>What is shown.\<close> A change is a prefix of arm, apply, read, keep, and heals on a router that behaves as documented
  (\<open>ApplyExitNode_protocol\<close>, \<open>dead_mans_switch\<close>). Concurrent calls of the client are as good as one after another, exclude each other per
  router and all return (\<open>Router_Calls\<close>), so the poller's model may take a whole call as one step. Zones are enforced before a command is sent, success is shown only when read
  back, a keep succeeds exactly when it should, a poll respects the changes it overlaps with (\<open>polls_respect_changes\<close>), and in any
  interleaving of requests and polls the armed revert of a confirmed change is tracked until its marker is written, or its failed
  disarm is logged (\<open>reverts_tracked\<close>; the reverts of failed attempts cannot be tracked by the program, see
  \<open>stale_revert_undoes_retry\<close>). The stores keep their invariants across crashes, their saves are atomic, and they refine maps, and the values the zone store
  hands out share no memory with it (\<open>zones_are_copies\<close>; for the preview, \<open>preview_zones_are_copies\<close>). Sessions are
  unforgeable and read back until they expire; a request that changes anything is authenticated and authorized; a
  guest sees and changes its zone only, where a zone is compared over its members and not through the filter of the code
  (\<open>zone_agrees\<close>); it loses access with the next request once it is disabled or deleted, and its event stream ends with the next
  heartbeat, until somebody enables it again (\<open>guest_session_revoked\<close>). Commands cannot be injected. A configuration that loads and a server that starts
  are never open. While requests overlap, every change is still backed by an authorization seen on its way
  (\<open>concurrent_change_authorized\<close>), every response has the type of its route (\<open>responses_typed\<close>) and the published zones follow the
  store (\<open>zones_shown_fresh\<close>). Goroutine by goroutine, every browser ends up with the snapshot a poll published last
  (\<open>browsers_converge\<close>), and after the signal the process winds down without a deadlock (\<open>shutdown_completes\<close>).
  A process that fails says so (\<open>main_not_silent\<close>), and the watchdog answers every tick (\<open>watchdog_loop_answers\<close>).
  \<open>orphan_guest_reachable\<close> is a promise that two overlapping requests break; \<open>append_merges_last_line\<close> is a known_hosts line that a first
  use changes. \<open>keep_failure_shown_as_ok\<close>, \<open>poll_hides_pending\<close>,
  \<open>failed_set_blocks_keep\<close>, \<open>stale_revert_undoes_retry\<close> and \<open>stale_frame_last\<close> (a publication that overtakes another) state where
  the code falls short, each on a router that behaves as documented.

  \<^bold>\<open>Parameters and hypotheses.\<close> Code that is not in the repository is an argument: the device and its shell
  (\<open>device_behaviour\<close>), the known_hosts library (of which it is used that a line is one line and that an empty \<^verbatim>\<open>Want\<close> means an
  unknown host: \<open>line_is_one\<close>, \<open>empty_want_means_unknown\<close>), bcrypt, the tailscale client, the Unicode case tables,
  \<^verbatim>\<open>url.Parse\<close>, \<^verbatim>\<open>time.ParseDuration\<close>, the random source and the clock. Session unforgeability assumes that a tag
  the server did not issue does not verify, which is the unforgeability of HMAC. Loops of the program that may not end
  (a store drawing identifiers) are partial functions, with a theorem that says when they return; no fuel is used.
  Counters of the poller and byte counts are unbounded here and 64 bits wide in the code.

  \<^bold>\<open>Not modelled.\<close> Goroutines are interleavings of critical sections; a call of a store with its save is one step of the running server
  (the store holds its mutex throughout); the log is modelled where it is the only trace of a failure (\<open>Tsctl_Main\<close>,
  \<open>Tsctl_Commands\<close>); \<^verbatim>\<open>singleflight\<close> and the simulated latencies of the preview are left out. JSON is a value: its
  textual syntax belongs to the standard library. Tests, the static web files, the generator of test data and the
  JavaScript mock are not part of the server.

  \<^bold>\<open>Plan.\<close> The components of the program are modelled. What could still be refined is the width of the generation counters
  (64 bits, one step per change, so that no run reaches the end of the range).
\<close>

section \<open>The server as a whole\<close>

lemma started_config:
  assumes "runServe base w se (loadConfig pd lower E rd args) = Some (Inr sv)"
  shows "loadConfig pd lower E rd args = Inr (sv_config sv)" "serve_guard (sv_config sv) = None" "validate (sv_config sv) = None"
proof -
  from assms show l: "loadConfig pd lower E rd args = Inr (sv_config sv)" and "serve_guard (sv_config sv) = None"
    by (auto elim: runServe_Some)
  from loadConfig_valid [OF l] show "validate (sv_config sv) = None" .
qed

lemma started_allows_host:
  assumes "runServe base w se (loadConfig pd lower E rd args) = Some (Inr sv)"
    and "h \<in> set (cf_AllowedHosts (sv_config sv))" and "plain_host h"
  shows "hostAllowed (sv_api sv) h"
proof -
  from assms(1) obtain cfg where "sv_config sv = cfg" and
    a: "api_New (base\<lparr>a_cfg := poller_config cfg\<rparr>) \<lparr>ac_Owner = cf_Owner cfg, ac_UIPassword = cf_UIPassword cfg,
       ac_AllowedHosts = allowedHosts cfg (se_status se)\<rparr> (se_secret se) = Some (sv_api sv)"
    by (auto elim: runServe_Some)
  moreover have "normalizeHost lw h \<noteq> []" for lw
    using normalizeHost_plain [OF assms(3)] lower_plain_host(1) [OF assms(3)] by metis
  ultimately show ?thesis using assms(2) api_New_Some(4) [OF a, of h] by (simp add: allowedHosts_def)
qed

lemma loadConfig_hostname: "loadConfig pd lower E rd args = Inr c \<Longrightarrow> cf_Hostname c \<in> set (cf_AllowedHosts c)"
  by (auto simp: loadConfig_def Let_def flag_config_def config_hosts_def split: sum.splits option.splits)

lemma lan_client_unverified:
  assumes "router_New kh (routerOptions cfg tsd) = Inr c" and "cl_dial c = HostDial" and "cl_hostKey c = IgnoreHostKey"
  shows "warnIfInsecureHostKey cfg"
  using assms
  by (auto simp: router_New_def routerOptions_def Let_def warnIfInsecureHostKey_def hostKeyCallback_def tofuCallback_def
      knownHostsFileCallback_def split: if_splits sum.splits option.splits load_error.splits)

lemma api_New_cfg: "api_New base cfg rnd = Some a \<Longrightarrow> a_cfg a = a_cfg base"
  by (auto simp: api_New_def Let_def split: sum.splits)

text \<open>
  C32 (safety). A server that starts is never open: somebody is able to log in and nobody without credentials (an owner or a
  password is configured, and a password if the interface is exposed on a host port); the health endpoint is on a
  loopback address; the own host name is served; host keys are only ignored on the LAN path after the warning; and the
  probe URL given to the poller has passed the shell check. Its stores are what the state directory holds.
\<close>

theorem server_start_guarded:
  assumes "runServe base w se (loadConfig pd lower E rd args) = Some (Inr sv)"
  shows "(a_owner (sv_api sv) \<noteq> [] \<or> a_uiPassword (sv_api sv) \<noteq> []) \<and>
    (cf_HTTPListen (sv_config sv) \<noteq> [] \<longrightarrow> a_uiPassword (sv_api sv) \<noteq> []) \<and>
    (\<exists>host port ip. SplitHostPort (cf_HealthAddr (sv_config sv)) = Inr (host, port) \<and> ParseAddr host = Inr ip \<and> IsLoopback ip) \<and>
    (plain_host (cf_Hostname (sv_config sv)) \<longrightarrow> hostAllowed (sv_api sv) (cf_Hostname (sv_config sv))) \<and>
    (cl_dial (sv_client sv) = HostDial \<and> cl_hostKey (sv_client sv) = IgnoreHostKey \<longrightarrow> warnIfInsecureHostKey (sv_config sv)) \<and>
    ValidateEgressURL (pc_egressURL (a_cfg (sv_api sv))) = None \<and>
    (\<exists>gs us. sy_groups (sv_system sv) = Some gs \<and> sy_guests (sv_system sv) = Some us \<and>
       groups_New (a_fold base) (se_groupsFault se) (se_files se) (filepath_Join (cf_StateDir (sv_config sv)) ''groups.json'') = Inr gs \<and>
       guests_New (a_fold base) (se_guestsFault se) (se_files se) (filepath_Join (cf_StateDir (sv_config sv)) ''guests.json'') = Inr us)"
proof -
  let ?c = "sv_config sv"
  note s = started_config [OF assms]
  from assms obtain gs us where
    rc: "router_New (se_knownHosts se) (routerOptions ?c True) = Inr (sv_client sv)" and
    gs: "groups_New (a_fold base) (se_groupsFault se) (se_files se) (filepath_Join (cf_StateDir ?c) ''groups.json'') = Inr gs" and
    us: "guests_New (a_fold base) (se_guestsFault se) (se_files se) (filepath_Join (cf_StateDir ?c) ''guests.json'') = Inr us" and
    a: "api_New (base\<lparr>a_cfg := poller_config ?c\<rparr>) \<lparr>ac_Owner = cf_Owner ?c, ac_UIPassword = cf_UIPassword ?c,
       ac_AllowedHosts = allowedHosts ?c (se_status se)\<rparr> (se_secret se) = Some (sv_api sv)" and
    sys: "sy_groups (sv_system sv) = Some gs" "sy_guests (sv_system sv) = Some us"
    by (elim runServe_Some) simp
  have own: "a_owner (sv_api sv) = cf_Owner ?c" "a_uiPassword (sv_api sv) = cf_UIPassword ?c" "a_cfg (sv_api sv) = poller_config ?c"
    using api_New_Some(1,2) [OF a] api_New_cfg [OF a] by simp_all
  have guard: "cf_Owner ?c \<noteq> [] \<or> cf_UIPassword ?c \<noteq> []" "cf_HTTPListen ?c \<noteq> [] \<longrightarrow> cf_UIPassword ?c \<noteq> []"
    using s(2) by (auto simp: serve_guard_def split: if_splits)
  have v: "requireLoopback (cf_HealthAddr ?c) = None" "ValidateEgressURL (cf_EgressURL ?c) = None"
    using s(3) by (auto simp: validate_def split: if_splits option.splits)
  have e: "pc_egressURL (poller_config ?c) = cf_EgressURL ?c"
    by (simp add: poller_config_def ConfigureKeep_def ConfigureEgress_def)
  have h: "plain_host (cf_Hostname ?c) \<longrightarrow> hostAllowed (sv_api sv) (cf_Hostname ?c)"
    using started_allows_host [OF assms loadConfig_hostname [OF s(1)]] by simp
  from guard v h lan_client_unverified [OF rc] sys gs us show ?thesis
    unfolding own e requireLoopback_None by blast
qed

definition example_start :: start_env where
  "example_start = \<lparr>se_files = Map.empty, se_groupsFault = None, se_guestsFault = None, se_up = None, se_localClient = None, se_status = Inr None,
     se_knownHosts = (\<lambda>_. None), se_secret = Inr ''secret'', se_now = 1,
     se_listen = None, se_hostListen = None, se_healthListen = None\<rparr>"

lemma default_config_starts:
  assumes "loadConfig pd lower E rd args = Inr c" "cf_Owner c \<noteq> []" "cf_HTTPListen c = []" "cf_RouterTransport c = ''tailscale-ssh''"
  shows "\<exists>sv. runServe base w example_start (loadConfig pd lower E rd args) = Some (Inr sv) \<and> sv_config sv = c"
  using assms
  by (simp add: runServe_def example_start_def serve_guard_def router_New_def routerOptions_def Let_def
      open_listeners_def groups_New_def groups_load_def guests_New_def guests_load_def ReadFile_def api_New_def)

theorem server_start_guarded_witness:
  "\<exists>sv. runServe example_api () example_start
       (loadConfig (\<lambda>_. Inl (ErrorString [])) ascii_fold [''TSCTL_OWNER'' \<mapsto> ''me@example''] (\<lambda>_. NoFile) [''-routers'', ''100.64.0.1'']) =
       Some (Inr sv) \<and> hostAllowed (sv_api sv) ''tsctl'' \<and> ValidateEgressURL (pc_egressURL (a_cfg (sv_api sv))) = None"
proof -
  let ?l = "loadConfig (\<lambda>_. Inl (ErrorString [])) ascii_fold [''TSCTL_OWNER'' \<mapsto> ''me@example''] (\<lambda>_. NoFile) [''-routers'', ''100.64.0.1'']"
  obtain c where c: "?l = Inr c" "cf_Owner c = ''me@example''" "cf_HTTPListen c = []" "cf_RouterTransport c = ''tailscale-ssh''"
      "cf_Hostname c = ''tsctl''"
    using default_config_loads by (auto split: sum.splits)
  then obtain sv where sv: "runServe example_api () example_start ?l = Some (Inr sv)" "sv_config sv = c"
    using default_config_starts [OF c(1)] by (metis list.distinct(1))
  have "plain_host ''tsctl''" by code_simp
  with sv server_start_guarded [OF sv(1)] c(5) show ?thesis by auto
qed



end
